(* ===== verification/Weave_Prelude.thy ===== *)
theory Weave_Prelude
  imports Main "HOL-Library.Word" "HOL-Library.Sublist" "HOL-Library.List_Lexorder"
    "HOL-Library.Char_ord" "HOL-Library.Code_Target_Numeral"
begin

text \<open>
  The prelude of the development: the types every component shares (Go strings and byte
  slices are both byte sequences, modelled as \<open>string\<close>; \<open>uint32\<close> and \<open>uint64\<close> are
  words of that width; a clock reading and a duration are nanoseconds, \<open>int\<close>), the model
  of the functions of Go's standard library that the sources call on strings
  (\<open>strings.HasPrefix\<close>, \<open>CutSuffix\<close>, \<open>TrimPrefix\<close>, \<open>TrimSuffix\<close>,
  \<open>TrimSpace\<close>, \<open>Split\<close>, \<open>strconv.ParseUint\<close>, \<open>Atoi\<close>, decimal and
  zero-padded formatting, \<open>sort.Strings\<close>), and the lemmas about them that several
  components use. Strings are ordered by \<open>List_Lexorder\<close> over \<open>Char_ord\<close>: the
  byte-wise lexicographic order of Go's \<open><\<close> on strings and of \<open>sort.Strings\<close>.
\<close>

section \<open>Types\<close>

type_synonym bytes = string
type_synonym uint32 = "32 word"
type_synonym uint64 = "64 word"
type_synonym duration = int
type_synonym time = int

text \<open>A fallible Go call \<open>(T, error)\<close>: \<open>Inl\<close> the error, \<open>Inr\<close> the value.\<close>

type_synonym ('e, 'a) result = "'e + 'a"

text \<open>
  Rules that unfold the error plumbing of a component (\<open>result_simps\<close>) and the facts that
  evaluate the model of Go's string functions (\<open>go_string_simps\<close>).
\<close>

named_theorems result_simps
named_theorems go_string_simps

definition bind_result :: "('e, 'a) result \<Rightarrow> ('a \<Rightarrow> ('e, 'b) result) \<Rightarrow> ('e, 'b) result" where
  "bind_result r f = (case r of Inl e \<Rightarrow> Inl e | Inr a \<Rightarrow> f a)"

definition map_error :: "('e \<Rightarrow> 'f) \<Rightarrow> ('e, 'a) result \<Rightarrow> ('f, 'a) result" where
  "map_error f r = (case r of Inl e \<Rightarrow> Inl (f e) | Inr a \<Rightarrow> Inr a)"

definition guard_result :: "bool \<Rightarrow> 'e \<Rightarrow> ('e, unit) result" where
  "guard_result ok e = (if ok then Inr () else Inl e)"

definition is_ok :: "('e, 'a) result \<Rightarrow> bool" where
  "is_ok r = (case r of Inl _ \<Rightarrow> False | Inr _ \<Rightarrow> True)"

lemma bind_result_simps [simp, result_simps]:
  "bind_result (Inl e) f = Inl e"
  "bind_result (Inr a) f = f a"
  by (simp_all add: bind_result_def)

lemma bind_result_Inr_iff [result_simps]:
  "bind_result r f = Inr b \<longleftrightarrow> (\<exists>a. r = Inr a \<and> f a = Inr b)"
  by (cases r) simp_all

lemma bind_result_Inl_iff:
  "bind_result r f = Inl e \<longleftrightarrow> r = Inl e \<or> (\<exists>a. r = Inr a \<and> f a = Inl e)"
  by (cases r) simp_all

lemma map_error_simps [simp, result_simps]:
  "map_error g (Inl e) = Inl (g e)"
  "map_error g (Inr a) = Inr a"
  by (simp_all add: map_error_def)

lemma map_error_Inr_iff [simp]: "map_error g r = Inr a \<longleftrightarrow> r = Inr a"
  by (cases r) simp_all

lemma guard_result_Inr_iff [simp, result_simps]: "guard_result ok e = Inr u \<longleftrightarrow> ok"
  by (simp add: guard_result_def)

lemma guard_result_simps [simp]:
  "guard_result True e = Inr ()"
  "guard_result False e = Inl e"
  by (simp_all add: guard_result_def)

lemma is_ok_simps [simp]: "is_ok (Inl e) = False" "is_ok (Inr a) = True"
  by (simp_all add: is_ok_def)

lemma is_ok_iff: "is_ok r \<longleftrightarrow> (\<exists>a. r = Inr a)"
  by (cases r) simp_all


section \<open>Go's string functions\<close>

definition HasPrefix :: "string \<Rightarrow> string \<Rightarrow> bool" where
  "HasPrefix s pre = prefix pre s"

definition HasSuffix :: "string \<Rightarrow> string \<Rightarrow> bool" where
  "HasSuffix s suf = suffix suf s"

text \<open>\<open>strings.CutSuffix\<close>: the string before the suffix, or nothing.\<close>

definition CutSuffix :: "string \<Rightarrow> string \<Rightarrow> string option" where
  "CutSuffix s suf = (if suffix suf s then Some (take (length s - length suf) s) else None)"

definition CutPrefix :: "string \<Rightarrow> string \<Rightarrow> string option" where
  "CutPrefix s pre = (if prefix pre s then Some (drop (length pre) s) else None)"

definition TrimPrefix :: "string \<Rightarrow> string \<Rightarrow> string" where
  "TrimPrefix s pre = (if prefix pre s then drop (length pre) s else s)"

definition TrimSuffix :: "string \<Rightarrow> string \<Rightarrow> string" where
  "TrimSuffix s suf = (if suffix suf s then take (length s - length suf) s else s)"

lemma CutSuffix_Some_iff: "CutSuffix s suf = Some p \<longleftrightarrow> s = p @ suf"
  by (auto simp: CutSuffix_def suffix_def)

lemma CutPrefix_Some_iff: "CutPrefix s pre = Some r \<longleftrightarrow> s = pre @ r"
  by (auto simp: CutPrefix_def prefix_def)

lemma TrimPrefix_append [simp]: "TrimPrefix (pre @ s) pre = s"
  by (simp add: TrimPrefix_def)

text \<open>\<open>strings.Split(s, sep)\<close> with a separator of one byte.\<close>

fun Split :: "string \<Rightarrow> char \<Rightarrow> string list" where
  "Split [] c = [[]]"
| "Split (x # xs) c =
     (if x = c then [] # Split xs c
      else (case Split xs c of [] \<Rightarrow> [[x]] | y # ys \<Rightarrow> (x # y) # ys))"

lemma Split_not_Nil [simp]: "Split s c \<noteq> []"
  by (cases s) (auto split: list.splits)

lemma Split_none: "c \<notin> set s \<Longrightarrow> Split s c = [s]"
  by (induction s) auto

lemma Split_append: "c \<notin> set s \<Longrightarrow> Split (s @ c # t) c = s # Split t c"
  by (induction s) auto

lemma Split_parts_no_sep: "p \<in> set (Split s c) \<Longrightarrow> c \<notin> set p"
  by (induction s arbitrary: p) (auto split: if_splits list.splits)

lemma length_Split: "length (Split s c) = Suc (count_list s c)"
proof (induction s)
  case (Cons x xs)
  then show ?case by (cases "Split xs c") auto
qed simp

text \<open>Joining with the separator undoes the split.\<close>

fun join_with :: "char \<Rightarrow> string list \<Rightarrow> string" where
  "join_with c [] = []"
| "join_with c [p] = p"
| "join_with c (p # q # ps) = p @ c # join_with c (q # ps)"

lemma join_with_Split: "join_with c (Split s c) = s"
proof (induction s)
  case (Cons x xs)
  then show ?case
  proof (cases "Split xs c")
    case (Cons y ys)
    with Cons.IH show ?thesis by (cases ys) auto
  qed simp
qed simp

text \<open>
  \<open>strings.TrimSpace\<close>: the UTF-8 encodings of the runes \<open>unicode.IsSpace\<close> accepts
  (tab, newline, vertical tab, form feed, carriage return, space, U+0085, U+00A0 and the
  separators U+1680, U+2000 to U+200A, U+2028, U+2029, U+202F, U+205F, U+3000), removed from
  the front and then from the back.
\<close>

definition space_runes :: "string list" where
  "space_runes =
     [[CHR 0x09], [CHR 0x0A], [CHR 0x0B], [CHR 0x0C], [CHR 0x0D], [CHR 0x20],
      [CHR 0xC2, CHR 0x85], [CHR 0xC2, CHR 0xA0], [CHR 0xE1, CHR 0x9A, CHR 0x80],
      [CHR 0xE2, CHR 0x80, CHR 0x80], [CHR 0xE2, CHR 0x80, CHR 0x81],
      [CHR 0xE2, CHR 0x80, CHR 0x82], [CHR 0xE2, CHR 0x80, CHR 0x83],
      [CHR 0xE2, CHR 0x80, CHR 0x84], [CHR 0xE2, CHR 0x80, CHR 0x85],
      [CHR 0xE2, CHR 0x80, CHR 0x86], [CHR 0xE2, CHR 0x80, CHR 0x87],
      [CHR 0xE2, CHR 0x80, CHR 0x88], [CHR 0xE2, CHR 0x80, CHR 0x89],
      [CHR 0xE2, CHR 0x80, CHR 0x8A], [CHR 0xE2, CHR 0x80, CHR 0xA8],
      [CHR 0xE2, CHR 0x80, CHR 0xA9], [CHR 0xE2, CHR 0x80, CHR 0xAF],
      [CHR 0xE2, CHR 0x81, CHR 0x9F], [CHR 0xE3, CHR 0x80, CHR 0x80]]"

lemma space_runes_nonempty: "e \<in> set space_runes \<Longrightarrow> e \<noteq> []"
  by (auto simp: space_runes_def)

fun strip_runes :: "string list \<Rightarrow> nat \<Rightarrow> string \<Rightarrow> string" where
  "strip_runes rs 0 s = s"
| "strip_runes rs (Suc n) s =
     (case find (\<lambda>e. prefix e s) rs of
        None \<Rightarrow> s
      | Some e \<Rightarrow> strip_runes rs n (drop (length e) s))"

text \<open>
  Each pass removes at least one byte, so the length of the string is enough fuel
  (\<open>strip_runes_stable\<close> below).
\<close>

definition trim_left :: "string \<Rightarrow> string" where
  "trim_left s = strip_runes space_runes (length s) s"

definition trim_right :: "string \<Rightarrow> string" where
  "trim_right s = rev (strip_runes (map rev space_runes) (length s) (rev s))"

definition TrimSpace :: "string \<Rightarrow> string" where
  "TrimSpace s = trim_right (trim_left s)"

definition starts_with_rune :: "string list \<Rightarrow> string \<Rightarrow> bool" where
  "starts_with_rune rs s = (\<exists>e \<in> set rs. prefix e s)"

lemma find_prefix_None: "find (\<lambda>e. prefix e s) rs = None \<longleftrightarrow> \<not> starts_with_rune rs s"
  by (auto simp: find_None_iff starts_with_rune_def)

lemma strip_runes_id: "\<not> starts_with_rune rs s \<Longrightarrow> strip_runes rs n s = s"
  by (cases n) (simp_all add: find_prefix_None [symmetric])

lemma strip_runes_suffix: "suffix (strip_runes rs n s) s"
proof (induction n arbitrary: s)
  case (Suc n)
  show ?case
  proof (cases "find (\<lambda>e. prefix e s) rs")
    case (Some e)
    have "suffix (strip_runes rs n (drop (length e) s)) (drop (length e) s)" by (rule Suc.IH)
    then have "suffix (strip_runes rs n (drop (length e) s)) s"
      using suffix_drop [of "length e" s] by (rule suffix_order.trans)
    with Some show ?thesis by simp
  qed simp
qed simp

lemma strip_runes_stable:
  assumes "\<forall>e \<in> set rs. e \<noteq> []" "length s \<le> n"
  shows "\<not> starts_with_rune rs (strip_runes rs n s)"
  using assms(2)
proof (induction n arbitrary: s)
  case 0
  then show ?case using assms(1) by (auto simp: starts_with_rune_def)
next
  case (Suc n)
  show ?case
  proof (cases "find (\<lambda>e. prefix e s) rs")
    case None
    then show ?thesis by (simp add: find_prefix_None [symmetric])
  next
    case (Some e)
    then have "e \<in> set rs" "prefix e s" by (auto simp: find_Some_iff)
    with assms(1) have "0 < length e" "length e \<le> length s"
      by (auto simp: prefix_length_le)
    with Suc.prems have "length (drop (length e) s) \<le> n" by (simp only: length_drop)
    from Suc.IH [OF this] Some show ?thesis by simp
  qed
qed

lemma strip_runes_compose: "strip_runes rs (m + n) s = strip_runes rs n (strip_runes rs m s)"
proof (induction m arbitrary: s)
  case (Suc m)
  show ?case
  proof (cases "find (\<lambda>e. prefix e s) rs")
    case None
    then have "\<not> starts_with_rune rs s" by (simp add: find_prefix_None)
    then have "strip_runes rs k s = s" for k by (rule strip_runes_id)
    then show ?thesis by (simp del: strip_runes.simps)
  qed (simp add: Suc.IH)
qed simp

lemma strip_runes_fuel:
  assumes "\<forall>e \<in> set rs. e \<noteq> []" "length s \<le> m"
  shows "strip_runes rs (m + n) s = strip_runes rs m s"
  using strip_runes_stable [OF assms] by (simp add: strip_runes_compose strip_runes_id)

text \<open>A byte that occurs in no rune is a barrier the stripping cannot pass.\<close>

lemma strip_runes_barrier:
  assumes "\<forall>e \<in> set rs. c \<notin> set e"
  shows "strip_runes rs n (u @ c # v) = strip_runes rs n u @ c # v"
proof (induction n arbitrary: u)
  case (Suc n)
  have iff: "prefix e (u @ c # v) \<longleftrightarrow> prefix e u" if "e \<in> set rs" for e
    using assms that by (auto simp: prefix_append prefix_Cons)
  then have find: "find (\<lambda>e. prefix e (u @ c # v)) rs = find (\<lambda>e. prefix e u) rs"
    by (intro find_cong) auto
  show ?case
  proof (cases "find (\<lambda>e. prefix e u) rs")
    case (Some e)
    then have "prefix e u" by (auto simp: find_Some_iff)
    then have "length e \<le> length u" by (rule prefix_length_le)
    with Some find Suc.IH [of "drop (length e) u"] show ?thesis by simp
  qed (use find in simp)
qed simp

text \<open>A byte that occurs in no encoding of a space, such as any printable ASCII byte.\<close>

definition no_space :: "char \<Rightarrow> bool" where
  "no_space c = (\<forall>e \<in> set space_runes. c \<notin> set e)"

lemma space_runes_rev_nonempty: "\<forall>e \<in> set (map rev space_runes). e \<noteq> []"
  using space_runes_nonempty by auto

lemma trim_right_append:
  assumes "no_space c"
  shows "trim_right (s @ c # t) = s @ c # trim_right t"
proof -
  let ?rs = "map rev space_runes"
  have "strip_runes ?rs (length t + Suc (length s)) (rev t @ c # rev s)
      = strip_runes ?rs (length t + Suc (length s)) (rev t) @ c # rev s"
    by (rule strip_runes_barrier) (use assms in \<open>auto simp: no_space_def\<close>)
  also have "strip_runes ?rs (length t + Suc (length s)) (rev t) = strip_runes ?rs (length t) (rev t)"
    by (rule strip_runes_fuel [OF space_runes_rev_nonempty]) simp
  finally show ?thesis
    by (simp add: trim_right_def add.commute del: strip_runes.simps)
qed

lemma trim_left_cons: "no_space c \<Longrightarrow> trim_left (c # s) = c # s"
  unfolding trim_left_def
proof (rule strip_runes_id)
  assume c: "no_space c"
  show "\<not> starts_with_rune space_runes (c # s)"
  proof
    assume "starts_with_rune space_runes (c # s)"
    then obtain e where e: "e \<in> set space_runes" "prefix e (c # s)"
      by (auto simp: starts_with_rune_def)
    from space_runes_nonempty [OF e(1)] e(2) have "c \<in> set e" by (cases e) auto
    with c e(1) show False by (auto simp: no_space_def)
  qed
qed

lemma no_space_printable [simp]:
  "no_space CHR ''|''" "no_space CHR ''W''" "no_space CHR ''.''" "no_space CHR ''/''"
  "no_space CHR ''-''"
  by (simp_all add: no_space_def space_runes_def)

lemma trim_right_prefix: "prefix (trim_right s) s"
  using strip_runes_suffix [of "map rev space_runes" "length s" "rev s"]
  by (simp add: trim_right_def suffix_to_prefix)

lemma trim_left_suffix: "suffix (trim_left s) s"
  unfolding trim_left_def by (rule strip_runes_suffix)

lemma trim_right_idem: "trim_right (trim_right s) = trim_right s"
proof -
  let ?rs = "map rev space_runes"
  have "\<not> starts_with_rune ?rs (strip_runes ?rs (length s) (rev s))"
    by (rule strip_runes_stable [OF space_runes_rev_nonempty]) simp
  then show ?thesis by (simp add: trim_right_def strip_runes_id)
qed


text \<open>A non-empty string that neither starts nor ends with white space is trimmed already.\<close>

definition trimmed :: "string \<Rightarrow> bool" where
  "trimmed v = (v \<noteq> [] \<and> no_space (hd v) \<and> no_space (last v))"

lemma trim_right_newline [simp]: "trim_right [CHR 0x0A] = []"
  by (simp add: trim_right_def space_runes_def)

lemma trim_right_Nil [simp]: "trim_right [] = []"
  by (simp add: trim_right_def)

lemma trimmed_trim_right:
  assumes "trimmed v"
  shows "trim_right (v @ w) = v @ trim_right w"
proof -
  from assms obtain u c where v: "v = u @ [c]" and c: "no_space c"
    by (auto simp: trimmed_def intro: append_butlast_last_id [symmetric])
  from trim_right_append [OF c, of u w] show ?thesis by (simp add: v)
qed

lemma trimmed_trim_left: "trimmed v \<Longrightarrow> trim_left (v @ w) = v @ w"
  by (cases v) (auto simp: trimmed_def trim_left_cons)

lemma TrimSpace_trimmed [simp]:
  assumes "trimmed v"
  shows "TrimSpace (v @ [CHR 0x0A]) = v" "TrimSpace v = v"
  using trimmed_trim_right [OF assms] trimmed_trim_left [OF assms]
    trimmed_trim_right [OF assms, of "[]"] trimmed_trim_left [OF assms, of "[]"]
  by (simp_all add: TrimSpace_def)

end
