(* ===== verification/Weave_Decimal.thy ===== *)
theory Weave_Decimal
  imports Weave_Prelude
begin

text \<open>
  Decimal numerals: \<open>strconv.ParseUint\<close> and \<open>strconv.Atoi\<close> in base 10, the verbs
  \<open>%d\<close> and \<open>%0<w>d\<close> of \<open>fmt\<close>, and the facts the components rest on: parsing
  undoes printing, and zero-padded numerals of one width are ordered as their values.
\<close>

section \<open>Printing and parsing\<close>

definition digit_char :: "nat \<Rightarrow> char" where
  "digit_char d = char_of (48 + d)"

definition digit_val :: "char \<Rightarrow> nat option" where
  "digit_val c = (let n = of_char c :: nat in if 48 \<le> n \<and> n \<le> 57 then Some (n - 48) else None)"

fun dec :: "nat \<Rightarrow> string" where
  "dec n = (if n < 10 then [digit_char n] else dec (n div 10) @ [digit_char (n mod 10)])"

declare dec.simps [simp del]

fun digits_val :: "nat \<Rightarrow> string \<Rightarrow> nat option" where
  "digits_val acc [] = Some acc"
| "digits_val acc (c # cs) =
     (case digit_val c of None \<Rightarrow> None | Some d \<Rightarrow> digits_val (10 * acc + d) cs)"

text \<open>
  \<open>strconv.ParseUint(s, 10, bits)\<close>: a syntax error on an empty string or a byte that is
  no digit, a range error beyond \<open>bits\<close> bits; callers only test for an error.
\<close>

definition ParseUint :: "nat \<Rightarrow> string \<Rightarrow> nat option" where
  "ParseUint bits s =
     (if s = [] then None
      else case digits_val 0 s of
             None \<Rightarrow> None
           | Some n \<Rightarrow> if n < 2 ^ bits then Some n else None)"

text \<open>\<open>strconv.Atoi\<close> on a platform with 64-bit \<open>int\<close>: an optional sign, then digits.\<close>

definition Atoi :: "string \<Rightarrow> int option" where
  "Atoi s =
     (let (neg, ds) = (case s of
            [] \<Rightarrow> (False, [])
          | c # cs \<Rightarrow> if c = CHR ''-'' then (True, cs) else if c = CHR ''+'' then (False, cs)
                     else (False, s))
      in if ds = [] then None
         else case digits_val 0 ds of
                None \<Rightarrow> None
              | Some n \<Rightarrow>
                  (let v = (if neg then - int n else int n)
                   in if - (2 ^ 63) \<le> v \<and> v < 2 ^ 63 then Some v else None))"

text \<open>The \<open>%0<w>d\<close> verb on a natural number.\<close>

definition zero_pad :: "nat \<Rightarrow> nat \<Rightarrow> string" where
  "zero_pad w n = replicate (w - length (dec n)) CHR ''0'' @ dec n"

definition is_digit :: "char \<Rightarrow> bool" where
  "is_digit c = (CHR ''0'' \<le> c \<and> c \<le> CHR ''9'')"

section \<open>Lemmas\<close>

lemma digit_val_digit_char [simp]: "d < 10 \<Longrightarrow> digit_val (digit_char d) = Some d"
  by (simp add: digit_val_def digit_char_def)

lemma digit_val_Some_iff: "digit_val c = Some d \<longleftrightarrow> d < 10 \<and> c = digit_char d"
proof
  assume "digit_val c = Some d"
  then have *: "48 \<le> (of_char c :: nat)" "(of_char c :: nat) \<le> 57" "d = of_char c - 48"
    by (auto simp: digit_val_def Let_def split: if_splits)
  then have "(of_char c :: nat) = 48 + d" by simp
  then have "char_of (of_char c :: nat) = (char_of (48 + d) :: char)" by (rule arg_cong)
  then have "c = char_of (48 + d)" by (simp only: char_of_char)
  moreover have "d < 10" using * by linarith
  ultimately show "d < 10 \<and> c = digit_char d" unfolding digit_char_def by blast
qed auto

lemma digit_val_less: "digit_val c = Some d \<Longrightarrow> d < 10"
  by (simp add: digit_val_Some_iff)

lemma of_char_digit_char [simp]: "d < 10 \<Longrightarrow> (of_char (digit_char d) :: nat) = 48 + d"
  by (simp add: digit_char_def)

lemma digit_char_less_iff:
  assumes "d < 10" "e < 10"
  shows "digit_char d < digit_char e \<longleftrightarrow> d < e"
  using assms by (simp add: less_char_def)

lemma is_digit_iff: "is_digit c \<longleftrightarrow> (\<exists>d < 10. c = digit_char d)"
proof -
  have "is_digit c \<longleftrightarrow> 48 \<le> (of_char c :: nat) \<and> (of_char c :: nat) \<le> 57"
    by (simp add: is_digit_def less_eq_char_def)
  also have "\<dots> \<longleftrightarrow> (\<exists>d. digit_val c = Some d)"
    by (simp add: digit_val_def Let_def)
  also have "\<dots> \<longleftrightarrow> (\<exists>d < 10. c = digit_char d)"
    by (auto simp: digit_val_Some_iff)
  finally show ?thesis .
qed

lemma digits_val_append:
  "digits_val acc (xs @ ys) =
     (case digits_val acc xs of None \<Rightarrow> None | Some n \<Rightarrow> digits_val n ys)"
  by (induction acc xs rule: digits_val.induct) (auto split: option.splits)

lemma digits_val_dec [simp]: "digits_val 0 (dec n) = Some n"
proof (induction n rule: dec.induct)
  case (1 n)
  show ?case
  proof (cases "n < 10")
    case True
    then show ?thesis by (subst dec.simps) simp
  next
    case False
    with 1 show ?thesis by (subst dec.simps) (simp add: digits_val_append)
  qed
qed

lemma dec_not_Nil [simp]: "dec n \<noteq> []"
  by (subst dec.simps) simp

lemma set_dec: "c \<in> set (dec n) \<Longrightarrow> \<exists>d < 10. c = digit_char d"
proof (induction n rule: dec.induct)
  case (1 n)
  show ?case
  proof (cases "n < 10")
    case True
    with "1.prems" show ?thesis by (auto simp: dec.simps [of n])
  next
    case False
    with 1 have "c \<in> set (dec (n div 10)) \<or> c = digit_char (n mod 10)"
      by (auto simp: dec.simps [of n])
    then show ?thesis
    proof
      assume "c = digit_char (n mod 10)"
      moreover have "n mod 10 < 10" by simp
      ultimately show ?thesis by blast
    qed (use 1(1) [OF False] in blast)
  qed
qed

lemma digit_set_dec: "c \<in> set (dec n) \<Longrightarrow> is_digit c"
  by (simp add: is_digit_iff set_dec)

lemma sep_notin_dec [simp]:
  "CHR ''|'' \<notin> set (dec n)" "CHR ''/'' \<notin> set (dec n)" "CHR ''.'' \<notin> set (dec n)"
  using digit_set_dec [of "CHR ''|''" n] digit_set_dec [of "CHR ''/''" n]
    digit_set_dec [of "CHR ''.''" n]
  by (auto simp: is_digit_def less_eq_char_def)

lemma ParseUint_dec: "ParseUint bits (dec n) = (if n < 2 ^ bits then Some n else None)"
  by (simp add: ParseUint_def)

lemma ParseUint_bound: "ParseUint bits s = Some n \<Longrightarrow> n < 2 ^ bits"
  by (auto simp: ParseUint_def split: if_splits option.splits)

lemma dec_inj [simp]: "dec m = dec n \<longleftrightarrow> m = n"
  by (metis digits_val_dec option.inject)

lemma digits_val_zeros [simp]: "digits_val 0 (replicate k CHR ''0'' @ s) = digits_val 0 s"
  by (induction k) (simp_all add: digit_val_def)

lemma digits_val_zero_pad [simp]: "digits_val 0 (zero_pad w n) = Some n"
  by (simp add: zero_pad_def)

lemma length_dec_le: "n < 10 ^ w \<Longrightarrow> 0 < w \<Longrightarrow> length (dec n) \<le> w"
proof (induction n arbitrary: w rule: dec.induct)
  case (1 n)
  show ?case
  proof (cases "n < 10")
    case True
    with "1.prems" show ?thesis by (subst dec.simps) simp
  next
    case False
    with "1.prems" obtain v where v: "w = Suc v" "0 < v"
      by (metis One_nat_def Suc_pred gr0I power_one_right)
    with "1.prems" have "n div 10 < 10 ^ v"
      by (simp add: less_mult_imp_div_less mult.commute)
    with 1(1) [OF False] v False show ?thesis by (subst dec.simps) simp
  qed
qed

lemma length_zero_pad: "n < 10 ^ w \<Longrightarrow> 0 < w \<Longrightarrow> length (zero_pad w n) = w"
  using length_dec_le [of n w] by (simp add: zero_pad_def)

text \<open>The value of a digit string is below the next power of ten.\<close>

lemma digits_val_bound:
  "digits_val acc s = Some n \<Longrightarrow> acc * 10 ^ length s \<le> n \<and> n < (acc + 1) * 10 ^ length s"
proof (induction acc s arbitrary: n rule: digits_val.induct)
  case (2 acc c cs)
  then obtain d where d: "digit_val c = Some d" "d < 10"
    by (auto split: option.splits dest: digit_val_less)
  with 2 have ih: "(10 * acc + d) * 10 ^ length cs \<le> n"
      "n < (10 * acc + d + 1) * 10 ^ length cs"
    by auto
  have "acc * 10 ^ length (c # cs) = (10 * acc) * 10 ^ length cs" by simp
  also have "\<dots> \<le> (10 * acc + d) * 10 ^ length cs" by (rule mult_le_mono1) simp
  finally have 1: "acc * 10 ^ length (c # cs) \<le> n" using ih(1) by linarith
  have "(10 * acc + d + 1) * 10 ^ length cs \<le> (10 * (acc + 1)) * 10 ^ length cs"
    by (rule mult_le_mono1) (use d in simp)
  also have "\<dots> = (acc + 1) * 10 ^ length (c # cs)" by (simp add: algebra_simps)
  finally have "n < (acc + 1) * 10 ^ length (c # cs)" using ih(2) by linarith
  with 1 show ?case by simp
qed auto

text \<open>Equal-length digit strings compare as their values.\<close>

lemma digits_val_less_imp:
  assumes "digits_val acc s = Some m" "digits_val acc t = Some n" "length s = length t" "s < t"
  shows "m < n"
  using assms
proof (induction s arbitrary: acc t m n)
  case (Cons x xs)
  then obtain y ys where t: "t = y # ys" "length xs = length ys" by (cases t) auto
  from Cons.prems t obtain d e where d: "digit_val x = Some d" "digits_val (10 * acc + d) xs = Some m"
    and e: "digit_val y = Some e" "digits_val (10 * acc + e) ys = Some n"
    by (auto split: option.splits)
  from Cons.prems(4) t consider "x < y" | "x = y" "xs < ys" by auto
  then show ?case
  proof cases
    case 1
    with d(1) e(1) have "d < e"
      by (auto simp: digit_val_Some_iff digit_char_less_iff)
    then have "(10 * acc + d + 1) * 10 ^ length xs \<le> (10 * acc + e) * 10 ^ length ys"
      using t(2) by (intro mult_le_mono) auto
    with digits_val_bound [OF d(2)] digits_val_bound [OF e(2)] show ?thesis by linarith
  next
    case 2
    with d e Cons.IH [of "10 * acc + d" m ys n] t(2) show ?thesis by auto
  qed
qed simp

lemma zero_pad_less_iff:
  assumes "m < 10 ^ w" "n < 10 ^ w" "0 < w"
  shows "zero_pad w m < zero_pad w n \<longleftrightarrow> m < n"
proof -
  have len: "length (zero_pad w m) = length (zero_pad w n)"
    using assms by (simp add: length_zero_pad)
  have lt: "m' < n'" if "zero_pad w m' < zero_pad w n'"
      "length (zero_pad w m') = length (zero_pad w n')" for m' n'
    using digits_val_less_imp [of 0 "zero_pad w m'" m' "zero_pad w n'" n'] that by simp
  show ?thesis
  proof
    assume "m < n"
    then have "zero_pad w m \<noteq> zero_pad w n"
      by (metis digits_val_zero_pad nat_neq_iff option.inject)
    moreover have "\<not> zero_pad w n < zero_pad w m"
      using lt [of n m] len \<open>m < n\<close> by auto
    ultimately show "zero_pad w m < zero_pad w n" by (simp add: not_less)
  qed (use lt len in auto)
qed

lemma zero_pad_inj: "zero_pad w m = zero_pad w n \<Longrightarrow> m = n"
  by (metis digits_val_zero_pad option.inject)

lemma hd_dec_digit: "is_digit (hd (dec n))"
  by (rule digit_set_dec [of _ n]) simp

lemma Atoi_dec: "n < 2 ^ 63 \<Longrightarrow> Atoi (dec n) = Some (int n)"
proof -
  assume n: "n < 2 ^ 63"
  obtain c cs where d: "dec n = c # cs" by (cases "dec n") auto
  with hd_dec_digit [of n] have "c \<noteq> CHR ''-''" "c \<noteq> CHR ''+''"
    by (auto simp: is_digit_def)
  moreover from n have "int n < 2 ^ 63" by simp
  ultimately show ?thesis using digits_val_dec [of n] by (simp add: Atoi_def d)
qed

lemma uint64_unat_bound: "unat (n :: uint64) < 2 ^ 64"
  using unsigned_less [of n] by simp

end
