(* ===== verification/Effects.thy ===== *)
theory Effects
  imports Weave_Prelude "HOL-Library.State_Monad"
begin

text \<open>
  Effectful code: a Go function that changes state is a value of the library's state monad
  over the state it changes, and a Go function that also returns an \<open>error\<close> returns a
  \<open>result\<close>. \<open>then_ok m f\<close> is the idiom \<open>if err := m(); err != nil { return err }; f\<close>.
  \<open>wp m Q s\<close> says that running \<open>m\<close> from \<open>s\<close> ends with a value and a state that satisfy
  \<open>Q\<close>. Every computation of the development is a total function, so \<open>wp\<close> is a statement
  of total correctness, and the rules of \<open>wp_simps\<close> are equations that push it through the
  code; \<open>keeps I m\<close> says that \<open>m\<close> preserves \<open>I\<close>, with one rule per construct in
  \<open>keeps_intros\<close>.
\<close>

section \<open>Combinators\<close>

abbreviation ret :: "'a \<Rightarrow> ('s, 'a) state" where
  "ret \<equiv> State_Monad.return"

definition reads :: "('s \<Rightarrow> 'a) \<Rightarrow> ('s, 'a) state" where
  "reads f = State (\<lambda>s. (f s, s))"

definition modify :: "('s \<Rightarrow> 's) \<Rightarrow> ('s, unit) state" where
  "modify f = State (\<lambda>s. ((), f s))"

definition then_ok ::
    "('s, ('e, 'a) result) state \<Rightarrow> ('a \<Rightarrow> ('s, ('e, 'b) result) state) \<Rightarrow> ('s, ('e, 'b) result) state" where
  "then_ok m f = do { r \<leftarrow> m; case r of Inl e \<Rightarrow> ret (Inl e) | Inr a \<Rightarrow> f a }"

text \<open>The same, with the error wrapped on the way out (\<open>fmt.Errorf("...: %w", err)\<close>).\<close>

definition wrap_err :: "('e \<Rightarrow> 'f) \<Rightarrow> ('s, ('e, 'a) result) state \<Rightarrow> ('s, ('f, 'a) result) state" where
  "wrap_err g m = do { r \<leftarrow> m; ret (map_error g r) }"

text \<open>A \<open>for ... range\<close> loop whose body has no early exit.\<close>

fun for_each :: "'a list \<Rightarrow> ('a \<Rightarrow> ('s, unit) state) \<Rightarrow> ('s, unit) state" where
  "for_each [] f = ret ()"
| "for_each (x # xs) f = do { _ \<leftarrow> f x; for_each xs f }"

text \<open>A computation on one part of a larger state.\<close>

definition zoom :: "('s \<Rightarrow> 't) \<Rightarrow> ('t \<Rightarrow> 's \<Rightarrow> 's) \<Rightarrow> ('t, 'a) state \<Rightarrow> ('s, 'a) state" where
  "zoom sel upd m = State (\<lambda>s. case run_state m (sel s) of (a, t) \<Rightarrow> (a, upd t s))"


section \<open>Weakest preconditions\<close>

definition wp :: "('s, 'a) state \<Rightarrow> ('a \<Rightarrow> 's \<Rightarrow> bool) \<Rightarrow> 's \<Rightarrow> bool" where
  "wp m Q s = (case run_state m s of (a, s') \<Rightarrow> Q a s')"

named_theorems wp_simps
named_theorems keeps_intros

lemma run_state_reads [simp]: "run_state (reads f) s = (f s, s)"
  by (simp add: reads_def)

lemma run_state_modify [simp]: "run_state (modify f) s = ((), f s)"
  by (simp add: modify_def)

lemma run_state_zoom [simp]:
  "run_state (zoom sel upd m) s = (case run_state m (sel s) of (a, t) \<Rightarrow> (a, upd t s))"
  by (simp add: zoom_def)

lemma run_state_then_ok:
  "run_state (then_ok m f) s =
     (case run_state m s of (Inl e, s') \<Rightarrow> (Inl e, s') | (Inr a, s') \<Rightarrow> run_state (f a) s')"
  by (auto simp: then_ok_def split: prod.splits sum.splits)

lemma run_state_wrap_err [simp]:
  "run_state (wrap_err g m) s = (case run_state m s of (r, s') \<Rightarrow> (map_error g r, s'))"
  by (auto simp: wrap_err_def split: prod.splits)

lemma wp_ret [wp_simps]: "wp (ret a) Q = Q a"
  by (simp add: fun_eq_iff wp_def)

lemma wp_bind [wp_simps]: "wp (State_Monad.bind m f) Q = wp m (\<lambda>a. wp (f a) Q)"
  by (simp add: fun_eq_iff wp_def split: prod.splits)

lemma wp_reads [wp_simps]: "wp (reads f) Q s = Q (f s) s"
  by (simp add: wp_def)

lemma wp_modify [wp_simps]: "wp (modify f) Q s = Q () (f s)"
  by (simp add: wp_def)

lemma wp_then_ok [wp_simps]:
  "wp (then_ok m f) Q = wp m (\<lambda>r. case r of Inl e \<Rightarrow> Q (Inl e) | Inr a \<Rightarrow> wp (f a) Q)"
  by (auto simp: fun_eq_iff wp_def run_state_then_ok split: prod.splits sum.splits)

lemma wp_wrap_err [wp_simps]: "wp (wrap_err g m) Q = wp m (\<lambda>r. Q (map_error g r))"
  by (simp add: fun_eq_iff wp_def split: prod.splits)

lemma wp_zoom [wp_simps]: "wp (zoom sel upd m) Q s = wp m (\<lambda>a t. Q a (upd t s)) (sel s)"
  by (simp add: wp_def split: prod.splits)

lemma wp_if [wp_simps]: "wp (if b then m else n) Q = (if b then wp m Q else wp n Q)"
  by simp

lemma wp_case_option [wp_simps]:
  "wp (case x of None \<Rightarrow> m | Some a \<Rightarrow> f a) Q = (case x of None \<Rightarrow> wp m Q | Some a \<Rightarrow> wp (f a) Q)"
  by (simp split: option.splits)

lemma wp_case_sum [wp_simps]:
  "wp (case x of Inl e \<Rightarrow> g e | Inr a \<Rightarrow> f a) Q = (case x of Inl e \<Rightarrow> wp (g e) Q | Inr a \<Rightarrow> wp (f a) Q)"
  by (simp split: sum.splits)

lemma wp_case_prod [wp_simps]:
  "wp (case x of (a, b) \<Rightarrow> f a b) Q = (case x of (a, b) \<Rightarrow> wp (f a b) Q)"
  by (simp split: prod.splits)

lemma wp_mono:
  assumes "wp m P s" "\<And>a s'. P a s' \<Longrightarrow> Q a s'"
  shows "wp m Q s"
  using assms by (auto simp: wp_def split: prod.splits)

lemma wp_conj: "wp m P s \<Longrightarrow> wp m Q s \<Longrightarrow> wp m (\<lambda>a s'. P a s' \<and> Q a s') s"
  by (auto simp: wp_def split: prod.splits)

lemma wpI: "(\<And>a s'. run_state m s = (a, s') \<Longrightarrow> Q a s') \<Longrightarrow> wp m Q s"
  by (auto simp: wp_def split: prod.splits)

lemma wpD: "wp m Q s \<Longrightarrow> run_state m s = (a, s') \<Longrightarrow> Q a s'"
  by (auto simp: wp_def)


section \<open>Preserved predicates\<close>

definition keeps :: "('s \<Rightarrow> bool) \<Rightarrow> ('s, 'a) state \<Rightarrow> bool" where
  "keeps I m = (\<forall>s. I s \<longrightarrow> I (snd (run_state m s)))"

lemma keepsI: "(\<And>s. I s \<Longrightarrow> wp m (\<lambda>_ s'. I s') s) \<Longrightarrow> keeps I m"
  by (simp add: keeps_def wp_def case_prod_beta)

lemma keeps_wp: "keeps I m \<Longrightarrow> I s \<Longrightarrow> wp m (\<lambda>_ s'. I s') s"
  by (auto simp: keeps_def wp_def split: prod.splits)

lemma keepsD: "keeps I m \<Longrightarrow> run_state m s = (a, s') \<Longrightarrow> I s \<Longrightarrow> I s'"
  unfolding keeps_def by (metis snd_conv)

lemma keeps_ret [keeps_intros]: "keeps I (ret a)"
  by (simp add: keeps_def)

lemma keeps_reads [keeps_intros]: "keeps I (reads f)"
  by (simp add: keeps_def)

lemma keeps_bind [keeps_intros]:
  "keeps I m \<Longrightarrow> (\<And>a. keeps I (f a)) \<Longrightarrow> keeps I (State_Monad.bind m f)"
  by (auto simp: keeps_def split: prod.splits)

lemma keeps_then_ok [keeps_intros]:
  "keeps I m \<Longrightarrow> (\<And>a. keeps I (f a)) \<Longrightarrow> keeps I (then_ok m f)"
  unfolding then_ok_def by (auto intro!: keeps_bind keeps_ret split: sum.splits)

lemma keeps_wrap_err [keeps_intros]: "keeps I m \<Longrightarrow> keeps I (wrap_err g m)"
  unfolding wrap_err_def by (intro keeps_bind keeps_ret)

lemma keeps_if [keeps_intros]: "keeps I m \<Longrightarrow> keeps I n \<Longrightarrow> keeps I (if b then m else n)"
  by simp

lemma keeps_case_option [keeps_intros]:
  "keeps I m \<Longrightarrow> (\<And>a. keeps I (f a)) \<Longrightarrow> keeps I (case x of None \<Rightarrow> m | Some a \<Rightarrow> f a)"
  by (cases x) auto

lemma keeps_case_sum [keeps_intros]:
  "(\<And>e. keeps I (g e)) \<Longrightarrow> (\<And>a. keeps I (f a)) \<Longrightarrow> keeps I (case x of Inl e \<Rightarrow> g e | Inr a \<Rightarrow> f a)"
  by (cases x) auto

lemma keeps_case_prod [keeps_intros]:
  "(\<And>a b. keeps I (f a b)) \<Longrightarrow> keeps I (case x of (a, b) \<Rightarrow> f a b)"
  by (cases x) auto

lemma keeps_for_each [keeps_intros]: "(\<And>x. keeps I (f x)) \<Longrightarrow> keeps I (for_each xs f)"
  by (induction xs) (auto intro: keeps_intros)

lemma wp_for_each:
  assumes "I s" "\<And>x s. x \<in> set xs \<Longrightarrow> I s \<Longrightarrow> wp (f x) (\<lambda>_. I) s"
  shows "wp (for_each xs f) (\<lambda>_. I) s"
  using assms
proof (induction xs arbitrary: s)
  case (Cons x xs)
  have "wp (f x) (\<lambda>_. I) s" using Cons.prems by simp
  then show ?case unfolding for_each.simps wp_bind
    by (rule wp_mono) (use Cons in auto)
qed (simp add: wp_simps)

end
