(* ===== verification/FileSystem.thy ===== *)
theory FileSystem
  imports Weave_Decimal Effects
begin

text \<open>
  The file system the agent runs on, as far as the sources use it: \<open>filepath.Join\<close> and
  \<open>Dir\<close> on unix paths, and \<open>os.Stat\<close>, \<open>ReadFile\<close>, \<open>WriteFile\<close>, \<open>ReadDir\<close>,
  \<open>MkdirAll\<close>, \<open>Remove\<close>, \<open>RemoveAll\<close>, \<open>Rename\<close> and \<open>CreateTemp\<close>. A path is
  the list of its components from the root; a tree is an association list from paths to files
  and directories. File modes and symbolic links are not part of the model.

  Every call of the operating system may fail. The disk carries the oracle \<open>fault\<close>: the
  \<open>n\<close>-th call succeeds when \<open>fault n = None\<close>, and \<open>fault n = Some k\<close> makes it fail after
  \<open>k\<close> units of partial effect (bytes of a write, entries of a \<open>RemoveAll\<close>, directories of a
  \<open>MkdirAll\<close>; the other calls are atomic). Since a call that fails at once changes nothing,
  the oracle that fails every call from the \<open>n\<close>-th on leaves the disk as a crash at that
  moment leaves it: a theorem that holds for every oracle holds for a crash at every point.
\<close>

section \<open>Paths\<close>

type_synonym path = "string list"

text \<open>One element of a joined path, lexically cleaned as \<open>filepath.Clean\<close> does.\<close>

fun clean_step :: "path \<Rightarrow> string \<Rightarrow> path" where
  "clean_step p c = (if c = [] \<or> c = ''.'' then p else if c = ''..'' then butlast p else p @ [c])"

definition Join :: "path \<Rightarrow> string \<Rightarrow> path" where
  "Join p s = foldl clean_step p (Split s CHR ''/'')"

definition Dir :: "path \<Rightarrow> path" where
  "Dir p = butlast p"

text \<open>A name that is one component and not a special one.\<close>

definition plain_name :: "string \<Rightarrow> bool" where
  "plain_name s = (s \<noteq> [] \<and> s \<noteq> ''.'' \<and> s \<noteq> ''..'' \<and> CHR ''/'' \<notin> set s)"

lemma Join_plain [simp]: "plain_name s \<Longrightarrow> Join p s = p @ [s]"
  by (simp add: Join_def plain_name_def Split_none)

lemma Dir_snoc [simp]: "Dir (p @ [s]) = p"
  by (simp add: Dir_def)

text \<open>Joining names that are not plain can leave the directory.\<close>

lemma Join_dotdot: "Join (p @ [a]) ''../x'' = p @ [''x'']"
  by (simp add: Join_def)


lemma prefix_same_dir [simp]: "prefix (c @ xs) (c @ ys) \<longleftrightarrow> prefix xs ys"
  by (induction c) auto

lemma not_prefix_above [simp]: "\<not> prefix (c @ x # xs) c"
  using prefix_length_le by fastforce


section \<open>Trees\<close>

datatype node = File bytes | Directory

type_synonym fs = "(path \<times> node) list"

datatype io_error = ENOENT path | ENOTDIR path | EISDIR path | EEXIST path | EINVAL path
  | ENOTEMPTY path | EIO path

abbreviation lookup :: "fs \<Rightarrow> path \<Rightarrow> node option" where
  "lookup \<equiv> map_of"

definition is_dir :: "fs \<Rightarrow> path \<Rightarrow> bool" where
  "is_dir t p = (lookup t p = Some Directory)"

definition set_node :: "path \<Rightarrow> node \<Rightarrow> fs \<Rightarrow> fs" where
  "set_node p n t = (p, n) # filter (\<lambda>(q, _). q \<noteq> p) t"

definition drop_paths :: "(path \<Rightarrow> bool) \<Rightarrow> fs \<Rightarrow> fs" where
  "drop_paths D t = filter (\<lambda>(q, _). \<not> D q) t"

definition move_tree :: "path \<Rightarrow> path \<Rightarrow> fs \<Rightarrow> fs" where
  "move_tree s d t =
     map (\<lambda>(q, n). (if prefix s q then d @ drop (length s) q else q, n))
       (drop_paths (\<lambda>q. prefix d q) t)"

text \<open>The names in a directory, sorted as \<open>os.ReadDir\<close> returns them.\<close>

definition dir_names :: "fs \<Rightarrow> path \<Rightarrow> string list" where
  "dir_names t p = sort (remdups (map last (filter (\<lambda>q. q \<noteq> [] \<and> butlast q = p) (map fst t))))"

lemma lookup_set_node [simp]: "lookup (set_node p n t) q = (if q = p then Some n else lookup t q)"
proof -
  have "lookup (filter (\<lambda>(q, _). q \<noteq> p) t) q = lookup t q" if "q \<noteq> p"
    using that by (induction t) auto
  then show ?thesis by (simp add: set_node_def)
qed

lemma lookup_drop_paths [simp]: "lookup (drop_paths D t) q = (if D q then None else lookup t q)"
  unfolding drop_paths_def by (induction t) auto

lemma set_dir_names: "c \<in> set (dir_names t p) \<longleftrightarrow> lookup t (p @ [c]) \<noteq> None"
proof -
  have "c \<in> set (dir_names t p) \<longleftrightarrow> (\<exists>q \<in> fst ` set t. q \<noteq> [] \<and> butlast q = p \<and> c = last q)"
    by (auto simp: dir_names_def)
  also have "\<dots> \<longleftrightarrow> p @ [c] \<in> fst ` set t"
    by (metis append_butlast_last_id snoc_eq_iff_butlast)
  finally show ?thesis by (simp add: map_of_eq_None_iff)
qed

lemma sorted_dir_names: "sorted (dir_names t p) \<and> distinct (dir_names t p)"
  by (simp add: dir_names_def)

text \<open>
  Moving a subtree to a path that is neither above nor below it: what was under the source is
  under the destination, what was under the destination is gone, and the rest is unchanged.
\<close>

lemma lookup_move_tree:
  assumes "\<not> prefix s d" "\<not> prefix d s"
  shows "lookup (move_tree s d t) q =
    (if prefix d q then lookup t (s @ drop (length d) q)
     else if prefix s q then None else lookup t q)"
proof -
  have *: "(if prefix s p then d @ drop (length s) p else p) = q \<longleftrightarrow>
      (if prefix d q then p = s @ drop (length d) q else if prefix s q then False else p = q)"
    if "\<not> prefix d p" for p
    using that assms by (auto simp: prefix_def append_eq_append_conv2)
  have **: "\<not> prefix d p" if "p = s @ r" for p r
    using that assms by (auto simp: prefix_append prefix_def append_eq_append_conv2)
  show ?thesis
  proof (induction t)
    case (Cons x t)
    obtain p n where x: "x = (p, n)" by (cases x)
    show ?case
    proof (cases "prefix d p")
      case True
      then have "move_tree s d (x # t) = move_tree s d t"
        by (simp add: x move_tree_def drop_paths_def)
      moreover have "p \<noteq> s @ drop (length d) q" using ** True by blast
      ultimately show ?thesis using Cons.IH True assms(2) by (auto simp: x)
    next
      case False
      then have "lookup (move_tree s d (x # t)) q =
          (if (if prefix s p then d @ drop (length s) p else p) = q then Some n
           else lookup (move_tree s d t) q)"
        by (auto simp: x move_tree_def drop_paths_def)
      then show ?thesis using Cons.IH * [OF False] by (auto simp: x)
    qed
  qed (auto simp: move_tree_def drop_paths_def)
qed


section \<open>Calls of the operating system\<close>

record disk =
  tree :: fs
  calls :: nat
  fault :: "nat \<Rightarrow> nat option"

text \<open>
  A call is a function of the tree for the case that the system obliges, and of the tree and the
  amount of partial effect for the case that it does not.
\<close>

definition syscall ::
    "path \<Rightarrow> (fs \<Rightarrow> (io_error, 'a) result \<times> fs) \<Rightarrow> (fs \<Rightarrow> nat \<Rightarrow> fs)
      \<Rightarrow> ('x disk_scheme, (io_error, 'a) result) state" where
  "syscall p act partial = State (\<lambda>d.
     let d' = d\<lparr>calls := Suc (calls d)\<rparr> in
     case fault d (calls d) of
       None \<Rightarrow> (case act (tree d) of (r, t) \<Rightarrow> (r, d'\<lparr>tree := t\<rparr>))
     | Some k \<Rightarrow> (Inl (EIO p), d'\<lparr>tree := partial (tree d) k\<rparr>))"

text \<open>The error of looking up a path that does not exist.\<close>

definition missing :: "fs \<Rightarrow> path \<Rightarrow> io_error" where
  "missing t p = (if \<exists>q \<in> set (prefixes p). q \<noteq> p \<and> (case lookup t q of Some (File _) \<Rightarrow> True | _ \<Rightarrow> False)
     then ENOTDIR p else ENOENT p)"

fun IsNotExist :: "io_error \<Rightarrow> bool" where
  "IsNotExist (ENOENT _) = True"
| "IsNotExist _ = False"

definition stat_tree :: "path \<Rightarrow> fs \<Rightarrow> (io_error, node) result" where
  "stat_tree p t = (case lookup t p of None \<Rightarrow> Inl (missing t p) | Some n \<Rightarrow> Inr n)"

definition Stat :: "path \<Rightarrow> ('x disk_scheme, (io_error, node) result) state" where
  "Stat p = syscall p (\<lambda>t. (stat_tree p t, t)) (\<lambda>t _. t)"

definition read_tree :: "path \<Rightarrow> fs \<Rightarrow> (io_error, bytes) result" where
  "read_tree p t = (case lookup t p of
      None \<Rightarrow> Inl (missing t p) | Some Directory \<Rightarrow> Inl (EISDIR p) | Some (File b) \<Rightarrow> Inr b)"

definition ReadFile :: "path \<Rightarrow> ('x disk_scheme, (io_error, bytes) result) state" where
  "ReadFile p = syscall p (\<lambda>t. (read_tree p t, t)) (\<lambda>t _. t)"

text \<open>\<open>os.ReadDir\<close>: the sorted entries, each with whether it is a directory.\<close>

definition readdir_tree :: "path \<Rightarrow> fs \<Rightarrow> (io_error, (string \<times> bool) list) result" where
  "readdir_tree p t = (case lookup t p of
      None \<Rightarrow> Inl (missing t p)
    | Some (File _) \<Rightarrow> Inl (ENOTDIR p)
    | Some Directory \<Rightarrow> Inr (map (\<lambda>c. (c, is_dir t (p @ [c]))) (dir_names t p)))"

definition ReadDir :: "path \<Rightarrow> ('x disk_scheme, (io_error, (string \<times> bool) list) result) state" where
  "ReadDir p = syscall p (\<lambda>t. (readdir_tree p t, t)) (\<lambda>t _. t)"

text \<open>
  \<open>os.WriteFile\<close>, and the creation of a file followed by one write: opening fails or truncates,
  then the bytes are written, possibly not all of them.
\<close>

definition write_error :: "path \<Rightarrow> fs \<Rightarrow> io_error option" where
  "write_error p t = (if lookup t p = Some Directory then Some (EISDIR p)
     else if is_dir t (Dir p) \<and> p \<noteq> [] then None else Some (missing t p))"

definition WriteFile :: "path \<Rightarrow> bytes \<Rightarrow> ('x disk_scheme, (io_error, unit) result) state" where
  "WriteFile p b = syscall p
     (\<lambda>t. case write_error p t of Some e \<Rightarrow> (Inl e, t) | None \<Rightarrow> (Inr (), set_node p (File b) t))
     (\<lambda>t k. if k = 0 \<or> write_error p t \<noteq> None then t else set_node p (File (take (k - 1) b)) t)"

text \<open>\<open>os.MkdirAll\<close>: the missing directories from the root down.\<close>

fun mkdirs :: "nat \<Rightarrow> path list \<Rightarrow> fs \<Rightarrow> (io_error, unit) result \<times> fs" where
  "mkdirs n [] t = (Inr (), t)"
| "mkdirs 0 (q # qs) t = (Inl (EIO q), t)"
| "mkdirs (Suc n) (q # qs) t =
     (case lookup t q of
        Some Directory \<Rightarrow> mkdirs (Suc n) qs t
      | Some (File _) \<Rightarrow> (Inl (ENOTDIR q), t)
      | None \<Rightarrow> mkdirs n qs (set_node q Directory t))"

definition MkdirAll :: "path \<Rightarrow> ('x disk_scheme, (io_error, unit) result) state" where
  "MkdirAll p = syscall p
     (\<lambda>t. mkdirs (Suc (length (prefixes p))) (prefixes p) t)
     (\<lambda>t k. snd (mkdirs k (prefixes p) t))"

definition Remove :: "path \<Rightarrow> ('x disk_scheme, (io_error, unit) result) state" where
  "Remove p = syscall p
     (\<lambda>t. case lookup t p of
            None \<Rightarrow> (Inl (missing t p), t)
          | Some _ \<Rightarrow>
              if dir_names t p \<noteq> [] then (Inl (ENOTEMPTY p), t)
              else (Inr (), drop_paths (\<lambda>q. q = p) t))
     (\<lambda>t _. t)"

text \<open>\<open>os.RemoveAll\<close>: no error for a path that is not there; children go before parents.\<close>

definition below :: "path \<Rightarrow> fs \<Rightarrow> path list" where
  "below p t = rev (sort_key length (filter (prefix p) (map fst t)))"

definition RemoveAll :: "path \<Rightarrow> ('x disk_scheme, (io_error, unit) result) state" where
  "RemoveAll p = syscall p
     (\<lambda>t. (Inr (), drop_paths (\<lambda>q. prefix p q) t))
     (\<lambda>t k. let gone = take k (below p t) in drop_paths (\<lambda>q. q \<in> set gone) t)"

text \<open>
  \<open>os.Rename\<close> on unix: the source must exist and the parent of the destination be a directory;
  a destination that is a directory is refused (\<open>EEXIST\<close>, checked by the Go library before the
  system call), a file is replaced by a file only. The call is atomic.
\<close>

definition rename_error :: "path \<Rightarrow> path \<Rightarrow> fs \<Rightarrow> io_error option" where
  "rename_error s d t =
     (case lookup t s of
        None \<Rightarrow> Some (missing t s)
      | Some n \<Rightarrow>
          if lookup t d = Some Directory \<or> prefix d s then Some (EEXIST d)
          else if prefix s d then Some (EINVAL d)
          else if \<not> is_dir t (Dir d) then Some (missing t d)
          else if n = Directory \<and> lookup t d \<noteq> None then Some (ENOTDIR d)
          else None)"

definition rename_tree :: "path \<Rightarrow> path \<Rightarrow> fs \<Rightarrow> fs" where
  "rename_tree s d t = (case lookup t s of
      Some (File b) \<Rightarrow> set_node d (File b) (drop_paths (\<lambda>q. q = s) t)
    | _ \<Rightarrow> move_tree s d t)"

definition Rename :: "path \<Rightarrow> path \<Rightarrow> ('x disk_scheme, (io_error, unit) result) state" where
  "Rename s d = syscall s
     (\<lambda>t. case rename_error s d t of Some e \<Rightarrow> (Inl e, t) | None \<Rightarrow> (Inr (), rename_tree s d t))
     (\<lambda>t _. t)"

text \<open>
  \<open>os.CreateTemp(dir, pre + "*")\<close>: a new empty file whose name starts with \<open>pre\<close> and was not
  in use; among \<open>length t + 1\<close> candidate names one is free (\<open>fresh_temp_free\<close>).
\<close>

definition fresh_temp :: "path \<Rightarrow> string \<Rightarrow> fs \<Rightarrow> path" where
  "fresh_temp dir pre t =
     (case find (\<lambda>k. lookup t (dir @ [pre @ dec k]) = None) [0..<Suc (length t)] of
        Some k \<Rightarrow> dir @ [pre @ dec k]
      | None \<Rightarrow> dir @ [pre])"

definition CreateTemp :: "path \<Rightarrow> string \<Rightarrow> ('x disk_scheme, (io_error, path) result) state" where
  "CreateTemp dir pre = syscall dir
     (\<lambda>t. if is_dir t dir then (Inr (fresh_temp dir pre t), set_node (fresh_temp dir pre t) (File []) t)
          else (Inl (missing t dir), t))
     (\<lambda>t _. t)"

text \<open>A write to, a \<open>Chmod\<close> and the \<open>Close\<close> of an open file: none has a structural effect.\<close>

definition WriteString :: "path \<Rightarrow> bytes \<Rightarrow> ('x disk_scheme, (io_error, unit) result) state" where
  "WriteString p b = syscall p
     (\<lambda>t. (Inr (), set_node p (File b) t)) (\<lambda>t k. set_node p (File (take k b)) t)"

definition FileCall :: "path \<Rightarrow> ('x disk_scheme, (io_error, unit) result) state" where
  "FileCall p = syscall p (\<lambda>t. (Inr (), t)) (\<lambda>t _. t)"


section \<open>Rules for the calls\<close>

text \<open>The disk after a call that leaves the tree \<open>t\<close>.\<close>

definition after_call :: "'x disk_scheme \<Rightarrow> fs \<Rightarrow> 'x disk_scheme" where
  "after_call d t = d\<lparr>calls := Suc (calls d), tree := t\<rparr>"

lemma after_call_simps [simp]:
  "tree (after_call d t) = t"
  "calls (after_call d t) = Suc (calls d)"
  "fault (after_call d t) = fault d"
  "disk.more (after_call d t) = disk.more d"
  by (simp_all add: after_call_def)

definition faulty :: "'x disk_scheme \<Rightarrow> nat option" where
  "faulty d = fault d (calls d)"

lemma wp_syscall:
  "wp (syscall p act partial) Q d =
     (case faulty d of
        None \<Rightarrow> Q (fst (act (tree d))) (after_call d (snd (act (tree d))))
      | Some k \<Rightarrow> Q (Inl (EIO p)) (after_call d (partial (tree d) k)))"
  by (simp add: wp_def syscall_def Let_def after_call_def faulty_def split: option.splits prod.splits)

text \<open>A read-only call: it answers from the tree, or fails.\<close>

lemma wp_syscall_read:
  assumes "Q (f (tree d)) (after_call d (tree d))" "\<And>e. Q (Inl e) (after_call d (tree d))"
  shows "wp (syscall p (\<lambda>t. (f t, t)) (\<lambda>t _. t)) Q d"
  using assms by (simp add: wp_syscall split: option.splits)

lemma wp_Stat:
  assumes "Q (stat_tree p (tree d)) (after_call d (tree d))" "\<And>e. Q (Inl e) (after_call d (tree d))"
  shows "wp (Stat p) Q d"
  unfolding Stat_def by (rule wp_syscall_read) (rule assms)+

lemma wp_ReadFile:
  assumes "Q (read_tree p (tree d)) (after_call d (tree d))" "\<And>e. Q (Inl e) (after_call d (tree d))"
  shows "wp (ReadFile p) Q d"
  unfolding ReadFile_def by (rule wp_syscall_read) (rule assms)+

lemma wp_ReadDir:
  assumes "Q (readdir_tree p (tree d)) (after_call d (tree d))" "\<And>e. Q (Inl e) (after_call d (tree d))"
  shows "wp (ReadDir p) Q d"
  unfolding ReadDir_def by (rule wp_syscall_read) (rule assms)+

lemma wp_FileCall:
  assumes "Q (Inr ()) (after_call d (tree d))" "\<And>e. Q (Inl e) (after_call d (tree d))"
  shows "wp (FileCall p) Q d"
  using assms by (simp add: FileCall_def wp_syscall split: option.splits)

lemma wp_Rename:
  assumes "rename_error s dst (tree d) = None \<Longrightarrow> Q (Inr ()) (after_call d (rename_tree s dst (tree d)))"
    and "\<And>e. Q (Inl e) (after_call d (tree d))"
  shows "wp (Rename s dst) Q d"
  using assms by (auto simp: Rename_def wp_syscall split: option.splits)

lemma wp_RemoveAll:
  assumes "Q (Inr ()) (after_call d (drop_paths (prefix p) (tree d)))"
    and "\<And>e D. (\<And>q. D q \<Longrightarrow> prefix p q) \<Longrightarrow> Q (Inl e) (after_call d (drop_paths D (tree d)))"
  shows "wp (RemoveAll p) Q d"
proof -
  have "prefix p q" if "q \<in> set (take k (below p (tree d)))" for k q
    using that by (auto simp: below_def dest: in_set_takeD)
  then show ?thesis
    using assms by (auto simp: RemoveAll_def wp_syscall Let_def split: option.splits)
qed

lemma wp_Remove:
  assumes "\<And>r. Q r (after_call d (tree d))" "\<And>r. Q r (after_call d (drop_paths (\<lambda>q. q = p) (tree d)))"
  shows "wp (Remove p) Q d"
  using assms by (simp add: Remove_def wp_syscall split: option.splits)

text \<open>Directories that \<open>MkdirAll\<close> makes are new, and nothing that existed changes.\<close>

definition mkdir_ext :: "path \<Rightarrow> fs \<Rightarrow> fs \<Rightarrow> bool" where
  "mkdir_ext p t t' = (\<forall>q. lookup t' q = lookup t q
     \<or> (lookup t q = None \<and> lookup t' q = Some Directory \<and> prefix q p))"

lemma mkdirs_ext:
  assumes "mkdirs n qs t = (r, t')"
  shows "lookup t' q = lookup t q \<or> (lookup t q = None \<and> lookup t' q = Some Directory \<and> q \<in> set qs)"
  using assms
proof (induction n qs t rule: mkdirs.induct)
  case (3 n x qs t)
  then show ?case by (auto split: option.splits node.splits if_splits)
qed auto

lemma mkdirs_ok:
  assumes "mkdirs n qs t = (Inr (), t')" "q \<in> set qs"
  shows "is_dir t' q"
  using assms
proof (induction n qs t rule: mkdirs.induct)
  case (3 n x qs t)
  have keep: "lookup t' x = Some Directory"
    if "lookup u x = Some Directory" "mkdirs m qs u = (Inr (), t')" for m u
    using mkdirs_ext [OF that(2), of x] that(1) by auto
  from keep [of "set_node x Directory t" n] keep [of t "Suc n"] 3 show ?case
    by (auto simp: is_dir_def split: option.splits node.splits)
qed auto

lemma wp_MkdirAll:
  assumes "\<And>r t'. mkdir_ext p (tree d) t' \<Longrightarrow> (r = Inr () \<Longrightarrow> is_dir t' p) \<Longrightarrow> Q r (after_call d t')"
  shows "wp (MkdirAll p) Q d"
proof -
  have ext: "mkdir_ext p (tree d) (snd (mkdirs n (prefixes p) (tree d)))" for n
    using mkdirs_ext [of n "prefixes p" "tree d"]
    by (cases "mkdirs n (prefixes p) (tree d)") (auto simp: mkdir_ext_def)
  have "is_dir (snd (mkdirs n (prefixes p) (tree d))) p" if "fst (mkdirs n (prefixes p) (tree d)) = Inr ()" for n
    using that mkdirs_ok [of n "prefixes p" "tree d" _ p] by (cases "mkdirs n (prefixes p) (tree d)") auto
  with ext show ?thesis
    by (auto simp: MkdirAll_def wp_syscall intro!: assms split: option.splits)
qed

lemma mkdir_ext_lookup: "mkdir_ext p t t' \<Longrightarrow> lookup t q = Some n \<Longrightarrow> lookup t' q = Some n"
  by (metis mkdir_ext_def option.distinct(1))

lemma mkdir_ext_outside: "mkdir_ext p t t' \<Longrightarrow> \<not> prefix q p \<Longrightarrow> lookup t' q = lookup t q"
  by (meson mkdir_ext_def)

text \<open>The name of a temporary file is free.\<close>

lemma fresh_temp_free: "\<exists>k. fresh_temp dir pre t = dir @ [pre @ dec k] \<and> lookup t (fresh_temp dir pre t) = None"
proof (cases "find (\<lambda>k. lookup t (dir @ [pre @ dec k]) = None) [0..<Suc (length t)]")
  case None
  let ?name = "\<lambda>k. dir @ [pre @ dec k]"
  from None have "?name ` {0..<Suc (length t)} \<subseteq> fst ` set t"
    by (auto simp: find_None_iff map_of_eq_None_iff less_Suc_eq)
  moreover have "card (?name ` {0..<Suc (length t)}) = Suc (length t)"
    by (subst card_image) (auto simp: inj_on_def)
  ultimately have "Suc (length t) \<le> card (fst ` set t)"
    by (metis card_mono finite_imageI finite_set)
  also have "\<dots> \<le> length t"
    using card_length [of "map fst t"] by simp
  finally show ?thesis by simp
next
  case (Some k)
  then have "lookup t (dir @ [pre @ dec k]) = None" by (auto simp: find_Some_iff)
  moreover from Some have "fresh_temp dir pre t = dir @ [pre @ dec k]"
    by (simp only: fresh_temp_def option.case)
  ultimately show ?thesis by metis
qed

lemma wp_CreateTemp:
  assumes "\<And>k. lookup (tree d) (dir @ [pre @ dec k]) = None \<Longrightarrow> is_dir (tree d) dir \<Longrightarrow>
      Q (Inr (dir @ [pre @ dec k])) (after_call d (set_node (dir @ [pre @ dec k]) (File []) (tree d)))"
    and "\<And>e. Q (Inl e) (after_call d (tree d))"
  shows "wp (CreateTemp dir pre) Q d"
  using fresh_temp_free [of dir pre "tree d"] assms
  by (auto simp: CreateTemp_def wp_syscall split: option.splits)

lemma wp_WriteString:
  assumes "Q (Inr ()) (after_call d (set_node p (File b) (tree d)))"
    and "\<And>e k. Q (Inl e) (after_call d (set_node p (File (take k b)) (tree d)))"
  shows "wp (WriteString p b) Q d"
  using assms by (simp add: WriteString_def wp_syscall split: option.splits)

lemma wp_WriteFile:
  assumes "write_error p (tree d) = None \<Longrightarrow> Q (Inr ()) (after_call d (set_node p (File b) (tree d)))"
    and "\<And>e. Q (Inl e) (after_call d (tree d))"
    and "\<And>e k. write_error p (tree d) = None \<Longrightarrow>
      Q (Inl e) (after_call d (set_node p (File (take k b)) (tree d)))"
  shows "wp (WriteFile p b) Q d"
  using assms by (auto simp: WriteFile_def wp_syscall split: option.splits)


section \<open>Atomic marker files\<close>

text \<open>
  The marker writers of \<open>src/internal/weaveboot/weaveboot.go\<close> (\<open>writeStr\<close>) and
  \<open>src/internal/lifecycle/lifecycle.go\<close> (\<open>writeFileString\<close>): a temporary file in the same
  directory, then a rename. Between the write and the rename the latter has a \<open>Chmod\<close> and a
  \<open>Close\<close>, the former a \<open>Close\<close>.
\<close>

definition tempPrefix :: string where "tempPrefix = ''.tmp-''"

definition tmp_of :: "path \<Rightarrow> string \<Rightarrow> path" where
  "tmp_of p k = Dir p @ [tempPrefix @ k]"

definition newline :: string where "newline = [CHR 0x0A]"

definition finish_marker ::
    "path \<Rightarrow> (io_error, unit) result \<Rightarrow> ('x disk_scheme, (io_error, unit) result) state
      \<Rightarrow> ('x disk_scheme, (io_error, unit) result) state" where
  "finish_marker tmp r rest =
     (case r of
        Inl e \<Rightarrow> do { _ \<leftarrow> Remove tmp; ret (Inl e) }
      | Inr _ \<Rightarrow> rest)"

definition writeStr :: "path \<Rightarrow> string \<Rightarrow> ('x disk_scheme, (io_error, unit) result) state" where
  "writeStr p s =
     then_ok (MkdirAll (Dir p)) (\<lambda>_.
     then_ok (CreateTemp (Dir p) tempPrefix) (\<lambda>tmp. do {
       written \<leftarrow> WriteString tmp (s @ newline);
       finish_marker tmp written (do {
         closed \<leftarrow> FileCall tmp;
         finish_marker tmp closed (Rename tmp p) }) }))"

definition writeFileString :: "path \<Rightarrow> string \<Rightarrow> ('x disk_scheme, (io_error, unit) result) state" where
  "writeFileString p s =
     then_ok (MkdirAll (Dir p)) (\<lambda>_.
     then_ok (CreateTemp (Dir p) tempPrefix) (\<lambda>tmp. do {
       written \<leftarrow> WriteString tmp (s @ newline);
       finish_marker tmp written (do {
         chmod \<leftarrow> FileCall tmp;
         finish_marker tmp chmod (do {
           closed \<leftarrow> FileCall tmp;
           finish_marker tmp closed (Rename tmp p) }) }) }))"

text \<open>
  What a marker write does to the tree: the marker holds its old node, and after success the new
  content; everything else that existed is untouched; new entries are directories above the
  marker or temporary files beside it.
\<close>

definition marker_post :: "path \<Rightarrow> string \<Rightarrow> fs \<Rightarrow> (io_error, unit) result \<Rightarrow> fs \<Rightarrow> bool" where
  "marker_post p s t r t' =
     (lookup t' p = (if r = Inr () then Some (File (s @ newline)) else lookup t p)
      \<and> (\<forall>q. q \<noteq> p \<longrightarrow> lookup t' q = lookup t q
           \<or> lookup t q = None \<and> (lookup t' q = Some Directory \<and> prefix q (Dir p)
               \<or> (\<exists>k. q = (tmp_of p k)))))"

text \<open>The state between the creation of the temporary file and the rename.\<close>

definition marker_mid :: "path \<Rightarrow> string \<Rightarrow> fs \<Rightarrow> fs \<Rightarrow> bool" where
  "marker_mid p k t t' =
     (lookup t (tmp_of p k) = None
      \<and> (\<forall>q. q \<noteq> (tmp_of p k) \<longrightarrow> lookup t' q = lookup t q
           \<or> lookup t q = None \<and> lookup t' q = Some Directory \<and> prefix q (Dir p)))"

definition marker_name :: "path \<Rightarrow> bool" where
  "marker_name p = (p \<noteq> [] \<and> \<not> prefix tempPrefix (last p))"

lemma marker_name_neq: "marker_name p \<Longrightarrow> p \<noteq> (tmp_of p k)"
  unfolding marker_name_def tmp_of_def by (metis last_snoc prefixI)

lemma marker_not_above: "marker_name p \<Longrightarrow> \<not> prefix p (Dir p)"
  unfolding marker_name_def Dir_def
  by (metis append_butlast_last_id not_Cons_self2 prefix_order.antisym prefixeq_butlast self_append_conv)

lemma marker_mid_fail:
  assumes "marker_name p" "marker_mid p k t t'"
  shows "marker_post p s t (Inl e) t'"
proof -
  have "lookup t' p = lookup t p"
    using assms marker_name_neq [of p k] marker_not_above [of p] unfolding marker_mid_def by metis
  moreover have "lookup t' q = lookup t q \<or> lookup t q = None \<and>
      (lookup t' q = Some Directory \<and> prefix q (Dir p) \<or> (\<exists>k. q = tmp_of p k))" for q
    using assms(2) unfolding marker_mid_def by metis
  ultimately show ?thesis by (simp add: marker_post_def)
qed

lemma marker_mid_set:
  "marker_mid p k t t' \<Longrightarrow> marker_mid p k t (set_node (tmp_of p k) n t')"
  by (simp add: marker_mid_def)

lemma marker_mid_remove:
  "marker_mid p k t t' \<Longrightarrow> marker_mid p k t (drop_paths (\<lambda>q. q = (tmp_of p k)) t')"
  by (simp add: marker_mid_def)

lemma marker_mid_rename:
  assumes p: "marker_name p" and mid: "marker_mid p k t t'"
    and tmp: "lookup t' (tmp_of p k) = Some (File (s @ newline))"
  shows "marker_post p s t (Inr ()) (rename_tree (tmp_of p k) p t')"
  using mid marker_name_neq [OF p, of k] by (auto simp: marker_post_def rename_tree_def tmp marker_mid_def)

lemma wp_finish_marker:
  assumes p: "marker_name p" and mid: "marker_mid p k t (tree d)" and more: "disk.more d = m"
    and rest: "r = Inr () \<Longrightarrow> wp rest (\<lambda>r d'. marker_post p s t r (tree d') \<and> disk.more d' = m) d"
  shows "wp (finish_marker (tmp_of p k) r rest)
    (\<lambda>r d'. marker_post p s t r (tree d') \<and> disk.more d' = m) d"
proof (cases r)
  case (Inl e)
  have "wp (Remove (tmp_of p k)) (\<lambda>_ d'. marker_mid p k t (tree d') \<and> disk.more d' = m) d"
    by (rule wp_Remove) (simp_all add: mid more marker_mid_remove)
  then show ?thesis
    unfolding finish_marker_def Inl sum.case wp_bind
    by (rule wp_mono) (auto simp: wp_simps intro: marker_mid_fail [OF p])
qed (simp add: finish_marker_def rest)

text \<open>The last steps of both writers.\<close>

lemma wp_marker_rename:
  assumes p: "marker_name p" and mid: "marker_mid p k t (tree d)" and more: "disk.more d = m"
    and tmp: "lookup (tree d) (tmp_of p k) = Some (File (s @ newline))"
  shows "wp (Rename (tmp_of p k) p)
    (\<lambda>r d'. marker_post p s t r (tree d') \<and> disk.more d' = m) d"
  by (rule wp_Rename) (simp_all add: marker_mid_rename [OF p mid tmp] marker_mid_fail [OF p mid] more)

lemma wp_marker_close:
  assumes p: "marker_name p" and mid: "marker_mid p k t (tree d)" and more: "disk.more d = m"
    and tmp: "lookup (tree d) (tmp_of p k) = Some (File (s @ newline))"
  shows "wp (do { closed \<leftarrow> FileCall (tmp_of p k);
      finish_marker (tmp_of p k) closed (Rename (tmp_of p k) p) })
    (\<lambda>r d'. marker_post p s t r (tree d') \<and> disk.more d' = m) d"
  unfolding wp_bind
  by (rule wp_FileCall; rule wp_finish_marker [OF p])
    (simp_all add: mid more wp_marker_rename [OF p] tmp)

lemma marker_mkdir_fail:
  assumes "marker_name p" "mkdir_ext (Dir p) t t'"
  shows "marker_post p s t (Inl e) t'"
  using assms(2) marker_not_above [OF assms(1)] by (auto simp: marker_post_def mkdir_ext_def)

lemma wp_marker_temp:
  assumes p: "marker_name p" and ext: "mkdir_ext (Dir p) t (tree d)"
    and ok: "\<And>k t'. marker_mid p k t t' \<Longrightarrow> Q (Inr (tmp_of p k)) (after_call d t')"
    and fail: "\<And>e. Q (Inl e) (after_call d (tree d))"
  shows "wp (CreateTemp (Dir p) tempPrefix) Q d"
proof (rule wp_CreateTemp)
  fix k
  assume "lookup (tree d) (Dir p @ [tempPrefix @ dec k]) = None"
  then have "lookup t (tmp_of p (dec k)) = None"
    using ext unfolding mkdir_ext_def tmp_of_def by (metis option.distinct(1))
  then have "marker_mid p (dec k) t (set_node (tmp_of p (dec k)) (File []) (tree d))"
    using ext by (auto simp: marker_mid_def mkdir_ext_def)
  from ok [OF this]
  show "Q (Inr (Dir p @ [tempPrefix @ dec k]))
      (after_call d (set_node (Dir p @ [tempPrefix @ dec k]) (File []) (tree d)))"
    by (simp only: tmp_of_def)
qed (rule fail)

lemma wp_marker_open:
  assumes p: "marker_name p"
    and rest: "\<And>k d'. marker_mid p k (tree d) (tree d') \<Longrightarrow> disk.more d' = disk.more d \<Longrightarrow>
      lookup (tree d') (tmp_of p k) = Some (File (s @ newline)) \<Longrightarrow>
      wp (rest (tmp_of p k))
        (\<lambda>r d''. marker_post p s (tree d) r (tree d'') \<and> disk.more d'' = disk.more d) d'"
  shows "wp (then_ok (MkdirAll (Dir p)) (\<lambda>_. then_ok (CreateTemp (Dir p) tempPrefix) (\<lambda>tmp. do {
      written \<leftarrow> WriteString tmp (s @ newline); finish_marker tmp written (rest tmp) })))
    (\<lambda>r d'. marker_post p s (tree d) r (tree d') \<and> disk.more d' = disk.more d) d"
    (is "wp _ ?Q d")
proof -
  have wr: "wp (do { written \<leftarrow> WriteString (tmp_of p k) (s @ newline);
      finish_marker (tmp_of p k) written (rest (tmp_of p k)) }) ?Q d'"
    if "marker_mid p k (tree d) (tree d')" "disk.more d' = disk.more d" for k d'
    unfolding wp_bind
    by (rule wp_WriteString; rule wp_finish_marker [OF p])
      (simp_all add: that marker_mid_set rest)
  have temp: "wp (then_ok (CreateTemp (Dir p) tempPrefix) (\<lambda>tmp. do {
      written \<leftarrow> WriteString tmp (s @ newline); finish_marker tmp written (rest tmp) })) ?Q d'"
    if "mkdir_ext (Dir p) (tree d) (tree d')" "disk.more d' = disk.more d" for d'
    unfolding wp_then_ok
    by (rule wp_marker_temp [OF p that(1)])
      (simp_all add: that wr marker_mkdir_fail [OF p])
  show ?thesis
    unfolding wp_then_ok [of "MkdirAll (Dir p)"]
    by (rule wp_MkdirAll) (simp add: temp marker_mkdir_fail [OF p] split: sum.split)
qed

lemma wp_writeStr_post:
  assumes "marker_name p"
  shows "wp (writeStr p s) (\<lambda>r d'. marker_post p s (tree d) r (tree d') \<and> disk.more d' = disk.more d) d"
  unfolding writeStr_def
  by (rule wp_marker_open [OF assms]) (rule wp_marker_close [OF assms])

lemma wp_writeFileString_post:
  assumes "marker_name p"
  shows "wp (writeFileString p s)
    (\<lambda>r d'. marker_post p s (tree d) r (tree d') \<and> disk.more d' = disk.more d) d"
  unfolding writeFileString_def
proof (rule wp_marker_open [OF assms])
  fix k d'
  assume d': "marker_mid p k (tree d) (tree d')" "disk.more d' = disk.more d"
    "lookup (tree d') (tmp_of p k) = Some (File (s @ newline))"
  show "wp (do { chmod \<leftarrow> FileCall (tmp_of p k); finish_marker (tmp_of p k) chmod (do {
      closed \<leftarrow> FileCall (tmp_of p k); finish_marker (tmp_of p k) closed (Rename (tmp_of p k) p) }) })
     (\<lambda>r d''. marker_post p s (tree d) r (tree d'') \<and> disk.more d'' = disk.more d) d'"
    unfolding wp_bind [of "FileCall (tmp_of p k)" "\<lambda>chmod. finish_marker (tmp_of p k) chmod _"]
    by (rule wp_FileCall; rule wp_finish_marker [OF assms])
      (simp_all add: d' wp_marker_close [OF assms])
qed

lemma wp_writeStr:
  assumes "marker_name p"
    and "\<And>r d'. marker_post p s (tree d) r (tree d') \<Longrightarrow> disk.more d' = disk.more d \<Longrightarrow> Q r d'"
  shows "wp (writeStr p s) Q d"
  using wp_writeStr_post [OF assms(1)] by (rule wp_mono) (use assms(2) in blast)

lemma wp_writeFileString:
  assumes "marker_name p"
    and "\<And>r d'. marker_post p s (tree d) r (tree d') \<Longrightarrow> disk.more d' = disk.more d \<Longrightarrow> Q r d'"
  shows "wp (writeFileString p s) Q d"
  using wp_writeFileString_post [OF assms(1)] by (rule wp_mono) (use assms(2) in blast)


text \<open>What a marker says, and what a marker write leaves alone.\<close>

definition marker_val :: "fs \<Rightarrow> path \<Rightarrow> string" where
  "marker_val t p = (case lookup t p of Some (File b) \<Rightarrow> TrimSpace b | _ \<Rightarrow> [])"

lemma marker_post_kept:
  assumes "marker_post (c @ [m]) s t r t'" "lookup t q = Some n" "q \<noteq> c @ [m]"
  shows "lookup t' q = Some n"
  using assms by (auto simp: marker_post_def)

lemma marker_post_target:
  "marker_post p s t (Inr ()) t' \<Longrightarrow> lookup t' p = Some (File (s @ newline))"
  "marker_post p s t (Inl e) t' \<Longrightarrow> lookup t' p = lookup t p"
  by (simp_all add: marker_post_def)

lemma marker_post_sibling:
  assumes "marker_post (c @ [m]) s t r t'" "m' \<noteq> m" "\<not> prefix tempPrefix m'"
  shows "lookup t' (c @ [m']) = lookup t (c @ [m'])"
proof -
  have "c @ [m'] \<noteq> tmp_of (c @ [m]) k" for k
    using assms(3) by (auto simp: tmp_of_def)
  moreover have "\<not> prefix (c @ [m']) (Dir (c @ [m]))" by simp
  ultimately show ?thesis using assms(1,2) unfolding marker_post_def by (metis append1_eq_conv)
qed

lemma not_temp_markers [simp]: "\<not> prefix tempPrefix ''current''" "\<not> prefix tempPrefix ''previous''"
  by (simp_all add: tempPrefix_def)


section \<open>Runs without faults\<close>

text \<open>On a disk that obliges, every call answers from the tree.\<close>

definition quiet :: "'x disk_scheme \<Rightarrow> bool" where
  "quiet d = (\<forall>n. fault d n = None)"

lemma quiet_after_call [simp]: "quiet (after_call d t) = quiet d"
  by (simp add: quiet_def)

lemma quiet_faulty [simp]: "quiet d \<Longrightarrow> faulty d = None"
  by (simp add: quiet_def faulty_def)

lemma wp_quiet_read:
  assumes "quiet d"
  shows "wp (Stat p) Q d = Q (stat_tree p (tree d)) (after_call d (tree d))"
    "wp (ReadFile p) Qb d = Qb (read_tree p (tree d)) (after_call d (tree d))"
    "wp (ReadDir p) Qe d = Qe (readdir_tree p (tree d)) (after_call d (tree d))"
    "wp (FileCall p) Qu d = Qu (Inr ()) (after_call d (tree d))"
  using assms by (simp_all add: Stat_def ReadFile_def ReadDir_def FileCall_def wp_syscall)

lemma wp_quiet_change:
  assumes "quiet d"
  shows "wp (RemoveAll p) Q d = Q (Inr ()) (after_call d (drop_paths (prefix p) (tree d)))"
    "wp (WriteString p b) Q d = Q (Inr ()) (after_call d (set_node p (File b) (tree d)))"
    "rename_error s p (tree d) = None \<Longrightarrow>
      wp (Rename s p) Q d = Q (Inr ()) (after_call d (rename_tree s p (tree d)))"
  using assms by (simp_all add: RemoveAll_def WriteString_def Rename_def wp_syscall)

definition dirs_exist :: "fs \<Rightarrow> path \<Rightarrow> bool" where
  "dirs_exist t p = (\<forall>q \<in> set (prefixes p). is_dir t q)"

lemma mkdirs_existing: "\<forall>q \<in> set qs. is_dir t q \<Longrightarrow> 0 < n \<Longrightarrow> mkdirs n qs t = (Inr (), t)"
proof (induction qs)
  case (Cons q qs)
  then show ?case by (cases n) (auto simp: is_dir_def)
qed simp

lemma wp_quiet_MkdirAll:
  "quiet d \<Longrightarrow> dirs_exist (tree d) p \<Longrightarrow> wp (MkdirAll p) Q d = Q (Inr ()) (after_call d (tree d))"
  by (simp add: MkdirAll_def wp_syscall dirs_exist_def mkdirs_existing)

text \<open>A marker write into a directory that exists succeeds, unless the marker is a directory.\<close>

lemma quiet_marker_temp:
  fixes d :: "'x disk_scheme"
  assumes q: "quiet d" and m: "marker_name p" and dirs: "dirs_exist (tree d) (Dir p)"
    and nodir: "lookup (tree d) p \<noteq> Some Directory"
  obtains tmp where
    "rename_error tmp p (set_node tmp (File b) (set_node tmp (File []) (tree d))) = None"
    "\<And>Q. wp (CreateTemp (Dir p) tempPrefix) Q (after_call d (tree d))
      = Q (Inr tmp) (after_call (after_call d (tree d)) (set_node tmp (File []) (tree d)))"
proof -
  have dir: "is_dir (tree d) (Dir p)" using dirs by (simp add: dirs_exist_def)
  obtain k where tmp: "fresh_temp (Dir p) tempPrefix (tree d) = tmp_of p (dec k)"
    using fresh_temp_free [of "Dir p" tempPrefix "tree d"] by (auto simp: tmp_of_def)
  let ?t = "set_node (tmp_of p (dec k)) (File b) (set_node (tmp_of p (dec k)) (File []) (tree d))"
  have ne: "tmp_of p (dec k) \<noteq> p" using marker_name_neq [OF m] by metis
  have len: "length (tmp_of p (dec k)) = length p" using m by (cases p rule: rev_cases) (auto simp: tmp_of_def marker_name_def)
  have "\<not> prefix p (tmp_of p (dec k))" "\<not> prefix (tmp_of p (dec k)) p"
    using ne len by (metis prefix_order.dual_order.antisym prefix_length_prefix dual_order.refl prefix_order.order_refl)+
  moreover have "Dir p \<noteq> tmp_of p (dec k)" by (simp add: tmp_of_def)
  ultimately have "rename_error (tmp_of p (dec k)) p ?t = None"
    using nodir dir ne by (simp add: rename_error_def is_dir_def)
  moreover have "wp (CreateTemp (Dir p) tempPrefix) Q (after_call d (tree d))
      = Q (Inr (tmp_of p (dec k))) (after_call (after_call d (tree d)) (set_node (tmp_of p (dec k)) (File []) (tree d)))"
    for Q using q dir by (simp add: CreateTemp_def wp_syscall tmp)
  ultimately show thesis by (rule that)
qed

lemma wp_quiet_writeFileString:
  assumes "quiet d" "marker_name p" "dirs_exist (tree d) (Dir p)" "lookup (tree d) p \<noteq> Some Directory"
  shows "wp (writeFileString p s) (\<lambda>r d'. r = Inr ()) d"
proof -
  obtain tmp where "rename_error tmp p (set_node tmp (File (s @ newline)) (set_node tmp (File []) (tree d))) = None"
      "\<And>Q. wp (CreateTemp (Dir p) tempPrefix) Q (after_call d (tree d))
        = Q (Inr tmp) (after_call (after_call d (tree d)) (set_node tmp (File []) (tree d)))"
    by (rule quiet_marker_temp [OF assms, of "s @ newline"]) (rule that)
  with assms show ?thesis
    by (simp add: writeFileString_def wp_simps wp_quiet_MkdirAll wp_quiet_change wp_quiet_read finish_marker_def)
qed

lemma wp_quiet_writeStr:
  assumes "quiet d" "marker_name p" "dirs_exist (tree d) (Dir p)" "lookup (tree d) p \<noteq> Some Directory"
  shows "wp (writeStr p s) (\<lambda>r d'. r = Inr () \<and> quiet d') d"
proof -
  obtain tmp where "rename_error tmp p (set_node tmp (File (s @ newline)) (set_node tmp (File []) (tree d))) = None"
      "\<And>Q. wp (CreateTemp (Dir p) tempPrefix) Q (after_call d (tree d))
        = Q (Inr tmp) (after_call (after_call d (tree d)) (set_node tmp (File []) (tree d)))"
    by (rule quiet_marker_temp [OF assms, of "s @ newline"]) (rule that)
  with assms show ?thesis
    by (simp add: writeStr_def wp_simps wp_quiet_MkdirAll wp_quiet_change wp_quiet_read finish_marker_def)
qed

end
