(* ===== verification/Manifest.thy ===== *)
theory Manifest
  imports FileSystem
begin

text \<open>
  Module manifests and channel manifests (\<open>src/sdk/manifest/manifest.go\<close>,
  \<open>channel.go\<close>): the data types, the three regular expressions as executable recognisers,
  \<open>Validate\<close> with each of its errors, \<open>ParseChannel\<close>, and the selection of modules and
  artifacts. Decoding of JSON and of RFC 3339 times is a parameter of the operations that use it.
  The lemmas characterise what is accepted and show that accepted ids and versions are single
  path components, so that the install paths built from them stay inside their directory.
\<close>

section \<open>Data\<close>

record platform =
  platOS :: string
  platArch :: string

record signing =
  AppleTeamID :: string
  AuthenticodeSubject :: string
  AuthenticodeThumbprint :: string

record artifact =
  artOS :: string
  artArch :: string
  artDigest :: string
  artSize :: int

record manifest =
  mfSchema :: int
  mfID :: string
  mfVersion :: string
  mfProtocol :: uint32
  mfZone :: string
  mfPrivilege :: string
  mfSession :: string
  mfPlatforms :: "platform list"
  mfCapabilities :: "string list"
  mfSubscribes :: "string list"
  mfSigning :: "signing option"
  mfArtifacts :: "artifact list"

definition PrivilegeSystem :: string where "PrivilegeSystem = ''system''"
definition PrivilegeService :: string where "PrivilegeService = ''service''"
definition PrivilegeUser :: string where "PrivilegeUser = ''user''"
definition SessionSystem :: string where "SessionSystem = ''system''"
definition SessionPerUserConsole :: string where "SessionPerUserConsole = ''per-user-console''"
definition SessionPerUserAll :: string where "SessionPerUserAll = ''per-user-all''"

text \<open>The module id the hypervisor channel reserves (\<open>src/sdk/hvchannel/auth.go\<close>).\<close>

definition ControlModule :: string where "ControlModule = ''hvchannel''"


section \<open>The regular expressions\<close>

definition is_lower :: "char \<Rightarrow> bool" where
  "is_lower c = (CHR ''a'' \<le> c \<and> c \<le> CHR ''z'')"

definition is_upper :: "char \<Rightarrow> bool" where
  "is_upper c = (CHR ''A'' \<le> c \<and> c \<le> CHR ''Z'')"

definition id_char :: "char \<Rightarrow> bool" where
  "id_char c = (is_lower c \<or> is_digit c \<or> c = CHR ''-'')"

fun idRe :: "string \<Rightarrow> bool" where
  "idRe [] = False"
| "idRe (c # cs) = (is_lower c \<and> list_all id_char cs)"

definition pre_char :: "char \<Rightarrow> bool" where
  "pre_char c = (is_digit c \<or> is_upper c \<or> is_lower c \<or> c = CHR ''.'' \<or> c = CHR ''-'')"

text \<open>
  \<open>\<^bold>^\d+\.\d+\.\d+(-[0-9A-Za-z.-]+)?$\<close>: digits are never the separator that follows them, so
  the greedy scan decides membership (\<open>versionRe_iff\<close>).
\<close>

definition version_tail :: "string \<Rightarrow> bool" where
  "version_tail s = (case s of [] \<Rightarrow> True
     | c # cs \<Rightarrow> c = CHR ''-'' \<and> cs \<noteq> [] \<and> list_all pre_char cs)"

fun version_from :: "nat \<Rightarrow> string \<Rightarrow> bool" where
  "version_from 0 s = (takeWhile is_digit s \<noteq> [] \<and> version_tail (dropWhile is_digit s))"
| "version_from (Suc n) s =
     (takeWhile is_digit s \<noteq> [] \<and>
       (case dropWhile is_digit s of [] \<Rightarrow> False | c # cs \<Rightarrow> c = CHR ''.'' \<and> version_from n cs))"

definition versionRe :: "string \<Rightarrow> bool" where
  "versionRe s = version_from 2 s"

definition hex_lower :: "char \<Rightarrow> bool" where
  "hex_lower c = (is_digit c \<or> CHR ''a'' \<le> c \<and> c \<le> CHR ''f'')"

definition digestRe :: "string \<Rightarrow> bool" where
  "digestRe s = (prefix ''sha256:'' s \<and> length s = 71 \<and> list_all hex_lower (drop 7 s))"


section \<open>Validation\<close>

datatype manifest_error =
    UnsupportedSchema int
  | InvalidID string
  | ReservedID string
  | InvalidVersion string
  | BadManifestProtocol
  | InvalidZone string
  | InvalidPrivilege string
  | InvalidSession string
  | NoPlatform
  | InvalidOS string
  | InvalidArch string
  | InvalidDigest string
  | Undecodable string
  | BadChannelHeader
  | InvalidModuleID string
  | InvalidModuleVersion string string
  | ManifestIO io_error

definition osArch :: "string \<Rightarrow> string \<Rightarrow> (manifest_error, unit) result" where
  "osArch os arch =
     (if os \<notin> {''darwin'', ''windows'', ''linux''} then Inl (InvalidOS os)
      else if arch \<notin> {''arm64'', ''amd64''} then Inl (InvalidArch arch)
      else Inr ())"

fun check_platforms :: "platform list \<Rightarrow> (manifest_error, unit) result" where
  "check_platforms [] = Inr ()"
| "check_platforms (p # ps) = bind_result (osArch (platOS p) (platArch p)) (\<lambda>_. check_platforms ps)"

fun check_artifacts :: "artifact list \<Rightarrow> (manifest_error, unit) result" where
  "check_artifacts [] = Inr ()"
| "check_artifacts (a # as) =
     bind_result (osArch (artOS a) (artArch a)) (\<lambda>_.
       if \<not> digestRe (artDigest a) then Inl (InvalidDigest (artDigest a)) else check_artifacts as)"

definition Validate :: "manifest \<Rightarrow> (manifest_error, unit) result" where
  "Validate m =
     (if mfSchema m \<noteq> 1 then Inl (UnsupportedSchema (mfSchema m))
      else if \<not> idRe (mfID m) then Inl (InvalidID (mfID m))
      else if mfID m = ControlModule then Inl (ReservedID (mfID m))
      else if \<not> versionRe (mfVersion m) then Inl (InvalidVersion (mfVersion m))
      else if mfProtocol m < 1 then Inl BadManifestProtocol
      else if mfZone m \<noteq> ''A'' \<and> mfZone m \<noteq> ''B'' \<and> mfZone m \<noteq> ''C'' then Inl (InvalidZone (mfZone m))
      else if mfPrivilege m \<noteq> PrivilegeSystem \<and> mfPrivilege m \<noteq> PrivilegeService
          \<and> mfPrivilege m \<noteq> PrivilegeUser
        then Inl (InvalidPrivilege (mfPrivilege m))
      else if mfSession m \<noteq> SessionSystem \<and> mfSession m \<noteq> SessionPerUserConsole
          \<and> mfSession m \<noteq> SessionPerUserAll
        then Inl (InvalidSession (mfSession m))
      else if mfPlatforms m = [] then Inl NoPlatform
      else bind_result (check_platforms (mfPlatforms m)) (\<lambda>_. check_artifacts (mfArtifacts m)))"

text \<open>\<open>Parse\<close> and \<open>Load\<close>, with the JSON decoder as a parameter.\<close>

definition Parse_manifest ::
    "(bytes \<Rightarrow> (string, manifest) result) \<Rightarrow> bytes \<Rightarrow> (manifest_error, manifest) result" where
  "Parse_manifest decode data =
     bind_result (map_error Undecodable (decode data)) (\<lambda>m. bind_result (Validate m) (\<lambda>_. Inr m))"

definition Load_manifest ::
    "(bytes \<Rightarrow> (string, manifest) result) \<Rightarrow> path \<Rightarrow> ('x disk_scheme, (manifest_error, manifest) result) state" where
  "Load_manifest decode p = do {
     r \<leftarrow> ReadFile p;
     ret (bind_result (map_error ManifestIO r) (Parse_manifest decode)) }"

definition SupportsHost :: "manifest \<Rightarrow> string \<Rightarrow> string \<Rightarrow> bool" where
  "SupportsHost m goos goarch = list_ex (\<lambda>p. platOS p = goos \<and> platArch p = goarch) (mfPlatforms m)"


section \<open>Channel manifests\<close>

record channel_artifact =
  caOS :: string
  caArch :: string
  caURL :: string
  caDigest :: string
  caSize :: int

record channel_module =
  cmID :: string
  cmVersion :: string
  cmProtocol :: uint32
  cmPrivilege :: string
  cmSession :: string
  cmCapabilities :: "string list"
  cmSubscribes :: "string list"
  cmSigning :: "signing option"
  cmArtifacts :: "channel_artifact list"

record channel_core =
  ccVersion :: string
  ccArtifacts :: "channel_artifact list"

record channel_manifest =
  chSchema :: int
  chChannel :: string
  chGeneratedAt :: string
  chSequence :: uint64
  chExpires :: string
  chProtocolMin :: uint32
  chProtocolMax :: uint32
  chBindings :: "(string \<times> string) list"
  chCore :: channel_core
  chModules :: "channel_module list"

text \<open>\<open>Expired\<close>: an expiry that does not parse counts as expired.\<close>

definition Expired :: "(string \<Rightarrow> time option) \<Rightarrow> channel_manifest \<Rightarrow> time \<Rightarrow> bool" where
  "Expired parseTime c now =
     (if chExpires c = [] then False
      else case parseTime (chExpires c) of None \<Rightarrow> True | Some t \<Rightarrow> now > t)"

fun check_modules :: "channel_module list \<Rightarrow> (manifest_error, unit) result" where
  "check_modules [] = Inr ()"
| "check_modules (m # ms) =
     (if \<not> idRe (cmID m) then Inl (InvalidModuleID (cmID m))
      else if \<not> versionRe (cmVersion m) then Inl (InvalidModuleVersion (cmVersion m) (cmID m))
      else check_modules ms)"

definition ParseChannel ::
    "(bytes \<Rightarrow> (string, channel_manifest) result) \<Rightarrow> bytes \<Rightarrow> (manifest_error, channel_manifest) result" where
  "ParseChannel decode data =
     bind_result (map_error Undecodable (decode data)) (\<lambda>c.
       if chSchema c \<noteq> 1 then Inl (UnsupportedSchema (chSchema c))
       else if chChannel c = [] \<or> chProtocolMin c = 0 \<or> chProtocolMax c < chProtocolMin c
         then Inl BadChannelHeader
       else bind_result (check_modules (chModules c)) (\<lambda>_. Inr c))"

definition Module :: "channel_manifest \<Rightarrow> string \<Rightarrow> channel_module option" where
  "Module c mid = find (\<lambda>m. cmID m = mid) (chModules c)"

definition ArtifactForHost ::
    "string \<Rightarrow> string \<Rightarrow> channel_artifact list \<Rightarrow> channel_artifact option" where
  "ArtifactForHost goos goarch arts = find (\<lambda>a. caOS a = goos \<and> caArch a = goarch) arts"

definition ModuleManifest :: "channel_module \<Rightarrow> platform list \<Rightarrow> manifest" where
  "ModuleManifest cm platforms =
     \<lparr>mfSchema = 1, mfID = cmID cm, mfVersion = cmVersion cm, mfProtocol = cmProtocol cm,
      mfZone = ''A'', mfPrivilege = cmPrivilege cm, mfSession = cmSession cm,
      mfPlatforms = platforms, mfCapabilities = cmCapabilities cm,
      mfSubscribes = cmSubscribes cm, mfSigning = cmSigning cm, mfArtifacts = []\<rparr>"


section \<open>What the recognisers accept\<close>

lemma char_class_facts:
  "\<not> is_digit CHR ''.''" "\<not> is_digit CHR ''/''" "\<not> is_digit CHR ''-''"
  "\<not> is_lower CHR ''.''" "\<not> is_lower CHR ''/''" "\<not> is_upper CHR ''/''"
  by (simp_all add: is_digit_def is_lower_def is_upper_def)

lemma char_bounds_no_space:
  assumes "CHR ''!'' \<le> c" "c \<le> CHR ''~''"
  shows "no_space c"
proof -
  have "(33 :: nat) \<le> of_char c" "of_char c \<le> (126 :: nat)"
    using assms by (simp_all add: less_eq_char_def)
  moreover have "\<forall>e \<in> set space_runes. \<forall>x \<in> set e. (of_char x :: nat) \<le> 32 \<or> 127 \<le> (of_char x :: nat)"
    by (simp add: space_runes_def)
  ultimately show ?thesis unfolding no_space_def by fastforce
qed

lemma class_no_space: "is_digit c \<or> is_lower c \<or> is_upper c \<or> c = CHR ''.'' \<or> c = CHR ''-'' \<Longrightarrow> no_space c"
  by (rule char_bounds_no_space)
    (auto simp: is_digit_def is_lower_def is_upper_def less_eq_char_def)


lemma idRe_chars: "idRe s \<Longrightarrow> c \<in> set s \<Longrightarrow> id_char c"
  by (cases s) (auto simp: list_all_iff id_char_def)

lemma idRe_not_Nil: "idRe s \<Longrightarrow> s \<noteq> []"
  by auto

lemma idRe_no_dot: "idRe s \<Longrightarrow> CHR ''.'' \<notin> set s"
  using idRe_chars by (fastforce simp: id_char_def char_class_facts)

lemma idRe_plain: "idRe s \<Longrightarrow> plain_name s"
proof -
  assume s: "idRe s"
  have "CHR ''/'' \<notin> set s" using idRe_chars [OF s] by (fastforce simp: id_char_def char_class_facts)
  moreover have "CHR ''.'' \<notin> set s" using s by (rule idRe_no_dot)
  ultimately show ?thesis using s by (auto simp: plain_name_def)
qed

lemma version_from_head: "version_from n s \<Longrightarrow> s \<noteq> [] \<and> is_digit (hd s)"
  by (cases n; cases s) (auto split: if_splits)

lemma version_from_chars: "version_from n s \<Longrightarrow> c \<in> set s \<Longrightarrow> pre_char c"
proof (induction n arbitrary: s)
  case 0
  then have "c \<in> set (takeWhile is_digit s) \<or> c \<in> set (dropWhile is_digit s)"
    by (metis Un_iff set_append takeWhile_dropWhile_id)
  with 0 show ?case
    by (auto simp: pre_char_def version_tail_def list_all_iff split: list.splits dest: set_takeWhileD)
next
  case (Suc n)
  then have "c \<in> set (takeWhile is_digit s) \<or> c \<in> set (dropWhile is_digit s)"
    by (metis Un_iff set_append takeWhile_dropWhile_id)
  with Suc show ?case by (auto simp: pre_char_def split: list.splits dest: set_takeWhileD)
qed

lemma version_from_last:
  assumes "version_from n s"
  shows "no_space (last s)"
proof -
  have "last s \<in> set s" using version_from_head [OF assms] by simp
  from version_from_chars [OF assms this] show ?thesis
    by (intro class_no_space) (auto simp: pre_char_def)
qed

lemma versionRe_plain: "versionRe s \<Longrightarrow> plain_name s"
proof -
  assume s: "versionRe s"
  have "CHR ''/'' \<notin> set s"
    using version_from_chars [of 2 s] s by (fastforce simp: versionRe_def pre_char_def char_class_facts)
  moreover have "s \<noteq> []" "is_digit (hd s)" using version_from_head s by (auto simp: versionRe_def)
  ultimately show ?thesis by (auto simp: plain_name_def char_class_facts)
qed

lemma versionRe_trimmed: "versionRe s \<Longrightarrow> trimmed s"
  using version_from_head [of 2 s] version_from_last [of 2 s] class_no_space [of "hd s"]
  unfolding versionRe_def trimmed_def by blast

lemma idRe_trimmed:
  assumes "idRe s"
  shows "trimmed s"
proof -
  have "no_space c" if "c \<in> set s" for c
    using idRe_chars [OF assms that] by (intro class_no_space) (auto simp: id_char_def)
  with idRe_not_Nil [OF assms] show ?thesis by (simp add: trimmed_def)
qed

text \<open>The scan of a version decides the regular expression.\<close>

definition digits :: "string \<Rightarrow> bool" where
  "digits s = (s \<noteq> [] \<and> list_all is_digit s)"

lemma version_from_digits:
  assumes "digits a" "r = [] \<or> \<not> is_digit (hd r)"
  shows "takeWhile is_digit (a @ r) = a \<and> dropWhile is_digit (a @ r) = r"
proof -
  have "\<And>x. x \<in> set a \<Longrightarrow> is_digit x" using assms(1) by (simp add: digits_def list_all_iff)
  then have "takeWhile is_digit (a @ r) = a @ takeWhile is_digit r"
    "dropWhile is_digit (a @ r) = dropWhile is_digit r"
    by (simp_all add: takeWhile_append2 dropWhile_append2)
  with assms(2) show ?thesis by (cases r) simp_all
qed

lemma version_tail_head: "version_tail r \<Longrightarrow> r = [] \<or> \<not> is_digit (hd r)"
  by (cases r) (auto simp: version_tail_def char_class_facts)

lemma digits_takeWhile: "takeWhile is_digit s \<noteq> [] \<Longrightarrow> digits (takeWhile is_digit s)"
  by (auto simp: digits_def list_all_iff dest: set_takeWhileD)

lemma version_from_0_iff: "version_from 0 s \<longleftrightarrow> (\<exists>a t. s = a @ t \<and> digits a \<and> version_tail t)"
proof
  assume "version_from 0 s"
  then have "digits (takeWhile is_digit s)" "version_tail (dropWhile is_digit s)"
    using digits_takeWhile by auto
  then show "\<exists>a t. s = a @ t \<and> digits a \<and> version_tail t"
    using takeWhile_dropWhile_id [of is_digit s] by metis
next
  assume "\<exists>a t. s = a @ t \<and> digits a \<and> version_tail t"
  then obtain a t where s: "s = a @ t" and a: "digits a" and t: "version_tail t" by blast
  from version_from_digits [OF a version_tail_head [OF t]] a t show "version_from 0 s"
    by (simp add: s digits_def)
qed

lemma version_from_Suc_iff:
  "version_from (Suc n) s \<longleftrightarrow> (\<exists>a t. s = a @ CHR ''.'' # t \<and> digits a \<and> version_from n t)"
proof
  assume "version_from (Suc n) s"
  then obtain t where "dropWhile is_digit s = CHR ''.'' # t" "takeWhile is_digit s \<noteq> []" "version_from n t"
    by (auto split: list.splits)
  then show "\<exists>a t. s = a @ CHR ''.'' # t \<and> digits a \<and> version_from n t"
    using takeWhile_dropWhile_id [of is_digit s] digits_takeWhile [of s] by metis
next
  assume "\<exists>a t. s = a @ CHR ''.'' # t \<and> digits a \<and> version_from n t"
  then obtain a t where "s = a @ CHR ''.'' # t" "digits a" "version_from n t" by blast
  moreover from this version_from_digits [of a "CHR ''.'' # t"]
  have "takeWhile is_digit s = a \<and> dropWhile is_digit s = CHR ''.'' # t"
    by (simp add: char_class_facts)
  ultimately show "version_from (Suc n) s" by (auto simp: digits_def)
qed

lemma osArch_ok_iff:
  "osArch a b = Inr () \<longleftrightarrow> a \<in> {''darwin'', ''windows'', ''linux''} \<and> b \<in> {''arm64'', ''amd64''}"
  by (simp add: osArch_def)

lemma check_platforms_ok_iff:
  "check_platforms ps = Inr () \<longleftrightarrow> (\<forall>p \<in> set ps. osArch (platOS p) (platArch p) = Inr ())"
  by (induction ps) (simp_all add: bind_result_Inr_iff)

lemma check_artifacts_ok_iff:
  "check_artifacts as = Inr () \<longleftrightarrow>
     (\<forall>a \<in> set as. osArch (artOS a) (artArch a) = Inr () \<and> digestRe (artDigest a))"
  by (induction as) (auto simp: bind_result_Inr_iff)

lemma check_modules_ok_iff:
  "check_modules ms = Inr () \<longleftrightarrow> (\<forall>m \<in> set ms. idRe (cmID m) \<and> versionRe (cmVersion m))"
  by (induction ms) auto

lemma ParseChannel_modules:
  "ParseChannel decode data = Inr c \<Longrightarrow> Module c mid = Some m \<Longrightarrow>
    idRe (cmID m) \<and> versionRe (cmVersion m) \<and> cmID m = mid \<and> m \<in> set (chModules c)"
  by (auto simp: ParseChannel_def Module_def bind_result_Inr_iff check_modules_ok_iff find_Some_iff
      split: if_splits)


section \<open>Properties\<close>

text \<open>
  \<open>versionRe\<close> accepts exactly the strings \<open>MAJOR.MINOR.PATCH\<close> with digits in each part,
  optionally followed by a hyphen and a non-empty pre-release of letters, digits, dots and
  hyphens.
\<close>

theorem versionRe_iff:
  "versionRe s \<longleftrightarrow> (\<exists>a b c t. s = a @ CHR ''.'' # b @ CHR ''.'' # c @ t
     \<and> digits a \<and> digits b \<and> digits c \<and> version_tail t)"
  unfolding versionRe_def numeral_2_eq_2 version_from_Suc_iff version_from_0_iff by blast

text \<open>
  \<open>Validate\<close> accepts a manifest exactly when its schema is 1, its id and version match their
  patterns and the id is not the reserved one, protocol, zone, privilege and session are among the
  declared values, and every platform and artifact is for a known OS and architecture, with a
  well-formed digest for the artifacts.
\<close>

theorem Validate_ok_iff:
  "Validate m = Inr () \<longleftrightarrow>
     mfSchema m = 1 \<and> idRe (mfID m) \<and> mfID m \<noteq> ControlModule \<and> versionRe (mfVersion m)
     \<and> 1 \<le> mfProtocol m \<and> mfZone m \<in> {''A'', ''B'', ''C''}
     \<and> mfPrivilege m \<in> {PrivilegeSystem, PrivilegeService, PrivilegeUser}
     \<and> mfSession m \<in> {SessionSystem, SessionPerUserConsole, SessionPerUserAll}
     \<and> mfPlatforms m \<noteq> []
     \<and> list_all (\<lambda>p. osArch (platOS p) (platArch p) = Inr ()) (mfPlatforms m)
     \<and> list_all (\<lambda>a. osArch (artOS a) (artArch a) = Inr () \<and> digestRe (artDigest a)) (mfArtifacts m)"
  by (simp add: list_all_iff Validate_def bind_result_Inr_iff check_platforms_ok_iff check_artifacts_ok_iff not_less [symmetric])


text \<open>
  C9: A channel manifest that \<open>ParseChannel\<close> accepts cannot name a path outside the install
  directories: for each of its modules, joining a directory with the id and the version gives
  exactly the directory with these two components appended.
\<close>

theorem ParseChannel_paths_inside:
  assumes "ParseChannel decode data = Inr c" "m \<in> set (chModules c)"
  shows "Join (Join dir (cmID m)) (cmVersion m) = dir @ [cmID m, cmVersion m]"
proof -
  from assms have "idRe (cmID m)" "versionRe (cmVersion m)"
    by (auto simp: ParseChannel_def bind_result_Inr_iff check_modules_ok_iff split: if_splits)
  then show ?thesis by (simp add: idRe_plain versionRe_plain)
qed

definition ex_module :: channel_module where
  "ex_module = \<lparr>cmID = ''sysinfo'', cmVersion = ''1.2.3-rc.1'', cmProtocol = 1, cmPrivilege = ''system'',
     cmSession = ''system'', cmCapabilities = [''platform.osinfo''], cmSubscribes = [], cmSigning = None,
     cmArtifacts = [\<lparr>caOS = ''linux'', caArch = ''amd64'', caURL = ''u'', caDigest = ''d'', caSize = 2\<rparr>]\<rparr>"

definition ex_channel :: channel_manifest where
  "ex_channel = \<lparr>chSchema = 1, chChannel = ''stable'', chGeneratedAt = [], chSequence = 7,
     chExpires = [], chProtocolMin = 1, chProtocolMax = 1, chBindings = [],
     chCore = \<lparr>ccVersion = ''1.0.0'', ccArtifacts = []\<rparr>, chModules = [ex_module]\<rparr>"

lemma ex_channel_parses: "ParseChannel (\<lambda>_. Inr ex_channel) data = Inr ex_channel"
proof -
  have "check_modules [ex_module] = Inr ()" by code_simp
  then show ?thesis by (simp add: ParseChannel_def ex_channel_def)
qed

theorem ParseChannel_paths_inside_witness:
  "Join (Join [''staging''] (cmID ex_module)) (cmVersion ex_module) = [''staging''] @ [cmID ex_module, cmVersion ex_module]"
  by (rule ParseChannel_paths_inside [OF ex_channel_parses [of "[]"]]) (simp add: ex_channel_def)

end
