(* ===== verification/Manifest_Verify.thy ===== *)
theory Manifest_Verify
  imports Manifest
begin

text \<open>
  The signing chain of channel manifests: the formats of \<open>src/sdk/manifest/sig.go\<close> and the
  verification of \<open>src/internal/manifestverify/verify.go\<close>. Ed25519 verification, base64 and
  the JSON decoding of keys and signatures are parameters, collected in the record \<open>crypto\<close>.
  The lemmas show the domain separation of the two signing roles and what an accepted bundle
  guarantees.
\<close>

section \<open>Formats\<close>

definition EndorseContext :: string where "EndorseContext = ''weave-endorse-v1''"
definition ManifestContext :: string where "ManifestContext = ''weave-manifest-v1''"

definition SigningMessage :: "string \<Rightarrow> bytes \<Rightarrow> bytes" where
  "SigningMessage context data = context @ CHR 0x00 # data"

record public_key =
  pkSchema :: int
  pkKeyID :: string
  pkPublicKey :: string

record signature =
  sigSchema :: int
  sigKeyID :: string
  sigSignature :: string

text \<open>The code the chain calls: Ed25519, base64 and the JSON decoder at its three types.\<close>

record crypto =
  edVerify :: "bytes \<Rightarrow> bytes \<Rightarrow> bytes \<Rightarrow> bool"
  base64Decode :: "string \<Rightarrow> bytes option"
  decodePublicKey :: "bytes \<Rightarrow> (string, public_key) result"
  decodeSignature :: "bytes \<Rightarrow> (string, signature) result"
  decodeChannel :: "bytes \<Rightarrow> (string, channel_manifest) result"

datatype key_error = KeyUndecodable string | KeyBadHeader | KeyBadBytes

definition ParsePublicKey :: "crypto \<Rightarrow> bytes \<Rightarrow> (key_error, public_key \<times> bytes) result" where
  "ParsePublicKey cr data =
     bind_result (map_error KeyUndecodable (decodePublicKey cr data)) (\<lambda>pk.
       if pkSchema pk \<noteq> 1 \<or> pkKeyID pk = [] then Inl KeyBadHeader
       else case base64Decode cr (pkPublicKey pk) of
         None \<Rightarrow> Inl KeyBadBytes
       | Some raw \<Rightarrow> if length raw \<noteq> 32 then Inl KeyBadBytes else Inr (pk, raw))"

definition ParseSignature :: "crypto \<Rightarrow> bytes \<Rightarrow> (key_error, signature \<times> bytes) result" where
  "ParseSignature cr data =
     bind_result (map_error KeyUndecodable (decodeSignature cr data)) (\<lambda>sig.
       if sigSchema sig \<noteq> 1 \<or> sigKeyID sig = [] then Inl KeyBadHeader
       else case base64Decode cr (sigSignature sig) of
         None \<Rightarrow> Inl KeyBadBytes
       | Some raw \<Rightarrow> if length raw \<noteq> 64 then Inl KeyBadBytes else Inr (sig, raw))"


section \<open>The chain\<close>

record signed_bundle =
  bManifest :: bytes
  bManifestSig :: bytes
  bSigningKey :: bytes
  bSigningKeySig :: bytes

datatype verify_error =
    EndorsementUnreadable key_error
  | NotEndorsedByRoot string
  | EndorsementInvalid
  | SigningKeyUnreadable key_error
  | ManifestSigUnreadable key_error
  | KeyMismatch string string
  | ManifestSigInvalid
  | PayloadInvalid manifest_error

definition Verify_bundle :: "crypto \<Rightarrow> bytes \<Rightarrow> signed_bundle \<Rightarrow> (verify_error, channel_manifest) result" where
  "Verify_bundle cr rootPub b =
     bind_result (map_error EndorsementUnreadable (ParseSignature cr (bSigningKeySig b))) (\<lambda>(endorsement, endorsementSig).
     if sigKeyID endorsement \<noteq> ''root'' then Inl (NotEndorsedByRoot (sigKeyID endorsement))
     else if \<not> edVerify cr rootPub (SigningMessage EndorseContext (bSigningKey b)) endorsementSig
       then Inl EndorsementInvalid
     else
       bind_result (map_error SigningKeyUnreadable (ParsePublicKey cr (bSigningKey b))) (\<lambda>(signingKey, signingKeyRaw).
       bind_result (map_error ManifestSigUnreadable (ParseSignature cr (bManifestSig b))) (\<lambda>(sig, sigRaw).
       if sigKeyID sig \<noteq> pkKeyID signingKey then Inl (KeyMismatch (sigKeyID sig) (pkKeyID signingKey))
       else if \<not> edVerify cr signingKeyRaw (SigningMessage ManifestContext (bManifest b)) sigRaw
         then Inl ManifestSigInvalid
       else map_error PayloadInvalid (ParseChannel (decodeChannel cr) (bManifest b)))))"


section \<open>Domain separation\<close>

lemma SigningMessage_split:
  assumes "CHR 0x00 \<notin> set c1" "CHR 0x00 \<notin> set c2" "SigningMessage c1 d1 = SigningMessage c2 d2"
  shows "c1 = c2 \<and> d1 = d2"
  using assms
proof (induction c1 arbitrary: c2)
  case Nil
  then show ?case by (cases c2) (auto simp: SigningMessage_def)
next
  case (Cons x c1)
  then show ?case by (cases c2) (auto simp: SigningMessage_def)
qed

lemma contexts_no_nul: "CHR 0x00 \<notin> set EndorseContext" "CHR 0x00 \<notin> set ManifestContext"
  by (simp_all add: EndorseContext_def ManifestContext_def)

lemma SigningMessage_same [simp]: "SigningMessage c d1 = SigningMessage c d2 \<longleftrightarrow> d1 = d2"
  by (simp add: SigningMessage_def)

lemma Verify_bundle_chain:
  assumes "Verify_bundle cr rootPub b = Inr c"
  obtains endorsement esig key raw sig sraw where
    "ParseSignature cr (bSigningKeySig b) = Inr (endorsement, esig)" "sigKeyID endorsement = ''root''"
    "edVerify cr rootPub (SigningMessage EndorseContext (bSigningKey b)) esig"
    "ParsePublicKey cr (bSigningKey b) = Inr (key, raw)"
    "ParseSignature cr (bManifestSig b) = Inr (sig, sraw)" "sigKeyID sig = pkKeyID key"
    "edVerify cr raw (SigningMessage ManifestContext (bManifest b)) sraw"
    "ParseChannel (decodeChannel cr) (bManifest b) = Inr c"
  using assms by (auto simp: Verify_bundle_def bind_result_Inr_iff split: if_splits prod.splits)


section \<open>Properties\<close>

text \<open>
  The message a key signs determines the role and the document: an endorsement is never a
  signed manifest, and two different documents never give the same message.
\<close>

theorem SigningMessage_roles:
  "SigningMessage EndorseContext d1 \<noteq> SigningMessage ManifestContext d2
   \<and> (SigningMessage ManifestContext d1 = SigningMessage ManifestContext d2 \<longleftrightarrow> d1 = d2)
   \<and> (SigningMessage EndorseContext d1 = SigningMessage EndorseContext d2 \<longleftrightarrow> d1 = d2)"
proof -
  have "SigningMessage EndorseContext d1 \<noteq> SigningMessage ManifestContext d2"
    using SigningMessage_split [OF contexts_no_nul, of d1 d2]
    by (auto simp: EndorseContext_def ManifestContext_def)
  then show ?thesis by simp
qed

text \<open>
  C6: a bundle that passes verification carries a manifest that was really published. If the root
  key verifies endorsements of the endorsed key files only, and the key of an endorsed file
  verifies the published manifests only, then \<open>Verify\<close> returns the parse of the exact bytes of
  a published manifest; its modules have valid ids and versions.
\<close>

theorem Verify_bundle_authentic:
  assumes root: "\<And>msg s. edVerify cr rootPub msg s \<Longrightarrow> \<exists>k \<in> endorsed. msg = SigningMessage EndorseContext k"
    and signer: "\<And>k key raw msg s. k \<in> endorsed \<Longrightarrow> ParsePublicKey cr k = Inr (key, raw) \<Longrightarrow>
      edVerify cr raw msg s \<Longrightarrow> \<exists>d \<in> published. msg = SigningMessage ManifestContext d"
    and ok: "Verify_bundle cr rootPub b = Inr c"
  shows "bManifest b \<in> published \<and> ParseChannel (decodeChannel cr) (bManifest b) = Inr c
    \<and> list_all (\<lambda>m. idRe (cmID m) \<and> versionRe (cmVersion m)) (chModules c)"
  using ok
proof (rule Verify_bundle_chain)
  fix endorsement esig key raw sig sraw
  assume chain: "edVerify cr rootPub (SigningMessage EndorseContext (bSigningKey b)) esig"
    "ParsePublicKey cr (bSigningKey b) = Inr (key, raw)"
    "edVerify cr raw (SigningMessage ManifestContext (bManifest b)) sraw"
    "ParseChannel (decodeChannel cr) (bManifest b) = Inr c"
  from root [OF chain(1)] have "bSigningKey b \<in> endorsed" by auto
  from signer [OF this chain(2,3)] have "bManifest b \<in> published" by auto
  with chain(4) show ?thesis
    by (auto simp: list_all_iff ParseChannel_def bind_result_Inr_iff check_modules_ok_iff split: if_splits)
qed

text \<open>A scheme in which each key verifies one message, and a bundle it accepts.\<close>

definition ex_key :: "char \<Rightarrow> bytes" where "ex_key c = replicate 32 c"

definition ex_crypto :: crypto where
  "ex_crypto = \<lparr>
     edVerify = (\<lambda>pub msg s. pub = ex_key CHR ''r'' \<and> msg = SigningMessage EndorseContext ''key''
        \<or> pub = ex_key CHR ''k'' \<and> msg = SigningMessage ManifestContext ''doc''),
     base64Decode = (\<lambda>s. Some s),
     decodePublicKey = (\<lambda>_. Inr \<lparr>pkSchema = 1, pkKeyID = ''k1'', pkPublicKey = ex_key CHR ''k''\<rparr>),
     decodeSignature = (\<lambda>d. Inr \<lparr>sigSchema = 1, sigKeyID = d, sigSignature = replicate 64 CHR ''s''\<rparr>),
     decodeChannel = (\<lambda>_. Inr ex_channel)\<rparr>"

definition ex_bundle :: signed_bundle where
  "ex_bundle = \<lparr>bManifest = ''doc'', bManifestSig = ''k1'', bSigningKey = ''key'', bSigningKeySig = ''root''\<rparr>"

theorem Verify_bundle_authentic_witness:
  "bManifest ex_bundle \<in> {''doc''} \<and> ParseChannel (decodeChannel ex_crypto) (bManifest ex_bundle) = Inr ex_channel
    \<and> list_all (\<lambda>m. idRe (cmID m) \<and> versionRe (cmVersion m)) (chModules ex_channel)"
proof (rule Verify_bundle_authentic [of ex_crypto "ex_key CHR ''r''" "{''key''}"])
  show "\<exists>k \<in> {''key''}. msg = SigningMessage EndorseContext k"
    if "edVerify ex_crypto (ex_key CHR ''r'') msg s" for msg s
    using that by (auto simp: ex_crypto_def ex_key_def)
  show "\<exists>d \<in> {''doc''}. msg = SigningMessage ManifestContext d"
    if "k \<in> {''key''}" "ParsePublicKey ex_crypto k = Inr (key, raw)" "edVerify ex_crypto raw msg s"
    for k key raw msg s
    using that by (auto simp: ex_crypto_def ex_key_def ParsePublicKey_def)
  show "Verify_bundle ex_crypto (ex_key CHR ''r'') ex_bundle = Inr ex_channel"
    using ex_channel_parses [of "''doc''"]
    by (simp add: Verify_bundle_def ex_crypto_def ex_bundle_def ParseSignature_def ParsePublicKey_def ex_key_def)
qed

text \<open>The same with an artifact for a host, and the digest of its two bytes under the identity.\<close>

definition ex_host_module :: channel_module where
  "ex_host_module = ex_module\<lparr>cmArtifacts := [\<lparr>caOS = ''linux'', caArch = ''amd64'', caURL = ''u'',
     caDigest = ''sha256:6869'', caSize = 2\<rparr>]\<rparr>"

definition ex_host_channel :: channel_manifest where
  "ex_host_channel = ex_channel\<lparr>chModules := [ex_host_module]\<rparr>"

definition ex_host_crypto :: crypto where
  "ex_host_crypto = ex_crypto\<lparr>decodeChannel := (\<lambda>_. Inr ex_host_channel)\<rparr>"

lemma ex_host_verifies: "Verify_bundle ex_host_crypto (ex_key CHR ''r'') ex_bundle = Inr ex_host_channel"
proof -
  have "check_modules (chModules ex_host_channel) = Inr ()" by code_simp
  then have "ParseChannel (\<lambda>_. Inr ex_host_channel) ''doc'' = Inr ex_host_channel"
    by (simp add: ParseChannel_def ex_host_channel_def ex_channel_def)
  then show ?thesis
    by (simp add: Verify_bundle_def ex_host_crypto_def ex_crypto_def ex_bundle_def ParseSignature_def ParsePublicKey_def ex_key_def)
qed

end
