(* ===== verification/Handshake.thy ===== *)
theory Handshake
  imports Weave_Decimal
begin

text \<open>
  The handshake vocabulary of core and modules (\<open>src/sdk/handshake/handshake.go\<close>): the line
  a module prints on its standard output, its printer \<open>Format\<close> and its parser
  \<open>Parse_line\<close>, and the protocol window of the environment with its parser
  \<open>ParseWindow\<close>. The lemmas show when printing and parsing are inverse to each other, that
  the parser returns well-formed lines only, and that re-printing a parsed line is stable.
\<close>

section \<open>The line\<close>

record line =
  lineProtocol :: uint32
  lineNetwork :: string
  lineAddr :: string

definition NetworkUnix :: string where "NetworkUnix = ''unix''"

definition NetworkPipe :: string where "NetworkPipe = ''npipe''"

definition legacyNetworkPipe :: string where "legacyNetworkPipe = ''winpipe''"

definition LineVersion :: nat where "LineVersion = 1"

definition ExitProtocolUnsupported :: int where "ExitProtocolUnsupported = 78"

definition Format :: "line \<Rightarrow> string" where
  "Format l = ''WEAVE|'' @ dec LineVersion @ ''|'' @ dec (unat (lineProtocol l)) @ ''|''
     @ lineNetwork l @ ''|'' @ lineAddr l"

text \<open>The errors of \<open>Parse\<close>, one per \<open>return Line{}, fmt.Errorf(...)\<close>.\<close>

datatype handshake_error =
    MalformedLine string
  | UnsupportedLineVersion string
  | BadProtocol string
  | UnknownNetwork string
  | EmptyAddress
  | BadWindowBound string string
  | InvalidWindow nat nat

text \<open>The checks of \<open>Parse\<close> on the fields of the split line, in the order of the code.\<close>

fun parse_fields :: "string \<Rightarrow> string list \<Rightarrow> (handshake_error, line) result" where
  "parse_fields s [magic, version, proto, net, addr] =
     (if magic \<noteq> ''WEAVE'' then Inl (MalformedLine s)
      else if ParseUint 32 version \<noteq> Some LineVersion then Inl (UnsupportedLineVersion version)
      else case ParseUint 32 proto of
        None \<Rightarrow> Inl (BadProtocol proto)
      | Some p \<Rightarrow>
          if p = 0 then Inl (BadProtocol proto)
          else
            let network = (if net = legacyNetworkPipe then NetworkPipe else net)
            in if network \<noteq> NetworkUnix \<and> network \<noteq> NetworkPipe then Inl (UnknownNetwork net)
               else if addr = [] then Inl EmptyAddress
               else Inr \<lparr>lineProtocol = of_nat p, lineNetwork = network, lineAddr = addr\<rparr>)"
| "parse_fields s _ = Inl (MalformedLine s)"

definition Parse_line :: "string \<Rightarrow> (handshake_error, line) result" where
  "Parse_line s = parse_fields s (Split (TrimSpace s) CHR ''|'')"

text \<open>
  The lines the parser can return: a protocol other than 0, one of the two networks, and a
  non-empty address that holds no separator and does not end in white space.
\<close>

definition wf_line :: "line \<Rightarrow> bool" where
  "wf_line l = (lineProtocol l \<noteq> 0 \<and> lineNetwork l \<in> {NetworkUnix, NetworkPipe}
     \<and> lineAddr l \<noteq> [] \<and> CHR ''|'' \<notin> set (lineAddr l) \<and> trim_right (lineAddr l) = lineAddr l)"


section \<open>The protocol window\<close>

record window =
  winMin :: uint32
  winMax :: uint32

definition Contains :: "window \<Rightarrow> uint32 \<Rightarrow> bool" where
  "Contains w p = (winMin w \<le> p \<and> p \<le> winMax w)"

definition EnvProtocolMin :: string where "EnvProtocolMin = ''WEAVE_PROTOCOL_MIN''"

definition EnvProtocolMax :: string where "EnvProtocolMax = ''WEAVE_PROTOCOL_MAX''"

definition ParseWindow :: "string \<Rightarrow> string \<Rightarrow> (handshake_error, window) result" where
  "ParseWindow min_s max_s =
     (case ParseUint 32 min_s of
        None \<Rightarrow> Inl (BadWindowBound EnvProtocolMin min_s)
      | Some lo \<Rightarrow>
          (case ParseUint 32 max_s of
             None \<Rightarrow> Inl (BadWindowBound EnvProtocolMax max_s)
           | Some hi \<Rightarrow>
               if lo = 0 \<or> hi < lo then Inl (InvalidWindow lo hi)
               else Inr \<lparr>winMin = of_nat lo, winMax = of_nat hi\<rparr>))"

definition wf_window :: "window \<Rightarrow> bool" where
  "wf_window w = (0 < winMin w \<and> winMin w \<le> winMax w)"


section \<open>Printing and parsing\<close>

lemmas network_defs = NetworkUnix_def NetworkPipe_def legacyNetworkPipe_def

lemma of_nat_uint32_unat: "p < 2 ^ 32 \<Longrightarrow> unat (of_nat p :: uint32) = p"
  by (simp add: unat_of_nat)

lemma uint32_unat_bound: "unat (p :: uint32) < 2 ^ 32"
  using unsigned_less [of p] by simp

lemma dec_LineVersion [simp]: "dec LineVersion = ''1''"
  by code_simp

lemma ParseUint_LineVersion [simp]: "ParseUint 32 ''1'' = Some LineVersion"
  using ParseUint_dec [of 32 LineVersion] by (simp add: LineVersion_def flip: dec_LineVersion)

lemma ParseUint_dec_protocol [simp]: "ParseUint 32 (dec (unat (p :: uint32))) = Some (unat p)"
  using uint32_unat_bound [of p] by (simp add: ParseUint_dec)

text \<open>Trimming a printed line can only shorten its address.\<close>

lemma TrimSpace_Format:
  "TrimSpace (Format l) = Format (l\<lparr>lineAddr := trim_right (lineAddr l)\<rparr>)"
proof -
  let ?h = "''WEAVE|1|'' @ dec (unat (lineProtocol l)) @ ''|'' @ lineNetwork l"
  have fmt: "Format l = ?h @ CHR ''|'' # lineAddr l"
    by (simp add: Format_def)
  have "trim_left (Format l) = Format l"
    by (simp add: Format_def trim_left_cons)
  moreover have "trim_right (?h @ CHR ''|'' # lineAddr l) = ?h @ CHR ''|'' # trim_right (lineAddr l)"
    by (rule trim_right_append) simp
  ultimately show ?thesis
    unfolding TrimSpace_def by (simp add: fmt) (simp add: Format_def)
qed

lemma Split_Format:
  assumes "CHR ''|'' \<notin> set (lineNetwork l)"
  shows "Split (Format l) CHR ''|'' =
    [''WEAVE'', ''1'', dec (unat (lineProtocol l)), lineNetwork l] @ Split (lineAddr l) CHR ''|''"
proof -
  have "Split (Format l) CHR ''|'' = ''WEAVE'' # ''1'' #
      Split (dec (unat (lineProtocol l)) @ CHR ''|'' # (lineNetwork l @ CHR ''|'' # lineAddr l)) CHR ''|''"
    by (simp add: Format_def)
  then show ?thesis using assms by (simp add: Split_append)
qed

lemma parse_fields_Inr_iff:
  "parse_fields s parts = Inr l \<longleftrightarrow>
    (\<exists>v p n a. parts = [''WEAVE'', v, p, n, a] \<and> ParseUint 32 v = Some LineVersion
       \<and> (\<exists>k. ParseUint 32 p = Some k \<and> k \<noteq> 0 \<and> lineProtocol l = of_nat k)
       \<and> lineNetwork l = (if n = legacyNetworkPipe then NetworkPipe else n)
       \<and> lineNetwork l \<in> {NetworkUnix, NetworkPipe} \<and> a \<noteq> [] \<and> lineAddr l = a)"
proof (cases "(s, parts)" rule: parse_fields.cases)
  case (1 s' magic version proto net addr)
  show ?thesis
  proof (cases "ParseUint 32 proto")
    case (Some k)
    let ?net = "if net = legacyNetworkPipe then NetworkPipe else net"
    have "parse_fields s parts = Inr l \<longleftrightarrow> magic = ''WEAVE'' \<and> ParseUint 32 version = Some LineVersion
        \<and> k \<noteq> 0 \<and> ?net \<in> {NetworkUnix, NetworkPipe} \<and> addr \<noteq> []
        \<and> l = \<lparr>lineProtocol = of_nat k, lineNetwork = ?net, lineAddr = addr\<rparr>"
      using 1 Some by (simp add: Let_def) blast
    with 1 Some show ?thesis by (cases l) auto
  qed (use 1 in simp)
qed simp_all

text \<open>What the parser returns is well formed, whatever was printed.\<close>

lemma trim_right_last_part:
  assumes "CHR ''|'' \<notin> set a" "trim_right (u @ CHR ''|'' # a) = u @ CHR ''|'' # a"
  shows "trim_right a = a"
  using assms(2) by (simp add: trim_right_append)

lemma Parse_line_wf:
  assumes "Parse_line s = Inr l"
  shows "wf_line l"
proof -
  from assms obtain v p n a k where parts: "Split (TrimSpace s) CHR ''|'' = [''WEAVE'', v, p, n, a]"
    and k: "ParseUint 32 p = Some k" "k \<noteq> 0" "lineProtocol l = of_nat k"
    and l: "lineNetwork l \<in> {NetworkUnix, NetworkPipe}" "a \<noteq> []" "lineAddr l = a"
    by (auto simp: Parse_line_def parse_fields_Inr_iff)
  have joined: "TrimSpace s = (''WEAVE|'' @ v @ ''|'' @ p @ ''|'' @ n) @ CHR ''|'' # a"
    using join_with_Split [of "CHR ''|''" "TrimSpace s"] by (simp add: parts)
  have nosep: "CHR ''|'' \<notin> set a"
    using Split_parts_no_sep [of a "TrimSpace s" "CHR ''|''"] by (simp add: parts)
  have "trim_right (TrimSpace s) = TrimSpace s"
    by (simp add: TrimSpace_def trim_right_idem)
  then have "trim_right a = a"
    unfolding joined by (rule trim_right_last_part [OF nosep])
  moreover have "unat (lineProtocol l) = k"
    using ParseUint_bound [OF k(1)] by (simp only: k(3) of_nat_uint32_unat)
  with k(2) have "lineProtocol l \<noteq> 0" by auto
  ultimately show ?thesis using l nosep by (simp add: wf_line_def)
qed

lemma Parse_line_Format:
  assumes "wf_line l"
  shows "Parse_line (Format l) = Inr l"
proof -
  from assms have net: "lineNetwork l = NetworkUnix \<or> lineNetwork l = NetworkPipe"
    by (auto simp: wf_line_def)
  then have "CHR ''|'' \<notin> set (lineNetwork l)" "lineNetwork l \<noteq> legacyNetworkPipe"
    by (auto simp: network_defs)
  moreover from assms have "l\<lparr>lineAddr := trim_right (lineAddr l)\<rparr> = l"
    by (cases l) (simp add: wf_line_def)
  moreover have "Split (lineAddr l) CHR ''|'' = [lineAddr l]"
    using assms by (simp add: wf_line_def Split_none)
  ultimately have "Split (TrimSpace (Format l)) CHR ''|'' =
      [''WEAVE'', ''1'', dec (unat (lineProtocol l)), lineNetwork l, lineAddr l]"
    by (simp add: TrimSpace_Format Split_Format)
  then show ?thesis
    using assms net \<open>lineNetwork l \<noteq> legacyNetworkPipe\<close>
    by (auto simp: Parse_line_def parse_fields_Inr_iff wf_line_def unat_gt_0)
qed


section \<open>Properties\<close>

text \<open>
  Printing a line with \<open>Format\<close> and reading it back with \<open>Parse\<close> gives the line itself
  exactly when the line is well formed: a non-zero protocol, one of the two networks, and a
  non-empty address without a separator and without trailing white space.
\<close>

theorem Parse_Format_roundtrip: "Parse_line (Format l) = Inr l \<longleftrightarrow> wf_line l"
  using Parse_line_wf Parse_line_Format by blast

text \<open>
  Whatever a module prints, a line that \<open>Parse\<close> accepts prints and parses back to itself,
  so the legacy network name is normalised once and surrounding white space is dropped once.
\<close>

theorem Parse_stable:
  assumes "Parse_line s = Inr l"
  shows "Parse_line (Format l) = Inr l \<and> wf_line l"
  using Parse_line_wf [OF assms] Parse_line_Format by blast

text \<open>Applied to a line of a module built against an SDK older than v0.3.\<close>

theorem Parse_stable_witness:
  "Parse_line (Format \<lparr>lineProtocol = 1, lineNetwork = ''npipe'', lineAddr = ''m''\<rparr>)
     = Inr \<lparr>lineProtocol = 1, lineNetwork = ''npipe'', lineAddr = ''m''\<rparr>"
proof -
  have "Parse_line ''WEAVE|1|1|winpipe|m''
      = Inr \<lparr>lineProtocol = 1, lineNetwork = ''npipe'', lineAddr = ''m''\<rparr>"
    by (simp add: Parse_line_def TrimSpace_def trim_left_def trim_right_def
        space_runes_def network_defs LineVersion_def ParseUint_def digit_val_def)
  from Parse_stable [OF this] show ?thesis by blast
qed

text \<open>
  \<open>ParseWindow\<close> accepts exactly the decimal 32-bit bounds with \<open>0 < min \<le> max\<close>, so an
  advertised window is read back as it was written and contains exactly the protocols between
  its bounds; an empty window or one that admits protocol 0 is refused.
\<close>

theorem ParseWindow_roundtrip:
  "ParseWindow (dec (unat (winMin w))) (dec (unat (winMax w))) = Inr w \<longleftrightarrow> wf_window w"
  by (cases w) (auto simp: ParseWindow_def wf_window_def word_le_nat_alt word_less_nat_alt
      unat_gt_0 unat_0_iff split: if_splits)

end
