(* ===== verification/Launch.thy ===== *)
theory Launch
  imports Handshake Manifest
begin

text \<open>
  Launching a module (\<open>src/internal/supervise/launch.go\<close>, \<open>src/internal/supervise/spawn_unix.go\<close>)
  with what it rests on: the capability check (\<open>src/internal/capability/probe.go\<close>), the gate on the
  peer of a local socket (\<open>src/sdk/ipc/peercred.go\<close>), and the two sinks for the output of a
  module. A launch is a function of what the world answers at each of its steps; it returns its
  result and the trace of its actions on the world, so that theorems can speak about their order and
  about what is left behind.
\<close>

section \<open>Capabilities\<close>

type_synonym capability_set = "(string \<times> (string \<times> string) list) list"

definition Has :: "capability_set \<Rightarrow> string list \<Rightarrow> string list" where
  "Has caps names = filter (\<lambda>n. map_of caps n = None) names"

lemma Has_Nil_iff: "Has caps names = [] \<longleftrightarrow> set names \<subseteq> fst ` set caps"
  by (force simp: Has_def filter_empty_conv map_of_eq_None_iff)


section \<open>The sinks\<close>

record line_capture =
  lcMax :: int
  lcBuf :: bytes
  lcDone :: bool
  lcLine :: "string option"

definition newlineChar :: char where "newlineChar = CHR 0x0A"

definition captureMax :: int where "captureMax = 2 ^ 16"

definition new_capture :: line_capture where
  "new_capture = \<lparr>lcMax = captureMax, lcBuf = [], lcDone = False, lcLine = None\<rparr>"

text \<open>The channel holds one line; a second one is discarded.\<close>

definition emit :: "string \<Rightarrow> line_capture \<Rightarrow> line_capture" where
  "emit l w = w\<lparr>lcDone := True, lcBuf := [], lcLine := (case lcLine w of None \<Rightarrow> Some l | Some l' \<Rightarrow> Some l')\<rparr>"

definition lc_Write :: "bytes \<Rightarrow> line_capture \<Rightarrow> line_capture" where
  "lc_Write p w =
     (if lcDone w then w
      else
        let buf = lcBuf w @ p
        in if newlineChar \<in> set buf then emit (takeWhile (\<lambda>c. c \<noteq> newlineChar) buf) w
           else if lcMax w > 0 \<and> int (length buf) > lcMax w then emit [] w
           else w\<lparr>lcBuf := buf\<rparr>)"

record line_log =
  llLines :: "string list"
  llBuf :: bytes

text \<open>The loop of \<open>lineLog.Write\<close>: the complete lines of a buffer and what is left.\<close>

fun cut_lines :: "bytes \<Rightarrow> bytes \<Rightarrow> string list \<times> bytes" where
  "cut_lines acc [] = ([], acc)"
| "cut_lines acc (c # cs) =
     (if c = newlineChar then (case cut_lines [] cs of (ls, rest) \<Rightarrow> (acc # ls, rest))
      else cut_lines (acc @ [c]) cs)"

definition ll_Write :: "bytes \<Rightarrow> line_log \<Rightarrow> line_log" where
  "ll_Write p w =
     (case cut_lines [] (llBuf w @ p) of (ls, rest) \<Rightarrow> w\<lparr>llLines := llLines w @ ls, llBuf := rest\<rparr>)"

lemma cut_lines_append:
  "cut_lines acc (xs @ ys) =
     (case cut_lines acc xs of (ls, rest) \<Rightarrow> case cut_lines rest ys of (ls', rest') \<Rightarrow> (ls @ ls', rest'))"
  by (induction acc xs rule: cut_lines.induct) (auto split: prod.splits)

lemma cut_lines_plain: "newlineChar \<notin> set xs \<Longrightarrow> cut_lines acc xs = ([], acc @ xs)"
  by (induction acc xs rule: cut_lines.induct) auto

lemma cut_lines_rest: "newlineChar \<notin> set acc \<Longrightarrow> newlineChar \<notin> set (snd (cut_lines acc xs))"
  by (induction acc xs rule: cut_lines.induct) (auto split: prod.splits)

text \<open>How the output arrives does not matter for the log: chunks make the lines of the whole.\<close>

lemma ll_chunks:
  assumes "newlineChar \<notin> set (llBuf w)"
  shows "foldl (\<lambda>w p. ll_Write p w) w ps = ll_Write (concat ps) w"
  using assms
proof (induction ps arbitrary: w)
  case Nil
  then show ?case by (simp add: ll_Write_def cut_lines_plain)
next
  case (Cons p ps)
  obtain ls rest where c: "cut_lines [] (llBuf w @ p) = (ls, rest)" by fastforce
  have plain: "newlineChar \<notin> set rest" using cut_lines_rest [of "[]" "llBuf w @ p"] c by simp
  have "cut_lines [] (rest @ concat ps) = cut_lines rest (concat ps)"
    using cut_lines_append [of "[]" rest "concat ps"] cut_lines_plain [OF plain] by simp
  with Cons.IH [of "ll_Write p w"] c plain show ?case
    using cut_lines_append [of "[]" "llBuf w @ p" "concat ps"]
    by (simp add: ll_Write_def split: prod.splits)
qed


section \<open>Peers of a local socket\<close>

record peer_cred =
  pcUID :: uint32
  pcHasUID :: bool
  pcPID :: int
  pcHasPID :: bool

text \<open>
  \<open>authListener.Accept\<close> on the connections that arrive: the first one the authorizer admits, with the
  ones it closed on the way; nothing when the listener fails first.
\<close>

fun Accept :: "(peer_cred \<Rightarrow> bool) option \<Rightarrow> peer_cred list \<Rightarrow> peer_cred list \<times> peer_cred option" where
  "Accept authorize [] = ([], None)"
| "Accept authorize (c # cs) =
     (case authorize of
        None \<Rightarrow> ([], Some c)
      | Some f \<Rightarrow> if f c then ([], Some c) else (case Accept authorize cs of (closed, r) \<Rightarrow> (c # closed, r)))"

lemma Accept_admits: "Accept (Some f) cs = (closed, Some c) \<Longrightarrow> f c \<and> list_all (\<lambda>d. \<not> f d) closed"
  by (induction cs arbitrary: closed) (auto split: if_splits prod.splits)


section \<open>Privilege\<close>

datatype priv_error = SessionUnsupported string | ServiceAccountMissing | BadAccountID | PerUserUnsupported string

text \<open>The host as the credentials see it: the effective and the real uid, and the service account.\<close>

record unix_host =
  uhEuid :: nat
  uhUid :: uint32
  uhAccount :: "(string \<times> string) option"

definition dropCreds :: "unix_host \<Rightarrow> manifest \<Rightarrow> (priv_error, (uint32 \<times> uint32) option) result" where
  "dropCreds u m =
     (if mfSession m \<noteq> SessionSystem then Inl (SessionUnsupported (mfSession m))
      else if uhEuid u \<noteq> 0 then Inr None
      else if mfPrivilege m = PrivilegeSystem then Inr None
      else if mfPrivilege m = PrivilegeService then
        (case uhAccount u of
           None \<Rightarrow> Inl ServiceAccountMissing
         | Some (us, gs) \<Rightarrow>
             (case ParseUint 32 us of
                None \<Rightarrow> Inl BadAccountID
              | Some uid \<Rightarrow>
                  (case ParseUint 32 gs of
                     None \<Rightarrow> Inl BadAccountID
                   | Some gid \<Rightarrow> Inr (Some (of_nat uid, of_nat gid)))))
      else Inl (PerUserUnsupported (mfPrivilege m)))"

definition authorizeModulePeer :: "unix_host \<Rightarrow> manifest \<Rightarrow> peer_cred \<Rightarrow> bool" where
  "authorizeModulePeer u m p =
     (\<not> pcHasUID p
      \<or> pcUID p \<in> {0, uhUid u} \<union> (case dropCreds u m of Inr (Some (uid, _)) \<Rightarrow> {uid} | _ \<Rightarrow> {}))"

datatype privilege_level = LevelSystem | LevelUser | LevelService

definition privilegeLevel :: "manifest \<Rightarrow> privilege_level" where
  "privilegeLevel m =
     (if mfPrivilege m = PrivilegeSystem then LevelSystem
      else if mfPrivilege m = PrivilegeUser then LevelUser else LevelService)"


section \<open>Launch\<close>

record spec =
  spManifest :: manifest
  spBinPath :: path
  spConfig :: bytes

record init_request =
  irProtocol :: uint32
  irModuleID :: string
  irCapabilities :: capability_set
  irConfig :: bytes
  irPrivilege :: privilege_level
  irWatchdogSeconds :: uint32

record init_response =
  irRequires :: "string list"
  irHealthIntervalSeconds :: uint32
  irSurfaces :: "string list"

record settings =
  stWindow :: window
  stCaps :: capability_set
  stVerifier :: "path \<Rightarrow> manifest \<Rightarrow> string option"
  stHost :: unix_host
  stRunDir :: string
  stWatchdogInterval :: duration

text \<open>What the process does first, and what the world answers at each step of a launch.\<close>

datatype first_event = FirstLine string | ExitedEarly int | HandshakeTimeout | LaunchCancelled

record launch_io =
  ioResetDir :: "string option"
  ioMakeDir :: "string option"
  ioNonce :: "bytes option"
  ioListen :: "string option"
  ioChownDir :: "string option"
  ioChownHost :: "string option"
  ioExec :: "string option"
  ioFirst :: first_event
  ioDial :: "string option"
  ioInit :: "(string, init_response) result"
  ioStart :: "string option"
  ioPid :: int

datatype launch_error =
    VerifyFailed string | SockDirFailed string | NonceFailed | ListenFailed string
  | SockDirPermissions "string + priv_error" | PrivilegeFailed priv_error | ExecFailed string
  | ProtocolUnsupported | ExitedBeforeHandshake int | TimedOut | Cancelled
  | BadHandshake handshake_error | OutsideWindow uint32
  | DialFailed string | InitFailed string | RequirementsUnmet "string list" | StartFailed string

datatype action =
    VerifyBin path manifest
  | HostUp string string "string list"
  | Spawn path "string list" "(uint32 \<times> uint32) option"
  | ProcExited | KillProc | CloseJob | HostStop
  | Dialed string string | InitCall init_request | StartCall | CloseConn
  | StopCall | ShutdownCall

definition hex_digit :: "nat \<Rightarrow> char" where
  "hex_digit n = ''0123456789abcdef'' ! n"

definition hex_encode :: "bytes \<Rightarrow> string" where
  "hex_encode b = concat (map (\<lambda>c. [hex_digit (of_char c div 16), hex_digit (of_char c mod 16)]) b)"

definition hex_chars :: string where "hex_chars = ''0123456789abcdef''"

lemma hex_digit_in: "n < 16 \<Longrightarrow> hex_digit n \<in> set hex_chars"
  unfolding hex_digit_def hex_chars_def by (rule nth_mem) simp

lemma hex_digit_inj: "m < 16 \<Longrightarrow> n < 16 \<Longrightarrow> hex_digit m = hex_digit n \<Longrightarrow> m = n"
proof -
  have "distinct ''0123456789abcdef''" by simp
  then show "m < 16 \<Longrightarrow> n < 16 \<Longrightarrow> hex_digit m = hex_digit n \<Longrightarrow> m = n"
    by (simp add: hex_digit_def nth_eq_iff_index_eq)
qed

lemma of_char_bound: "(of_char c :: nat) < 256"
  by simp

lemma length_hex_encode: "length (hex_encode b) = 2 * length b"
  by (induction b) (simp_all add: hex_encode_def)

lemma set_hex_encode: "set (hex_encode b) \<subseteq> set hex_chars"
proof -
  have "of_char c div 16 < (16 :: nat)" for c :: char using of_char_bound [of c] by linarith
  then show ?thesis by (auto simp: hex_encode_def intro!: hex_digit_in)
qed

lemma hex_encode_inj: "hex_encode a = hex_encode b \<Longrightarrow> a = b"
proof (induction a arbitrary: b)
  case Nil
  then show ?case by (cases b) (simp_all add: hex_encode_def)
next
  case (Cons c a)
  then obtain d b' where b: "b = d # b'" by (cases b) (simp_all add: hex_encode_def)
  have lt: "of_char x div 16 < (16 :: nat)" for x :: char using of_char_bound [of x] by linarith
  have "hex_digit (of_char c div 16) = hex_digit (of_char d div 16)" "hex_digit (of_char c mod 16) = hex_digit (of_char d mod 16)"
    "hex_encode a = hex_encode b'"
    using Cons.prems by (simp_all add: b hex_encode_def)
  then have "of_char c div 16 = (of_char d div 16 :: nat)" "of_char c mod 16 = (of_char d mod 16 :: nat)" "a = b'"
    using hex_digit_inj lt Cons.IH by simp_all
  then have "(of_char c :: nat) = of_char d" by (metis div_mult_mod_eq)
  then show ?case using \<open>a = b'\<close> by (simp add: b)
qed

lemma hex_plain: "list_all no_space (hex_encode b)" "CHR 0x0A \<notin> set (hex_encode b)"
proof -
  have "list_all no_space hex_chars" "CHR 0x0A \<notin> set hex_chars" by code_simp+
  with set_hex_encode [of b] show "list_all no_space (hex_encode b)" "CHR 0x0A \<notin> set (hex_encode b)"
    by (auto simp: list_all_iff)
qed

definition EnvToken :: string where "EnvToken = ''WEAVE_HANDSHAKE_TOKEN''"
definition EnvHostAddr :: string where "EnvHostAddr = ''WEAVE_HOST_ADDR''"
definition EnvSocketDir :: string where "EnvSocketDir = ''WEAVE_SOCKET_DIR''"

definition ModuleRunDir :: "string \<Rightarrow> string \<Rightarrow> string" where
  "ModuleRunDir runDir m = runDir @ ''/modules/'' @ m"

text \<open>What a launch adds to the environment: the window, the token and the addresses.\<close>

definition window_env :: "window \<Rightarrow> string list" where
  "window_env w = [EnvProtocolMin @ ''='' @ dec (unat (winMin w)), EnvProtocolMax @ ''='' @ dec (unat (winMax w))]"

text \<open>The address of the host services: a socket in the module's directory, or a pipe on Windows.\<close>

definition host_addr :: "bool \<Rightarrow> settings \<Rightarrow> spec \<Rightarrow> string \<Rightarrow> string" where
  "host_addr windows st sp token =
     (if windows then [CHR 0x5C, CHR 0x5C, CHR ''.'', CHR 0x5C] @ ''pipe'' @ [CHR 0x5C] @ ''weave-host-'' @ mfID (spManifest sp) @ ''-'' @ take 8 token
      else ModuleRunDir (stRunDir st) (mfID (spManifest sp)) @ ''/host.sock'')"

text \<open>The variables added to the environment of a module, on either platform, and those of the launch on unix that follows.\<close>

definition module_env :: "bool \<Rightarrow> settings \<Rightarrow> spec \<Rightarrow> string \<Rightarrow> string list" where
  "module_env windows st sp token =
     window_env (stWindow st) @ [EnvToken @ ''='' @ token, EnvHostAddr @ ''='' @ host_addr windows st sp token,
       EnvSocketDir @ ''='' @ ModuleRunDir (stRunDir st) (mfID (spManifest sp))]"

definition handshake_env :: "settings \<Rightarrow> spec \<Rightarrow> string \<Rightarrow> string list" where
  "handshake_env st sp token = module_env False st sp token"

text \<open>
  Sequencing with a trace, and the cleanup closures \<open>fail\<close> and \<open>cleanupProc\<close>: actions that are
  added when what they guard fails.
\<close>

type_synonym 'a traced = "(launch_error, 'a) result \<times> action list"

definition then_do :: "'a traced \<Rightarrow> ('a \<Rightarrow> 'b traced) \<Rightarrow> 'b traced" where
  "then_do m f = (case m of (Inl e, tr) \<Rightarrow> (Inl e, tr) | (Inr a, tr) \<Rightarrow> (case f a of (r, tr') \<Rightarrow> (r, tr @ tr')))"

definition on_fail :: "action list \<Rightarrow> 'a traced \<Rightarrow> 'a traced" where
  "on_fail cleanup m = (case m of (Inl e, tr) \<Rightarrow> (Inl e, tr @ cleanup) | (Inr a, tr) \<Rightarrow> (Inr a, tr))"

definition attempt :: "action list \<Rightarrow> (string \<Rightarrow> launch_error) \<Rightarrow> string option \<Rightarrow> unit traced" where
  "attempt done f err = (case err of None \<Rightarrow> (Inr (), done) | Some e \<Rightarrow> (Inl (f e), []))"

record proc =
  prPid :: int
  prLine :: line
  prInit :: init_response

definition prepareSocketDir :: "unix_host \<Rightarrow> manifest \<Rightarrow> launch_io \<Rightarrow> (string + priv_error) option" where
  "prepareSocketDir u m io =
     (case dropCreds u m of
        Inl e \<Rightarrow> Some (Inr e)
      | Inr None \<Rightarrow> None
      | Inr (Some _) \<Rightarrow>
          (case ioChownDir io of
             Some e \<Rightarrow> Some (Inl e)
           | None \<Rightarrow> map_option Inl (ioChownHost io)))"

text \<open>Dial, Init, the requirements declared at run time, and Start.\<close>

definition init_and_start :: "settings \<Rightarrow> spec \<Rightarrow> launch_io \<Rightarrow> line \<Rightarrow> proc traced" where
  "init_and_start st sp io l =
     then_do (attempt [Dialed (lineNetwork l) (lineAddr l)] DialFailed (ioDial io)) (\<lambda>_.
       on_fail [CloseConn]
         (then_do (map_error InitFailed (ioInit io),
             [InitCall \<lparr>irProtocol = lineProtocol l, irModuleID = mfID (spManifest sp), irCapabilities = stCaps st,
                irConfig = spConfig sp, irPrivilege = privilegeLevel (spManifest sp),
                irWatchdogSeconds = of_int (stWatchdogInterval st div 10 ^ 9)\<rparr>]) (\<lambda>resp.
            let missing = Has (stCaps st) (irRequires resp)
            in if missing \<noteq> [] then (Inl (RequirementsUnmet missing), [])
               else then_do (attempt [StartCall] StartFailed (ioStart io)) (\<lambda>_.
                 (Inr \<lparr>prPid = ioPid io, prLine = l, prInit = resp\<rparr>, [])))))"

definition check_line :: "settings \<Rightarrow> string \<Rightarrow> (launch_error, line) result" where
  "check_line st raw =
     (case Parse_line raw of
        Inl e \<Rightarrow> Inl (BadHandshake e)
      | Inr l \<Rightarrow> if Contains (stWindow st) (lineProtocol l) then Inr l else Inl (OutsideWindow (lineProtocol l)))"

text \<open>From the running process to the handshake and on.\<close>

definition await_handshake :: "settings \<Rightarrow> spec \<Rightarrow> launch_io \<Rightarrow> proc traced" where
  "await_handshake st sp io =
     (case ioFirst io of
        ExitedEarly code \<Rightarrow>
          (Inl (if code = ExitProtocolUnsupported then ProtocolUnsupported else ExitedBeforeHandshake code),
           [ProcExited, CloseJob])
      | HandshakeTimeout \<Rightarrow> on_fail [KillProc, CloseJob] (Inl TimedOut, [])
      | LaunchCancelled \<Rightarrow> on_fail [KillProc, CloseJob] (Inl Cancelled, [])
      | FirstLine raw \<Rightarrow>
          on_fail [KillProc, CloseJob] (then_do (check_line st raw, []) (init_and_start st sp io)))"

definition spawn_module :: "settings \<Rightarrow> spec \<Rightarrow> launch_io \<Rightarrow> string \<Rightarrow> proc traced" where
  "spawn_module st sp io token =
     (case prepareSocketDir (stHost st) (spManifest sp) io of
        Some e \<Rightarrow> (Inl (SockDirPermissions e), [])
      | None \<Rightarrow>
          (case dropCreds (stHost st) (spManifest sp) of
             Inl e \<Rightarrow> (Inl (PrivilegeFailed e), [])
           | Inr cred \<Rightarrow>
               then_do (attempt [Spawn (spBinPath sp) (handshake_env st sp token) cred]
                   ExecFailed (ioExec io))
                 (\<lambda>_. await_handshake st sp io)))"

definition launch :: "settings \<Rightarrow> spec \<Rightarrow> launch_io \<Rightarrow> proc traced" where
  "launch st sp io =
     (case stVerifier st (spBinPath sp) (spManifest sp) of
        Some e \<Rightarrow> (Inl (VerifyFailed e), [VerifyBin (spBinPath sp) (spManifest sp)])
      | None \<Rightarrow>
          then_do (Inr (), [VerifyBin (spBinPath sp) (spManifest sp)]) (\<lambda>_.
          then_do (attempt [] SockDirFailed (ioResetDir io)) (\<lambda>_.
          then_do (attempt [] SockDirFailed (ioMakeDir io)) (\<lambda>_.
            case ioNonce io of
              None \<Rightarrow> (Inl NonceFailed, [])
            | Some nonce \<Rightarrow>
                let token = hex_encode nonce
                in then_do (attempt [HostUp (mfID (spManifest sp)) token (mfSubscribes (spManifest sp))] ListenFailed (ioListen io))
                     (\<lambda>_. on_fail [HostStop] (spawn_module st sp io token))))))"

section \<open>Winding down\<close>

definition teardown :: "action list" where "teardown = [CloseConn, HostStop, CloseJob]"

definition proc_kill :: "action list" where "proc_kill = [KillProc, ProcExited] @ teardown"

text \<open>\<open>stop\<close>; the argument says whether the process exits within the grace period.\<close>

definition proc_stop :: "bool \<Rightarrow> action list" where
  "proc_stop exits = [StopCall, ShutdownCall] @ (if exits then [ProcExited] else [KillProc, ProcExited]) @ teardown"


section \<open>What a trace leaves behind\<close>

datatype resource = RHost | RProcess | RConn

fun replay1 :: "action \<Rightarrow> resource set \<Rightarrow> resource set" where
  "replay1 (HostUp _ _ _) R = insert RHost R"
| "replay1 HostStop R = R - {RHost}"
| "replay1 (Spawn _ _ _) R = insert RProcess R"
| "replay1 ProcExited R = R - {RProcess}"
| "replay1 KillProc R = R - {RProcess}"
| "replay1 (Dialed _ _) R = insert RConn R"
| "replay1 CloseConn R = R - {RConn}"
| "replay1 _ R = R"

definition replay :: "action list \<Rightarrow> resource set \<Rightarrow> resource set" where
  "replay tr R = fold replay1 tr R"

lemma replay_append: "replay (tr @ tr') R = replay tr' (replay tr R)"
  by (simp add: replay_def)

text \<open>Started with the resources \<open>R\<close>, a step ends with \<open>ok\<close> on success and with \<open>failed\<close> otherwise.\<close>

definition leaves :: "resource set \<Rightarrow> resource set \<Rightarrow> resource set \<Rightarrow> 'a traced \<Rightarrow> bool" where
  "leaves R ok failed m = (case m of (Inl _, tr) \<Rightarrow> replay tr R = failed | (Inr _, tr) \<Rightarrow> replay tr R = ok)"

lemma leaves_then_do:
  assumes "leaves R R' failed m" "\<And>a. leaves R' ok failed (f a)"
  shows "leaves R ok failed (then_do m f)"
proof -
  obtain r tr where m: "m = (r, tr)" by fastforce
  show ?thesis
  proof (cases r)
    case (Inr a)
    obtain r' tr' where f: "f a = (r', tr')" by fastforce
    have "replay tr R = R'" using assms(1) by (simp add: leaves_def m Inr)
    with assms(2) [of a] show ?thesis by (cases r') (simp_all add: leaves_def then_do_def m Inr f replay_append)
  qed (use assms(1) in \<open>simp add: leaves_def then_do_def m\<close>)
qed

lemma leaves_on_fail:
  "leaves R ok failed m \<Longrightarrow> replay cleanup failed = failed' \<Longrightarrow> leaves R ok failed' (on_fail cleanup m)"
  by (auto simp: leaves_def on_fail_def replay_def split: prod.splits sum.splits)

lemma leaves_attempt: "replay done R = ok \<Longrightarrow> leaves R ok R (attempt done f err)"
  by (auto simp: leaves_def attempt_def replay_def split: option.splits)

lemma leaves_pure: "leaves R R R (r, [])"
  by (auto simp: leaves_def replay_def split: sum.splits)

lemma leaves_init_and_start:
  "leaves {RHost, RProcess} {RHost, RProcess, RConn} {RHost, RProcess} (init_and_start st sp io l)"
  unfolding init_and_start_def
proof (rule leaves_then_do [OF leaves_attempt leaves_on_fail])
  show "leaves {RConn, RHost, RProcess} {RHost, RProcess, RConn} {RConn, RHost, RProcess}
      (then_do (map_error InitFailed (ioInit io), [InitCall q]) (\<lambda>resp.
         let missing = Has (stCaps st) (irRequires resp)
         in if missing \<noteq> [] then (Inl (RequirementsUnmet missing), [])
            else then_do (attempt [StartCall] StartFailed (ioStart io))
              (\<lambda>_. (Inr \<lparr>prPid = ioPid io, prLine = l, prInit = resp\<rparr>, []))))" for q
    by (rule leaves_then_do [where R' = "{RConn, RHost, RProcess}"])
      (auto simp: leaves_def Let_def then_do_def attempt_def replay_def split: sum.splits option.splits)
qed (auto simp: replay_def)

lemma leaves_await_handshake:
  "leaves {RHost, RProcess} {RHost, RProcess, RConn} {RHost} (await_handshake st sp io)"
proof (cases "ioFirst io")
  case (FirstLine raw)
  have "leaves {RHost, RProcess} {RHost, RProcess, RConn} {RHost, RProcess}
      (then_do (check_line st raw, []) (init_and_start st sp io))"
    by (rule leaves_then_do [OF leaves_pure leaves_init_and_start])
  then show ?thesis
    by (simp add: await_handshake_def FirstLine)
      (rule leaves_on_fail, assumption, auto simp: replay_def)
qed (auto simp: await_handshake_def leaves_def on_fail_def replay_def)

lemma leaves_spawn_module: "leaves {RHost} {RHost, RProcess, RConn} {RHost} (spawn_module st sp io token)"
  unfolding spawn_module_def
  by (auto split: option.splits sum.splits
      intro!: leaves_then_do [OF leaves_attempt leaves_await_handshake] simp: leaves_def [of _ _ _ "(_, _)"] replay_def)

lemma leaves_launch: "leaves {} {RHost, RProcess, RConn} {} (launch st sp io)"
proof -
  have up: "leaves {} {RHost, RProcess, RConn} {} (then_do (attempt [HostUp m t subs] ListenFailed (ioListen io))
      (\<lambda>_. on_fail [HostStop] (spawn_module st sp io token)))" for m t subs token
    by (rule leaves_then_do [OF leaves_attempt leaves_on_fail [OF leaves_spawn_module]]) (simp_all add: replay_def)
  have verified: "leaves {} {} {} (Inr (), [VerifyBin b m])" for b m by (simp add: leaves_def replay_def)
  show ?thesis
    unfolding launch_def
    by (auto split: option.splits simp: Let_def leaves_def [of _ _ _ "(_, _)"] replay_def
        intro!: leaves_then_do [OF verified] leaves_then_do [OF leaves_attempt] up)
qed

text \<open>The calls that appear in a trace.\<close>

lemma trace_then_do: "a \<in> set (snd (then_do m f)) \<Longrightarrow> a \<in> set (snd m) \<or> (\<exists>x. fst m = Inr x \<and> a \<in> set (snd (f x)))"
  by (auto simp: then_do_def split: prod.splits sum.splits)

lemma trace_on_fail: "a \<in> set (snd (on_fail cleanup m)) \<Longrightarrow> a \<in> set cleanup \<or> a \<in> set (snd m)"
  by (auto simp: on_fail_def split: prod.splits sum.splits)

lemma result_then_do: "fst (then_do m f) = Inr y \<longleftrightarrow> (\<exists>x. fst m = Inr x \<and> fst (f x) = Inr y)"
  by (auto simp: then_do_def split: prod.splits sum.splits)

lemma result_on_fail [simp]: "fst (on_fail cleanup m) = fst m"
  by (auto simp: on_fail_def split: prod.splits sum.splits)

lemma result_attempt: "fst (attempt done f err) = Inr u \<longleftrightarrow> err = None"
  by (auto simp: attempt_def split: option.splits)

lemma trace_attempt: "a \<in> set (snd (attempt done f err)) \<Longrightarrow> a \<in> set done"
  by (auto simp: attempt_def split: option.splits)

lemmas traced_rules = trace_then_do trace_on_fail trace_attempt

lemma check_line_ok:
  "check_line st raw = Inr l \<longleftrightarrow> Parse_line raw = Inr l \<and> Contains (stWindow st) (lineProtocol l)"
  by (auto simp: check_line_def split: sum.splits)

lemma init_and_start_calls:
  assumes "InitCall q \<in> set (snd (init_and_start st sp io l))"
  shows "irProtocol q = lineProtocol l \<and> irModuleID q = mfID (spManifest sp)"
  using assms unfolding init_and_start_def
  by (auto dest!: traced_rules simp: Let_def split: if_splits)

lemma await_handshake_calls:
  assumes "InitCall q \<in> set (snd (await_handshake st sp io))"
  shows "Contains (stWindow st) (irProtocol q)"
  using assms unfolding await_handshake_def
  by (auto dest!: traced_rules init_and_start_calls simp: check_line_ok split: first_event.splits)

lemma init_and_start_no_spawn: "Spawn b env c \<notin> set (snd (init_and_start st sp io l))"
  unfolding init_and_start_def by (auto dest!: traced_rules simp: Let_def split: if_splits)

lemma await_handshake_no_spawn: "Spawn b env c \<notin> set (snd (await_handshake st sp io))"
  unfolding await_handshake_def
  by (auto dest!: traced_rules simp: init_and_start_no_spawn split: first_event.splits)

lemma spawn_module_calls:
  "Spawn b env c \<in> set (snd (spawn_module st sp io token)) \<Longrightarrow>
     b = spBinPath sp \<and> dropCreds (stHost st) (spManifest sp) = Inr c \<and> env = handshake_env st sp token"
  "InitCall q \<in> set (snd (spawn_module st sp io token)) \<Longrightarrow> Contains (stWindow st) (irProtocol q)"
  unfolding spawn_module_def
  by (auto dest!: traced_rules await_handshake_calls simp: await_handshake_no_spawn split: option.splits sum.splits)

lemma init_and_start_ok:
  assumes "fst (init_and_start st sp io l) = Inr pr"
  shows "prLine pr = l \<and> set (irRequires (prInit pr)) \<subseteq> fst ` set (stCaps st)"
  using assms unfolding init_and_start_def
  by (auto simp: result_then_do Let_def Has_Nil_iff split: if_splits)


section \<open>Properties\<close>

text \<open>
  C10: a launch is safe on every path. Its first action is to verify the binary; a process is spawned
  only from that binary after the verification succeeded, under the credentials the manifest asks
  for; Init is called only with a protocol inside core's window. When the launch fails, whatever step
  failed, no host server, no process and no connection of it is left; when it succeeds, the
  requirements the module declared are all among the capabilities of the host.
\<close>

theorem launch_safe:
  assumes "launch st sp io = (r, tr)"
  shows "hd tr = VerifyBin (spBinPath sp) (spManifest sp)
    \<and> (\<forall>b env c. Spawn b env c \<in> set tr \<longrightarrow> b = spBinPath sp \<and> stVerifier st b (spManifest sp) = None
         \<and> dropCreds (stHost st) (spManifest sp) = Inr c)
    \<and> (\<forall>q. InitCall q \<in> set tr \<longrightarrow> Contains (stWindow st) (irProtocol q))
    \<and> (case r of
         Inl e \<Rightarrow> replay tr {} = {}
       | Inr pr \<Rightarrow> replay tr {} = {RHost, RProcess, RConn}
           \<and> Contains (stWindow st) (lineProtocol (prLine pr))
           \<and> set (irRequires (prInit pr)) \<subseteq> fst ` set (stCaps st))"
proof -
  have fst: "fst (launch st sp io) = r" and snd: "snd (launch st sp io) = tr" using assms by simp_all
  have "hd tr = VerifyBin (spBinPath sp) (spManifest sp)"
    unfolding snd [symmetric] launch_def
    by (auto simp: then_do_def [of "(Inr (), [_])"] split: option.splits prod.splits)
  moreover have "b = spBinPath sp \<and> stVerifier st b (spManifest sp) = None \<and> dropCreds (stHost st) (spManifest sp) = Inr c"
    if "Spawn b env c \<in> set tr" for b env c
    using that unfolding snd [symmetric] launch_def
    by (auto dest!: traced_rules spawn_module_calls(1) simp: Let_def split: option.splits)
  moreover have "Contains (stWindow st) (irProtocol q)" if "InitCall q \<in> set tr" for q
    using that unfolding snd [symmetric] launch_def
    by (auto dest!: traced_rules spawn_module_calls(2) simp: Let_def split: option.splits)
  moreover have "Contains (stWindow st) (lineProtocol (prLine pr)) \<and> set (irRequires (prInit pr)) \<subseteq> fst ` set (stCaps st)"
    if "r = Inr pr" for pr
    using that unfolding fst [symmetric] launch_def spawn_module_def await_handshake_def
    by (auto simp: result_then_do result_attempt Let_def check_line_ok dest!: init_and_start_ok
        split: option.splits sum.splits first_event.splits)
  ultimately show ?thesis
    using leaves_launch [of st sp io] by (auto simp: assms leaves_def split: sum.splits)
qed

definition ex_spec :: spec where
  "ex_spec = \<lparr>spManifest = \<lparr>mfSchema = 1, mfID = ''sysinfo'', mfVersion = ''1.0.0'', mfProtocol = 1, mfZone = ''A'',
       mfPrivilege = PrivilegeService, mfSession = SessionSystem, mfPlatforms = [], mfCapabilities = [],
       mfSubscribes = [], mfSigning = None, mfArtifacts = []\<rparr>, spBinPath = [''bin''], spConfig = []\<rparr>"

definition ex_settings :: settings where
  "ex_settings = \<lparr>stWindow = \<lparr>winMin = 1, winMax = 2\<rparr>, stCaps = [(''platform.osinfo'', [])], stVerifier = (\<lambda>_ _. None),
     stHost = \<lparr>uhEuid = 0, uhUid = 0, uhAccount = Some (''501'', ''501'')\<rparr>, stRunDir = ''/run'', stWatchdogInterval = 0\<rparr>"

text \<open>A module that answers the handshake but asks for a capability the host lacks.\<close>

definition ex_launch_io :: launch_io where
  "ex_launch_io = \<lparr>ioResetDir = None, ioMakeDir = None, ioNonce = Some (replicate 16 CHR 0x2A), ioListen = None,
     ioChownDir = None, ioChownHost = None, ioExec = None, ioFirst = FirstLine ''WEAVE|1|1|unix|/run/s'', ioDial = None,
     ioInit = Inr \<lparr>irRequires = [''hypervisor.channel''], irHealthIntervalSeconds = 0, irSurfaces = []\<rparr>,
     ioStart = None, ioPid = 7\<rparr>"

theorem launch_safe_witness:
  "hd (snd (launch ex_settings ex_spec ex_launch_io)) = VerifyBin [''bin''] (spManifest ex_spec)
   \<and> replay (snd (launch ex_settings ex_spec ex_launch_io)) {} = {}"
proof -
  have "\<not> is_ok (fst (launch ex_settings ex_spec ex_launch_io))" by code_simp
  then obtain e where "launch ex_settings ex_spec ex_launch_io = (Inl e, snd (launch ex_settings ex_spec ex_launch_io))"
    by (cases "launch ex_settings ex_spec ex_launch_io"; cases "fst (launch ex_settings ex_spec ex_launch_io)") auto
  from launch_safe [OF this] show ?thesis by (simp add: ex_spec_def)
qed

definition captured :: "bytes \<Rightarrow> line_capture \<Rightarrow> bool" where
  "captured s w =
     (lcMax w = captureMax
      \<and> (if newlineChar \<in> set s then lcDone w \<and> lcLine w = Some (takeWhile (\<lambda>c. c \<noteq> newlineChar) s)
         else if int (length s) > captureMax then lcDone w \<and> lcLine w = Some []
         else \<not> lcDone w \<and> lcLine w = None \<and> lcBuf w = s))"

lemma captured_step:
  assumes "captured s w" "newlineChar \<in> set (s @ p) \<Longrightarrow>
      int (length (takeWhile (\<lambda>c. c \<noteq> newlineChar) (s @ p))) \<le> captureMax"
  shows "captured (s @ p) (lc_Write p w)"
proof (cases "newlineChar \<in> set s")
  case True
  then show ?thesis using assms(1) by (simp add: captured_def lc_Write_def takeWhile_append1 [of newlineChar])
next
  case False
  then have tw: "takeWhile (\<lambda>c. c \<noteq> newlineChar) (s @ p) = s @ takeWhile (\<lambda>c. c \<noteq> newlineChar) p"
    by (intro takeWhile_append2) auto
  show ?thesis
  proof (cases "int (length s) > captureMax")
    case True
    then have "newlineChar \<notin> set p" using assms(2) by (auto simp: tw)
    with True False show ?thesis using assms(1) by (simp add: captured_def lc_Write_def)
  next
    case short: False
    have "0 < captureMax" by (simp add: captureMax_def)
    with short False show ?thesis using assms(1) tw by (simp add: captured_def lc_Write_def emit_def Let_def)
  qed
qed

text \<open>
  The handshake line does not depend on how the output of the module is cut into writes. When the
  first line is within the cap, \<open>lineCapture\<close> reports exactly it whatever the chunks; output beyond
  the cap without a newline is reported as an empty line, which the parser refuses; until then
  nothing is reported.
\<close>

theorem line_capture_chunks:
  assumes "newlineChar \<in> set (concat ps) \<Longrightarrow>
      int (length (takeWhile (\<lambda>c. c \<noteq> newlineChar) (concat ps))) \<le> captureMax"
  shows "lcLine (foldl (\<lambda>w p. lc_Write p w) new_capture ps) =
     (if newlineChar \<in> set (concat ps) then Some (takeWhile (\<lambda>c. c \<noteq> newlineChar) (concat ps))
      else if int (length (concat ps)) > captureMax then Some [] else None)"
proof -
  have "captured (concat ps) (foldl (\<lambda>w p. lc_Write p w) new_capture ps)"
    using assms
  proof (induction ps rule: rev_induct)
    case Nil
    show ?case by (simp add: captured_def new_capture_def captureMax_def)
  next
    case (snoc p ps)
    have "captured (concat ps) (foldl (\<lambda>w p. lc_Write p w) new_capture ps)"
    proof (rule snoc.IH)
      assume "newlineChar \<in> set (concat ps)"
      then show "int (length (takeWhile (\<lambda>c. c \<noteq> newlineChar) (concat ps))) \<le> captureMax"
        using snoc.prems by (simp add: takeWhile_append1 [of newlineChar])
    qed
    from captured_step [OF this, of p] snoc.prems show ?case by auto
  qed
  then show ?thesis by (auto simp: captured_def split: if_splits)
qed

theorem line_capture_chunks_witness:
  "lcLine (foldl (\<lambda>w p. lc_Write p w) new_capture [''WEA'', ''VE|1'', [newlineChar], ''x'']) = Some ''WEAVE|1''"
  using line_capture_chunks [of "[''WEA'', ''VE|1'', [newlineChar], ''x'']"]
  by (simp add: newlineChar_def captureMax_def)

end
