(* ===== verification/Retry.thy ===== *)
theory Retry
  imports Complex_Main Weave_Prelude
begin

text \<open>
  Exponential backoff with jitter (\<open>src/sdk/retry/retry.go\<close>). Durations are nanoseconds. A
  \<open>float64\<close> is the rational it stands for, and every conversion and product of the source is rounded
  to the nearest \<open>float64\<close> (53 significant bits, ties to even; the exponents the backoff reaches are
  far from the ends of the format). The draw of \<open>rand.Float64\<close> is an argument.
\<close>

section \<open>Rounding to float64\<close>

fun bit_len :: "nat \<Rightarrow> nat" where
  "bit_len n = (if n = 0 then 0 else Suc (bit_len (n div 2)))"

declare bit_len.simps [simp del]

text \<open>The binary exponent of a positive number, the distance of the floats there, and the rounding.\<close>

definition exponent :: "rat \<Rightarrow> int" where
  "exponent x = (if x \<ge> 1 then int (bit_len (nat \<lfloor>x\<rfloor>)) - 1 else - int (bit_len (nat (\<lceil>1 / x\<rceil> - 1))))"

definition ulp :: "rat \<Rightarrow> rat" where
  "ulp x = (let e = exponent x in if e \<ge> 52 then 2 ^ nat (e - 52) else 1 / 2 ^ nat (52 - e))"

definition half_even :: "rat \<Rightarrow> int" where
  "half_even y =
     (let q = \<lfloor>y\<rfloor>; f = y - of_int q
      in if f < 1 / 2 \<or> f = 1 / 2 \<and> even q then q else q + 1)"

definition float64 :: "rat \<Rightarrow> rat" where
  "float64 x = of_int (half_even (x / ulp \<bar>x\<bar>)) * ulp \<bar>x\<bar>"

lemma bit_len_le: "n < 2 ^ k \<Longrightarrow> bit_len n \<le> k"
proof (induction k arbitrary: n)
  case 0
  then show ?case by (simp add: bit_len.simps)
next
  case (Suc k)
  then have "bit_len (n div 2) \<le> k" by simp
  then show ?case by (subst bit_len.simps) simp
qed

lemma half_even_near: "\<bar>of_int (half_even y) - y\<bar> \<le> 1 / 2"
proof -
  define q where "q = \<lfloor>y\<rfloor>"
  have "of_int q \<le> y" "y < of_int q + 1" unfolding q_def by linarith+
  then show ?thesis
    unfolding half_even_def Let_def q_def [symmetric]
    by (auto simp: abs_if)
qed

lemma half_even_of_int [simp]: "half_even (of_int n) = n"
  by (simp add: half_even_def)

lemma half_even_le: "y \<le> of_int n \<Longrightarrow> half_even y \<le> n"
  using half_even_near [of y] by linarith

lemma half_even_nonneg: "0 \<le> y \<Longrightarrow> 0 \<le> half_even y"
  using half_even_near [of y] by linarith

text \<open>Below \<open>2 ^ 53\<close> the floats are at most one apart and every whole number is one of them.\<close>

lemma ulp_fraction:
  assumes "x < 2 ^ 53"
  obtains m where "ulp x = 1 / 2 ^ m"
proof -
  have "exponent x \<le> 52"
  proof (cases "x \<ge> 1")
    case True
    with assms have "\<lfloor>x\<rfloor> < 2 ^ 53" "0 \<le> \<lfloor>x\<rfloor>" by (simp_all add: floor_less_iff)
    then have "nat \<lfloor>x\<rfloor> < 2 ^ 53" by (simp add: nat_less_iff)
    then have "bit_len (nat \<lfloor>x\<rfloor>) \<le> 53" by (rule bit_len_le)
    with True show ?thesis by (simp add: exponent_def)
  qed (simp add: exponent_def)
  then consider "exponent x = 52" | "exponent x < 52" by linarith
  then show thesis
  proof cases
    case 1
    then have "ulp x = 1 / 2 ^ 0" by (simp add: ulp_def)
    then show thesis by (rule that)
  next
    case 2
    then have "ulp x = 1 / 2 ^ nat (52 - exponent x)" by (simp add: ulp_def)
    then show thesis by (rule that)
  qed
qed

lemma float64_of_int:
  assumes "0 \<le> n" "n < 2 ^ 53"
  shows "float64 (of_int n) = of_int n"
proof -
  have "of_int n < (of_int (2 ^ 53) :: rat)" using assms(2) by (simp only: of_int_less_iff)
  then have "of_int n < (2 ^ 53 :: rat)" by simp
  then obtain m where m: "ulp (of_int n) = 1 / 2 ^ m" by (rule ulp_fraction)
  have "of_int n / (1 / 2 ^ m :: rat) = of_int (n * 2 ^ m)" by simp
  then show ?thesis using assms(1) by (simp only: float64_def abs_of_nonneg of_int_0_le_iff m half_even_of_int) simp
qed

lemma float64_bounds:
  assumes x: "0 \<le> x" "x \<le> of_int k" and k: "k < 2 ^ 53"
  shows "0 \<le> float64 x" "float64 x \<le> of_int k" "\<bar>float64 x - x\<bar> \<le> 1 / 2"
proof -
  have "of_int k < (of_int (2 ^ 53) :: rat)" using k by (simp only: of_int_less_iff)
  with x have "x < 2 ^ 53" by simp
  then obtain m where m: "ulp x = 1 / 2 ^ m" by (rule ulp_fraction)
  define y where "y = x * 2 ^ m"
  have f: "float64 x = of_int (half_even y) / 2 ^ m"
    using x(1) by (simp add: float64_def m y_def)
  show "0 \<le> float64 x" using half_even_nonneg [of y] x(1) by (simp add: f y_def)
  have "y \<le> of_int (k * 2 ^ m)" using x(2) by (simp add: y_def)
  then have "half_even y \<le> k * 2 ^ m" by (rule half_even_le)
  then have "of_int (half_even y) \<le> (of_int (k * 2 ^ m) :: rat)" by (simp only: of_int_le_iff)
  then show "float64 x \<le> of_int k" by (simp add: f divide_le_eq)
  have "float64 x - x = (of_int (half_even y) - y) / 2 ^ m" by (simp add: f y_def field_simps)
  then have "\<bar>float64 x - x\<bar> = \<bar>of_int (half_even y) - y\<bar> / 2 ^ m" by simp
  also have "\<dots> \<le> \<bar>of_int (half_even y) - y\<bar> / 1" by (rule divide_left_mono) simp_all
  finally show "\<bar>float64 x - x\<bar> \<le> 1 / 2" using half_even_near [of y] by simp
qed

section \<open>The backoff\<close>

record backoff =
  boInitial :: duration
  boMax :: duration
  boFactor :: rat

definition New_backoff :: backoff where
  "New_backoff = \<lparr>boInitial = 10 ^ 9, boMax = 120 * 10 ^ 9, boFactor = 2\<rparr>"

text \<open>The loop of \<open>Delay\<close>: at most so many multiplications, cut short at the cap.\<close>

fun grow :: "backoff \<Rightarrow> nat \<Rightarrow> rat \<Rightarrow> rat" where
  "grow b 0 d = d"
| "grow b (Suc n) d =
     (let d' = float64 (d * boFactor b); top = float64 (of_int (boMax b))
      in if d' \<ge> top then top else grow b n d')"

definition Delay :: "backoff \<Rightarrow> int \<Rightarrow> rat \<Rightarrow> duration" where
  "Delay b attempt draw = \<lfloor>float64 (draw * grow b (nat attempt) (float64 (of_int (boInitial b))))\<rfloor>"

lemma grow_New:
  assumes "0 < d" "d \<le> boMax New_backoff"
  shows "grow New_backoff n (of_int d) = of_int (min (2 ^ n * d) (boMax New_backoff))"
  using assms
proof (induction n arbitrary: d)
  case (Suc n)
  have f: "float64 (of_int d * boFactor New_backoff) = of_int (d * 2)"
    "float64 (of_int (boMax New_backoff)) = of_int (boMax New_backoff)"
    using float64_of_int [of "d * 2"] float64_of_int [of "boMax New_backoff"] Suc.prems
    by (simp_all add: New_backoff_def)
  show ?case
  proof (cases "d * 2 \<ge> boMax New_backoff")
    case True
    have "d * 2 \<le> 2 ^ Suc n * d" using Suc.prems(1) by simp
    with True have "boMax New_backoff \<le> 2 ^ Suc n * d" by linarith
    with True show ?thesis by (simp only: grow.simps f Let_def of_int_le_iff) simp
  next
    case False
    then have "grow New_backoff n (of_int (d * 2)) = of_int (min (2 ^ n * (d * 2)) (boMax New_backoff))"
      using Suc.prems by (intro Suc.IH) simp_all
    with False show ?thesis by (simp only: grow.simps f Let_def of_int_le_iff) (simp add: ac_simps)
  qed
qed (simp add: min_def)



end
