(* ===== verification/Supervise.thy ===== *)
theory Supervise
  imports Launch Retry
begin

text \<open>
  The supervisor (\<open>src/internal/supervise/supervisor.go\<close>, \<open>src/internal/supervise/status.go\<close>): the
  runner of one module, a loop of launches with its health polls, its watchdog, its crash accounting
  and its start limit, and the registry of runners. What the world does in one turn of the loop is a
  \<open>life\<close>; a run is a list of lives, and the model is a function on it. The texts that explain a state
  are constructors.
\<close>

section \<open>State\<close>

datatype State = StatePending | StateStarting | StateRunning | StateBackoff | StateStartLimited
  | StateUnsupportedProtocol | StateRequirementsUnmet | StateStopped

datatype detail = NoDetail | ShuttingDown | MissingCapabilities "string list" | StartLimitReached
  | RestartingAfter duration

datatype health_status = StatusUnspecified | StatusHealthy | StatusDegraded | StatusUnhealthy

record health =
  hStatus :: health_status
  hReason :: string

record runner =
  rnSpec :: spec
  rnState :: State
  rnDetail :: detail
  rnSince :: time
  rnPid :: int
  rnRestarts :: uint32
  rnHealth :: "health option"
  rnProtocol :: uint32
  rnSurfaces :: "string list"
  rnKeepalive :: time

record module_status =
  msID :: string
  msVersion :: string
  msProtocol :: uint32
  msState :: State
  msDetail :: detail
  msPid :: int
  msRestarts :: uint32
  msHealth :: "health option"
  msSince :: time
  msSurfaces :: "string list"

record sup_settings =
  ssLaunch :: settings
  ssBackoff :: "backoff option"
  ssStartLimitBurst :: int
  ssStartLimitWindow :: duration
  ssHealthInterval :: duration
  ssHealthStrikes :: int
  ssLaunchTimeout :: duration
  ssStableAfter :: duration

definition second :: duration where "second = 10 ^ 9"

definition launchTimeout :: "sup_settings \<Rightarrow> duration" where
  "launchTimeout ss = (if ssLaunchTimeout ss > 0 then ssLaunchTimeout ss else 10 * second)"

definition startLimitBurst :: "sup_settings \<Rightarrow> int" where
  "startLimitBurst ss = (if ssStartLimitBurst ss > 0 then ssStartLimitBurst ss else 5)"

definition startLimitWindow :: "sup_settings \<Rightarrow> duration" where
  "startLimitWindow ss = (if ssStartLimitWindow ss > 0 then ssStartLimitWindow ss else 600 * second)"

definition healthInterval :: "sup_settings \<Rightarrow> duration" where
  "healthInterval ss = (if ssHealthInterval ss > 0 then ssHealthInterval ss else 30 * second)"

definition healthStrikes :: "sup_settings \<Rightarrow> int" where
  "healthStrikes ss = (if ssHealthStrikes ss > 0 then ssHealthStrikes ss else 3)"

definition stableAfter :: "sup_settings \<Rightarrow> duration" where
  "stableAfter ss = (if ssStableAfter ss > 0 then ssStableAfter ss else 60 * second)"

definition sup_backoff :: "sup_settings \<Rightarrow> backoff" where
  "sup_backoff ss = (case ssBackoff ss of Some b \<Rightarrow> b | None \<Rightarrow> New_backoff)"

definition watchdogInterval :: "sup_settings \<Rightarrow> duration" where
  "watchdogInterval ss = stWatchdogInterval (ssLaunch ss)"


section \<open>One runner\<close>

definition setState :: "State \<Rightarrow> detail \<Rightarrow> time \<Rightarrow> runner \<Rightarrow> runner" where
  "setState st d now r = r\<lparr>rnState := st, rnDetail := d, rnSince := now\<rparr>"

definition status_of :: "runner \<Rightarrow> module_status" where
  "status_of r =
     \<lparr>msID = mfID (spManifest (rnSpec r)), msVersion = mfVersion (spManifest (rnSpec r)), msProtocol = rnProtocol r,
      msState = rnState r, msDetail = rnDetail r, msPid = rnPid r, msRestarts = rnRestarts r,
      msHealth = rnHealth r, msSince = rnSince r, msSurfaces = rnSurfaces r\<rparr>"

text \<open>One health poll; \<open>None\<close> is a call that failed. The result says whether to restart.\<close>

definition pollHealth :: "sup_settings \<Rightarrow> health option \<Rightarrow> int \<Rightarrow> runner \<Rightarrow> bool \<times> int \<times> runner" where
  "pollHealth ss resp strikes r =
     (let r' = (case resp of None \<Rightarrow> r | Some h \<Rightarrow> r\<lparr>rnHealth := Some h\<rparr>);
          strikes' = (case resp of
             None \<Rightarrow> strikes + 1
           | Some h \<Rightarrow> if hStatus h = StatusUnhealthy then strikes + 1 else 0)
      in (strikes' \<ge> healthStrikes ss, strikes', r'))"

text \<open>
  What \<open>monitor\<close> can select on: the end of the context (with whether the process then exits within
  its grace), the exit of the process, a tick of the health or of the watchdog ticker; and a ping of
  the module in between.
\<close>

datatype mon_event = CtxDone bool | ProcExit | HealthTick "health option" | WatchdogTick time | Ping time

text \<open>
  The result: how it ended (\<open>Some True\<close> a requested stop, \<open>Some False\<close> a crash, \<open>None\<close> when it still
  runs), the runner and the actions on the process.
\<close>

fun monitor_loop :: "sup_settings \<Rightarrow> int \<Rightarrow> mon_event list \<Rightarrow> runner \<Rightarrow> bool option \<times> runner \<times> action list" where
  "monitor_loop ss strikes [] r = (None, r, [])"
| "monitor_loop ss strikes (CtxDone exits # evs) r = (Some True, r, proc_stop exits)"
| "monitor_loop ss strikes (ProcExit # evs) r = (Some False, r, ProcExited # teardown)"
| "monitor_loop ss strikes (HealthTick resp # evs) r =
     (case pollHealth ss resp strikes r of (restart, strikes', r') \<Rightarrow>
        if restart then (Some False, r', proc_kill) else monitor_loop ss strikes' evs r')"
| "monitor_loop ss strikes (WatchdogTick now # evs) r =
     (if watchdogInterval ss > 0 \<and> now - rnKeepalive r > 2 * watchdogInterval ss then (Some False, r, proc_kill)
      else monitor_loop ss strikes evs r)"
| "monitor_loop ss strikes (Ping now # evs) r = monitor_loop ss strikes evs (r\<lparr>rnKeepalive := now\<rparr>)"

definition monitor :: "sup_settings \<Rightarrow> time \<Rightarrow> health option \<Rightarrow> mon_event list \<Rightarrow> runner
    \<Rightarrow> bool option \<times> runner \<times> action list" where
  "monitor ss now first evs r =
     (let r0 = (if watchdogInterval ss > 0 then r\<lparr>rnKeepalive := now\<rparr> else r)
      in case pollHealth ss first 0 r0 of (restart, strikes, r1) \<Rightarrow>
           if restart then (Some False, r1, proc_kill) else monitor_loop ss strikes evs r1)"

text \<open>One turn of the loop, as the world has it.\<close>

record life =
  lfCancelled :: bool
  lfLaunchAt :: time
  lfLaunch :: launch_io
  lfLaunchCancelled :: bool
  lfStartedAt :: time
  lfFirstPoll :: "health option"
  lfEvents :: "mon_event list"
  lfEndedAt :: time
  lfCrashAt :: time
  lfDraw :: rat
  lfCancelInBackoff :: bool

record loop_state =
  lsRunner :: runner
  lsCrashes :: "time list"
  lsAttempt :: int

datatype loop_result = Again loop_state | Finished runner | Waiting runner

text \<open>The crash accounting, the start limit and the backoff.\<close>

definition recent_crashes :: "sup_settings \<Rightarrow> time \<Rightarrow> time list \<Rightarrow> time list" where
  "recent_crashes ss now crashes = filter (\<lambda>t. now - t \<le> startLimitWindow ss) crashes"

definition account_crash :: "sup_settings \<Rightarrow> life \<Rightarrow> loop_state \<Rightarrow> loop_result" where
  "account_crash ss lf ls =
     (let now = lfCrashAt lf;
          crashes = recent_crashes ss now (lsCrashes ls @ [now]);
          r = (lsRunner ls)\<lparr>rnRestarts := rnRestarts (lsRunner ls) + 1\<rparr>
      in if int (length crashes) \<ge> startLimitBurst ss then Finished (setState StateStartLimited StartLimitReached now r)
         else
           let delay = Delay (sup_backoff ss) (lsAttempt ls) (lfDraw lf);
               r' = setState StateBackoff (RestartingAfter delay) now r
           in if lfCancelInBackoff lf then Finished (setState StateStopped ShuttingDown (now + delay) r')
              else Again \<lparr>lsRunner = r', lsCrashes = crashes, lsAttempt = lsAttempt ls + 1\<rparr>)"

definition started :: "life \<Rightarrow> proc \<Rightarrow> runner \<Rightarrow> runner" where
  "started lf p r =
     setState StateRunning NoDetail (lfStartedAt lf)
       (r\<lparr>rnPid := prPid p, rnProtocol := lineProtocol (prLine p), rnSurfaces := irSurfaces (prInit p)\<rparr>)"

definition run_life :: "sup_settings \<Rightarrow> life \<Rightarrow> loop_state \<Rightarrow> loop_result \<times> action list" where
  "run_life ss lf ls =
     (if lfCancelled lf then (Finished (setState StateStopped ShuttingDown (lfLaunchAt lf) (lsRunner ls)), [])
      else
        let r = setState StateStarting NoDetail (lfLaunchAt lf) (lsRunner ls)
        in case launch (ssLaunch ss) (rnSpec r) (lfLaunch lf) of
             (Inl e, tr) \<Rightarrow>
               (if e = ProtocolUnsupported then Finished (setState StateUnsupportedProtocol NoDetail (lfEndedAt lf) r)
                else if lfLaunchCancelled lf then Finished (setState StateStopped ShuttingDown (lfEndedAt lf) r)
                else account_crash ss lf (ls\<lparr>lsRunner := r\<rparr>), tr)
           | (Inr p, tr) \<Rightarrow>
               (case monitor ss (lfStartedAt lf) (lfFirstPoll lf) (lfEvents lf) (started lf p r) of
                  (None, r', _) \<Rightarrow> (Waiting r', tr)
                | (Some True, r', acts) \<Rightarrow> (Finished (setState StateStopped NoDetail (lfEndedAt lf) r'), tr @ acts)
                | (Some False, r', acts) \<Rightarrow>
                    (account_crash ss lf
                       (if lfEndedAt lf - lfStartedAt lf \<ge> stableAfter ss
                        then \<lparr>lsRunner = r', lsCrashes = [], lsAttempt = 0\<rparr> else ls\<lparr>lsRunner := r'\<rparr>), tr @ acts)))"

text \<open>The loop on the lives it gets.\<close>

fun run_loop :: "sup_settings \<Rightarrow> life list \<Rightarrow> loop_state \<Rightarrow> loop_result \<times> action list" where
  "run_loop ss [] ls = (Again ls, [])"
| "run_loop ss (lf # lfs) ls =
     (case run_life ss lf ls of
        (Again ls', tr) \<Rightarrow> (case run_loop ss lfs ls' of (res, tr') \<Rightarrow> (res, tr @ tr'))
      | (res, tr) \<Rightarrow> (res, tr))"

definition run_module :: "sup_settings \<Rightarrow> life list \<Rightarrow> runner \<Rightarrow> loop_result \<times> action list" where
  "run_module ss lfs r = run_loop ss lfs \<lparr>lsRunner = r, lsCrashes = [], lsAttempt = 0\<rparr>"


section \<open>Health polls\<close>

definition bad_poll :: "health option \<Rightarrow> bool" where
  "bad_poll resp = (case resp of None \<Rightarrow> True | Some h \<Rightarrow> hStatus h = StatusUnhealthy)"

text \<open>The reference: some \<open>k\<close> polls in a row were bad.\<close>

definition bad_streak :: "nat \<Rightarrow> health option list \<Rightarrow> bool" where
  "bad_streak k polls = (\<exists>i. i + k \<le> length polls \<and> list_all bad_poll (take k (drop i polls)))"

lemma pollHealth_strikes:
  "pollHealth ss resp strikes r = (restart, strikes', r') \<Longrightarrow>
     strikes' = (if bad_poll resp then strikes + 1 else 0) \<and> restart = (strikes' \<ge> healthStrikes ss)"
  by (auto simp: pollHealth_def Let_def bad_poll_def split: option.splits)

lemma bad_streak_Cons:
  "bad_streak k (p # ps) \<longleftrightarrow> (k \<le> Suc (length ps) \<and> list_all bad_poll (take k (p # ps))) \<or> bad_streak k ps"
proof
  assume "bad_streak k (p # ps)"
  then obtain i where i: "i + k \<le> Suc (length ps)" "list_all bad_poll (take k (drop i (p # ps)))"
    by (auto simp: bad_streak_def)
  then show "(k \<le> Suc (length ps) \<and> list_all bad_poll (take k (p # ps))) \<or> bad_streak k ps"
    by (cases i) (auto simp: bad_streak_def)
next
  assume "(k \<le> Suc (length ps) \<and> list_all bad_poll (take k (p # ps))) \<or> bad_streak k ps"
  then show "bad_streak k (p # ps)"
    unfolding bad_streak_def by (metis Suc_le_mono add_0 add_Suc drop0 drop_Suc_Cons length_Cons)
qed

lemma bad_streak_first: "k \<le> length ps \<Longrightarrow> list_all bad_poll (take k ps) \<Longrightarrow> bad_streak k ps"
  unfolding bad_streak_def by (intro exI [of _ 0]) simp

lemma list_all_take_le: "list_all P (take n xs) \<Longrightarrow> m \<le> n \<Longrightarrow> list_all P (take m xs)"
  by (metis list_all_append min.absorb1 take_add take_take le_Suc_ex)

lemma monitor_loop_streak:
  assumes "0 \<le> s" "s < healthStrikes ss"
  shows "fst (monitor_loop ss s (map HealthTick ps) r) =
    (if nat (healthStrikes ss - s) \<le> length ps \<and> list_all bad_poll (take (nat (healthStrikes ss - s)) ps)
        \<or> bad_streak (nat (healthStrikes ss)) ps then Some False else None)"
  using assms
proof (induction ps arbitrary: s r)
  case Nil
  then show ?case by (simp add: bad_streak_def)
next
  case (Cons p ps)
  obtain restart s' r' where poll: "pollHealth ss p s r = (restart, s', r')" by (metis prod_cases3)
  note p = pollHealth_strikes [OF poll]
  let ?k = "nat (healthStrikes ss)" and ?n = "nat (healthStrikes ss - s)"
  have n: "?n = Suc (?n - 1)" using Cons.prems by simp
  have le: "?n \<le> ?k" using Cons.prems by simp
  show ?case
  proof (cases "bad_poll p")
    case True
    have rest: "nat (healthStrikes ss - s') = ?n - 1" using p True by simp
    show ?thesis
    proof (cases restart)
      case True
      with p \<open>bad_poll p\<close> have "healthStrikes ss - s = 1" using Cons.prems by auto
      then have "?n = 1" by simp
      with True poll \<open>bad_poll p\<close> show ?thesis by simp
    next
      case False
      have "fst (monitor_loop ss s' (map HealthTick ps) r') =
          (if ?n - 1 \<le> length ps \<and> list_all bad_poll (take (?n - 1) ps) \<or> bad_streak ?k ps then Some False else None)"
        using Cons.IH [of s' r'] False p True Cons.prems(1) rest by simp
      moreover have "list_all bad_poll (take ?n (p # ps)) \<longleftrightarrow> list_all bad_poll (take (?n - 1) ps)"
        using True n by (metis list.pred_inject(2) take_Suc_Cons)
      moreover have "list_all bad_poll (take ?k (p # ps)) \<Longrightarrow> list_all bad_poll (take ?n (p # ps))"
        using list_all_take_le le by blast
      ultimately show ?thesis
        using False poll n le by (auto simp: bad_streak_Cons)
    qed
  next
    case False
    then have z: "s' = 0" "\<not> restart" using p Cons.prems by auto
    have "\<not> list_all bad_poll (take ?n (p # ps))" "\<not> list_all bad_poll (take ?k (p # ps))"
      using False n le by (metis list.pred_inject(2) take_Suc_Cons Suc_le_D)+
    then show ?thesis
      using Cons.IH [of 0 r'] z poll Cons.prems bad_streak_first [of ?k ps] by (auto simp: bad_streak_Cons)
  qed
qed


section \<open>Crash accounting\<close>

text \<open>A life that ends in a crash of a module that had not been stable.\<close>

definition crashing :: "sup_settings \<Rightarrow> spec \<Rightarrow> life \<Rightarrow> bool" where
  "crashing ss sp lf =
     (\<not> lfCancelled lf \<and> \<not> lfCancelInBackoff lf
      \<and> (case fst (launch (ssLaunch ss) sp (lfLaunch lf)) of
           Inl e \<Rightarrow> e \<noteq> ProtocolUnsupported \<and> \<not> lfLaunchCancelled lf
         | Inr p \<Rightarrow> lfEndedAt lf - lfStartedAt lf < stableAfter ss
             \<and> (\<forall>r. fst (monitor ss (lfStartedAt lf) (lfFirstPoll lf) (lfEvents lf) r) = Some False)))"

lemma monitor_loop_spec: "rnSpec (fst (snd (monitor_loop ss s evs r))) = rnSpec r"
proof (induction ss s evs r rule: monitor_loop.induct)
  case (4 ss s resp evs r)
  obtain restart s' r' where poll: "pollHealth ss resp s r = (restart, s', r')" by (metis prod_cases3)
  then have "rnSpec r' = rnSpec r" by (auto simp: pollHealth_def Let_def split: option.splits)
  with 4 [OF poll [symmetric] refl] poll show ?case by simp
qed simp_all

lemma monitor_spec: "rnSpec (fst (snd (monitor ss now p evs r))) = rnSpec r"
  by (auto simp: monitor_def Let_def pollHealth_def monitor_loop_spec split: option.splits)

lemma setState_spec [simp]: "rnSpec (setState st d now r) = rnSpec r"
  by (simp add: setState_def)

lemma started_spec [simp]: "rnSpec (started lf p r) = rnSpec r"
  by (simp add: started_def)

lemma run_life_crashing:
  assumes "crashing ss (rnSpec (lsRunner ls)) lf"
  obtains r where "fst (run_life ss lf ls) = account_crash ss lf (ls\<lparr>lsRunner := r\<rparr>)" "rnSpec r = rnSpec (lsRunner ls)"
proof -
  let ?sp = "rnSpec (lsRunner ls)" and ?r = "setState StateStarting NoDetail (lfLaunchAt lf) (lsRunner ls)"
  obtain res tr where l: "launch (ssLaunch ss) ?sp (lfLaunch lf) = (res, tr)" by fastforce
  show ?thesis
  proof (cases res)
    case (Inl e)
    with assms l have "fst (run_life ss lf ls) = account_crash ss lf (ls\<lparr>lsRunner := ?r\<rparr>)"
      by (simp add: crashing_def run_life_def Let_def)
    then show ?thesis by (rule that) simp
  next
    case (Inr p)
    let ?m = "monitor ss (lfStartedAt lf) (lfFirstPoll lf) (lfEvents lf) (started lf p ?r)"
    obtain e r' acts where m: "?m = (e, r', acts)" by (metis prod_cases3)
    have "e = Some False" "lfEndedAt lf - lfStartedAt lf < stableAfter ss"
      using assms l Inr m by (auto simp: crashing_def) (metis fst_conv)
    then have "fst (run_life ss lf ls) = account_crash ss lf (ls\<lparr>lsRunner := r'\<rparr>)"
      using assms l Inr m by (simp add: crashing_def run_life_def Let_def)
    moreover have "rnSpec r' = ?sp" using monitor_spec [of ss _ _ _ "started lf p ?r"] m by (metis fst_conv snd_conv started_spec setState_spec)
    ultimately show ?thesis by (rule that)
  qed
qed

text \<open>
  A module that keeps crashing within the window: after so many further crashes as the burst still
  allows, the runner is start-limited.
\<close>

lemma crash_loop_limited:
  assumes "list_all (crashing ss (rnSpec (lsRunner ls))) lfs"
    and "\<And>t lf. t \<in> set (lsCrashes ls) \<Longrightarrow> lf \<in> set lfs \<Longrightarrow> lfCrashAt lf - t \<le> startLimitWindow ss"
    and "sorted_wrt (\<lambda>a b. lfCrashAt b - lfCrashAt a \<le> startLimitWindow ss) lfs"
    and "int (length (lsCrashes ls)) < startLimitBurst ss"
    and "startLimitBurst ss \<le> int (length (lsCrashes ls) + length lfs)"
  shows "\<exists>r. fst (run_loop ss lfs ls) = Finished r \<and> rnState r = StateStartLimited"
  using assms
proof (induction lfs arbitrary: ls)
  case (Cons lf lfs)
  obtain r where life: "fst (run_life ss lf ls) = account_crash ss lf (ls\<lparr>lsRunner := r\<rparr>)"
      "rnSpec r = rnSpec (lsRunner ls)"
    using run_life_crashing [of ss ls lf] Cons.prems(1) by auto
  have win: "0 \<le> startLimitWindow ss" by (simp add: startLimitWindow_def second_def)
  have keep: "recent_crashes ss (lfCrashAt lf) (lsCrashes ls @ [lfCrashAt lf]) = lsCrashes ls @ [lfCrashAt lf]"
    using Cons.prems(2) win by (auto simp: recent_crashes_def filter_id_conv)
  show ?case
  proof (cases "int (length (lsCrashes ls)) + 1 \<ge> startLimitBurst ss")
    case True
    then have "\<exists>r'. fst (run_life ss lf ls) = Finished r' \<and> rnState r' = StateStartLimited"
      using life(1) keep by (simp add: account_crash_def Let_def setState_def)
    then show ?thesis by (auto split: prod.splits loop_result.splits)
  next
    case False
    obtain ls' where ls': "fst (run_life ss lf ls) = Again ls'" "lsCrashes ls' = lsCrashes ls @ [lfCrashAt lf]"
        "rnSpec (lsRunner ls') = rnSpec (lsRunner ls)"
      using life keep False Cons.prems(1) by (auto simp: account_crash_def Let_def crashing_def)
    have "\<exists>r. fst (run_loop ss lfs ls') = Finished r \<and> rnState r = StateStartLimited"
      using Cons.prems False ls'(2,3) by (intro Cons.IH) auto
    with ls'(1) show ?thesis by (auto split: prod.splits)
  qed
qed simp


section \<open>What a run leaves behind\<close>

lemma replay_wind_down:
  "replay (proc_stop exits) {RHost, RProcess, RConn} = {}" "replay proc_kill {RHost, RProcess, RConn} = {}"
  "replay (ProcExited # teardown) {RHost, RProcess, RConn} = {}"
  by (auto simp: replay_def proc_stop_def proc_kill_def teardown_def)

lemma monitor_loop_leaves:
  "fst (monitor_loop ss s evs r) = Some b \<Longrightarrow>
     replay (snd (snd (monitor_loop ss s evs r))) {RHost, RProcess, RConn} = {}"
proof (induction ss s evs r rule: monitor_loop.induct)
  case (4 ss s resp evs r)
  obtain restart s' r' where poll: "pollHealth ss resp s r = (restart, s', r')" by (metis prod_cases3)
  with 4(1) [OF poll [symmetric] refl] 4(2) show ?case by (auto simp: replay_wind_down split: if_splits)
qed (auto simp: replay_wind_down split: if_splits)

lemma monitor_leaves:
  "fst (monitor ss now p evs r) = Some b \<Longrightarrow>
     replay (snd (snd (monitor ss now p evs r))) {RHost, RProcess, RConn} = {}"
  by (auto simp: monitor_def Let_def replay_wind_down monitor_loop_leaves split: prod.splits if_splits)

lemma run_life_leaves:
  assumes "run_life ss lf ls = (res, tr)"
  shows "replay tr {} = (case res of Waiting _ \<Rightarrow> {RHost, RProcess, RConn} | _ \<Rightarrow> {})"
proof -
  have acc: "account_crash ss lf ls' \<noteq> Waiting r" for ls' r by (auto simp: account_crash_def Let_def)
  let ?r = "setState StateStarting NoDetail (lfLaunchAt lf) (lsRunner ls)"
  obtain lres ltr where l: "launch (ssLaunch ss) (rnSpec ?r) (lfLaunch lf) = (lres, ltr)" by fastforce
  have ll: "leaves {} {RHost, RProcess, RConn} {} (lres, ltr)" using leaves_launch l by metis
  show ?thesis
  proof (cases "lfCancelled lf")
    case True
    with assms show ?thesis by (auto simp: run_life_def replay_def)
  next
    case False
    show ?thesis
    proof (cases lres)
      case (Inl e)
      with assms False l ll acc show ?thesis
        by (auto simp: run_life_def Let_def leaves_def split: loop_result.splits if_splits)
    next
      case (Inr p)
      let ?m = "monitor ss (lfStartedAt lf) (lfFirstPoll lf) (lfEvents lf) (started lf p ?r)"
      obtain e r' acts where m: "?m = (e, r', acts)" by (metis prod_cases3)
      have up: "replay ltr {} = {RHost, RProcess, RConn}" using ll Inr by (simp add: leaves_def)
      show ?thesis
      proof (cases e)
        case None
        then have "run_life ss lf ls = (Waiting r', ltr)" using False l Inr m by (simp add: run_life_def Let_def)
        then have "res = Waiting r'" "tr = ltr" using assms by simp_all
        with up show ?thesis by simp
      next
        case (Some b)
        then have "replay (ltr @ acts) {} = {}"
          using monitor_leaves [of ss _ _ _ "started lf p ?r" b] m up by (metis fst_conv snd_conv replay_append)
        moreover have "snd (run_life ss lf ls) = ltr @ acts" "fst (run_life ss lf ls) \<noteq> Waiting r" for r
          using False l Inr m Some acc by (cases b; simp add: run_life_def Let_def)+
        ultimately show ?thesis using assms by (auto split: loop_result.splits)
      qed
    qed
  qed
qed

lemma run_loop_leaves:
  "run_loop ss lfs ls = (res, tr) \<Longrightarrow> replay tr {} = (case res of Waiting _ \<Rightarrow> {RHost, RProcess, RConn} | _ \<Rightarrow> {})"
proof (induction lfs arbitrary: ls tr)
  case Nil
  then show ?case by (auto simp: replay_def)
next
  case (Cons lf lfs)
  obtain res1 tr1 where l: "run_life ss lf ls = (res1, tr1)" by fastforce
  note first = run_life_leaves [OF l]
  show ?case
  proof (cases res1)
    case (Again ls')
    obtain tr2 where r: "run_loop ss lfs ls' = (res, tr2)" "tr = tr1 @ tr2"
      using Cons.prems l Again by (auto split: prod.splits)
    from Cons.IH [OF r(1)] first Again r(2) show ?thesis by (simp add: replay_append)
  next
    case (Finished r)
    with Cons.prems l have "res = Finished r" "tr = tr1" by simp_all
    with first Finished show ?thesis by simp
  next
    case (Waiting r)
    with Cons.prems l have "res = Waiting r" "tr = tr1" by simp_all
    with first Waiting show ?thesis by simp
  qed
qed


section \<open>The registry\<close>

text \<open>
  The runners by module id, each with whether its goroutine was started, and whether the base
  context is set.
\<close>

record registry =
  rgRunners :: "(string \<times> runner \<times> bool) list"
  rgBase :: bool

datatype add_error = NoBaseContext | AlreadyRegistered string

definition SetBaseContext :: "registry \<Rightarrow> registry" where
  "SetBaseContext g = g\<lparr>rgBase := True\<rparr>"

definition new_runner :: "spec \<Rightarrow> time \<Rightarrow> runner" where
  "new_runner sp now = \<lparr>rnSpec = sp, rnState = StatePending, rnDetail = NoDetail, rnSince = now, rnPid = 0, rnRestarts = 0,
     rnHealth = None, rnProtocol = 0, rnSurfaces = [], rnKeepalive = 0\<rparr>"

definition Add :: "sup_settings \<Rightarrow> spec \<Rightarrow> time \<Rightarrow> registry \<Rightarrow> (add_error, unit) result \<times> registry" where
  "Add ss sp now g =
     (let m = mfID (spManifest sp)
      in if \<not> rgBase g then (Inl NoBaseContext, g)
         else if map_of (rgRunners g) m \<noteq> None then (Inl (AlreadyRegistered m), g)
         else
           let missing = Has (stCaps (ssLaunch ss)) (mfCapabilities (spManifest sp))
           in (Inr (), g\<lparr>rgRunners := rgRunners g @
                [(m, if missing \<noteq> [] then (setState StateRequirementsUnmet (MissingCapabilities missing) now (new_runner sp now), False)
                     else (new_runner sp now, True))]\<rparr>))"

definition StopModule :: "string \<Rightarrow> registry \<Rightarrow> registry" where
  "StopModule m g = g\<lparr>rgRunners := filter (\<lambda>(k, _). k \<noteq> m) (rgRunners g)\<rparr>"

definition Replace :: "sup_settings \<Rightarrow> spec \<Rightarrow> time \<Rightarrow> registry \<Rightarrow> (add_error, unit) result \<times> registry" where
  "Replace ss sp now g = Add ss sp now (StopModule (mfID (spManifest sp)) g)"

definition update_runner :: "string \<Rightarrow> (runner \<Rightarrow> runner) \<Rightarrow> registry \<Rightarrow> registry" where
  "update_runner m f g = g\<lparr>rgRunners := map (\<lambda>(k, r, live). (k, if k = m then f r else r, live)) (rgRunners g)\<rparr>"

definition Keepalive :: "string \<Rightarrow> time \<Rightarrow> registry \<Rightarrow> registry" where
  "Keepalive m now g = update_runner m (\<lambda>r. r\<lparr>rnKeepalive := now\<rparr>) g"

definition Statuses :: "registry \<Rightarrow> module_status list" where
  "Statuses g = map (\<lambda>(_, r, _). status_of r) (rgRunners g)"

definition SweepOrphans :: "path \<Rightarrow> ('d disk_scheme, unit) state" where
  "SweepOrphans runDir = do {
     entries \<leftarrow> ReadDir (Join runDir ''modules'');
     case entries of
       Inl _ \<Rightarrow> ret ()
     | Inr names \<Rightarrow> for_each names (\<lambda>(n, _). do { _ \<leftarrow> RemoveAll (Join (Join runDir ''modules'') n); ret () })
   }"

text \<open>
  The operations on the registry in any order, with the progress of the runners in between: a
  started runner moves on in its loop, which changes all of it but its specification.
\<close>

datatype sup_op = OpAdd spec time | OpStop string | OpReplace spec time | OpKeepalive string time
  | OpProgress string runner

definition sup_step :: "sup_settings \<Rightarrow> sup_op \<Rightarrow> registry \<Rightarrow> registry" where
  "sup_step ss op g =
     (case op of
        OpAdd sp now \<Rightarrow> snd (Add ss sp now g)
      | OpStop m \<Rightarrow> StopModule m g
      | OpReplace sp now \<Rightarrow> snd (Replace ss sp now g)
      | OpKeepalive m now \<Rightarrow> Keepalive m now g
      | OpProgress m r' \<Rightarrow>
          (case map_of (rgRunners g) m of
             Some (r, True) \<Rightarrow> update_runner m (\<lambda>_. r'\<lparr>rnSpec := rnSpec r\<rparr>) g
           | _ \<Rightarrow> g))"

definition entry_ok :: "sup_settings \<Rightarrow> string \<times> runner \<times> bool \<Rightarrow> bool" where
  "entry_ok ss e =
     (case e of (m, r, live) \<Rightarrow> m = mfID (spManifest (rnSpec r))
        \<and> (if live then set (mfCapabilities (spManifest (rnSpec r))) \<subseteq> fst ` set (stCaps (ssLaunch ss))
           else rnState r = StateRequirementsUnmet))"

definition registry_ok :: "sup_settings \<Rightarrow> registry \<Rightarrow> bool" where
  "registry_ok ss g = (distinct (map fst (rgRunners g)) \<and> list_all (entry_ok ss) (rgRunners g))"

lemma registry_ok_Stop: "registry_ok ss g \<Longrightarrow> registry_ok ss (StopModule m g)"
  by (auto simp: registry_ok_def StopModule_def list_all_iff distinct_map_filter)

lemma registry_ok_Add:
  assumes "registry_ok ss g"
  shows "registry_ok ss (snd (Add ss sp now g))"
  using assms
  by (auto simp: registry_ok_def entry_ok_def Add_def Let_def map_of_eq_None_iff new_runner_def setState_def Has_Nil_iff
      split: if_splits)

lemma registry_ok_update:
  assumes "registry_ok ss g"
    and "\<And>r live. (m, r, live) \<in> set (rgRunners g) \<Longrightarrow> rnSpec (f r) = rnSpec r \<and> (live \<or> rnState (f r) = rnState r)"
  shows "registry_ok ss (update_runner m f g)"
proof -
  have "map fst (rgRunners (update_runner m f g)) = map fst (rgRunners g)"
    by (simp add: update_runner_def split_beta comp_def)
  moreover have "entry_ok ss x" if x: "x \<in> set (rgRunners (update_runner m f g))" for x
  proof -
    obtain k r live where r: "(k, r, live) \<in> set (rgRunners g)" "x = (k, if k = m then f r else r, live)"
      using x by (auto simp: update_runner_def)
    then have "entry_ok ss (k, r, live)" using assms(1) by (simp add: registry_ok_def list_all_iff)
    with r assms(2) [of r live] show ?thesis by (cases "k = m"; cases live) (simp_all add: entry_ok_def)
  qed
  ultimately show ?thesis using assms(1) by (simp add: registry_ok_def list_all_iff)
qed

lemma registry_ok_step:
  assumes "registry_ok ss g"
  shows "registry_ok ss (sup_step ss op g)"
proof (cases op)
  case (OpProgress m r')
  show ?thesis
  proof (cases "\<exists>r. map_of (rgRunners g) m = Some (r, True)")
    case True
    then obtain r where r: "map_of (rgRunners g) m = Some (r, True)" ..
    have "registry_ok ss (update_runner m (\<lambda>_. r'\<lparr>rnSpec := rnSpec r\<rparr>) g)"
    proof (rule registry_ok_update [OF assms])
      fix s live assume "(m, s, live) \<in> set (rgRunners g)"
      then have "(s, live) = (r, True)"
        using assms r by (metis map_of_is_SomeI option.inject registry_ok_def)
      then show "rnSpec (r'\<lparr>rnSpec := rnSpec r\<rparr>) = rnSpec s \<and> (live \<or> rnState (r'\<lparr>rnSpec := rnSpec r\<rparr>) = rnState s)" by simp
    qed
    with OpProgress r show ?thesis by (simp add: sup_step_def)
  next
    case False
    with OpProgress assms show ?thesis by (auto simp: sup_step_def split: option.splits bool.splits)
  qed
qed (auto simp: sup_step_def Replace_def Keepalive_def
    intro: registry_ok_Add registry_ok_Stop registry_ok_update assms)


section \<open>Properties\<close>

text \<open>
  C16: a module that keeps crashing is stopped. When every life of a new runner ends in a crash before
  the module was stable, whether at launch or later, and the crashes fall within the start-limit
  window, the runner ends start-limited after at most as many lives as the burst.
\<close>

theorem crash_loop_start_limited:
  assumes "list_all (crashing ss (rnSpec r)) lfs" "startLimitBurst ss \<le> int (length lfs)"
    and "sorted_wrt (\<lambda>a b. lfCrashAt b - lfCrashAt a \<le> startLimitWindow ss) lfs"
  shows "\<exists>r'. fst (run_module ss lfs r) = Finished r' \<and> rnState r' = StateStartLimited"
  unfolding run_module_def
  by (rule crash_loop_limited) (use assms in \<open>auto simp: startLimitBurst_def split: if_splits\<close>)

definition ex_sup :: sup_settings where
  "ex_sup = \<lparr>ssLaunch = ex_settings, ssBackoff = None, ssStartLimitBurst = 2, ssStartLimitWindow = 0,
     ssHealthInterval = 0, ssHealthStrikes = 0, ssLaunchTimeout = 0, ssStableAfter = 0\<rparr>"

text \<open>A life whose launch fails on a missing capability.\<close>

definition ex_life :: "time \<Rightarrow> life" where
  "ex_life t = \<lparr>lfCancelled = False, lfLaunchAt = t, lfLaunch = ex_launch_io, lfLaunchCancelled = False, lfStartedAt = t,
     lfFirstPoll = None, lfEvents = [], lfEndedAt = t, lfCrashAt = t, lfDraw = 0, lfCancelInBackoff = False\<rparr>"

lemma ex_life_crashes: "crashing ex_sup ex_spec (ex_life t)"
proof -
  have "case fst (launch ex_settings ex_spec ex_launch_io) of Inl e \<Rightarrow> e \<noteq> ProtocolUnsupported | Inr _ \<Rightarrow> False" by code_simp
  then show ?thesis by (simp add: crashing_def ex_sup_def ex_life_def split: sum.splits)
qed

theorem crash_loop_start_limited_witness:
  "\<exists>r'. fst (run_module ex_sup [ex_life 0, ex_life 1] (new_runner ex_spec 0)) = Finished r' \<and> rnState r' = StateStartLimited"
proof (rule crash_loop_start_limited)
  show "list_all (crashing ex_sup (rnSpec (new_runner ex_spec 0))) [ex_life 0, ex_life 1]"
    by (simp add: ex_life_crashes new_runner_def)
qed (simp_all add: startLimitBurst_def startLimitWindow_def second_def ex_sup_def ex_life_def)

text \<open>
  C17: a module is restarted for bad health exactly when as many polls in a row as the strikes allow
  failed or reported unhealthy; the first of the polls is the one right after the launch.
\<close>

theorem monitor_restarts_on_streak:
  "fst (monitor ss now p (map HealthTick ps) r)
     = (if bad_streak (nat (healthStrikes ss)) (p # ps) then Some False else None)"
proof -
  let ?r = "if watchdogInterval ss > 0 then r\<lparr>rnKeepalive := now\<rparr> else r"
  have "monitor ss now p (map HealthTick ps) r = monitor_loop ss 0 (map HealthTick (p # ps)) ?r"
    by (simp add: monitor_def Let_def)
  moreover have "0 < healthStrikes ss" by (simp add: healthStrikes_def)
  ultimately show ?thesis
    using monitor_loop_streak [of 0 ss "p # ps" ?r] bad_streak_first [of "nat (healthStrikes ss)" "p # ps"] by auto
qed

text \<open>
  C11: a run leaves nothing behind. In every run of a module, whatever its launches, exits, health
  and watchdog do, the host server, the process and the connection of each life are gone when the
  runner goes on to the next life or ends; only a runner that still waits on its process holds them.
\<close>

theorem run_leaves_nothing:
  assumes "run_module ss lfs r = (res, tr)"
  shows "replay tr {} = (case res of Waiting _ \<Rightarrow> {RHost, RProcess, RConn} | _ \<Rightarrow> {})"
  using run_loop_leaves assms by (simp add: run_module_def)

theorem run_leaves_nothing_witness:
  "replay (snd (run_module ex_sup [ex_life 0, ex_life 1] (new_runner ex_spec 0))) {}
     = (case fst (run_module ex_sup [ex_life 0, ex_life 1] (new_runner ex_spec 0)) of
          Waiting _ \<Rightarrow> {RHost, RProcess, RConn} | _ \<Rightarrow> {})"
  by (rule run_leaves_nothing) simp

text \<open>
  C12: the registry. After any sequence of adds, stops, replacements, pings and progress of runners,
  each module id has at most one runner, registered under the id of its manifest, and a runner was
  started only when the host has every capability its manifest declares.
\<close>

theorem registry_invariant:
  "registry_ok ss (fold (sup_step ss) ops \<lparr>rgRunners = [], rgBase = base\<rparr>)"
proof -
  have "registry_ok ss g \<Longrightarrow> registry_ok ss (fold (sup_step ss) ops g)" for g
    by (induction ops arbitrary: g) (simp_all add: registry_ok_step)
  then show ?thesis by (simp add: registry_ok_def)
qed

text \<open>A replacement makes the new specification the only one for its id.\<close>

lemma Replace_unique:
  assumes "rgBase g" "Replace ss sp now g = (r, g')"
  shows "r = Inr () \<and> (\<exists>rn live. filter (\<lambda>(k, _). k = mfID (spManifest sp)) (rgRunners g') = [(mfID (spManifest sp), rn, live)]
    \<and> rnSpec rn = sp)"
proof -
  let ?m = "mfID (spManifest sp)"
  have "map_of (rgRunners (StopModule ?m g)) ?m = None"
    by (auto simp: StopModule_def map_of_eq_None_iff)
  moreover have "filter (\<lambda>(k, _). k = ?m) (filter (\<lambda>(k, _). k \<noteq> ?m) xs) = []" for xs :: "(string \<times> runner \<times> bool) list"
    by (induction xs) auto
  ultimately show ?thesis
    using assms by (auto simp: Replace_def Add_def Let_def StopModule_def new_runner_def setState_def split: if_splits)
qed

end
