(* ===== verification/Store.thy ===== *)
theory Store
  imports FileSystem
begin

text \<open>
  The key/value store behind the host services: the interface \<open>StoreBackend\<close>
  (\<open>src/internal/hostserv/hostserv.go\<close>) as the record \<open>backend\<close> and the locale
  \<open>store_backend\<close>, the in-memory store (\<open>src/internal/hostserv/memory.go\<close>), which
  interprets the locale, and the encrypted store (\<open>src/internal/store/store.go\<close>). The bbolt
  database and AES-GCM are parameters of the encrypted store; \<open>bolt_laws\<close> and \<open>aead_laws\<close>
  state what it relies on, and under them it satisfies the same contract (\<open>Store_backend\<close>).
\<close>

section \<open>The interface\<close>

record 'st backend =
  beGet :: "string \<Rightarrow> string \<Rightarrow> 'st \<Rightarrow> (string, bytes option) result"
  bePut :: "string \<Rightarrow> string \<Rightarrow> bytes \<Rightarrow> 'st \<Rightarrow> (string, unit) result \<times> 'st"
  beDelete :: "string \<Rightarrow> string \<Rightarrow> 'st \<Rightarrow> (string, unit) result \<times> 'st"
  beList :: "string \<Rightarrow> string \<Rightarrow> 'st \<Rightarrow> (string, string list) result"

text \<open>
  The contract: a store holds a value per namespace and key; \<open>Get\<close> answers from it, \<open>Put\<close> and
  \<open>Delete\<close> change one key of one namespace or, on an error, nothing; \<open>List\<close> gives the keys
  with the prefix, each once, in any order.
\<close>

locale store_backend =
  fixes be :: "'st backend"
    and inv :: "'st \<Rightarrow> bool"
    and view :: "'st \<Rightarrow> string \<Rightarrow> string \<Rightarrow> bytes option"
  assumes get_view: "inv s \<Longrightarrow> beGet be m k s = Inr r \<Longrightarrow> r = view s m k"
    and put_ok: "inv s \<Longrightarrow> bePut be m k v s = (Inr u, s') \<Longrightarrow>
      inv s' \<and> view s' = (view s)(m := (view s m)(k := Some v))"
    and put_err: "inv s \<Longrightarrow> bePut be m k v s = (Inl e, s') \<Longrightarrow> inv s' \<and> view s' = view s"
    and delete_ok: "inv s \<Longrightarrow> beDelete be m k s = (Inr u, s') \<Longrightarrow>
      inv s' \<and> view s' = (view s)(m := (view s m)(k := None))"
    and delete_err: "inv s \<Longrightarrow> beDelete be m k s = (Inl e, s') \<Longrightarrow> inv s' \<and> view s' = view s"
    and list_view: "inv s \<Longrightarrow> beList be m p s = Inr ks \<Longrightarrow>
      distinct ks \<and> set ks = {k. view s m k \<noteq> None \<and> prefix p k}"
begin

lemma get_after_put:
  assumes "inv s" "bePut be m k v s = (Inr u, s')" "beGet be m' k' s' = Inr r"
  shows "r = (if m' = m \<and> k' = k then Some v else view s m' k')"
  using get_view [OF _ assms(3)] put_ok [OF assms(1,2)] by auto

lemma put_keeps_namespaces:
  assumes "inv s" "bePut be m k v s = (r, s')" "m' \<noteq> m"
  shows "view s' m' = view s m'"
  using assms put_ok [of s m k v _ s'] put_err [of s m k v _ s'] by (cases r) auto

lemma delete_keeps_namespaces:
  assumes "inv s" "beDelete be m k s = (r, s')" "m' \<noteq> m"
  shows "view s' m' = view s m'"
  using assms delete_ok [of s m k _ s'] delete_err [of s m k _ s'] by (cases r) auto

lemma put_inv: "inv s \<Longrightarrow> inv (snd (bePut be m k v s))"
  by (cases "bePut be m k v s"; cases "fst (bePut be m k v s)") (auto dest: put_ok put_err)

lemma delete_inv: "inv s \<Longrightarrow> inv (snd (beDelete be m k s))"
  by (cases "beDelete be m k s"; cases "fst (beDelete be m k s)") (auto dest: delete_ok delete_err)

end


section \<open>The in-memory store\<close>

type_synonym mem_store = "((string \<times> string) \<times> bytes) list"

definition NewMemStore :: mem_store where "NewMemStore = []"

definition mem_Get :: "string \<Rightarrow> string \<Rightarrow> mem_store \<Rightarrow> (string, bytes option) result" where
  "mem_Get m k s = Inr (map_of s (m, k))"

definition mem_Put :: "string \<Rightarrow> string \<Rightarrow> bytes \<Rightarrow> mem_store \<Rightarrow> (string, unit) result \<times> mem_store" where
  "mem_Put m k v s = (Inr (), ((m, k), v) # filter (\<lambda>(q, _). q \<noteq> (m, k)) s)"

definition mem_Delete :: "string \<Rightarrow> string \<Rightarrow> mem_store \<Rightarrow> (string, unit) result \<times> mem_store" where
  "mem_Delete m k s = (Inr (), filter (\<lambda>(q, _). q \<noteq> (m, k)) s)"

definition mem_List :: "string \<Rightarrow> string \<Rightarrow> mem_store \<Rightarrow> (string, string list) result" where
  "mem_List m p s = Inr (map snd (filter (\<lambda>(n, k). n = m \<and> HasPrefix k p) (map fst s)))"

definition MemStore :: "mem_store backend" where
  "MemStore = \<lparr>beGet = mem_Get, bePut = mem_Put, beDelete = mem_Delete, beList = mem_List\<rparr>"

definition mem_inv :: "mem_store \<Rightarrow> bool" where
  "mem_inv s = distinct (map fst s)"

definition mem_view :: "mem_store \<Rightarrow> string \<Rightarrow> string \<Rightarrow> bytes option" where
  "mem_view s m k = map_of s (m, k)"

lemma map_of_filter_neq: "map_of (filter (\<lambda>(q, _). q \<noteq> x) s) = (map_of s)(x := None)"
  by (induction s) auto

lemma distinct_filter_fst: "distinct (map fst s) \<Longrightarrow> distinct (map fst (filter P s))"
  by (induction s) auto

lemma fst_filter_neq: "x \<notin> fst ` set (filter (\<lambda>(q, _). q \<noteq> x) s)"
  by auto

lemma mem_List_distinct:
  "distinct (map fst s) \<Longrightarrow> distinct (map snd (filter (\<lambda>(n, k). n = m \<and> HasPrefix k p) (map fst s)))"
  unfolding distinct_map [of snd] by (auto simp: inj_on_def)

interpretation mem: store_backend MemStore mem_inv mem_view
proof (unfold_locales, goal_cases)
  case (6 s m p ks)
  then have ks: "ks = map snd (filter (\<lambda>(n, k). n = m \<and> HasPrefix k p) (map fst s))"
    by (simp add: MemStore_def mem_List_def)
  have "k \<in> set ks \<longleftrightarrow> (m, k) \<in> fst ` set s \<and> prefix p k" for k
    unfolding ks by (force simp: HasPrefix_def)
  moreover have "(m, k) \<in> fst ` set s \<longleftrightarrow> mem_view s m k \<noteq> None" for k
    by (simp add: mem_view_def map_of_eq_None_iff)
  ultimately have "set ks = {k. mem_view s m k \<noteq> None \<and> prefix p k}" by auto
  with 6(1) show ?case by (simp add: mem_inv_def ks mem_List_distinct)
qed (auto simp: MemStore_def mem_Get_def mem_Put_def mem_Delete_def mem_inv_def mem_view_def
    map_of_filter_neq distinct_filter_fst fun_eq_iff)


text \<open>A backend none of whose operations fails.\<close>

locale reliable_backend = store_backend +
  assumes get_total: "inv s \<Longrightarrow> \<exists>r. beGet be m k s = Inr r"
    and put_total: "inv s \<Longrightarrow> \<exists>s'. bePut be m k v s = (Inr (), s')"
    and delete_total: "inv s \<Longrightarrow> \<exists>s'. beDelete be m k s = (Inr (), s')"
    and list_total: "inv s \<Longrightarrow> \<exists>ks. beList be m p s = Inr ks"
begin

lemma get_eq: "inv s \<Longrightarrow> beGet be m k s = Inr (view s m k)"
  using get_total [of s m k] get_view [of s m k] by auto

lemma deleted:
  assumes "inv s"
  shows "inv (snd (beDelete be m k s)) \<and> view (snd (beDelete be m k s)) = (view s)(m := (view s m)(k := None))"
  using delete_total [OF assms, of m k] delete_ok [OF assms, of m k] by auto

lemma listed:
  assumes "inv s"
  obtains ks where "beList be m p s = Inr ks" "distinct ks" "set ks = {k. view s m k \<noteq> None \<and> prefix p k}"
  using list_total [OF assms, of m p] list_view [OF assms, of m p] by auto

end

interpretation memr: reliable_backend MemStore mem_inv mem_view
  by unfold_locales (auto simp: MemStore_def mem_Get_def mem_Put_def mem_Delete_def mem_List_def)


section \<open>The encrypted store\<close>

text \<open>
  The database: \<open>View\<close> and \<open>Update\<close> transactions on one key of one bucket, and the keys of a
  bucket in the order of \<open>ForEach\<close>. An update either takes effect or fails without effect.
\<close>

record 'db bolt =
  boltGet :: "'db \<Rightarrow> string \<Rightarrow> string \<Rightarrow> bytes option"
  boltPut :: "'db \<Rightarrow> string \<Rightarrow> string \<Rightarrow> bytes \<Rightarrow> (string, 'db) result"
  boltDelete :: "'db \<Rightarrow> string \<Rightarrow> string \<Rightarrow> (string, 'db) result"
  boltKeys :: "'db \<Rightarrow> string \<Rightarrow> string list"

definition bolt_laws :: "'db bolt \<Rightarrow> bool" where
  "bolt_laws b =
     ((\<forall>db m k v db'. boltPut b db m k v = Inr db' \<longrightarrow>
         boltGet b db' = (boltGet b db)(m := (boltGet b db m)(k := Some v)))
      \<and> (\<forall>db m k db'. boltDelete b db m k = Inr db' \<longrightarrow>
         boltGet b db' = (boltGet b db)(m := (boltGet b db m)(k := None)))
      \<and> (\<forall>db m. distinct (boltKeys b db m) \<and> set (boltKeys b db m) = {k. boltGet b db m k \<noteq> None}))"

record aead =
  aeadSeal :: "bytes \<Rightarrow> bytes \<Rightarrow> bytes \<Rightarrow> bytes"
  aeadOpen :: "bytes \<Rightarrow> bytes \<Rightarrow> bytes \<Rightarrow> bytes option"

definition aeadNonceSize :: nat where "aeadNonceSize = 12"

text \<open>Opening inverts sealing, and a sealed value opens under its own associated data only.\<close>

definition aead_laws :: "aead \<Rightarrow> bool" where
  "aead_laws a =
     ((\<forall>n p ad. aeadOpen a n (aeadSeal a n p ad) ad = Some p)
      \<and> (\<forall>n p ad ad'. ad' \<noteq> ad \<longrightarrow> aeadOpen a n (aeadSeal a n p ad) ad' = None))"

text \<open>The random source answers the \<open>n\<close>-th draw with a nonce, or fails.\<close>

record 'db store =
  storeDB :: 'db
  storeDraws :: nat
  storeRandom :: "nat \<Rightarrow> bytes option"

record 'db store_env =
  envBolt :: "'db bolt"
  envAEAD :: aead
  envCancelled :: bool

definition aad :: "string \<Rightarrow> string \<Rightarrow> bytes" where
  "aad m k = m @ CHR 0x00 # k"

definition seal :: "aead \<Rightarrow> bytes \<Rightarrow> string \<Rightarrow> string \<Rightarrow> bytes \<Rightarrow> bytes" where
  "seal a nonce m k v = nonce @ aeadSeal a nonce v (aad m k)"

definition open_sealed :: "aead \<Rightarrow> string \<Rightarrow> string \<Rightarrow> bytes \<Rightarrow> (string, bytes) result" where
  "open_sealed a m k sealed =
     (if length sealed < aeadNonceSize then Inl ''store: corrupt value''
      else case aeadOpen a (take aeadNonceSize sealed) (drop aeadNonceSize sealed) (aad m k) of
        None \<Rightarrow> Inl ''cipher: message authentication failed''
      | Some p \<Rightarrow> Inr p)"

definition Store_Get :: "'db store_env \<Rightarrow> string \<Rightarrow> string \<Rightarrow> 'db store \<Rightarrow> (string, bytes option) result" where
  "Store_Get e m k s =
     (if envCancelled e then Inl ''context canceled''
      else case boltGet (envBolt e) (storeDB s) m k of
        None \<Rightarrow> Inr None
      | Some sealed \<Rightarrow>
          (case open_sealed (envAEAD e) m k sealed of Inl err \<Rightarrow> Inl err | Inr p \<Rightarrow> Inr (Some p)))"

definition Store_Put ::
    "'db store_env \<Rightarrow> string \<Rightarrow> string \<Rightarrow> bytes \<Rightarrow> 'db store \<Rightarrow> (string, unit) result \<times> 'db store" where
  "Store_Put e m k v s =
     (if envCancelled e then (Inl ''context canceled'', s)
      else
        let s' = s\<lparr>storeDraws := Suc (storeDraws s)\<rparr> in
        case storeRandom s (storeDraws s) of
          None \<Rightarrow> (Inl ''rand'', s')
        | Some nonce \<Rightarrow>
            (case boltPut (envBolt e) (storeDB s) m k (seal (envAEAD e) nonce m k v) of
               Inl err \<Rightarrow> (Inl err, s')
             | Inr db \<Rightarrow> (Inr (), s'\<lparr>storeDB := db\<rparr>)))"

definition Store_Delete ::
    "'db store_env \<Rightarrow> string \<Rightarrow> string \<Rightarrow> 'db store \<Rightarrow> (string, unit) result \<times> 'db store" where
  "Store_Delete e m k s =
     (if envCancelled e then (Inl ''context canceled'', s)
      else case boltDelete (envBolt e) (storeDB s) m k of
        Inl err \<Rightarrow> (Inl err, s)
      | Inr db \<Rightarrow> (Inr (), s\<lparr>storeDB := db\<rparr>))"

definition Store_List :: "'db store_env \<Rightarrow> string \<Rightarrow> string \<Rightarrow> 'db store \<Rightarrow> (string, string list) result" where
  "Store_List e m p s =
     (if envCancelled e then Inl ''context canceled''
      else Inr (filter (\<lambda>k. HasPrefix k p) (boltKeys (envBolt e) (storeDB s) m)))"

definition Store :: "'db store_env \<Rightarrow> 'db store backend" where
  "Store e = \<lparr>beGet = Store_Get e, bePut = Store_Put e, beDelete = Store_Delete e, beList = Store_List e\<rparr>"

text \<open>Every stored value opens; draws are nonces of the right size. The view is the plaintext.\<close>

definition store_inv :: "'db store_env \<Rightarrow> 'db store \<Rightarrow> bool" where
  "store_inv e s =
     ((\<forall>n x. storeRandom s n = Some x \<longrightarrow> length x = aeadNonceSize)
      \<and> (\<forall>m k sealed. boltGet (envBolt e) (storeDB s) m k = Some sealed \<longrightarrow>
           is_ok (open_sealed (envAEAD e) m k sealed)))"

definition store_view :: "'db store_env \<Rightarrow> 'db store \<Rightarrow> string \<Rightarrow> string \<Rightarrow> bytes option" where
  "store_view e s m k =
     (case boltGet (envBolt e) (storeDB s) m k of
        None \<Rightarrow> None
      | Some sealed \<Rightarrow> (case open_sealed (envAEAD e) m k sealed of Inl _ \<Rightarrow> None | Inr p \<Rightarrow> Some p))"

lemma open_seal:
  assumes "aead_laws a" "length nonce = aeadNonceSize"
  shows "open_sealed a m k (seal a nonce m k v) = Inr v"
  using assms by (simp add: open_sealed_def seal_def aead_laws_def)

lemma Store_backend:
  assumes "bolt_laws (envBolt e)" "aead_laws (envAEAD e)"
  shows "store_backend (Store e) (store_inv e) (store_view e)"
proof (unfold_locales, goal_cases)
  case (1 s m k r)
  then show ?case
    by (auto simp: Store_def Store_Get_def store_view_def split: if_splits option.splits sum.splits)
next
  case (2 s m k v u s')
  from 2(2) obtain nonce db where n: "storeRandom s (storeDraws s) = Some nonce"
    and db: "boltPut (envBolt e) (storeDB s) m k (seal (envAEAD e) nonce m k v) = Inr db"
    and s': "s' = s\<lparr>storeDraws := Suc (storeDraws s), storeDB := db\<rparr>"
    by (auto simp: Store_def Store_Put_def Let_def split: if_splits option.splits sum.splits)
  have len: "length nonce = aeadNonceSize" using 2(1) n by (auto simp: store_inv_def)
  have get: "boltGet (envBolt e) db = (boltGet (envBolt e) (storeDB s))
      (m := (boltGet (envBolt e) (storeDB s) m)(k := Some (seal (envAEAD e) nonce m k v)))"
    using assms(1) db unfolding bolt_laws_def by blast
  have "store_inv e s'"
    using 2(1) open_seal [OF assms(2) len] by (auto simp: store_inv_def s' get)
  moreover have "store_view e s' = (store_view e s)(m := (store_view e s m)(k := Some v))"
    using open_seal [OF assms(2) len] by (auto simp: store_view_def s' get fun_eq_iff)
  ultimately show ?case by blast
next
  case (3 s m k v err s')
  then show ?case
    by (auto simp: Store_def Store_Put_def Let_def store_inv_def store_view_def fun_eq_iff
        split: if_splits option.splits sum.splits)
next
  case (4 s m k u s')
  from 4(2) obtain db where db: "boltDelete (envBolt e) (storeDB s) m k = Inr db" and s': "s' = s\<lparr>storeDB := db\<rparr>"
    by (auto simp: Store_def Store_Delete_def split: if_splits sum.splits)
  have get: "boltGet (envBolt e) db = (boltGet (envBolt e) (storeDB s))(m := (boltGet (envBolt e) (storeDB s) m)(k := None))"
    using assms(1) db unfolding bolt_laws_def by blast
  with 4(1) show ?case by (auto simp: store_inv_def store_view_def s' get fun_eq_iff)
next
  case (5 s m k err s')
  then show ?case by (auto simp: Store_def Store_Delete_def split: if_splits sum.splits)
next
  case (6 s m p ks)
  then have ks: "ks = filter (\<lambda>k. HasPrefix k p) (boltKeys (envBolt e) (storeDB s) m)"
    by (auto simp: Store_def Store_List_def split: if_splits)
  have keys: "distinct (boltKeys (envBolt e) (storeDB s) m)"
    "set (boltKeys (envBolt e) (storeDB s) m) = {k. boltGet (envBolt e) (storeDB s) m k \<noteq> None}"
    using assms(1) unfolding bolt_laws_def by blast+
  have "boltGet (envBolt e) (storeDB s) m k \<noteq> None \<longleftrightarrow> store_view e s m k \<noteq> None" for k
    using 6(1) by (fastforce simp: store_inv_def store_view_def is_ok_iff split: option.splits sum.splits)
  then show ?case using keys by (auto simp: ks HasPrefix_def)
qed

text \<open>
  A database none of whose updates fails, and a random source that always answers: then no call of the encrypted
  store fails either.
\<close>

definition bolt_total :: "'db bolt \<Rightarrow> bool" where
  "bolt_total b = ((\<forall>db m k v. is_ok (boltPut b db m k v)) \<and> (\<forall>db m k. is_ok (boltDelete b db m k)))"

definition store_ready :: "'db store_env \<Rightarrow> 'db store \<Rightarrow> bool" where
  "store_ready e s = (store_inv e s \<and> (\<forall>n. storeRandom s n \<noteq> None))"

lemma Store_random:
  "storeRandom (snd (Store_Put e m k v s)) = storeRandom s" "storeRandom (snd (Store_Delete e m k s)) = storeRandom s"
  by (auto simp: Store_Put_def Store_Delete_def Let_def split: option.splits sum.splits)

lemma Store_reliable:
  assumes laws: "bolt_laws (envBolt e)" "aead_laws (envAEAD e)" and total: "bolt_total (envBolt e)" "\<not> envCancelled e"
  shows "reliable_backend (Store e) (store_ready e) (store_view e)"
proof -
  note be = Store_backend [OF laws]
  have ready: "store_ready e s'" if "store_ready e s" "store_inv e s'" "storeRandom s' = storeRandom s" for s s'
    using that by (simp add: store_ready_def)
  have put: "storeRandom s' = storeRandom s" if "bePut (Store e) m k v s = (r, s')" for m k v s r s'
    using Store_random(1) [of e m k v s] that by (simp add: Store_def)
  have del: "storeRandom s' = storeRandom s" if "beDelete (Store e) m k s = (r, s')" for m k s r s'
    using Store_random(2) [of e m k s] that by (simp add: Store_def)
  have inv: "store_inv e s" if "store_ready e s" for s using that by (simp add: store_ready_def)
  show ?thesis
  proof (unfold_locales, goal_cases)
    case (1 s m k r)
    show ?case by (rule store_backend.get_view [OF be inv [OF 1(1)] 1(2)])
  next
    case (2 s m k v u s')
    from store_backend.put_ok [OF be inv [OF 2(1)] 2(2)] ready [OF 2(1) _ put [OF 2(2)]] show ?case by blast
  next
    case (3 s m k v err s')
    from store_backend.put_err [OF be inv [OF 3(1)] 3(2)] ready [OF 3(1) _ put [OF 3(2)]] show ?case by blast
  next
    case (4 s m k u s')
    from store_backend.delete_ok [OF be inv [OF 4(1)] 4(2)] ready [OF 4(1) _ del [OF 4(2)]] show ?case by blast
  next
    case (5 s m k err s')
    from store_backend.delete_err [OF be inv [OF 5(1)] 5(2)] ready [OF 5(1) _ del [OF 5(2)]] show ?case by blast
  next
    case (6 s m p ks)
    show ?case by (rule store_backend.list_view [OF be inv [OF 6(1)] 6(2)])
  next
    case (7 s m k)
    then show ?case using total(2)
      by (fastforce simp: Store_def Store_Get_def store_ready_def store_inv_def is_ok_iff split: option.splits)
  next
    case (8 s m k v)
    then obtain nonce where "storeRandom s (storeDraws s) = Some nonce" by (auto simp: store_ready_def)
    moreover obtain db where "boltPut (envBolt e) (storeDB s) m k (seal (envAEAD e) nonce m k v) = Inr db"
      using total(1) unfolding bolt_total_def is_ok_iff by blast
    ultimately show ?case using total(2) by (simp add: Store_def Store_Put_def Let_def)
  next
    case (9 s m k)
    obtain db where "boltDelete (envBolt e) (storeDB s) m k = Inr db" using total(1) unfolding bolt_total_def is_ok_iff by blast
    then show ?case using total(2) by (simp add: Store_def Store_Delete_def)
  next
    case (10 s m p)
    then show ?case using total(2) by (simp add: Store_def Store_List_def)
  qed
qed


section \<open>The master key\<close>

text \<open>
  \<open>loadOrCreateKey\<close>: the key file is read and unsealed, or a new key is sealed and published by
  a rename. The platform protector and the random source are parameters.
\<close>

record key_env =
  protSeal :: "bytes \<Rightarrow> bytes option"
  protUnseal :: "bytes \<Rightarrow> bytes option"
  keyRandom :: "bytes option"

datatype key_failure = KeyIO io_error | UnsealFailed | WrongLength | NoRandom | SealFailed

definition publish_key :: "path \<Rightarrow> bytes \<Rightarrow> ('x disk_scheme, (io_error, unit) result) state" where
  "publish_key p sealed =
     then_ok (CreateTemp (Dir p) ''.key-'') (\<lambda>tmp. do {
       written \<leftarrow> WriteString tmp sealed;
       finish_marker tmp written (do {
         chmod \<leftarrow> FileCall tmp;
         finish_marker tmp chmod (do {
           closed \<leftarrow> FileCall tmp;
           finish_marker tmp closed (do {
             renamed \<leftarrow> Rename tmp p;
             finish_marker tmp renamed (ret (Inr ())) }) }) }) })"

definition createKey :: "key_env \<Rightarrow> path \<Rightarrow> ('x disk_scheme, (key_failure, bytes) result) state" where
  "createKey e p =
     (case keyRandom e of
        None \<Rightarrow> ret (Inl NoRandom)
      | Some key \<Rightarrow>
          (case protSeal e key of
             None \<Rightarrow> ret (Inl SealFailed)
           | Some sealed \<Rightarrow>
               then_ok (wrap_err KeyIO (publish_key p sealed)) (\<lambda>_. ret (Inr key))))"

definition loadOrCreateKey :: "key_env \<Rightarrow> path \<Rightarrow> ('x disk_scheme, (key_failure, bytes) result) state" where
  "loadOrCreateKey e p = do {
     r \<leftarrow> ReadFile p;
     case r of
       Inr sealed \<Rightarrow> ret (case protUnseal e sealed of
           None \<Rightarrow> Inl UnsealFailed
         | Some key \<Rightarrow> if length key \<noteq> 32 then Inl WrongLength else Inr key)
     | Inl err \<Rightarrow> if \<not> IsNotExist err then ret (Inl (KeyIO err)) else createKey e p }"

text \<open>The tree at the key path while the key is being published: as before.\<close>

definition key_post :: "path \<Rightarrow> bytes \<Rightarrow> fs \<Rightarrow> (io_error, unit) result \<Rightarrow> fs \<Rightarrow> bool" where
  "key_post p sealed t r t' =
     (lookup t' p = (if r = Inr () then Some (File sealed) else lookup t p))"

lemma key_post_err: "lookup t' p = lookup t p \<Longrightarrow> key_post p sealed t (Inl e) t'"
  by (simp add: key_post_def)

lemma wp_key_finish:
  assumes tmp: "tmp \<noteq> p" and keep: "lookup (tree d) p = lookup t p"
    and rest: "r = Inr () \<Longrightarrow> wp rest (\<lambda>r d'. key_post p sealed t r (tree d')) d"
  shows "wp (finish_marker tmp r rest) (\<lambda>r d'. key_post p sealed t r (tree d')) d"
proof (cases r)
  case (Inl e)
  have "wp (Remove tmp) (\<lambda>_ d'. lookup (tree d') p = lookup t p) d"
    by (rule wp_Remove) (use tmp keep in simp_all)
  then show ?thesis
    unfolding finish_marker_def Inl sum.case wp_simps by (rule wp_mono) (simp add: key_post_err)
qed (simp add: finish_marker_def rest)

lemma wp_key_rename:
  assumes tmp: "tmp \<noteq> p" and keep: "lookup (tree d) p = lookup t p"
    and written: "lookup (tree d) tmp = Some (File sealed)"
  shows "wp (do { renamed \<leftarrow> Rename tmp p; finish_marker tmp renamed (ret (Inr ())) })
    (\<lambda>r d'. key_post p sealed t r (tree d')) d"
  unfolding wp_bind
proof (rule wp_Rename)
  show "wp (finish_marker tmp (Inr ()) (ret (Inr ()))) (\<lambda>r d'. key_post p sealed t r (tree d'))
      (after_call d (rename_tree tmp p (tree d)))"
    by (simp add: finish_marker_def wp_simps key_post_def rename_tree_def written)
qed (rule wp_key_finish [OF tmp], use keep in simp_all)

lemma wp_key_close:
  assumes tmp: "tmp \<noteq> p" and keep: "lookup (tree d) p = lookup t p"
    and written: "lookup (tree d) tmp = Some (File sealed)"
  shows "wp (do { closed \<leftarrow> FileCall tmp; finish_marker tmp closed (do {
      renamed \<leftarrow> Rename tmp p; finish_marker tmp renamed (ret (Inr ())) }) })
    (\<lambda>r d'. key_post p sealed t r (tree d')) d"
  unfolding wp_bind [of "FileCall _"]
  by (rule wp_FileCall; rule wp_key_finish [OF tmp])
    (use keep written in \<open>simp_all add: wp_key_rename [OF tmp]\<close>)

lemma wp_key_chmod:
  assumes tmp: "tmp \<noteq> p" and keep: "lookup (tree d) p = lookup t p"
    and written: "lookup (tree d) tmp = Some (File sealed)"
  shows "wp (do { chmod \<leftarrow> FileCall tmp; finish_marker tmp chmod (do {
      closed \<leftarrow> FileCall tmp; finish_marker tmp closed (do {
      renamed \<leftarrow> Rename tmp p; finish_marker tmp renamed (ret (Inr ())) }) }) })
    (\<lambda>r d'. key_post p sealed t r (tree d')) d"
proof -
  have step: "wp (do { x \<leftarrow> FileCall tmp; finish_marker tmp x m }) (\<lambda>r d'. key_post p sealed t r (tree d')) d"
    if m: "wp m (\<lambda>r d'. key_post p sealed t r (tree d')) (after_call d (tree d))" for m
    unfolding wp_bind by (rule wp_FileCall; rule wp_key_finish [OF tmp]) (use keep m in simp_all)
  show ?thesis by (rule step) (rule wp_key_close [OF tmp]; simp add: keep written)
qed

lemma wp_publish_key:
  assumes "p \<noteq> []" "\<not> prefix ''.key-'' (last p)"
  shows "wp (publish_key p sealed) (\<lambda>r d'. key_post p sealed (tree d) r (tree d')) d"
  unfolding publish_key_def wp_then_ok
proof (rule wp_CreateTemp, goal_cases)
  case (1 k)
  define tmp where "tmp = Dir p @ [''.key-'' @ dec k]"
  have tmp: "tmp \<noteq> p" unfolding tmp_def using assms by (metis last_snoc prefixI)
  show ?case
    unfolding sum.case wp_bind [of "WriteString _ sealed"] tmp_def [symmetric]
    by (rule wp_WriteString; rule wp_key_finish [OF tmp]) (use tmp in \<open>simp_all add: wp_key_chmod\<close>)
qed (simp add: key_post_def)


text \<open>What starting the store may leave at the key path.\<close>

definition key_file_ok :: "key_env \<Rightarrow> path \<Rightarrow> fs \<Rightarrow> (key_failure, bytes) result \<Rightarrow> fs \<Rightarrow> bool" where
  "key_file_ok e p t r t' =
     ((lookup t' p = lookup t p
        \<or> (\<exists>key sealed. protSeal e key = Some sealed \<and> lookup t' p = Some (File sealed)))
      \<and> (\<forall>key. r = Inr key \<longrightarrow> (\<exists>sealed. lookup t' p = Some (File sealed) \<and> protUnseal e sealed = Some key)))"

lemma key_post_ok:
  assumes "key_post p sealed t r t'" "protSeal e key = Some sealed" "protUnseal e sealed = Some key"
  shows "key_file_ok e p t (case map_error KeyIO r of Inl err \<Rightarrow> Inl err | Inr _ \<Rightarrow> Inr key) t'"
  using assms by (cases r) (auto simp: key_post_def key_file_ok_def)

lemma wp_createKey:
  assumes "p \<noteq> []" "\<not> prefix ''.key-'' (last p)"
    and unseal: "\<And>key sealed. keyRandom e = Some key \<Longrightarrow> protSeal e key = Some sealed \<Longrightarrow> protUnseal e sealed = Some key"
  shows "wp (createKey e p) (\<lambda>r d'. key_file_ok e p (tree d) r (tree d')) d"
proof (cases "keyRandom e")
  case (Some key)
  show ?thesis
  proof (cases "protSeal e key")
    case seal: (Some sealed)
    have "wp (publish_key p sealed) (\<lambda>r. case map_error KeyIO r of
          Inl err \<Rightarrow> \<lambda>d'. key_file_ok e p (tree d) (Inl err) (tree d')
        | Inr _ \<Rightarrow> \<lambda>d'. key_file_ok e p (tree d) (Inr key) (tree d')) d"
      by (rule wp_mono [OF wp_publish_key [OF assms(1,2)]])
        (use key_post_ok [OF _ seal unseal [OF Some seal]] in \<open>fastforce split: sum.split\<close>)
    then show ?thesis unfolding createKey_def Some seal option.case wp_simps .
  qed (simp add: createKey_def Some wp_simps key_file_ok_def)
qed (simp add: createKey_def wp_simps key_file_ok_def)

lemma wp_loadOrCreateKey:
  assumes "p \<noteq> []" "\<not> prefix ''.key-'' (last p)"
    and unseal: "\<And>key sealed. keyRandom e = Some key \<Longrightarrow> protSeal e key = Some sealed \<Longrightarrow> protUnseal e sealed = Some key"
  shows "wp (loadOrCreateKey e p) (\<lambda>r d'. key_file_ok e p (tree d) r (tree d')) d"
proof -
  have fail: "wp (if \<not> IsNotExist err then ret (Inl (KeyIO err)) else createKey e p)
      (\<lambda>r d'. key_file_ok e p (tree d) r (tree d')) (after_call d (tree d))" for err
    using wp_createKey [OF assms, of "after_call d (tree d)"] by (simp add: wp_simps key_file_ok_def)
  have read: "key_file_ok e p (tree d) (case protUnseal e sealed of
           None \<Rightarrow> Inl UnsealFailed
         | Some key \<Rightarrow> if length key \<noteq> 32 then Inl WrongLength else Inr key) (tree d)"
    if "read_tree p (tree d) = Inr sealed" for sealed
    using that by (auto simp: key_file_ok_def read_tree_def split: option.splits node.splits if_splits)
  show ?thesis
    unfolding loadOrCreateKey_def wp_bind
    by (rule wp_ReadFile; cases "read_tree p (tree d)") (simp_all add: fail read wp_ret)
qed


section \<open>A concrete instance of the parameters\<close>

text \<open>A database in memory and a cipher that puts the length and the text of the associated data first.\<close>

definition ex_bolt :: "mem_store bolt" where
  "ex_bolt = \<lparr>boltGet = mem_view, boltPut = (\<lambda>db m k v. Inr (snd (mem_Put m k v db))),
     boltDelete = (\<lambda>db m k. Inr (snd (mem_Delete m k db))),
     boltKeys = (\<lambda>db m. remdups (map snd (filter (\<lambda>(n, k). n = m) (map fst db))))\<rparr>"

definition ex_tag :: "bytes \<Rightarrow> bytes" where
  "ex_tag ad = replicate (length ad) CHR ''1'' @ CHR ''0'' # ad"

definition ex_aead :: aead where
  "ex_aead = \<lparr>aeadSeal = (\<lambda>n p ad. ex_tag ad @ p),
     aeadOpen = (\<lambda>n c ad. if prefix (ex_tag ad) c then Some (drop (length (ex_tag ad)) c) else None)\<rparr>"

definition ex_store_env :: "mem_store store_env" where
  "ex_store_env = \<lparr>envBolt = ex_bolt, envAEAD = ex_aead, envCancelled = False\<rparr>"

definition ex_store :: "mem_store store" where
  "ex_store = \<lparr>storeDB = [], storeDraws = 0, storeRandom = (\<lambda>_. Some (replicate 12 CHR ''n''))\<rparr>"

lemma ex_bolt_laws: "bolt_laws ex_bolt"
proof -
  have "set (map snd (filter (\<lambda>(n, k). n = m) (map fst db))) = {k. mem_view db m k \<noteq> None}" for db :: mem_store and m
    by (force simp: mem_view_def map_of_eq_None_iff simp del: not_None_eq)
  then show ?thesis
    by (auto simp: bolt_laws_def ex_bolt_def mem_view_def mem_Put_def mem_Delete_def map_of_filter_neq fun_eq_iff
        simp del: not_None_eq)
qed

lemma ex_tag_inj: "prefix (ex_tag ad') (ex_tag ad @ p) \<Longrightarrow> ad' = ad"
proof -
  assume "prefix (ex_tag ad') (ex_tag ad @ p)"
  then obtain q where eq: "ex_tag ad @ p = ex_tag ad' @ q" by (auto simp: prefix_def)
  have run: "takeWhile ((=) CHR ''1'') (replicate n CHR ''1'' @ CHR ''0'' # r) = replicate n CHR ''1''" for n r
    by (induction n) auto
  have "takeWhile ((=) CHR ''1'') (ex_tag ad @ p) = replicate (length ad) CHR ''1''" for ad p
    by (simp add: ex_tag_def run)
  from this [of ad p] this [of ad' q] eq have len: "length ad = length ad'" by (metis length_replicate)
  with eq show ?thesis by (simp add: ex_tag_def)
qed

lemma ex_aead_laws: "aead_laws ex_aead"
  using ex_tag_inj by (auto simp: aead_laws_def ex_aead_def)


section \<open>Properties\<close>

text \<open>
  The encrypted store returns what was put: after a \<open>Put\<close> that succeeds, \<open>Get\<close> of that
  namespace and key gives the value, and \<open>Get\<close> of every other namespace or key gives what it
  gave before, whatever the namespaces and keys are.
\<close>

theorem Store_get_after_put:
  assumes "bolt_laws (envBolt e)" "aead_laws (envAEAD e)" "store_inv e s"
    and "Store_Put e m k v s = (Inr (), s')"
  shows "Store_Get e m k s' = Inr (Some v)
    \<and> (\<forall>m' k'. (m', k') \<noteq> (m, k) \<longrightarrow> Store_Get e m' k' s' = Store_Get e m' k' s)"
proof -
  from assms(4) obtain nonce db where n: "storeRandom s (storeDraws s) = Some nonce"
    and db: "boltPut (envBolt e) (storeDB s) m k (seal (envAEAD e) nonce m k v) = Inr db"
    and s': "s' = s\<lparr>storeDraws := Suc (storeDraws s), storeDB := db\<rparr>" and c: "\<not> envCancelled e"
    by (auto simp: Store_Put_def Let_def split: if_splits option.splits sum.splits)
  have "boltGet (envBolt e) db = (boltGet (envBolt e) (storeDB s))
      (m := (boltGet (envBolt e) (storeDB s) m)(k := Some (seal (envAEAD e) nonce m k v)))"
    using assms(1) db unfolding bolt_laws_def by blast
  moreover have "length nonce = aeadNonceSize" using assms(3) n by (auto simp: store_inv_def)
  ultimately show ?thesis
    using c open_seal [OF assms(2)] by (auto simp: Store_Get_def s')
qed

theorem Store_get_after_put_witness:
  "Store_Get ex_store_env ''sysinfo'' ''k'' (snd (Store_Put ex_store_env ''sysinfo'' ''k'' ''v'' ex_store)) = Inr (Some ''v'')
    \<and> Store_Get ex_store_env ''other'' ''k'' (snd (Store_Put ex_store_env ''sysinfo'' ''k'' ''v'' ex_store))
        = Store_Get ex_store_env ''other'' ''k'' ex_store"
proof -
  have "bolt_laws (envBolt ex_store_env)" "aead_laws (envAEAD ex_store_env)"
    by (simp_all add: ex_store_env_def ex_bolt_laws ex_aead_laws)
  moreover have "store_inv ex_store_env ex_store"
    by (simp add: store_inv_def ex_store_env_def ex_store_def ex_bolt_def mem_view_def aeadNonceSize_def)
  moreover have "Store_Put ex_store_env ''sysinfo'' ''k'' ''v'' ex_store = (Inr (), snd (Store_Put ex_store_env ''sysinfo'' ''k'' ''v'' ex_store))"
    by (simp add: Store_Put_def ex_store_env_def ex_store_def ex_bolt_def)
  ultimately show ?thesis by (simp add: Store_get_after_put)
qed

text \<open>
  C29: a sealed value is bound to its place: moved to another key or to another namespace it does
  not open, for namespaces without a NUL byte.
\<close>

theorem sealed_value_bound:
  assumes "aead_laws a" "length nonce = aeadNonceSize" "(m', k') \<noteq> (m, k)"
    and "CHR 0x00 \<notin> set m" "CHR 0x00 \<notin> set m'"
  shows "\<not> is_ok (open_sealed a m' k' (seal a nonce m k v))"
proof -
  have "aad m' k' \<noteq> aad m k"
    using assms(3-5)
  proof (induction m arbitrary: m')
    case Nil
    then show ?case by (cases m') (auto simp: aad_def)
  next
    case (Cons x m)
    then show ?case by (cases m') (auto simp: aad_def)
  qed
  with assms(1,2) show ?thesis by (simp add: open_sealed_def seal_def aead_laws_def)
qed

theorem sealed_value_bound_witness:
  "\<not> is_ok (open_sealed ex_aead ''other'' ''k'' (seal ex_aead (replicate 12 CHR ''n'') ''sysinfo'' ''k'' ''v''))"
  by (rule sealed_value_bound [OF ex_aead_laws]) (simp_all add: aeadNonceSize_def)

text \<open>
  C30: the key file is never truncated. Whatever call fails while the master key is created, and
  wherever a crash interrupts it, the file is absent as before or holds the whole sealed key;
  when a key is returned, the file unseals to that key, so the next start reads the same one.
\<close>

theorem loadOrCreateKey_atomic:
  assumes "p \<noteq> []" "\<not> prefix ''.key-'' (last p)"
    and "\<And>key sealed. keyRandom e = Some key \<Longrightarrow> protSeal e key = Some sealed \<Longrightarrow> protUnseal e sealed = Some key"
    and "run_state (loadOrCreateKey e p) d = (r, d')"
  shows "(lookup (tree d') p = lookup (tree d) p
        \<or> (\<exists>key sealed. protSeal e key = Some sealed \<and> lookup (tree d') p = Some (File sealed)))
    \<and> (\<forall>key. r = Inr key \<longrightarrow> (\<exists>sealed. lookup (tree d') p = Some (File sealed) \<and> protUnseal e sealed = Some key))"
  using wpD [OF wp_loadOrCreateKey [OF assms(1-3)] assms(4)] by (simp add: key_file_ok_def)

definition ex_key_env :: key_env where
  "ex_key_env = \<lparr>protSeal = Some, protUnseal = Some, keyRandom = Some (replicate 32 CHR ''k'')\<rparr>"

text \<open>A disk on which the rename of the new key file fails: the fifth call.\<close>

definition ex_key_disk :: disk where
  "ex_key_disk = \<lparr>tree = [([], Directory)], calls = 0, fault = (\<lambda>n. if n = 4 then Some 0 else None)\<rparr>"

theorem loadOrCreateKey_atomic_witness:
  "lookup (tree (snd (run_state (loadOrCreateKey ex_key_env [''store.key'']) ex_key_disk))) [''store.key'']
        = lookup (tree ex_key_disk) [''store.key'']
      \<or> (\<exists>key sealed. protSeal ex_key_env key = Some sealed
           \<and> lookup (tree (snd (run_state (loadOrCreateKey ex_key_env [''store.key'']) ex_key_disk))) [''store.key''] = Some (File sealed))"
  by (rule loadOrCreateKey_atomic [OF _ _ _ prod.collapse [symmetric], THEN conjunct1]) (simp_all add: ex_key_env_def)

end
