(* ===== verification/Policy.thy ===== *)
theory Policy
  imports Store Retry
begin

text \<open>
  Policy delivery: the manager (\<open>src/internal/policy/policy.go\<close>) that fetches the policy set,
  caches it in the store and wakes the watchers of the modules whose document changed, the
  in-memory policy backend (\<open>src/internal/hostserv/memory.go\<close>), and the watch stream
  (\<open>policyServer.Watch\<close> of \<open>src/internal/hostserv/hostserv.go\<close>) as a step relation that
  interleaves any number of streams with the manager. JSON, the HTTP client and the store backend
  are parameters.
\<close>

section \<open>Documents and the manager\<close>

definition cacheNamespace :: string where "cacheNamespace = ''core.policy''"
definition cacheKey :: string where "cacheKey = ''document''"

record document =
  docRevision :: uint64
  docModules :: "(string \<times> bytes) list"

text \<open>
  The manager: the documents by module (an association list with distinct keys), the watchers
  with the identity of their channel, and the cache.
\<close>

record 'st manager =
  pmRevision :: uint64
  pmDocs :: "(string \<times> bytes) list"
  pmWatchers :: "(string \<times> nat) list"
  pmCache :: "'st option"

record 'st policy_env =
  peBackend :: "'st backend"
  peEncode :: "document \<Rightarrow> bytes option"
  peDecode :: "bytes \<Rightarrow> document option"

definition new_manager :: "'st option \<Rightarrow> 'st manager" where
  "new_manager cache = \<lparr>pmRevision = 0, pmDocs = [], pmWatchers = [], pmCache = cache\<rparr>"

text \<open>Reading a Go map: a missing key gives the empty value.\<close>

definition doc_of :: "(string \<times> bytes) list \<Rightarrow> string \<Rightarrow> bytes" where
  "doc_of docs m = (case map_of docs m of None \<Rightarrow> [] | Some d \<Rightarrow> d)"

definition set_doc :: "string \<Rightarrow> bytes \<Rightarrow> (string \<times> bytes) list \<Rightarrow> (string \<times> bytes) list" where
  "set_doc m d docs = (m, d) # filter (\<lambda>(k, _). k \<noteq> m) docs"

text \<open>The two loops of \<open>apply\<close>: over the modules of the document, and over the ones it lacks.\<close>

fun install_modules ::
    "(string \<times> bytes) list \<Rightarrow> (string \<times> bytes) list \<Rightarrow> (string \<times> bytes) list \<times> string list" where
  "install_modules docs [] = (docs, [])"
| "install_modules docs ((m, raw) # ms) =
     (if doc_of docs m \<noteq> raw then
        (case install_modules (set_doc m raw docs) ms of (docs', changed) \<Rightarrow> (docs', m # changed))
      else install_modules docs ms)"

definition remove_unseen ::
    "(string \<times> bytes) list \<Rightarrow> (string \<times> bytes) list \<Rightarrow> (string \<times> bytes) list \<times> string list" where
  "remove_unseen mods docs =
     (filter (\<lambda>(m, _). m \<in> set (map fst mods)) docs, map fst (filter (\<lambda>(m, _). m \<notin> set (map fst mods)) docs))"

definition changed_modules :: "document \<Rightarrow> 'st manager \<Rightarrow> string list" where
  "changed_modules doc pm =
     (case install_modules (pmDocs pm) (docModules doc) of
        (docs, changed) \<Rightarrow> changed @ snd (remove_unseen (docModules doc) docs))"

definition watchers_of :: "'st manager \<Rightarrow> string \<Rightarrow> nat list" where
  "watchers_of pm m = map snd (filter (\<lambda>(k, _). k = m) (pmWatchers pm))"

text \<open>
  The section of \<open>apply\<close> under the lock: the manager with the new documents and the channels to
  wake, or \<open>None\<close> when the revision is the current one.
\<close>

definition apply_locked :: "document \<Rightarrow> 'st manager \<Rightarrow> ('st manager \<times> nat list) option" where
  "apply_locked doc pm =
     (if docRevision doc = pmRevision pm then None
      else Some
        (pm\<lparr>pmRevision := docRevision doc,
            pmDocs := fst (remove_unseen (docModules doc) (fst (install_modules (pmDocs pm) (docModules doc))))\<rparr>,
         concat (map (watchers_of pm) (changed_modules doc pm))))"

definition cache_doc :: "'st policy_env \<Rightarrow> document \<Rightarrow> 'st manager \<Rightarrow> 'st manager" where
  "cache_doc e doc pm =
     (case pmCache pm of
        None \<Rightarrow> pm
      | Some q \<Rightarrow>
          (case peEncode e doc of
             None \<Rightarrow> pm
           | Some raw \<Rightarrow> pm\<lparr>pmCache := Some (snd (bePut (peBackend e) cacheNamespace cacheKey raw q))\<rparr>))"

text \<open>
  \<open>apply\<close> with its caching; the signals to the channels are steps of the watch streams below.
\<close>

definition apply_doc :: "'st policy_env \<Rightarrow> document \<Rightarrow> bool \<Rightarrow> 'st manager \<Rightarrow> 'st manager" where
  "apply_doc e doc cache pm =
     (case apply_locked doc pm of
        None \<Rightarrow> pm
      | Some (pm', wake) \<Rightarrow>
          if cache then cache_doc e doc pm' else pm')"

definition Load_policy :: "'st policy_env \<Rightarrow> 'st manager \<Rightarrow> 'st manager" where
  "Load_policy e pm =
     (case pmCache pm of
        None \<Rightarrow> pm
      | Some q \<Rightarrow>
          (case beGet (peBackend e) cacheNamespace cacheKey q of
             Inl _ \<Rightarrow> pm
           | Inr None \<Rightarrow> pm
           | Inr (Some raw) \<Rightarrow>
               (case peDecode e raw of
                  None \<Rightarrow> pm
                | Some doc \<Rightarrow> apply_doc e doc False pm)))"

datatype fetch_error = RequestFailed | BadStatus int | BodyFailed | MalformedDocument
datatype http_reply = NoReply | Reply int "bytes option"

definition policyLimit :: nat where "policyLimit = 8 * 2 ^ 20"

definition fetch :: "'st policy_env \<Rightarrow> http_reply \<Rightarrow> 'st manager \<Rightarrow> (fetch_error, unit) result \<times> 'st manager" where
  "fetch e reply pm =
     (case reply of
        NoReply \<Rightarrow> (Inl RequestFailed, pm)
      | Reply status body \<Rightarrow>
          if status \<noteq> 200 then (Inl (BadStatus status), pm)
          else (case body of
              None \<Rightarrow> (Inl BodyFailed, pm)
            | Some b \<Rightarrow>
                (case peDecode e (take policyLimit b) of
                   None \<Rightarrow> (Inl MalformedDocument, pm)
                 | Some doc \<Rightarrow> (Inr (), apply_doc e doc True pm))))"

text \<open>
  The poll loop on the replies it gets and the draws of the backoff, until the context ends: the
  waits between the polls and the manager at the end.
\<close>

fun poll :: "'st policy_env \<Rightarrow> duration \<Rightarrow> (http_reply \<times> rat) list \<Rightarrow> int \<Rightarrow> 'st manager
    \<Rightarrow> duration list \<times> 'st manager" where
  "poll e interval [] attempt pm = ([], pm)"
| "poll e interval ((reply, draw) # rs) attempt pm =
     (case fetch e reply pm of (r, pm') \<Rightarrow>
        let attempt' = (if is_ok r then 0 else attempt + 1);
            wait = (if attempt' > 0 then max interval (Delay New_backoff attempt' draw) else interval)
        in case poll e interval rs attempt' pm' of (ws, pm'') \<Rightarrow> (wait # ws, pm''))"

definition Run_policy :: "'st policy_env \<Rightarrow> string \<Rightarrow> duration \<Rightarrow> (http_reply \<times> rat) list \<Rightarrow> 'st manager
    \<Rightarrow> duration list \<times> 'st manager" where
  "Run_policy e url interval rs pm =
     (if url = [] then ([], pm)
      else poll e (if interval = 0 then 300 * 10 ^ 9 else interval) rs 0 pm)"

definition policy_Get :: "string \<Rightarrow> 'st manager \<Rightarrow> uint64 \<times> bytes" where
  "policy_Get m pm = (pmRevision pm, doc_of (pmDocs pm) m)"

definition policy_Watch :: "string \<Rightarrow> nat \<Rightarrow> 'st manager \<Rightarrow> 'st manager" where
  "policy_Watch m c pm = pm\<lparr>pmWatchers := pmWatchers pm @ [(m, c)]\<rparr>"

definition policy_Unwatch :: "string \<Rightarrow> nat \<Rightarrow> 'st manager \<Rightarrow> 'st manager" where
  "policy_Unwatch m c pm = pm\<lparr>pmWatchers := remove1 (m, c) (pmWatchers pm)\<rparr>"


section \<open>What a document changes\<close>

lemma doc_of_set_doc [simp]: "doc_of (set_doc m d docs) m' = (if m' = m then d else doc_of docs m')"
proof -
  have "map_of (filter (\<lambda>(k, _). k \<noteq> m) docs) m' = (if m' = m then None else map_of docs m')"
    by (induction docs) auto
  then show ?thesis by (simp add: doc_of_def set_doc_def)
qed

lemma install_modules_doc:
  assumes "distinct (map fst ms)"
  shows "doc_of (fst (install_modules docs ms)) m
    = (case map_of ms m of None \<Rightarrow> doc_of docs m | Some d \<Rightarrow> d)"
  using assms
proof (induction docs ms rule: install_modules.induct)
  case (2 docs k raw ms)
  have none: "map_of ms k = None" using 2(3) by (simp add: map_of_eq_None_iff)
  show ?case using 2 none
    by (cases "doc_of docs k \<noteq> raw"; cases "m = k"; cases "map_of ms m") (auto simp: split_beta)
qed simp

lemma install_modules_changed:
  "doc_of (fst (install_modules docs ms)) m \<noteq> doc_of docs m \<Longrightarrow> m \<in> set (snd (install_modules docs ms))"
proof (induction docs ms rule: install_modules.induct)
  case (2 docs k raw ms)
  then show ?case by (cases "doc_of docs k \<noteq> raw"; cases "m = k") (auto split: prod.splits if_splits)
qed simp

lemma remove_unseen_doc:
  "doc_of (fst (remove_unseen mods docs)) m = (if m \<in> fst ` set mods then doc_of docs m else [])"
proof -
  have "map_of (filter (\<lambda>(k, _). k \<in> S) docs) m = (if m \<in> S then map_of docs m else None)" for S
    by (induction docs) auto
  then show ?thesis by (simp add: doc_of_def remove_unseen_def)
qed

lemma remove_unseen_changed:
  "doc_of (fst (remove_unseen mods docs)) m \<noteq> doc_of docs m \<Longrightarrow> m \<in> set (snd (remove_unseen mods docs))"
proof -
  assume "doc_of (fst (remove_unseen mods docs)) m \<noteq> doc_of docs m"
  then have "m \<notin> fst ` set mods" "doc_of docs m \<noteq> []" by (auto simp: remove_unseen_doc split: if_splits)
  then obtain d where "map_of docs m = Some d" by (auto simp: doc_of_def split: option.splits)
  then have "(m, d) \<in> set docs" by (rule map_of_SomeD)
  with \<open>m \<notin> fst ` set mods\<close> show ?thesis by (force simp: remove_unseen_def)
qed

lemma apply_locked_docs:
  assumes "apply_locked doc pm = Some (pm', wake)" "distinct (map fst (docModules doc))"
  shows "doc_of (pmDocs pm') m = doc_of (docModules doc) m"
proof -
  have "pmDocs pm' = fst (remove_unseen (docModules doc) (fst (install_modules (pmDocs pm) (docModules doc))))"
    using assms(1) by (auto simp: apply_locked_def split: if_splits)
  moreover have "m \<in> fst ` set (docModules doc) \<longleftrightarrow> map_of (docModules doc) m \<noteq> None"
    by (simp add: map_of_eq_None_iff)
  ultimately show ?thesis
    using install_modules_doc [OF assms(2), of "pmDocs pm" m]
    by (cases "map_of (docModules doc) m") (simp_all add: remove_unseen_doc, simp_all add: doc_of_def)
qed

lemma apply_locked_wakes:
  assumes "apply_locked doc pm = Some (pm', wake)" "(m, c) \<in> set (pmWatchers pm)"
    and "doc_of (pmDocs pm') m \<noteq> doc_of (pmDocs pm) m"
  shows "c \<in> set wake"
proof -
  have "m \<in> set (changed_modules doc pm)"
  proof (rule ccontr)
    assume "m \<notin> set (changed_modules doc pm)"
    then have "m \<notin> set (snd (install_modules (pmDocs pm) (docModules doc)))"
      "m \<notin> set (snd (remove_unseen (docModules doc) (fst (install_modules (pmDocs pm) (docModules doc)))))"
      by (auto simp: changed_modules_def split_beta)
    then have "doc_of (fst (remove_unseen (docModules doc) (fst (install_modules (pmDocs pm) (docModules doc))))) m
        = doc_of (pmDocs pm) m"
      using install_modules_changed remove_unseen_changed by metis
    with assms(1,3) show False by (auto simp: apply_locked_def split: if_splits)
  qed
  moreover have "c \<in> set (watchers_of pm m)" using assms(2) by (force simp: watchers_of_def)
  ultimately show ?thesis using assms(1) by (auto simp: apply_locked_def split: if_splits)
qed

lemma apply_locked_fields:
  "apply_locked doc pm = Some (pm', wake) \<Longrightarrow>
     pmRevision pm' = docRevision doc \<and> pmWatchers pm' = pmWatchers pm
     \<and> pmCache pm' = pmCache pm"
  by (auto simp: apply_locked_def split: if_splits)

lemma poll_waits: "w \<in> set (fst (poll e interval rs attempt pm)) \<Longrightarrow> interval \<le> w"
  by (induction rs arbitrary: attempt pm) (auto simp: Let_def split_beta max_def split: if_splits)


section \<open>The in-memory policy backend\<close>

record mem_policy =
  mpDocs :: "(string \<times> uint64 \<times> bytes) list"
  mpWatchers :: "(string \<times> nat) list"

definition NewMemPolicy :: mem_policy where
  "NewMemPolicy = \<lparr>mpDocs = [], mpWatchers = []\<rparr>"

definition MemPolicy_Get :: "string \<Rightarrow> mem_policy \<Rightarrow> uint64 \<times> bytes" where
  "MemPolicy_Get m p = (case map_of (mpDocs p) m of None \<Rightarrow> (0, []) | Some doc \<Rightarrow> doc)"

text \<open>\<open>Set\<close>: the new state and the channels to wake.\<close>

definition MemPolicy_Set :: "string \<Rightarrow> bytes \<Rightarrow> mem_policy \<Rightarrow> mem_policy \<times> nat list" where
  "MemPolicy_Set m data p =
     (p\<lparr>mpDocs := (m, fst (MemPolicy_Get m p) + 1, data) # filter (\<lambda>(k, _). k \<noteq> m) (mpDocs p)\<rparr>,
      map snd (filter (\<lambda>(k, _). k = m) (mpWatchers p)))"

definition MemPolicy_Watch :: "string \<Rightarrow> nat \<Rightarrow> mem_policy \<Rightarrow> mem_policy" where
  "MemPolicy_Watch m c p = p\<lparr>mpWatchers := mpWatchers p @ [(m, c)]\<rparr>"

definition MemPolicy_Unwatch :: "string \<Rightarrow> nat \<Rightarrow> mem_policy \<Rightarrow> mem_policy" where
  "MemPolicy_Unwatch m c p = p\<lparr>mpWatchers := remove1 (m, c) (mpWatchers p)\<rparr>"

lemma MemPolicy_Get_Set:
  "MemPolicy_Get k (fst (MemPolicy_Set m data p))
     = (if k = m then (fst (MemPolicy_Get m p) + 1, data) else MemPolicy_Get k p)"
  by (simp add: MemPolicy_Get_def MemPolicy_Set_def map_of_filter_neq)


lemma set_remove1_superset: "set xs - {x} \<subseteq> set (remove1 x xs)"
  by (induction xs) auto


section \<open>Watch streams\<close>

text \<open>
  The interface \<open>PolicyBackend\<close> as the watch stream uses it: the content for a module, the
  registration of a channel, and the updates of the backend, each with the channels it will signal.
\<close>

record 's policy_source =
  psContent :: "string \<Rightarrow> 's \<Rightarrow> bytes"
  psWatch :: "string \<Rightarrow> nat \<Rightarrow> 's \<Rightarrow> 's"
  psUnwatch :: "string \<Rightarrow> nat \<Rightarrow> 's \<Rightarrow> 's"
  psUpdate :: "'s \<Rightarrow> 's \<times> nat list \<Rightarrow> bool"

datatype watch_phase = Unused | Reading | Sending bytes | Blocked | Ended

text \<open>
  Any number of streams on one backend. A stream is named by its channel, which holds at most one
  signal; \<open>wsWake\<close> are the signals that updates still have to send after releasing the lock.
\<close>

record 's watch_state =
  wsSource :: 's
  wsWake :: "nat list"
  wsSignal :: "nat \<Rightarrow> bool"
  wsNext :: nat
  wsModule :: "nat \<Rightarrow> string"
  wsPhase :: "nat \<Rightarrow> watch_phase"
  wsSent :: "nat \<Rightarrow> bytes list"

definition watch_init :: "'s \<Rightarrow> 's watch_state" where
  "watch_init src = \<lparr>wsSource = src, wsWake = [], wsSignal = (\<lambda>_. False), wsNext = 0,
     wsModule = (\<lambda>_. []), wsPhase = (\<lambda>_. Unused), wsSent = (\<lambda>_. [])\<rparr>"

definition send_changed :: "bytes \<Rightarrow> bytes list \<Rightarrow> bytes list" where
  "send_changed d sent = (if sent = [] \<or> last sent \<noteq> d then sent @ [d] else sent)"

inductive watch_step :: "'s policy_source \<Rightarrow> 's watch_state \<Rightarrow> 's watch_state \<Rightarrow> bool" for src where
  Open: "watch_step src s (s\<lparr>wsSource := psWatch src m (wsNext s) (wsSource s), wsNext := Suc (wsNext s),
      wsModule := (wsModule s)(wsNext s := m), wsPhase := (wsPhase s)(wsNext s := Reading)\<rparr>)"
| Get: "wsPhase s c = Reading \<Longrightarrow>
    watch_step src s (s\<lparr>wsPhase := (wsPhase s)(c := Sending (psContent src (wsModule s c) (wsSource s)))\<rparr>)"
| Send: "wsPhase s c = Sending d \<Longrightarrow>
    watch_step src s (s\<lparr>wsPhase := (wsPhase s)(c := Blocked), wsSent := (wsSent s)(c := send_changed d (wsSent s c))\<rparr>)"
| Wake: "wsPhase s c = Blocked \<Longrightarrow> wsSignal s c \<Longrightarrow>
    watch_step src s (s\<lparr>wsPhase := (wsPhase s)(c := Reading), wsSignal := (wsSignal s)(c := False)\<rparr>)"
| End: "wsPhase s c \<noteq> Unused \<Longrightarrow>
    watch_step src s (s\<lparr>wsPhase := (wsPhase s)(c := Ended), wsSource := psUnwatch src (wsModule s c) c (wsSource s)\<rparr>)"
| Update: "psUpdate src (wsSource s) (src', wake) \<Longrightarrow>
    watch_step src s (s\<lparr>wsSource := src', wsWake := wsWake s @ wake\<rparr>)"
| Signal: "wsWake s = xs @ c # ys \<Longrightarrow>
    watch_step src s (s\<lparr>wsWake := xs @ ys, wsSignal := (wsSignal s)(c := True)\<rparr>)"

inductive watch_reach :: "'s policy_source \<Rightarrow> 's \<Rightarrow> 's watch_state \<Rightarrow> bool" for src s0 where
  init: "watch_reach src s0 (watch_init s0)"
| step: "watch_reach src s0 s \<Longrightarrow> watch_step src s s' \<Longrightarrow> watch_reach src s0 s'"

definition content_at :: "'s policy_source \<Rightarrow> 's watch_state \<Rightarrow> nat \<Rightarrow> bytes" where
  "content_at src s c = psContent src (wsModule s c) (wsSource s)"

definition due :: "'s watch_state \<Rightarrow> nat \<Rightarrow> bool" where
  "due s c = (wsSignal s c \<or> c \<in> set (wsWake s))"

text \<open>
  The contract of a policy backend: registrations are kept, and an update that changes what a
  module sees signals every channel registered for it.
\<close>

locale policy_backend =
  fixes src :: "'s policy_source" and watching :: "'s \<Rightarrow> (string \<times> nat) set"
  assumes watch_registers: "watching (psWatch src m c s) = insert (m, c) (watching s)"
    and watch_content: "psContent src k (psWatch src m c s) = psContent src k s"
    and unwatch_others: "watching s - {(m, c)} \<subseteq> watching (psUnwatch src m c s)"
    and unwatch_content: "psContent src k (psUnwatch src m c s) = psContent src k s"
    and update_registers: "psUpdate src s (s', wake) \<Longrightarrow> watching s' = watching s"
    and update_wakes: "psUpdate src s (s', wake) \<Longrightarrow> (m, c) \<in> watching s \<Longrightarrow>
      psContent src m s' \<noteq> psContent src m s \<Longrightarrow> c \<in> set wake"
begin

definition stream_ok :: "'s watch_state \<Rightarrow> nat \<Rightarrow> bool" where
  "stream_ok s c =
     ((wsNext s \<le> c \<longrightarrow> wsPhase s c = Unused \<and> wsSent s c = [])
      \<and> (wsPhase s c \<in> {Reading, Blocked} \<union> range Sending \<longrightarrow> (wsModule s c, c) \<in> watching (wsSource s))
      \<and> (\<forall>d. wsPhase s c = Sending d \<longrightarrow> due s c \<or> d = content_at src s c)
      \<and> (wsPhase s c = Blocked \<longrightarrow> wsSent s c \<noteq> [] \<and> (due s c \<or> last (wsSent s c) = content_at src s c))
      \<and> successively (\<noteq>) (wsSent s c))"

lemma stream_ok_step:
  assumes "\<And>c. stream_ok s c" "watch_step src s s'"
  shows "stream_ok s' c"
  using assms(2)
proof cases
  case (Open m)
  with assms(1) [of c] show ?thesis
    by (cases "c = wsNext s") (auto simp: stream_ok_def due_def content_at_def watch_registers watch_content)
next
  case (Get k)
  with assms(1) [of c] show ?thesis
    by (cases "c = k") (auto simp: stream_ok_def due_def content_at_def)
next
  case (Send k d)
  with assms(1) [of c] show ?thesis
    by (cases "c = k") (auto simp: stream_ok_def due_def content_at_def send_changed_def successively_append_iff)
next
  case (Wake k)
  with assms(1) [of c] show ?thesis
    by (cases "c = k") (auto simp: stream_ok_def due_def content_at_def)
next
  case (End k)
  with assms(1) [of c] unwatch_others [of "wsSource s" "wsModule s k" k] show ?thesis
    by (cases "c = k") (auto simp: stream_ok_def due_def content_at_def unwatch_content)
next
  case (Update src' wake)
  have "due s' c \<or> content_at src s' c = content_at src s c"
    if "(wsModule s c, c) \<in> watching (wsSource s)"
    using update_wakes [OF Update(2) that] Update(1) by (auto simp: due_def content_at_def)
  moreover have "due s c \<Longrightarrow> due s' c" using Update(1) by (auto simp: due_def)
  ultimately show ?thesis
    using assms(1) [of c] Update update_registers [OF Update(2)] by (auto simp: stream_ok_def)
next
  case (Signal xs k ys)
  then have "due s' c = due s c" "content_at src s' c = content_at src s c"
    by (auto simp: due_def content_at_def)
  with assms(1) [of c] Signal(1) show ?thesis by (auto simp: stream_ok_def)
qed

lemma stream_ok_reach: "watch_reach src s0 s \<Longrightarrow> stream_ok s c"
proof (induction arbitrary: c rule: watch_reach.induct)
  case init
  show ?case by (auto simp: stream_ok_def watch_init_def)
qed (rule stream_ok_step)

lemma settled_stream_current:
  assumes "watch_reach src s0 s" "wsPhase s c = Blocked" "\<not> due s c"
  shows "wsSent s c \<noteq> [] \<and> last (wsSent s c) = psContent src (wsModule s c) (wsSource s)
    \<and> successively (\<noteq>) (wsSent s c)"
  using stream_ok_reach [OF assms(1), of c] assms(2,3) by (simp add: stream_ok_def content_at_def)

end

definition manager_source :: "'st manager policy_source" where
  "manager_source = \<lparr>psContent = (\<lambda>m pm. snd (policy_Get m pm)), psWatch = policy_Watch, psUnwatch = policy_Unwatch,
     psUpdate = (\<lambda>pm out. \<exists>doc. distinct (map fst (docModules doc)) \<and> apply_locked doc pm = Some out)\<rparr>"

definition MemPolicy_source :: "mem_policy policy_source" where
  "MemPolicy_source = \<lparr>psContent = (\<lambda>m p. snd (MemPolicy_Get m p)), psWatch = MemPolicy_Watch,
     psUnwatch = MemPolicy_Unwatch, psUpdate = (\<lambda>p out. \<exists>m data. MemPolicy_Set m data p = out)\<rparr>"

interpretation pm: policy_backend manager_source "\<lambda>pm. set (pmWatchers pm)"
proof (unfold_locales, goal_cases)
  case (3 s m c)
  show ?case by (simp add: manager_source_def policy_Unwatch_def set_remove1_superset)
next
  case (6 s s' wake m c)
  then obtain doc where "apply_locked doc s = Some (s', wake)" by (auto simp: manager_source_def)
  with 6 show ?case by (auto simp: manager_source_def policy_Get_def intro: apply_locked_wakes)
qed (auto simp: manager_source_def policy_Watch_def policy_Unwatch_def policy_Get_def dest: apply_locked_fields)

interpretation mp: policy_backend MemPolicy_source "\<lambda>p. set (mpWatchers p)"
proof (unfold_locales, goal_cases)
  case (3 s m c)
  show ?case by (simp add: MemPolicy_source_def MemPolicy_Unwatch_def set_remove1_superset)
next
  case (6 s s' wake m c)
  then obtain k data where set: "MemPolicy_Set k data s = (s', wake)" by (auto simp: MemPolicy_source_def)
  with MemPolicy_Get_Set [of m k data s] 6(3) have "m = k"
    by (auto simp: MemPolicy_source_def split: if_splits)
  with 6(2) set show ?case by (force simp: MemPolicy_Set_def)
qed (auto simp: MemPolicy_source_def MemPolicy_Watch_def MemPolicy_Unwatch_def MemPolicy_Get_def MemPolicy_Set_def)


section \<open>Properties\<close>

text \<open>
  C22: no policy change is lost. Whatever the interleaving of \<open>apply\<close>, of the signals it sends after
  releasing the lock and of any number of watch streams, a stream that waits with no signal in its
  channel and none on the way has sent, as its last document, the one the manager holds for its
  module now; and it never sends the same document twice in a row.
\<close>

theorem watch_no_lost_update:
  assumes "watch_reach manager_source pm0 s" "wsPhase s c = Blocked" "\<not> due s c"
  shows "wsSent s c \<noteq> [] \<and> last (wsSent s c) = doc_of (pmDocs (wsSource s)) (wsModule s c)
    \<and> successively (\<noteq>) (wsSent s c)"
  using pm.settled_stream_current [OF assms] by (simp add: manager_source_def policy_Get_def)

definition ex_doc :: document where
  "ex_doc = \<lparr>docRevision = 4, docModules = [(''sysinfo'', ''{}'')]\<rparr>"

definition ex_manager :: "mem_store manager" where
  "ex_manager = (new_manager None)\<lparr>pmRevision := 4, pmDocs := [(''sysinfo'', ''{}'')]\<rparr>"

theorem watch_no_lost_update_witness:
  "\<exists>s :: mem_store manager watch_state. wsPhase s 0 = Blocked \<and> wsSent s 0 \<noteq> []
     \<and> last (wsSent s 0) = doc_of (pmDocs (wsSource s)) (wsModule s 0)"
proof -
  let ?s1 = "(watch_init ex_manager)\<lparr>wsSource := policy_Watch ''sysinfo'' 0 ex_manager, wsNext := 1,
      wsModule := (\<lambda>_. [])(0 := ''sysinfo''), wsPhase := (\<lambda>_. Unused)(0 := Reading)\<rparr>"
  let ?s2 = "?s1\<lparr>wsPhase := (wsPhase ?s1)(0 := Sending (psContent manager_source (wsModule ?s1 0) (wsSource ?s1)))\<rparr>"
  let ?s3 = "?s2\<lparr>wsPhase := (wsPhase ?s2)(0 := Blocked), wsSent := (wsSent ?s2)(0 := send_changed ''{}'' (wsSent ?s2 0))\<rparr>"
  have "watch_step manager_source (watch_init ex_manager) ?s1"
    using watch_step.Open [of manager_source "watch_init ex_manager" "''sysinfo''"]
    by (simp add: watch_init_def manager_source_def)
  then have "watch_reach manager_source ex_manager ?s1" by (rule watch_reach.step [OF watch_reach.init])
  then have "watch_reach manager_source ex_manager ?s2" by (rule watch_reach.step) (rule watch_step.Get, simp)
  then have "watch_reach manager_source ex_manager ?s3"
    by (rule watch_reach.step)
      (rule watch_step.Send, simp add: manager_source_def policy_Get_def policy_Watch_def ex_manager_def doc_of_def)
  then have "wsSent ?s3 0 \<noteq> [] \<and> last (wsSent ?s3 0) = doc_of (pmDocs (wsSource ?s3)) (wsModule ?s3 0)"
    using watch_no_lost_update [of ex_manager ?s3 0] by (simp add: due_def watch_init_def)
  then show ?thesis by (intro exI [of _ ?s3]) simp
qed

text \<open>
  A policy set survives a restart. When \<open>apply\<close> has cached a document with a new, non-zero
  revision, a manager that starts afterwards on the same store and calls \<open>Load\<close> serves the same
  revision and, for every module, the same document.
\<close>

theorem policy_survives_restart:
  assumes "store_backend (peBackend e) ok view" "pmCache pm = Some q" "ok q"
    and "docRevision doc \<noteq> pmRevision pm" "docRevision doc \<noteq> 0" "distinct (map fst (docModules doc))"
    and "peEncode e doc = Some raw" "peDecode e raw = Some doc"
    and "bePut (peBackend e) cacheNamespace cacheKey raw q = (Inr (), q')"
    and "beGet (peBackend e) cacheNamespace cacheKey q' = Inr r"
  shows "pmCache (apply_doc e doc True pm) = Some q'
    \<and> policy_Get m (Load_policy e (new_manager (Some q'))) = policy_Get m (apply_doc e doc True pm)"
proof -
  obtain pm' wake where pm': "apply_locked doc pm = Some (pm', wake)"
    using assms(4) by (simp add: apply_locked_def)
  obtain pn wake' where pn: "apply_locked doc (new_manager (Some q')) = Some (pn, wake')"
    using assms(5) by (simp add: apply_locked_def new_manager_def)
  have "beGet (peBackend e) cacheNamespace cacheKey q' = Inr (Some raw)"
    using store_backend.get_after_put [OF assms(1,3,9,10)] assms(10) by simp
  then have "Load_policy e (new_manager (Some q')) = pn"
    using assms(8) pn by (simp add: Load_policy_def apply_doc_def new_manager_def)
  moreover have "apply_doc e doc True pm = pm'\<lparr>pmCache := Some q'\<rparr>"
    using pm' apply_locked_fields [OF pm'] assms(2,7,9) by (simp add: apply_doc_def cache_doc_def)
  ultimately show ?thesis
    using apply_locked_fields [OF pm'] apply_locked_fields [OF pn]
      apply_locked_docs [OF pm' assms(6)] apply_locked_docs [OF pn assms(6)]
    by (simp add: policy_Get_def)
qed

definition ex_policy_env :: "mem_store policy_env" where
  "ex_policy_env = \<lparr>peBackend = MemStore, peEncode = (\<lambda>_. Some ''doc''), peDecode = (\<lambda>_. Some ex_doc)\<rparr>"

theorem policy_survives_restart_witness:
  "policy_Get ''sysinfo'' (Load_policy ex_policy_env (new_manager (Some (snd (mem_Put cacheNamespace cacheKey ''doc'' [])))))
     = policy_Get ''sysinfo'' (apply_doc ex_policy_env ex_doc True (new_manager (Some [])))"
  using policy_survives_restart [of ex_policy_env mem_inv mem_view "new_manager (Some [])" "[]" ex_doc "''doc''"
      "snd (mem_Put cacheNamespace cacheKey ''doc'' [])" "Some ''doc''" "''sysinfo''"] mem.store_backend_axioms
  by (simp add: ex_policy_env_def new_manager_def ex_doc_def MemStore_def mem_Put_def mem_Get_def mem_inv_def)

text \<open>
  A document with the current revision is ignored whatever its content, and a device that has no
  policy yet ignores a first document with revision 0.
\<close>

theorem same_revision_ignored:
  "apply_doc e \<lparr>docRevision = pmRevision pm, docModules = mods\<rparr> cache pm = pm
   \<and> apply_doc e \<lparr>docRevision = 0, docModules = mods\<rparr> cache (new_manager q) = new_manager q"
  by (simp add: apply_doc_def apply_locked_def new_manager_def)

end
