(* ===== verification/Lifecycle.thy ===== *)
theory Lifecycle
  imports Manifest_Verify Supervise Policy
begin

text \<open>
  Module installs (\<open>src/internal/lifecycle/lifecycle.go\<close>): fetching and checking the channel
  manifest with its anti-rollback mark, downloading an artifact, staging and verifying it, promoting
  it into the install tree behind a health gate, rolling back, and pruning. The operations run on a
  disk that may fail at any call, on the registry of the supervisor, and on the store; what the gate
  sees of the supervisor is a list of samples.
\<close>

section \<open>The health gate\<close>

text \<open>
  One turn of the loop: the time at its head, the statuses of the supervisor, the time inside, and
  whether the context has ended. A gate that gets no further sample has run into its deadline.
\<close>

record gate_sample =
  gsHead :: time
  gsStatuses :: "module_status list"
  gsNow :: time
  gsCancelled :: bool

datatype gate_error = ModuleVanished | BadState State | GateCancelled | GateTimedOut

definition statusOf :: "string \<Rightarrow> module_status list \<Rightarrow> module_status option" where
  "statusOf m sts = find (\<lambda>st. msID st = m) sts"

definition healthy :: "module_status \<Rightarrow> bool" where
  "healthy st = (case msHealth st of None \<Rightarrow> False | Some h \<Rightarrow> hStatus h = StatusHealthy)"

fun gate_loop :: "string \<Rightarrow> duration \<Rightarrow> time \<Rightarrow> gate_sample list \<Rightarrow> time option \<Rightarrow> (gate_error, unit) result" where
  "gate_loop m stableFor deadline [] since = Inl GateTimedOut"
| "gate_loop m stableFor deadline (s # ss) since =
     (if \<not> gsHead s < deadline then Inl GateTimedOut
      else case statusOf m (gsStatuses s) of
        None \<Rightarrow> Inl ModuleVanished
      | Some st \<Rightarrow>
          if msState st = StateRunning then
            if healthy st \<and> (case since of Some t \<Rightarrow> gsNow s - t \<ge> stableFor | None \<Rightarrow> False) then Inr ()
            else if gsCancelled s then Inl GateCancelled
            else gate_loop m stableFor deadline ss
              (if healthy st then (case since of None \<Rightarrow> Some (gsNow s) | Some t \<Rightarrow> Some t) else None)
          else if msState st \<in> {StateStartLimited, StateUnsupportedProtocol, StateRequirementsUnmet}
          then Inl (BadState (msState st))
          else if gsCancelled s then Inl GateCancelled
          else gate_loop m stableFor deadline ss None)"

definition gateTimeout :: "duration \<Rightarrow> duration" where
  "gateTimeout t = (if t = 0 then 30 * second else t)"

definition gateStable :: "duration \<Rightarrow> duration" where
  "gateStable t = (if t = 0 then 3 * second else t)"

definition healthGate :: "duration \<Rightarrow> duration \<Rightarrow> string \<Rightarrow> time \<Rightarrow> gate_sample list \<Rightarrow> (gate_error, unit) result" where
  "healthGate timeout stableFor m start samples =
     gate_loop m (gateStable stableFor) (start + gateTimeout timeout) samples None"


section \<open>State\<close>

record 'st lc_env =
  leModulesDir :: path
  leStagingDir :: path
  leGOOS :: string
  leGOARCH :: string
  leVerifier :: "fs \<Rightarrow> path \<Rightarrow> manifest \<Rightarrow> string option"
  leSup :: sup_settings
  leGateTimeout :: duration
  leGateStable :: duration
  leDecode :: "bytes \<Rightarrow> (string, manifest) result"
  leEncode :: "manifest \<Rightarrow> bytes option"
  leSHA256 :: "bytes \<Rightarrow> bytes"
  leRootPub :: "bytes option"
  leManifestURL :: string
  leCrypto :: crypto
  leParseTime :: "string \<Rightarrow> time option"
  leSeqStore :: "'st backend option"

text \<open>
  The world: the disk, the registry of runners, the store, what the coming health gates will see,
  and, for the theorems, which versions have passed a gate.
\<close>

record 'st lc_world = disk +
  lwRegistry :: registry
  lwStore :: 'st
  lwGates :: "(time \<times> gate_sample list) list"
  lwPassed :: "(string \<times> string) list"

text \<open>
  The answer to an artifact request: the status, the bytes that arrive, and whether the body ended
  where it should.
\<close>

datatype artifact_reply = NoArtifactReply | ArtifactReply int bytes bool

datatype lc_error =
    LcIO io_error | LcManifest manifest_error | NoModuleBinary string path | LcEncode
  | LcVerification string | LcReplace add_error | LcGate gate_error
  | PromotingStage io_error | PromoteFailed lc_error | NoPrevious string
  | ChannelUnavailable | NotInChannel string | VersionNotCarried string string | NoArtifact
  | FetchFailed string | FetchStatus string int | BundleRefused verify_error | ChannelExpired | RollbackRefused uint64 uint64
  | ArtifactFetch | ArtifactStatus int | ArtifactBody | ArtifactSize int int | ArtifactDigest string string

definition binaryName :: "string \<Rightarrow> string \<Rightarrow> string" where
  "binaryName goos m = (if goos = ''windows'' then m @ ''.exe'' else m)"

fun findBinary_in :: "path \<Rightarrow> string list \<Rightarrow> ('x disk_scheme, path option) state" where
  "findBinary_in dir [] = ret None"
| "findBinary_in dir (c # cs) = do {
     r \<leftarrow> Stat (Join dir c);
     case r of
       Inr (File _) \<Rightarrow> ret (Some (Join dir c))
     | _ \<Rightarrow> findBinary_in dir cs }"

definition findBinary :: "'st lc_env \<Rightarrow> path \<Rightarrow> string \<Rightarrow> ('x disk_scheme, (lc_error, path) result) state" where
  "findBinary e dir m = do {
     r \<leftarrow> findBinary_in dir [binaryName (leGOOS e) m, ''module'', ''module.exe''];
     ret (case r of None \<Rightarrow> Inl (NoModuleBinary m dir) | Some p \<Rightarrow> Inr p) }"

text \<open>
  \<open>copyFile\<close>: opening the source, then creating and writing the destination, possibly in part, then
  closing it. Reading from a directory fails after the destination was truncated.
\<close>

definition copyFile :: "path \<Rightarrow> path \<Rightarrow> ('x disk_scheme, (io_error, unit) result) state" where
  "copyFile src dst = do {
     opened \<leftarrow> Stat src;
     case opened of
       Inl err \<Rightarrow> ret (Inl err)
     | Inr Directory \<Rightarrow> do { r \<leftarrow> WriteFile dst []; ret (case r of Inl err \<Rightarrow> Inl err | Inr _ \<Rightarrow> Inl (EISDIR src)) }
     | Inr (File b) \<Rightarrow> then_ok (WriteFile dst b) (\<lambda>_. FileCall dst) }"

definition manifestFile :: string where "manifestFile = ''module.manifest.json''"

definition moduleDir :: "'st lc_env \<Rightarrow> string \<Rightarrow> path" where
  "moduleDir e m = Join (leModulesDir e) m"

definition versionDir :: "'st lc_env \<Rightarrow> string \<Rightarrow> string \<Rightarrow> path" where
  "versionDir e m v = Join (Join (moduleDir e m) ''versions'') v"

definition stageDir :: "'st lc_env \<Rightarrow> manifest \<Rightarrow> path" where
  "stageDir e mf = Join (Join (leStagingDir e) (mfID mf)) (mfVersion mf)"


section \<open>Staging\<close>

definition copy_config :: "path option \<Rightarrow> path \<Rightarrow> ('x disk_scheme, (io_error, unit) result) state" where
  "copy_config config stage =
     (case config of
        None \<Rightarrow> ret (Inr ())
      | Some p \<Rightarrow> do {
          st \<leftarrow> Stat p;
          case st of Inl _ \<Rightarrow> ret (Inr ()) | Inr _ \<Rightarrow> copyFile p (Join stage ''config.json'') })"

definition verify_stage :: "'st lc_env \<Rightarrow> manifest \<Rightarrow> ('x disk_scheme, (lc_error, path) result) state" where
  "verify_stage e mf = do {
     bad \<leftarrow> reads (\<lambda>d. leVerifier e (tree d) (Join (stageDir e mf) (binaryName (leGOOS e) (mfID mf))) mf);
     case bad of
       Some err \<Rightarrow> do { _ \<leftarrow> RemoveAll (stageDir e mf); ret (Inl (LcVerification err)) }
     | None \<Rightarrow> ret (Inr (stageDir e mf)) }"

definition stageFiles :: "'st lc_env \<Rightarrow> manifest \<Rightarrow> path \<Rightarrow> path option
    \<Rightarrow> ('x disk_scheme, (lc_error, path) result) state" where
  "stageFiles e mf bin config =
     then_ok (wrap_err LcIO (RemoveAll (stageDir e mf))) (\<lambda>_.
     then_ok (wrap_err LcIO (MkdirAll (stageDir e mf))) (\<lambda>_.
     then_ok (wrap_err LcIO (copyFile bin (Join (stageDir e mf) (binaryName (leGOOS e) (mfID mf))))) (\<lambda>_.
     then_ok (wrap_err LcIO (copy_config config (stageDir e mf))) (\<lambda>_.
       case leEncode e mf of
         None \<Rightarrow> ret (Inl LcEncode)
       | Some raw \<Rightarrow>
           then_ok (wrap_err LcIO (WriteFile (Join (stageDir e mf) manifestFile) raw)) (\<lambda>_. verify_stage e mf)))))"


section \<open>Activation and promotion\<close>

text \<open>The swap of the runner; the time of its registration plays no part in an install.\<close>

definition replace_module :: "'st lc_env \<Rightarrow> spec \<Rightarrow> ('st lc_world, (add_error, unit) result) state" where
  "replace_module e sp = State (\<lambda>w.
     case Replace (leSup e) sp 0 (lwRegistry w) of (r, g) \<Rightarrow> (r, w\<lparr>lwRegistry := g\<rparr>))"

definition stop_module :: "string \<Rightarrow> ('st lc_world, unit) state" where
  "stop_module m = modify (\<lambda>w. w\<lparr>lwRegistry := StopModule m (lwRegistry w)\<rparr>)"

text \<open>The gate of one activation takes the next list of samples.\<close>

definition run_gate :: "'st lc_env \<Rightarrow> manifest \<Rightarrow> ('st lc_world, (gate_error, unit) result) state" where
  "run_gate e mf = State (\<lambda>w.
     let (start, samples) = (case lwGates w of [] \<Rightarrow> (0, []) | g # _ \<Rightarrow> g);
         r = healthGate (leGateTimeout e) (leGateStable e) (mfID mf) start samples
     in (r, w\<lparr>lwGates := tl (lwGates w),
             lwPassed := (if is_ok r then lwPassed w @ [(mfID mf, mfVersion mf)] else lwPassed w)\<rparr>))"

definition currentFile :: "'st lc_env \<Rightarrow> string \<Rightarrow> path" where
  "currentFile e m = Join (moduleDir e m) ''current''"

definition previousFile :: "'st lc_env \<Rightarrow> string \<Rightarrow> path" where
  "previousFile e m = Join (moduleDir e m) ''previous''"

definition activate :: "'st lc_env \<Rightarrow> manifest \<Rightarrow> path \<Rightarrow> ('st lc_world, (lc_error, unit) result) state" where
  "activate e mf verDir =
     then_ok (findBinary e verDir (mfID mf)) (\<lambda>bin. do {
       cfg \<leftarrow> ReadFile (Join verDir ''config.json'');
       replaced \<leftarrow> replace_module e \<lparr>spManifest = mf, spBinPath = bin, spConfig = (case cfg of Inl _ \<Rightarrow> [] | Inr b \<Rightarrow> b)\<rparr>;
       case replaced of
         Inl err \<Rightarrow> ret (Inl (LcReplace err))
       | Inr _ \<Rightarrow> do {
           gate \<leftarrow> run_gate e mf;
           case gate of
             Inl err \<Rightarrow> do { _ \<leftarrow> stop_module (mfID mf); ret (Inl (LcGate err)) }
           | Inr _ \<Rightarrow> wrap_err LcIO (writeFileString (currentFile e (mfID mf)) (mfVersion mf)) } })"

fun prune_entries :: "path \<Rightarrow> string \<Rightarrow> string \<Rightarrow> (string \<times> bool) list \<Rightarrow> ('x disk_scheme, unit) state" where
  "prune_entries dir keep prev [] = ret ()"
| "prune_entries dir keep prev ((name, _) # es) =
     (if name \<noteq> keep \<and> name \<noteq> prev then do { _ \<leftarrow> RemoveAll (Join dir name); prune_entries dir keep prev es }
      else prune_entries dir keep prev es)"

definition prune :: "path \<Rightarrow> string \<Rightarrow> string \<Rightarrow> ('x disk_scheme, unit) state" where
  "prune mdir keep prev = do {
     entries \<leftarrow> ReadDir (Join mdir ''versions'');
     case entries of Inl _ \<Rightarrow> ret () | Inr es \<Rightarrow> prune_entries (Join mdir ''versions'') keep prev es }"

text \<open>The branch of \<open>promote\<close> on a failed activation: back to the old version if there was one.\<close>

definition restore_old :: "'st lc_env \<Rightarrow> manifest \<Rightarrow> string \<Rightarrow> ('st lc_world, unit) state" where
  "restore_old e mf old =
     (if old \<noteq> [] \<and> old \<noteq> mfVersion mf then do {
        loaded \<leftarrow> Load_manifest (leDecode e) (Join (versionDir e (mfID mf) old) manifestFile);
        case loaded of
          Inl _ \<Rightarrow> ret ()
        | Inr oldMf \<Rightarrow> do { _ \<leftarrow> activate e oldMf (versionDir e (mfID mf) old); ret () } }
      else ret ())"

definition retain_old :: "'st lc_env \<Rightarrow> manifest \<Rightarrow> string \<Rightarrow> ('st lc_world, unit) state" where
  "retain_old e mf old =
     (if old \<noteq> [] \<and> old \<noteq> mfVersion mf then do {
        _ \<leftarrow> writeFileString (previousFile e (mfID mf)) old;
        prune (moduleDir e (mfID mf)) (mfVersion mf) old }
      else ret ())"

definition read_current :: "'st lc_env \<Rightarrow> string \<Rightarrow> ('x disk_scheme, string) state" where
  "read_current e m = do {
     r \<leftarrow> ReadFile (currentFile e m);
     ret (case r of Inl _ \<Rightarrow> [] | Inr b \<Rightarrow> TrimSpace b) }"

definition promote :: "'st lc_env \<Rightarrow> manifest \<Rightarrow> path \<Rightarrow> ('st lc_world, (lc_error, unit) result) state" where
  "promote e mf stage = (
     let verDir = versionDir e (mfID mf) (mfVersion mf) in
     then_ok (wrap_err LcIO (MkdirAll (Dir verDir))) (\<lambda>_.
     then_ok (wrap_err LcIO (RemoveAll verDir)) (\<lambda>_.
     then_ok (wrap_err PromotingStage (Rename stage verDir)) (\<lambda>_. do {
       old \<leftarrow> read_current e (mfID mf);
       r \<leftarrow> activate e mf verDir;
       case r of
         Inl err \<Rightarrow> do { _ \<leftarrow> restore_old e mf old; ret (Inl (PromoteFailed err)) }
       | Inr _ \<Rightarrow> do { _ \<leftarrow> retain_old e mf old; ret (Inr ()) } }))))"

definition Rollback :: "'st lc_env \<Rightarrow> string \<Rightarrow> ('st lc_world, (lc_error, string) result) state" where
  "Rollback e m = do {
     prev \<leftarrow> ReadFile (previousFile e m);
     case prev of
       Inl _ \<Rightarrow> ret (Inl (NoPrevious m))
     | Inr b \<Rightarrow> (
         let prevVersion = TrimSpace b; verDir = versionDir e m prevVersion in
         then_ok (wrap_err LcManifest (Load_manifest (leDecode e) (Join verDir manifestFile))) (\<lambda>mf. do {
           cur \<leftarrow> ReadFile (currentFile e m);
           then_ok (activate e mf verDir) (\<lambda>_. do {
             _ \<leftarrow> writeFileString (previousFile e m) (case cur of Inl _ \<Rightarrow> [] | Inr c \<Rightarrow> TrimSpace c);
             ret (Inr prevVersion) }) })) }"


section \<open>The channel manifest\<close>

text \<open>What one fetch meets: the answers of the web server by URL, and the time.\<close>

record net =
  netGet :: "string \<Rightarrow> http_reply"
  netArtifact :: "string \<Rightarrow> artifact_reply"
  netNow :: time

definition fetch_file :: "'st lc_env \<Rightarrow> net \<Rightarrow> string \<Rightarrow> (lc_error, bytes) result" where
  "fetch_file e io name =
     (case netGet io (TrimSuffix (leManifestURL e) ''/'' @ ''/'' @ name) of
        NoReply \<Rightarrow> Inl (FetchFailed name)
      | Reply status body \<Rightarrow>
          if status \<noteq> 200 then Inl (FetchStatus name status)
          else (case body of None \<Rightarrow> Inl (FetchFailed name) | Some b \<Rightarrow> Inr (take (8 * 2 ^ 20) b)))"

definition fetch_bundle :: "'st lc_env \<Rightarrow> net \<Rightarrow> (lc_error, signed_bundle) result" where
  "fetch_bundle e io =
     bind_result (fetch_file e io ''manifest.json'') (\<lambda>m.
     bind_result (fetch_file e io ''manifest.json.sig'') (\<lambda>ms.
     bind_result (fetch_file e io ''signing.pub'') (\<lambda>k.
     bind_result (fetch_file e io ''signing.pub.sig'') (\<lambda>ks.
       Inr \<lparr>bManifest = m, bManifestSig = ms, bSigningKey = k, bSigningKeySig = ks\<rparr>))))"

definition manifestSeqNamespace :: string where "manifestSeqNamespace = ''core.manifest''"

definition lastSequence :: "'st backend \<Rightarrow> 'st \<Rightarrow> uint64" where
  "lastSequence be st =
     (case beGet be manifestSeqNamespace ''sequence'' st of
        Inl _ \<Rightarrow> 0
      | Inr None \<Rightarrow> 0
      | Inr (Some raw) \<Rightarrow> (case ParseUint 64 (TrimSpace raw) of None \<Rightarrow> 0 | Some n \<Rightarrow> of_nat n))"

text \<open>The part of \<open>fetchChannel\<close> before the sequence check: the bundle, its signatures, its expiry.\<close>

definition fresh_channel :: "'st lc_env \<Rightarrow> bytes \<Rightarrow> net \<Rightarrow> (lc_error, channel_manifest) result" where
  "fresh_channel e rootPub io =
     bind_result (fetch_bundle e io) (\<lambda>b.
     bind_result (map_error BundleRefused (Verify_bundle (leCrypto e) rootPub b)) (\<lambda>ch.
       if Expired (leParseTime e) ch (netNow io) then Inl ChannelExpired else Inr ch))"

text \<open>The sequence check of \<open>fetchChannel\<close> against the mark read before, and the new mark.\<close>

definition commit_sequence :: "'st backend \<Rightarrow> channel_manifest \<Rightarrow> uint64 \<Rightarrow> 'st \<Rightarrow> (lc_error, unit) result \<times> 'st" where
  "commit_sequence be ch mark st =
     (if chSequence ch < mark then (Inl (RollbackRefused (chSequence ch) mark), st)
      else if chSequence ch > mark then
        (Inr (), snd (bePut be manifestSeqNamespace ''sequence'' (dec (unat (chSequence ch))) st))
      else (Inr (), st))"

definition check_sequence :: "'st lc_env \<Rightarrow> channel_manifest \<Rightarrow> 'st \<Rightarrow> (lc_error, unit) result \<times> 'st" where
  "check_sequence e ch st =
     (case leSeqStore e of
        None \<Rightarrow> (Inr (), st)
      | Some be \<Rightarrow> commit_sequence be ch (lastSequence be st) st)"

text \<open>
  A fetch that no other fetch overlaps. Nothing in the source makes it one step: \<open>Install\<close> calls
  \<open>fetchChannel\<close> before it takes the lock of the module, and the mark has no lock of its own. The
  steps of fetches that overlap follow below.
\<close>

definition fetchChannel :: "'st lc_env \<Rightarrow> bytes \<Rightarrow> net \<Rightarrow> 'st \<Rightarrow> (lc_error, channel_manifest) result \<times> 'st" where
  "fetchChannel e rootPub io st =
     (case fresh_channel e rootPub io of
        Inl err \<Rightarrow> (Inl err, st)
      | Inr ch \<Rightarrow>
          (case check_sequence e ch st of
             (Inl err, st') \<Rightarrow> (Inl err, st')
           | (Inr _, st') \<Rightarrow> (Inr ch, st')))"


section \<open>Fetches that overlap\<close>

text \<open>
  Where a fetch stands: before the read of the mark, between the read and the comparison with what
  follows it, or done. The read and the write of the mark are calls of the store, each atomic under
  the store's own lock; between them other fetches run.
\<close>

datatype fetch_phase =
    Waiting
  | MarkRead channel_manifest uint64
  | Returned "(lc_error, channel_manifest) result"

fun fetch_step :: "'st lc_env \<Rightarrow> bytes \<Rightarrow> net \<Rightarrow> fetch_phase \<Rightarrow> 'st \<Rightarrow> fetch_phase \<times> 'st" where
  "fetch_step e rootPub io Waiting st =
     (case fresh_channel e rootPub io of
        Inl err \<Rightarrow> (Returned (Inl err), st)
      | Inr ch \<Rightarrow>
          (case leSeqStore e of
             None \<Rightarrow> (Returned (Inr ch), st)
           | Some be \<Rightarrow> (MarkRead ch (lastSequence be st), st)))"
| "fetch_step e rootPub io (MarkRead ch mark) st =
     (case leSeqStore e of
        None \<Rightarrow> (MarkRead ch mark, st)
      | Some be \<Rightarrow>
          (case commit_sequence be ch mark st of
             (Inl err, st') \<Rightarrow> (Returned (Inl err), st')
           | (Inr _, st') \<Rightarrow> (Returned (Inr ch), st')))"
| "fetch_step e rootPub io (Returned r) st = (Returned r, st)"

text \<open>
  The fetches of a running agent by number, the store they share, and, for the theorems, the marks
  and the sequences of the manifests accepted, in the order in which they were.
\<close>

record 'st fetches =
  fsPhase :: "nat \<Rightarrow> fetch_phase"
  fsStore :: 'st
  fsAccepted :: "(uint64 \<times> uint64) list"

text \<open>One fetch takes its next step, or the agent restarts: the fetches are gone, the store stays.\<close>

datatype fetch_event = Turn nat net | Restart

fun accepts :: "fetch_phase \<Rightarrow> fetch_phase \<Rightarrow> (uint64 \<times> uint64) list" where
  "accepts (MarkRead _ mark) (Returned (Inr ch)) = [(mark, chSequence ch)]"
| "accepts _ _ = []"

fun fetch_apply :: "'st lc_env \<Rightarrow> bytes \<Rightarrow> fetch_event \<Rightarrow> 'st fetches \<Rightarrow> 'st fetches" where
  "fetch_apply e rootPub (Turn i io) s =
     (case fetch_step e rootPub io (fsPhase s i) (fsStore s) of (p, st) \<Rightarrow>
        s\<lparr>fsPhase := (fsPhase s)(i := p), fsStore := st, fsAccepted := fsAccepted s @ accepts (fsPhase s i) p\<rparr>)"
| "fetch_apply e rootPub Restart s = s\<lparr>fsPhase := (\<lambda>_. Waiting)\<rparr>"

definition fetch_run :: "'st lc_env \<Rightarrow> bytes \<Rightarrow> fetch_event list \<Rightarrow> 'st fetches \<Rightarrow> 'st fetches" where
  "fetch_run e rootPub evs s = fold (fetch_apply e rootPub) evs s"

definition no_fetches :: "'st \<Rightarrow> 'st fetches" where
  "no_fetches st = \<lparr>fsPhase = (\<lambda>_. Waiting), fsStore = st, fsAccepted = []\<rparr>"

text \<open>
  No overlap: after the read of the mark by one fetch comes the rest of that fetch, or a restart;
  \<open>busy\<close> is the fetch that has read the mark.
\<close>

fun separate :: "'st lc_env \<Rightarrow> bytes \<Rightarrow> nat option \<Rightarrow> fetch_event list \<Rightarrow> 'st fetches \<Rightarrow> bool" where
  "separate e rootPub busy [] s = True"
| "separate e rootPub busy (ev # evs) s =
     (let s' = fetch_apply e rootPub ev s in
      case ev of
        Restart \<Rightarrow> separate e rootPub None evs s'
      | Turn i _ \<Rightarrow>
          (busy = None \<or> busy = Some i)
          \<and> separate e rootPub (case fsPhase s' i of MarkRead _ _ \<Rightarrow> Some i | _ \<Rightarrow> None) evs s')"


section \<open>Download and install\<close>

text \<open>\<open>sz + 1\<close> as an \<open>int64\<close>, the limit of the reader.\<close>

definition read_limit :: "int \<Rightarrow> nat" where
  "read_limit sz = (if sz \<ge> 2 ^ 63 - 1 then 0 else nat (sz + 1))"

definition discard :: "path \<Rightarrow> lc_error \<Rightarrow> ('x disk_scheme, (lc_error, path) result) state" where
  "discard tmp err = do { _ \<leftarrow> Remove tmp; ret (Inl err) }"

definition download :: "'st lc_env \<Rightarrow> net \<Rightarrow> string \<Rightarrow> string \<Rightarrow> int \<Rightarrow> ('x disk_scheme, (lc_error, path) result) state" where
  "download e io url digest sz =
     (case netArtifact io url of
        NoArtifactReply \<Rightarrow> ret (Inl ArtifactFetch)
      | ArtifactReply status body whole \<Rightarrow>
          if status \<noteq> 200 then ret (Inl (ArtifactStatus status))
          else then_ok (wrap_err LcIO (CreateTemp (leStagingDir e) ''dl-'')) (\<lambda>tmp. do {
            let got = take (read_limit sz) body;
            copied \<leftarrow> WriteString tmp got;
            _ \<leftarrow> FileCall tmp;
            case copied of
              Inl err \<Rightarrow> discard tmp (LcIO err)
            | Inr _ \<Rightarrow>
                if \<not> whole \<and> length body < read_limit sz then discard tmp ArtifactBody
                else if int (length got) \<noteq> sz then discard tmp (ArtifactSize (int (length got)) sz)
                else if ''sha256:'' @ hex_encode (leSHA256 e got) \<noteq> digest
                  then discard tmp (ArtifactDigest (''sha256:'' @ hex_encode (leSHA256 e got)) digest)
                else ret (Inr tmp) }))"

definition install_staged :: "'st lc_env \<Rightarrow> manifest \<Rightarrow> path \<Rightarrow> path option \<Rightarrow> ('st lc_world, (lc_error, string) result) state" where
  "install_staged e mf bin config =
     then_ok (stageFiles e mf bin config) (\<lambda>stage.
     then_ok (promote e mf stage) (\<lambda>_. ret (Inr (mfVersion mf))))"

definition InstallLocal :: "'st lc_env \<Rightarrow> path \<Rightarrow> ('st lc_world, (lc_error, string) result) state" where
  "InstallLocal e dir =
     then_ok (wrap_err LcManifest (Load_manifest (leDecode e) (Join dir manifestFile))) (\<lambda>mf.
     then_ok (findBinary e dir (mfID mf)) (\<lambda>bin.
       install_staged e mf bin (Some (Join dir ''config.json''))))"

text \<open>The part of \<open>Install\<close> after the artifact was chosen; the downloaded file is removed at its end.\<close>

definition install_artifact :: "'st lc_env \<Rightarrow> net \<Rightarrow> channel_module \<Rightarrow> channel_artifact
    \<Rightarrow> ('st lc_world, (lc_error, string) result) state" where
  "install_artifact e io cm art =
     then_ok (download e io (caURL art) (caDigest art) (caSize art)) (\<lambda>tmp. do {
       let mf = ModuleManifest cm [\<lparr>platOS = leGOOS e, platArch = leGOARCH e\<rparr>];
       r \<leftarrow> (case Validate mf of
              Inl err \<Rightarrow> ret (Inl (LcManifest err))
            | Inr _ \<Rightarrow> install_staged e mf tmp None);
       _ \<leftarrow> Remove tmp;
       ret r })"

definition fetch_channel :: "'st lc_env \<Rightarrow> bytes \<Rightarrow> net \<Rightarrow> ('st lc_world, (lc_error, channel_manifest) result) state" where
  "fetch_channel e rootPub io = State (\<lambda>w.
     case fetchChannel e rootPub io (lwStore w) of (r, st) \<Rightarrow> (r, w\<lparr>lwStore := st\<rparr>))"

definition Install :: "'st lc_env \<Rightarrow> net \<Rightarrow> string \<Rightarrow> string \<Rightarrow> ('st lc_world, (lc_error, string) result) state" where
  "Install e io moduleID version =
     (case leRootPub e of
        None \<Rightarrow> ret (Inl ChannelUnavailable)
      | Some rootPub \<Rightarrow>
          if leManifestURL e = [] then ret (Inl ChannelUnavailable)
          else then_ok (fetch_channel e rootPub io) (\<lambda>ch.
            case Module ch moduleID of
              None \<Rightarrow> ret (Inl (NotInChannel moduleID))
            | Some cm \<Rightarrow>
                if version \<noteq> [] \<and> cmVersion cm \<noteq> version
                then ret (Inl (VersionNotCarried (cmVersion cm) version))
                else (case ArtifactForHost (leGOOS e) (leGOARCH e) (cmArtifacts cm) of
                    None \<Rightarrow> ret (Inl NoArtifact)
                  | Some art \<Rightarrow> install_artifact e io cm art)))"

text \<open>
  The lock of a module: made on first use, the same one ever after. Rollbacks, and installs after
  the channel was fetched, run under the lock of their module, so these are steps of their own for
  one module; the fetch of the channel is not under it.
\<close>

type_synonym lock_table = "(string \<times> nat) list"

definition lockModule :: "string \<Rightarrow> lock_table \<Rightarrow> nat \<times> lock_table" where
  "lockModule m locks =
     (case map_of locks m of
        Some mu \<Rightarrow> (mu, locks)
      | None \<Rightarrow> (length locks, (m, length locks) # locks))"


section \<open>What the gate lets through\<close>

definition sample_healthy :: "string \<Rightarrow> gate_sample \<Rightarrow> bool" where
  "sample_healthy m s = (case statusOf m (gsStatuses s) of
     None \<Rightarrow> False | Some st \<Rightarrow> msState st = StateRunning \<and> healthy st)"

text \<open>The loop passes at a sample that ends a healthy streak, which began at \<open>since\<close> or later.\<close>

lemma gate_loop_streak:
  assumes "gate_loop m d deadline ss since = Inr ()"
  shows "\<exists>n < length ss. gsHead (ss ! n) < deadline \<and>
    ((\<exists>t. since = Some t \<and> gsNow (ss ! n) - t \<ge> d \<and> (\<forall>k \<le> n. sample_healthy m (ss ! k)))
     \<or> (\<exists>i < n. gsNow (ss ! n) - gsNow (ss ! i) \<ge> d \<and> (\<forall>k. i \<le> k \<and> k \<le> n \<longrightarrow> sample_healthy m (ss ! k))))"
  using assms
proof (induction ss arbitrary: since)
  case (Cons s ss)
  let ?since = "if sample_healthy m s then (case since of None \<Rightarrow> Some (gsNow s) | Some t \<Rightarrow> Some t) else None"
  consider (pass) t where "since = Some t" "gsNow s - t \<ge> d" "sample_healthy m s" "gsHead s < deadline"
    | (more) "gate_loop m d deadline ss ?since = Inr ()"
    using Cons.prems by (auto simp: sample_healthy_def split: if_splits option.splits)
  then show ?case
  proof cases
    case pass
    then show ?thesis by (intro exI [of _ 0]) auto
  next
    case more
    from Cons.IH [OF this] obtain n where n: "n < length ss" "gsHead (ss ! n) < deadline"
      and streak: "(\<exists>t. ?since = Some t \<and> gsNow (ss ! n) - t \<ge> d \<and> (\<forall>k \<le> n. sample_healthy m (ss ! k)))
       \<or> (\<exists>i < n. gsNow (ss ! n) - gsNow (ss ! i) \<ge> d \<and> (\<forall>k. i \<le> k \<and> k \<le> n \<longrightarrow> sample_healthy m (ss ! k)))"
      by blast
    have all: "\<forall>k \<le> Suc n. sample_healthy m ((s # ss) ! k)" if "sample_healthy m s" "\<forall>k \<le> n. sample_healthy m (ss ! k)"
      using that by (auto simp: nth_Cons split: nat.splits)
    from streak consider (head) t where "?since = Some t" "gsNow (ss ! n) - t \<ge> d" "\<forall>k \<le> n. sample_healthy m (ss ! k)"
      | (tail) i where "i < n" "gsNow (ss ! n) - gsNow (ss ! i) \<ge> d" "\<forall>k. i \<le> k \<and> k \<le> n \<longrightarrow> sample_healthy m (ss ! k)"
      by blast
    then show ?thesis
    proof cases
      case head
      then have s: "sample_healthy m s" by (auto split: if_splits)
      show ?thesis
      proof (cases since)
        case None
        with head s n all show ?thesis by (intro exI [of _ "Suc n"]) (auto intro!: exI [of _ 0])
      next
        case (Some t')
        with head s n all show ?thesis by (intro exI [of _ "Suc n"]) auto
      qed
    next
      case tail
      have "sample_healthy m ((s # ss) ! k)" if "Suc i \<le> k" "k \<le> Suc n" for k
        using tail(3) that by (cases k) auto
      with tail(1,2) n show ?thesis by (intro exI [of _ "Suc n"]) (auto intro!: exI [of _ "Suc i"])
    qed
  qed
qed simp

text \<open>A module that is healthy at every sample passes at the first sample after the stable time.\<close>

lemma gate_loop_passes:
  assumes "\<And>k. k \<le> n \<Longrightarrow> sample_healthy m (ss ! k) \<and> gsHead (ss ! k) < deadline \<and> \<not> gsCancelled (ss ! k)"
    and "n < length ss" "gsNow (ss ! n) - t \<ge> d"
  shows "gate_loop m d deadline ss (Some t) = Inr ()"
  using assms
proof (induction ss arbitrary: n)
  case (Cons s ss)
  have s: "sample_healthy m s" "gsHead s < deadline" "\<not> gsCancelled s" using Cons.prems(1) [of 0] by auto
  show ?case
  proof (cases "gsNow s - t \<ge> d")
    case False
    with Cons.prems(3) have "n \<noteq> 0" by (metis nth_Cons_0)
    then obtain n' where n': "n = Suc n'" by (cases n) auto
    have "gate_loop m d deadline ss (Some t) = Inr ()"
    proof (rule Cons.IH)
      fix k assume "k \<le> n'"
      then show "sample_healthy m (ss ! k) \<and> gsHead (ss ! k) < deadline \<and> \<not> gsCancelled (ss ! k)"
        using Cons.prems(1) [of "Suc k"] n' by simp
    qed (use Cons.prems n' in auto)
    with s False show ?thesis by (auto simp: sample_healthy_def split: option.splits)
  qed (use s in \<open>auto simp: sample_healthy_def split: option.splits\<close>)
qed simp

text \<open>
  The health gate promotes on sustained health only. It passes at a sample before the deadline
  that ends a streak of samples, all running and healthy, at least as long as the stable time; one
  unhealthy, degraded or unpolled sample in between starts the streak again.
\<close>

theorem healthGate_streak:
  assumes "healthGate timeout d m start ss = Inr ()"
  shows "\<exists>i n. i < n \<and> n < length ss \<and> gsNow (ss ! n) - gsNow (ss ! i) \<ge> gateStable d
       \<and> gsHead (ss ! n) < start + gateTimeout timeout
       \<and> (\<forall>k. i \<le> k \<and> k \<le> n \<longrightarrow> sample_healthy m (ss ! k))"
  using gate_loop_streak [OF assms [unfolded healthGate_def]] by blast

definition ex_status :: "health_status \<Rightarrow> module_status" where
  "ex_status h = \<lparr>msID = ''sysinfo'', msVersion = ''1.0.0'', msProtocol = 1, msState = StateRunning, msDetail = NoDetail,
     msPid = 1, msRestarts = 0, msHealth = Some \<lparr>hStatus = h, hReason = []\<rparr>, msSince = 0, msSurfaces = []\<rparr>"

definition ex_sample :: "time \<Rightarrow> health_status \<Rightarrow> gate_sample" where
  "ex_sample t h = \<lparr>gsHead = t * second, gsStatuses = [ex_status h], gsNow = t * second, gsCancelled = False\<rparr>"

definition ex_gate :: "gate_sample list" where
  "ex_gate = [ex_sample 1 StatusHealthy, ex_sample 2 StatusDegraded, ex_sample 3 StatusHealthy,
     ex_sample 5 StatusHealthy, ex_sample 7 StatusHealthy]"

theorem healthGate_streak_witness:
  "\<exists>i n. i < n \<and> n < length ex_gate \<and> gsNow (ex_gate ! n) - gsNow (ex_gate ! i) \<ge> 3 * second
     \<and> sample_healthy ''sysinfo'' (ex_gate ! i) \<and> sample_healthy ''sysinfo'' (ex_gate ! n)"
proof -
  have "is_ok (healthGate 0 0 ''sysinfo'' 0 ex_gate)" by code_simp
  then have "healthGate 0 0 ''sysinfo'' 0 ex_gate = Inr ()" by (cases "healthGate 0 0 ''sysinfo'' 0 ex_gate") auto
  from healthGate_streak [OF this] show ?thesis by (auto simp: gateStable_def) (meson less_imp_le order_refl)
qed

text \<open>
  A module that is healthy at every sample passes once the stable time has gone by.
\<close>

theorem healthGate_passes:
  assumes "\<And>k. k \<le> n \<Longrightarrow> sample_healthy m (ss ! k) \<and> gsHead (ss ! k) < start + gateTimeout timeout \<and> \<not> gsCancelled (ss ! k)"
    and "0 < n" "n < length ss" "gsNow (ss ! n) - gsNow (ss ! 0) \<ge> gateStable d"
  shows "healthGate timeout d m start ss = Inr ()"
proof -
  obtain s ss' where ss: "ss = s # ss'" using assms(3) by (cases ss) auto
  obtain n' where n: "n = Suc n'" using assms(2) by (cases n) auto
  have s: "sample_healthy m s" "gsHead s < start + gateTimeout timeout" "\<not> gsCancelled s"
    using assms(1) [of 0] ss by auto
  have "gate_loop m (gateStable d) (start + gateTimeout timeout) ss' (Some (gsNow s)) = Inr ()"
  proof (rule gate_loop_passes)
    fix k assume "k \<le> n'"
    then show "sample_healthy m (ss' ! k) \<and> gsHead (ss' ! k) < start + gateTimeout timeout \<and> \<not> gsCancelled (ss' ! k)"
      using assms(1) [of "Suc k"] n ss by simp
  qed (use assms n ss in auto)
  with s ss show ?thesis
    by (auto simp: healthGate_def sample_healthy_def split: option.splits)
qed


section \<open>Paths of a module\<close>

lemma plain_markers [simp]: "plain_name ''current''" "plain_name ''previous''" "plain_name ''versions''"
  "plain_name ''config.json''" "plain_name manifestFile"
  by (simp_all add: plain_name_def manifestFile_def)

lemma binaryName_plain: "idRe m \<Longrightarrow> plain_name (binaryName goos m)"
  using idRe_plain [of m] idRe_chars [of m] idRe_no_dot [of m] by (auto simp: binaryName_def plain_name_def)

lemma binaryName_neq:
  assumes "idRe m"
  shows "binaryName goos m \<noteq> ''config.json''" "binaryName goos m \<noteq> manifestFile"
proof -
  have ends: "m @ ''.exe'' \<noteq> s" if "last s \<noteq> CHR ''e''" for s using that by auto
  have dots: "m \<noteq> s" if "CHR ''.'' \<in> set s" for s using that idRe_no_dot [OF assms] by auto
  show "binaryName goos m \<noteq> ''config.json''" "binaryName goos m \<noteq> manifestFile"
    using ends dots by (simp_all add: binaryName_def manifestFile_def)
qed

lemmas module_paths = moduleDir_def versionDir_def stageDir_def currentFile_def previousFile_def

lemma module_path_plain:
  assumes "idRe m"
  shows "moduleDir e m = leModulesDir e @ [m]"
    "currentFile e m = leModulesDir e @ [m, ''current'']"
    "previousFile e m = leModulesDir e @ [m, ''previous'']"
    "versionRe v \<Longrightarrow> versionDir e m v = leModulesDir e @ [m, ''versions'', v]"
  using idRe_plain [OF assms] by (simp_all add: module_paths versionRe_plain)

lemma stageDir_plain:
  "idRe (mfID mf) \<Longrightarrow> versionRe (mfVersion mf) \<Longrightarrow> stageDir e mf = leStagingDir e @ [mfID mf, mfVersion mf]"
  by (simp add: stageDir_def idRe_plain versionRe_plain)

lemma marker_name_module: "marker_name (d @ [m, ''current''])" "marker_name (d @ [m, ''previous''])"
  by (simp_all add: marker_name_def)

lemma marker_post_under:
  assumes "marker_post (c @ [m]) s t r t'" "m' \<noteq> m" "\<not> prefix tempPrefix m'"
  shows "lookup t' (c @ m' # rel) = lookup t (c @ m' # rel)"
proof -
  have "c @ m' # rel \<noteq> tmp_of (c @ [m]) k" for k
    using assms(3) by (auto simp: tmp_of_def)
  moreover have "\<not> prefix (c @ m' # rel) (Dir (c @ [m]))" by simp
  moreover have "c @ m' # rel \<noteq> c @ [m]" using assms(2) by simp
  ultimately show ?thesis using assms(1) unfolding marker_post_def by metis
qed

section \<open>Staging\<close>

lemma wp_findBinary_in:
  assumes none: "\<And>d'. tree d' = tree d \<Longrightarrow> disk.more d' = disk.more d \<Longrightarrow> Q None d'"
    and some: "\<And>c b d'. tree d' = tree d \<Longrightarrow> disk.more d' = disk.more d \<Longrightarrow> c \<in> set cs \<Longrightarrow>
      lookup (tree d) (Join dir c) = Some (File b) \<Longrightarrow> Q (Some (Join dir c)) d'"
  shows "wp (findBinary_in dir cs) Q d"
  using assms
proof (induction cs arbitrary: d)
  case Nil
  then show ?case by (simp add: wp_simps)
next
  case (Cons c cs)
  have rest: "wp (findBinary_in dir cs) Q (after_call d (tree d))"
    by (rule Cons.IH) (simp_all add: Cons.prems)
  show ?case unfolding findBinary_in.simps wp_bind
  proof (rule wp_Stat)
    show "wp (case stat_tree (Join dir c) (tree d) of Inr (File x) \<Rightarrow> ret (Some (Join dir c)) | _ \<Rightarrow> findBinary_in dir cs)
        Q (after_call d (tree d))"
      by (cases "lookup (tree d) (Join dir c)")
        (auto simp: stat_tree_def wp_simps rest intro!: Cons.prems split: node.splits)
  qed (simp add: rest)
qed

lemma wp_findBinary:
  assumes "\<And>err d'. tree d' = tree d \<Longrightarrow> disk.more d' = disk.more d \<Longrightarrow> Q (Inl err) d'"
    and "\<And>p b d'. tree d' = tree d \<Longrightarrow> disk.more d' = disk.more d \<Longrightarrow> lookup (tree d) p = Some (File b) \<Longrightarrow> Q (Inr p) d'"
  shows "wp (findBinary e dir m) Q d"
  unfolding findBinary_def wp_bind
  by (rule wp_findBinary_in) (auto simp: wp_simps intro!: assms)

lemma wp_copyFile:
  assumes ok: "\<And>b d'. lookup (tree d) src = Some (File b) \<Longrightarrow> tree d' = set_node dst (File b) (tree d) \<Longrightarrow>
      disk.more d' = disk.more d \<Longrightarrow> Q (Inr ()) d'"
    and err: "\<And>err b d'. tree d' = tree d \<or> tree d' = set_node dst (File b) (tree d) \<Longrightarrow>
      disk.more d' = disk.more d \<Longrightarrow> Q (Inl err) d'"
  shows "wp (copyFile src dst) Q d"
proof -
  let ?d = "after_call d (tree d)"
  have dir: "wp (WriteFile dst []) (\<lambda>r. wp (ret (case r of Inl x \<Rightarrow> Inl x | Inr _ \<Rightarrow> Inl (EISDIR src))) Q) ?d"
    by (rule wp_WriteFile) (auto simp: wp_simps intro: err)
  have "wp (WriteFile dst b) (case_sum (\<lambda>x. Q (Inl x)) (\<lambda>_. wp (FileCall dst) Q)) ?d"
    if "lookup (tree d) src = Some (File b)" for b
    by (rule wp_WriteFile) (auto simp: intro!: wp_FileCall err ok that)
  with dir show ?thesis unfolding copyFile_def wp_bind
    by (intro wp_Stat) (auto simp: wp_simps stat_tree_def intro: err split: option.splits node.splits)
qed

text \<open>Two trees that agree at and below a path, and the changes elsewhere that keep it so.\<close>

definition same_under :: "path \<Rightarrow> fs \<Rightarrow> fs \<Rightarrow> bool" where
  "same_under p t t' = (\<forall>rel. lookup t' (p @ rel) = lookup t (p @ rel))"

definition unrelated :: "path \<Rightarrow> path \<Rightarrow> bool" where
  "unrelated p q = (\<not> prefix p q \<and> \<not> prefix q p)"

lemma unrelated_below:
  assumes "unrelated p q"
  shows "\<not> prefix (p @ x) (q @ y)" "p @ x \<noteq> q @ y" "\<not> prefix (q @ y) (p @ x)"
  using assms by (auto simp: unrelated_def prefix_def append_eq_append_conv2)

lemma same_under_refl [simp]: "same_under p t t"
  by (simp add: same_under_def)

lemma same_under_trans: "same_under p t t' \<Longrightarrow> same_under p t' t'' \<Longrightarrow> same_under p t t''"
  by (simp add: same_under_def)

lemma same_under_set_node: "unrelated p q \<Longrightarrow> same_under p t (set_node (q @ y) n t') = same_under p t t'"
  by (simp add: same_under_def unrelated_below)

lemma same_under_drop:
  assumes "unrelated p q" "\<And>x. D x \<Longrightarrow> prefix (q @ y) x" "same_under p t t'"
  shows "same_under p t (drop_paths D t')"
proof -
  have "\<not> D (p @ rel)" for rel using assms(2) unrelated_below [OF assms(1)] by blast
  with assms(3) show ?thesis by (simp add: same_under_def)
qed

lemma same_under_mkdir:
  assumes "unrelated p q" "mkdir_ext (q @ y) t' t''" "same_under p t t'"
  shows "same_under p t t''"
proof -
  have "lookup t'' (p @ rel) = lookup t' (p @ rel)" for rel
    by (rule mkdir_ext_outside [OF assms(2)]) (rule unrelated_below [OF assms(1)])
  with assms(3) show ?thesis by (simp add: same_under_def)
qed

text \<open>
  What staging does: the modules directory is untouched, and on success the staged binary is a copy
  of the source that the verifier has accepted, beside the encoded manifest.
\<close>

definition staged :: "'st lc_env \<Rightarrow> manifest \<Rightarrow> bytes \<Rightarrow> fs \<Rightarrow> bool" where
  "staged e mf b t =
     (is_dir t (stageDir e mf) \<and> lookup t (stageDir e mf @ [binaryName (leGOOS e) (mfID mf)]) = Some (File b)
      \<and> (\<exists>raw. leEncode e mf = Some raw \<and> lookup t (stageDir e mf @ [manifestFile]) = Some (File raw))
      \<and> leVerifier e t (stageDir e mf @ [binaryName (leGOOS e) (mfID mf)]) mf = None)"


definition stage_post :: "'st lc_env \<Rightarrow> manifest \<Rightarrow> path \<Rightarrow> path \<Rightarrow> fs \<Rightarrow> 'x
    \<Rightarrow> (lc_error, path) result \<Rightarrow> 'x disk_scheme \<Rightarrow> bool" where
  "stage_post e mf p bin t m r d =
     (same_under p t (tree d) \<and> disk.more d = m
      \<and> (case r of Inl _ \<Rightarrow> True
         | Inr s \<Rightarrow> s = stageDir e mf \<and> (\<exists>b. lookup t bin = Some (File b) \<and> staged e mf b (tree d))))"

text \<open>The state after the binary was copied.\<close>

definition bin_staged :: "'st lc_env \<Rightarrow> manifest \<Rightarrow> path \<Rightarrow> path \<Rightarrow> fs \<Rightarrow> 'x \<Rightarrow> 'x disk_scheme \<Rightarrow> bool" where
  "bin_staged e mf p bin t m d =
     (same_under p t (tree d) \<and> disk.more d = m \<and> is_dir (tree d) (stageDir e mf)
      \<and> (\<exists>b. lookup t bin = Some (File b)
           \<and> lookup (tree d) (stageDir e mf @ [binaryName (leGOOS e) (mfID mf)]) = Some (File b)))"

lemma wp_then_wrap:
  assumes "wp m (\<lambda>r d'. case r of Inl x \<Rightarrow> Q (Inl (g x)) d' | Inr a \<Rightarrow> wp (f a) Q d') d"
  shows "wp (then_ok (wrap_err g m) f) Q d"
  unfolding wp_then_ok wp_wrap_err using assms by (rule wp_mono) (auto split: sum.splits)

lemma same_under_stage:
  assumes "idRe (mfID mf)" "versionRe (mfVersion mf)" "unrelated p (leStagingDir e)"
  shows "same_under p t (set_node (stageDir e mf @ y) n t') = same_under p t t'"
    "same_under p t t' \<Longrightarrow> (\<And>q. D q \<Longrightarrow> prefix (stageDir e mf) q) \<Longrightarrow> same_under p t (drop_paths D t')"
    "same_under p t t' \<Longrightarrow> mkdir_ext (stageDir e mf) t' t'' \<Longrightarrow> same_under p t t''"
  using same_under_set_node [OF assms(3), of t "[mfID mf, mfVersion mf] @ y" n t']
    same_under_drop [OF assms(3), of D "[mfID mf, mfVersion mf]" t t']
    same_under_mkdir [OF assms(3), of "[mfID mf, mfVersion mf]" t' t'' t]
  by (auto simp: stageDir_plain assms(1,2))

lemma wp_verify_stage:
  assumes names: "idRe (mfID mf)" "versionRe (mfVersion mf)" "unrelated p (leStagingDir e)"
    and d: "bin_staged e mf p bin t m d" "leEncode e mf = Some raw"
      "lookup (tree d) (stageDir e mf @ [manifestFile]) = Some (File raw)"
  shows "wp (verify_stage e mf) (stage_post e mf p bin t m) d"
proof (cases "leVerifier e (tree d) (stageDir e mf @ [binaryName (leGOOS e) (mfID mf)]) mf")
  case None
  with d have "stage_post e mf p bin t m (Inr (stageDir e mf)) d"
    by (auto simp: stage_post_def bin_staged_def staged_def)
  with None show ?thesis by (simp add: verify_stage_def wp_simps binaryName_plain names)
next
  case (Some err)
  have "wp (RemoveAll (stageDir e mf)) (\<lambda>_. stage_post e mf p bin t m (Inl (LcVerification err))) d"
    by (rule wp_RemoveAll) (use d in \<open>auto simp: stage_post_def bin_staged_def same_under_stage [OF names]\<close>)
  with Some show ?thesis by (simp add: verify_stage_def wp_simps binaryName_plain names)
qed

lemma bin_staged_fail: "bin_staged e mf p bin t m d \<Longrightarrow> stage_post e mf p bin t m (Inl err) d"
  by (simp add: bin_staged_def stage_post_def)

lemma bin_staged_beside:
  assumes "idRe (mfID mf)" "versionRe (mfVersion mf)" "unrelated p (leStagingDir e)"
    and "bin_staged e mf p bin t m d" "c \<noteq> binaryName (leGOOS e) (mfID mf)"
    and "tree d' = tree d \<or> tree d' = set_node (stageDir e mf @ [c]) n (tree d)" "disk.more d' = disk.more d"
  shows "bin_staged e mf p bin t m d'"
  using assms(4-7) by (auto simp: bin_staged_def is_dir_def same_under_stage [OF assms(1-3)])

lemma wp_stage_manifest:
  assumes names: "idRe (mfID mf)" "versionRe (mfVersion mf)" "unrelated p (leStagingDir e)"
    and d: "bin_staged e mf p bin t m d"
  shows "wp (case leEncode e mf of None \<Rightarrow> ret (Inl LcEncode)
      | Some raw \<Rightarrow> then_ok (wrap_err LcIO (WriteFile (Join (stageDir e mf) manifestFile) raw)) (\<lambda>_. verify_stage e mf))
    (stage_post e mf p bin t m) d"
proof (cases "leEncode e mf")
  case None
  with bin_staged_fail [OF d] show ?thesis by (simp add: wp_simps)
next
  case (Some raw)
  note beside = bin_staged_beside [OF names d binaryName_neq(2) [OF names(1), symmetric], of _ "_ :: node"]
  have "wp (WriteFile (stageDir e mf @ [manifestFile]) raw)
      (\<lambda>r d'. case r of Inl x \<Rightarrow> stage_post e mf p bin t m (Inl (LcIO x)) d' | Inr _ \<Rightarrow> wp (verify_stage e mf) (stage_post e mf p bin t m) d') d"
    by (rule wp_WriteFile)
      (auto intro!: wp_verify_stage [OF names] bin_staged_fail simp: Some intro: beside)
  then show ?thesis by (simp add: Some) (rule wp_then_wrap)
qed

lemma wp_stage_config:
  assumes names: "idRe (mfID mf)" "versionRe (mfVersion mf)" "unrelated p (leStagingDir e)"
    and d: "bin_staged e mf p bin t m d"
    and rest: "\<And>d'. bin_staged e mf p bin t m d' \<Longrightarrow> wp rest (stage_post e mf p bin t m) d'"
  shows "wp (then_ok (wrap_err LcIO (copy_config config (stageDir e mf))) (\<lambda>_. rest)) (stage_post e mf p bin t m) d"
proof (rule wp_then_wrap, cases config)
  case None
  then show "wp (copy_config config (stageDir e mf))
    (\<lambda>r d'. case r of Inl x \<Rightarrow> stage_post e mf p bin t m (Inl (LcIO x)) d' | Inr _ \<Rightarrow> wp rest (stage_post e mf p bin t m) d') d"
    using rest [OF d] by (simp add: copy_config_def wp_simps)
next
  case (Some c)
  note beside = bin_staged_beside [OF names _ binaryName_neq(1) [OF names(1), symmetric]]
  have stat: "bin_staged e mf p bin t m (after_call d (tree d))" by (rule beside [OF d, where n = Directory]) simp_all
  let ?Q = "\<lambda>r d'. case r of Inl x \<Rightarrow> stage_post e mf p bin t m (Inl (LcIO x)) d' | Inr _ \<Rightarrow> wp rest (stage_post e mf p bin t m) d'"
  have copy: "wp (copyFile c (stageDir e mf @ [''config.json''])) ?Q (after_call d (tree d))"
    by (rule wp_copyFile) (auto intro!: rest bin_staged_fail intro: beside [OF stat])
  show "wp (copy_config config (stageDir e mf)) ?Q d"
    unfolding copy_config_def Some option.case wp_bind
    by (rule wp_Stat) (auto simp: wp_simps copy rest stat split: sum.splits)
qed

lemma wp_stageFiles:
  assumes names: "idRe (mfID mf)" "versionRe (mfVersion mf)" "unrelated p (leStagingDir e)"
    and bin: "\<not> prefix (stageDir e mf) bin"
  shows "wp (stageFiles e mf bin config) (stage_post e mf p bin (tree d) (disk.more d)) d"
proof -
  let ?S = "stageDir e mf" and ?t = "tree d" and ?m = "disk.more d"
  let ?post = "stage_post e mf p bin ?t ?m"
  let ?ok = "\<lambda>d'. same_under p ?t (tree d') \<and> disk.more d' = ?m"
  have fail: "?post (Inl err) d'" if "?ok d'" for err d' using that by (simp add: stage_post_def)
  note kept = same_under_stage [OF names]
  let ?k3 = "then_ok (wrap_err LcIO (copy_config config ?S)) (\<lambda>_. case leEncode e mf of None \<Rightarrow> ret (Inl LcEncode)
      | Some raw \<Rightarrow> then_ok (wrap_err LcIO (WriteFile (Join ?S manifestFile) raw)) (\<lambda>_. verify_stage e mf))"
  let ?k2 = "then_ok (wrap_err LcIO (copyFile bin (Join ?S (binaryName (leGOOS e) (mfID mf))))) (\<lambda>_. ?k3)"
  have k3: "wp ?k3 ?post d'" if "bin_staged e mf p bin ?t ?m d'" for d'
    by (rule wp_stage_config [OF names that]) (rule wp_stage_manifest [OF names])
  have k2: "wp ?k2 ?post d'"
    if d': "?ok d'" "is_dir (tree d') ?S" and src: "\<And>b. lookup (tree d') bin = Some (File b) \<Longrightarrow> lookup ?t bin = Some (File b)" for d'
    by (rule wp_then_wrap, rule wp_copyFile)
      (use d' in \<open>auto intro!: k3 fail simp: bin_staged_def is_dir_def binaryName_plain names kept src\<close>)
  have k1: "wp (then_ok (wrap_err LcIO (MkdirAll ?S)) (\<lambda>_. ?k2)) ?post d'"
    if d': "?ok d'" and src: "lookup (tree d') bin = lookup ?t bin" for d'
  proof (rule wp_then_wrap, rule wp_MkdirAll)
    fix r :: "(io_error, unit) result" and t' assume ext: "mkdir_ext ?S (tree d') t'" and dir: "r = Inr () \<Longrightarrow> is_dir t' ?S"
    have "lookup ?t bin = Some (File b)" if "lookup t' bin = Some (File b)" for b
      using ext that src unfolding mkdir_ext_def by (metis node.distinct(1) option.inject)
    moreover have "same_under p ?t t'" using kept(3) ext d' by blast
    ultimately show "case r of Inl x \<Rightarrow> ?post (Inl (LcIO x)) (after_call d' t') | Inr _ \<Rightarrow> wp ?k2 ?post (after_call d' t')"
      using d' dir by (cases r) (auto intro!: fail k2)
  qed
  show ?thesis unfolding stageFiles_def
    by (rule wp_then_wrap, rule wp_RemoveAll) (use bin in \<open>auto intro!: k1 fail simp: kept\<close>)
qed


text \<open>One lock per module, whatever the order of the requests.\<close>

definition locks_ok :: "lock_table \<Rightarrow> bool" where
  "locks_ok locks = (\<forall>m i. map_of locks m = Some i \<longrightarrow> i < length locks \<and> (\<forall>m'. map_of locks m' = Some i \<longrightarrow> m' = m))"

lemma lockModule_unique:
  assumes "locks_ok locks" "lockModule m locks = (mu, locks')"
  shows "locks_ok locks' \<and> map_of locks' m = Some mu \<and> (\<forall>m'. map_of locks m' \<noteq> None \<longrightarrow> map_of locks' m' = map_of locks m')"
proof (cases "map_of locks m")
  case None
  with assms(2) have l: "mu = length locks" "locks' = (m, length locks) # locks" by (auto simp: lockModule_def)
  have lt: "i < length locks" if "map_of locks x = Some i" for x i using assms(1) that by (auto simp: locks_ok_def)
  have "locks_ok locks'" unfolding locks_ok_def l
    using assms(1) by (auto simp: locks_ok_def less_Suc_eq dest: lt)
  with None l show ?thesis by auto
qed (use assms in \<open>auto simp: lockModule_def\<close>)

end
