(* ===== verification/Lifecycle_Install.thy ===== *)
theory Lifecycle_Install
  imports Lifecycle
begin

text \<open>
  What installs guarantee (\<open>src/internal/lifecycle/lifecycle.go\<close>): promotion flips \<open>current\<close> only
  to a version that passed its health gate and touches neither the other versions nor the other
  modules; a channel install puts in place the artifact the signed manifest names; accepted manifest
  sequences never go down.
\<close>

section \<open>Activation\<close>

text \<open>
  The paths an install of one module leaves alone: the other modules, and the versions of this one
  that satisfy \<open>V\<close>.
\<close>

definition region :: "'st lc_env \<Rightarrow> string \<Rightarrow> (string \<Rightarrow> bool) \<Rightarrow> path \<Rightarrow> bool" where
  "region e m V q = ((\<exists>x rel. q = leModulesDir e @ x # rel \<and> x \<noteq> m)
     \<or> (\<exists>v rel. q = leModulesDir e @ m # ''versions'' # v # rel \<and> V v))"

definition kept :: "'st lc_env \<Rightarrow> string \<Rightarrow> (string \<Rightarrow> bool) \<Rightarrow> fs \<Rightarrow> fs \<Rightarrow> bool" where
  "kept e m V t t' = (\<forall>q. region e m V q \<longrightarrow> lookup t' q = lookup t q)"

lemma kept_refl [simp]: "kept e m V t t"
  by (simp add: kept_def)

lemma kept_trans: "kept e m V t t' \<Longrightarrow> kept e m V t' t'' \<Longrightarrow> kept e m V t t''"
  by (simp add: kept_def)

lemma kept_mono: "kept e m V t t' \<Longrightarrow> (\<And>v. V' v \<Longrightarrow> V v) \<Longrightarrow> kept e m V' t t'"
  unfolding kept_def region_def by blast

lemma kept_version: "kept e m V t t' \<Longrightarrow> V v \<Longrightarrow>
    lookup t' (leModulesDir e @ m # ''versions'' # v # rel) = lookup t (leModulesDir e @ m # ''versions'' # v # rel)"
  unfolding kept_def region_def by blast

lemma kept_marker:
  assumes "marker_post (leModulesDir e @ [m, x]) s t r t'" "x \<noteq> ''versions''"
  shows "kept e m V t t'"
proof -
  have "lookup t' q = lookup t q" if "region e m V q" for q
  proof -
    have "q \<noteq> leModulesDir e @ [m, x]" "\<not> prefix q (leModulesDir e @ [m])" "q \<noteq> tmp_of (leModulesDir e @ [m, x]) k" for k
      using that assms(2) by (auto simp: region_def tmp_of_def Dir_def butlast_append tempPrefix_def)
    with assms(1) show ?thesis unfolding marker_post_def by (auto simp: Dir_def butlast_append)
  qed
  then show ?thesis by (simp add: kept_def)
qed

definition activated :: "'st lc_env \<Rightarrow> manifest \<Rightarrow> 'st lc_world \<Rightarrow> (lc_error, unit) result \<Rightarrow> 'st lc_world \<Rightarrow> bool" where
  "activated e mf w r w' =
     (kept e (mfID mf) (\<lambda>_. True) (tree w) (tree w')
      \<and> lookup (tree w') (currentFile e (mfID mf))
          = (if r = Inr () then Some (File (mfVersion mf @ newline)) else lookup (tree w) (currentFile e (mfID mf)))
      \<and> (r = Inr () \<longrightarrow> lwPassed w' = lwPassed w @ [(mfID mf, mfVersion mf)]))"

lemma wp_replace_module: "wp (replace_module e sp) Q w
    = Q (fst (Replace (leSup e) sp 0 (lwRegistry w))) (w\<lparr>lwRegistry := snd (Replace (leSup e) sp 0 (lwRegistry w))\<rparr>)"
  by (simp add: replace_module_def wp_def split: prod.splits)

lemma wp_run_gate:
  assumes "\<And>r w'. tree w' = tree w \<Longrightarrow>
      lwPassed w' = lwPassed w @ (if is_ok r then [(mfID mf, mfVersion mf)] else []) \<Longrightarrow> Q r w'"
  shows "wp (run_gate e mf) Q w"
  unfolding run_gate_def wp_def by (auto simp: Let_def intro!: assms split: prod.splits)

lemma lwPassed_more: "disk.more w' = disk.more w \<Longrightarrow> lwPassed w' = lwPassed (w :: 'st lc_world)"
  by (cases w; cases w') simp

lemma wp_activate_write:
  assumes m: "idRe (mfID mf)" and t: "tree w1 = tree w" and passed: "lwPassed w1 = lwPassed w @ [(mfID mf, mfVersion mf)]"
  shows "wp (wrap_err LcIO (writeFileString (currentFile e (mfID mf)) (mfVersion mf))) (activated e mf w) w1"
  unfolding wp_wrap_err module_path_plain [OF m]
proof (rule wp_writeFileString [OF marker_name_module(1)])
  fix r w' assume post: "marker_post (leModulesDir e @ [mfID mf, ''current'']) (mfVersion mf) (tree w1) r (tree w')"
    and more: "disk.more w' = disk.more w1"
  have "lwPassed w' = lwPassed w @ [(mfID mf, mfVersion mf)]" using lwPassed_more [OF more] passed by simp
  moreover have "lookup (tree w') (currentFile e (mfID mf))
      = (if map_error LcIO r = Inr () then Some (File (mfVersion mf @ newline)) else lookup (tree w) (currentFile e (mfID mf)))"
    using post t by (cases r) (simp_all add: marker_post_def module_path_plain m)
  ultimately show "activated e mf w (map_error LcIO r) w'"
    using kept_marker [OF post] t by (simp add: activated_def)
qed

lemma wp_activate:
  assumes m: "idRe (mfID mf)"
  shows "wp (activate e mf verDir) (activated e mf w) w"
proof -
  have fail: "activated e mf w (Inl err) w'" if "tree w' = tree w" for err w'
    using that by (simp add: activated_def)
  let ?gate = "do {
      gate \<leftarrow> run_gate e mf;
      case gate of
        Inl err \<Rightarrow> do { _ \<leftarrow> stop_module (mfID mf); ret (Inl (LcGate err)) }
      | Inr _ \<Rightarrow> wrap_err LcIO (writeFileString (currentFile e (mfID mf)) (mfVersion mf)) }"
  have gate: "wp ?gate (activated e mf w) w1" if "tree w1 = tree w" "lwPassed w1 = lwPassed w" for w1
    unfolding wp_bind [of "run_gate e mf"]
    by (rule wp_run_gate, rename_tac r w2, case_tac r)
      (use that in \<open>auto simp: wp_bind wp_ret wp_modify stop_module_def intro!: fail wp_activate_write [OF m]\<close>)
  have replaced: "wp (ReadFile p) (\<lambda>cfg. wp (do {
      replaced \<leftarrow> replace_module e (f cfg);
      case replaced of Inl err \<Rightarrow> ret (Inl (LcReplace err)) | Inr _ \<Rightarrow> ?gate }) (activated e mf w)) w1"
    if "tree w1 = tree w" "lwPassed w1 = lwPassed w" for w1 p f
    by (rule wp_ReadFile; unfold wp_bind [of "replace_module _ _"] wp_replace_module wp_case_sum)
      (use that in \<open>auto simp: wp_ret after_call_def intro!: fail gate split: sum.splits\<close>)
  show ?thesis unfolding activate_def wp_then_ok
    by (rule wp_findBinary; unfold sum.case wp_bind [of "ReadFile _"])
      (auto intro!: fail replaced lwPassed_more)
qed


section \<open>Promotion\<close>

lemma kept_drop:
  assumes "\<And>q. D q \<Longrightarrow> prefix (leModulesDir e @ [m, ''versions'', v]) q" "\<not> V v"
  shows "kept e m V t (drop_paths D t)"
proof -
  have "\<not> D q" if "region e m V q" for q
    using that assms by (auto simp: region_def prefix_def dest!: assms(1))
  then show ?thesis by (simp add: kept_def)
qed

lemma prune_entries_kept:
  assumes "list_all (\<lambda>(c, _). plain_name c) es"
  shows "wp (prune_entries (leModulesDir e @ [m, ''versions'']) keep prev es)
    (\<lambda>_ d'. kept e m (\<lambda>v. v = keep \<or> v = prev) (tree d) (tree d')
       \<and> lookup (tree d') (leModulesDir e @ [m, ''current'']) = lookup (tree d) (leModulesDir e @ [m, ''current''])
       \<and> disk.more d' = disk.more d) d"
  using assms
proof (induction es arbitrary: d)
  case (Cons x es)
  obtain c b where x: "x = (c, b)" by (cases x)
  let ?V = "\<lambda>v. v = keep \<or> v = prev" and ?cur = "leModulesDir e @ [m, ''current'']"
  let ?P = "\<lambda>d d'. kept e m ?V (tree d) (tree d') \<and> lookup (tree d') ?cur = lookup (tree d) ?cur \<and> disk.more d' = disk.more d"
  have IH: "wp (prune_entries (leModulesDir e @ [m, ''versions'']) keep prev es) (\<lambda>_. ?P d) d'" if "?P d d'" for d'
    by (rule wp_mono [OF Cons.IH]) (use Cons.prems that in \<open>auto intro: kept_trans\<close>)
  have drop: "?P d (after_call d (drop_paths D (tree d)))"
    if "\<And>q. D q \<Longrightarrow> prefix (leModulesDir e @ [m, ''versions'', c]) q" "c \<noteq> keep" "c \<noteq> prev" for D
    using that kept_drop [of D e m c ?V] by (auto simp: prefix_def)
  show ?case
  proof (cases "c \<noteq> keep \<and> c \<noteq> prev")
    case True
    have "wp (RemoveAll (leModulesDir e @ [m, ''versions'', c]))
        (\<lambda>_. wp (prune_entries (leModulesDir e @ [m, ''versions'']) keep prev es) (\<lambda>_. ?P d)) d"
      by (rule wp_RemoveAll; rule IH; rule drop) (use True in auto)
    with True x Cons.prems show ?thesis by (simp add: wp_bind)
  qed (use x IH [of d] in auto)
qed (simp add: wp_simps)

definition plain_versions :: "'st lc_env \<Rightarrow> string \<Rightarrow> fs \<Rightarrow> bool" where
  "plain_versions e m t = (\<forall>c. lookup t (leModulesDir e @ [m, ''versions'', c]) \<noteq> None \<longrightarrow> plain_name c)"

lemma wp_prune:
  assumes "plain_versions e m (tree d)"
  shows "wp (prune (leModulesDir e @ [m]) keep prev)
    (\<lambda>_ d'. kept e m (\<lambda>v. v = keep \<or> v = prev) (tree d) (tree d')
       \<and> lookup (tree d') (leModulesDir e @ [m, ''current'']) = lookup (tree d) (leModulesDir e @ [m, ''current''])
       \<and> disk.more d' = disk.more d) d"
proof -
  have "list_all (\<lambda>(c, _). plain_name c) es" if "readdir_tree (leModulesDir e @ [m, ''versions'']) (tree d) = Inr es" for es
    using that assms by (auto simp: readdir_tree_def plain_versions_def list_all_iff set_dir_names split: option.splits node.splits)
  then show ?thesis unfolding prune_def wp_bind
    by (intro wp_ReadDir)
      (auto simp: wp_ret split: sum.splits intro!: wp_mono [OF prune_entries_kept])
qed

lemma wp_write_previous:
  fixes w :: "'st lc_world"
  assumes m: "idRe m"
    and Q: "\<And>r w'. kept e m (\<lambda>_. True) (tree w) (tree w') \<Longrightarrow> lookup (tree w') (currentFile e m) = lookup (tree w) (currentFile e m) \<Longrightarrow>
      lwPassed w' = lwPassed w \<Longrightarrow> Q r w'"
  shows "wp (writeFileString (previousFile e m) s) Q w"
  unfolding module_path_plain(3) [OF m]
proof (rule wp_writeFileString [OF marker_name_module(2)])
  fix r and w' :: "'st lc_world"
  assume post: "marker_post (leModulesDir e @ [m, ''previous'']) s (tree w) r (tree w')" and more: "disk.more w' = disk.more w"
  have "lookup (tree w') (currentFile e m) = lookup (tree w) (currentFile e m)"
    using marker_post_sibling [of "leModulesDir e @ [m]" "''previous''" s "tree w" r "tree w'" "''current''"] post
    by (simp add: module_path_plain m)
  moreover have "kept e m (\<lambda>_. True) (tree w) (tree w')" using kept_marker [OF post] by simp
  ultimately show "Q r w'" using Q lwPassed_more [OF more] by blast
qed

lemma wp_retain_old:
  assumes m: "idRe (mfID mf)" and plain: "plain_versions e (mfID mf) (tree w)"
  shows "wp (retain_old e mf old)
    (\<lambda>_ w'. kept e (mfID mf) (\<lambda>v. v = mfVersion mf \<or> v = old) (tree w) (tree w')
       \<and> lookup (tree w') (currentFile e (mfID mf)) = lookup (tree w) (currentFile e (mfID mf))
       \<and> lwPassed w' = lwPassed w) w"
    (is "wp _ ?Q w")
proof -
  have prune: "wp (prune (moduleDir e (mfID mf)) (mfVersion mf) old) ?Q w1"
    if w1: "kept e (mfID mf) (\<lambda>_. True) (tree w) (tree w1)"
      "lookup (tree w1) (currentFile e (mfID mf)) = lookup (tree w) (currentFile e (mfID mf))" "lwPassed w1 = lwPassed w" for w1
  proof -
    have "plain_versions e (mfID mf) (tree w1)"
      using plain kept_version [OF w1(1), of _ "[]"] by (simp add: plain_versions_def)
    moreover have "kept e (mfID mf) V (tree w) (tree w1)" for V using w1(1) by (rule kept_mono) simp
    ultimately show ?thesis unfolding module_path_plain(1) [OF m]
      using w1 by (intro wp_mono [OF wp_prune]) (auto intro: kept_trans simp: module_path_plain m dest: lwPassed_more)
  qed
  have "wp (writeFileString (previousFile e (mfID mf)) old) (\<lambda>_. wp (prune (moduleDir e (mfID mf)) (mfVersion mf) old) ?Q) w"
    by (rule wp_write_previous [OF m]) (rule prune)
  then show ?thesis unfolding retain_old_def wp_if wp_bind by (simp add: wp_ret)
qed

text \<open>The manifest that lies with a version names that module and version, if it can be read.\<close>

definition own_manifest :: "'st lc_env \<Rightarrow> string \<Rightarrow> string \<Rightarrow> fs \<Rightarrow> bool" where
  "own_manifest e m v t =
     (case lookup t (versionDir e m v @ [manifestFile]) of
        Some (File raw) \<Rightarrow> (case Parse_manifest (leDecode e) raw of
            Inl _ \<Rightarrow> True | Inr mf \<Rightarrow> mfID mf = m \<and> mfVersion mf = v)
      | _ \<Rightarrow> True)"

lemma wp_restore_old:
  assumes m: "idRe (mfID mf)" and own: "old \<noteq> [] \<Longrightarrow> old \<noteq> mfVersion mf \<Longrightarrow> own_manifest e (mfID mf) old (tree w)"
  shows "wp (restore_old e mf old)
    (\<lambda>_ w'. kept e (mfID mf) (\<lambda>_. True) (tree w) (tree w')
       \<and> (lookup (tree w') (currentFile e (mfID mf)) = lookup (tree w) (currentFile e (mfID mf))
          \<or> old \<noteq> [] \<and> lookup (tree w') (currentFile e (mfID mf)) = Some (File (old @ newline)))) w"
proof -
  let ?Q = "\<lambda>old _ w'. kept e (mfID mf) (\<lambda>_. True) (tree w) (tree w')
       \<and> (lookup (tree w') (currentFile e (mfID mf)) = lookup (tree w) (currentFile e (mfID mf))
          \<or> lookup (tree w') (currentFile e (mfID mf)) = Some (File (old @ newline)))"
  have act: "wp (activate e oldMf dir) (\<lambda>_. ?Q (mfVersion oldMf) ()) w1"
    if "tree w1 = tree w" "mfID oldMf = mfID mf" for oldMf dir w1
    by (rule wp_mono [OF wp_activate]) (use that m in \<open>auto simp: activated_def split: if_splits\<close>)
  have "wp (Load_manifest (leDecode e) (versionDir e (mfID mf) old @ [manifestFile])) (\<lambda>loaded. wp (case loaded of
      Inl _ \<Rightarrow> ret () | Inr oldMf \<Rightarrow> do { _ \<leftarrow> activate e oldMf (versionDir e (mfID mf) old); ret () }) (?Q old)) w"
    if "own_manifest e (mfID mf) old (tree w)"
    unfolding Load_manifest_def wp_bind [of "ReadFile _"]
    by (rule wp_ReadFile)
      (use that in \<open>auto simp: wp_simps own_manifest_def read_tree_def intro!: act split: option.splits node.splits sum.splits\<close>)
  then have "wp (restore_old e mf old) (?Q old) w" unfolding restore_old_def wp_if using own by (simp add: wp_simps)
  moreover have "restore_old e mf [] = ret ()" by (simp add: restore_old_def)
  ultimately show ?thesis by (cases "old = []") (auto simp: wp_ret elim: wp_mono)
qed

text \<open>The tree after the staged directory has been moved in.\<close>

definition moved :: "'st lc_env \<Rightarrow> manifest \<Rightarrow> path \<Rightarrow> 'st lc_world \<Rightarrow> 'st lc_world \<Rightarrow> bool" where
  "moved e mf stage w w' =
     (kept e (mfID mf) (\<lambda>v. v \<noteq> mfVersion mf) (tree w) (tree w')
      \<and> lookup (tree w') (currentFile e (mfID mf)) = lookup (tree w) (currentFile e (mfID mf))
      \<and> lwPassed w' = lwPassed w
      \<and> (\<forall>rel. lookup (tree w') (versionDir e (mfID mf) (mfVersion mf) @ rel) = lookup (tree w) (stage @ rel)))"

text \<open>What promotion does to the installed tree, in either case.\<close>

definition promote_post :: "'st lc_env \<Rightarrow> manifest \<Rightarrow> path \<Rightarrow> 'st lc_world \<Rightarrow> (lc_error, unit) result \<Rightarrow> 'st lc_world \<Rightarrow> bool" where
  "promote_post e mf stage w r w' =
     (case r of
        Inl _ \<Rightarrow>
          kept e (mfID mf) (\<lambda>v. v \<noteq> mfVersion mf) (tree w) (tree w')
          \<and> marker_val (tree w') (currentFile e (mfID mf)) = marker_val (tree w) (currentFile e (mfID mf))
      | Inr _ \<Rightarrow>
          kept e (mfID mf) (\<lambda>v. v = marker_val (tree w) (currentFile e (mfID mf)) \<and> v \<noteq> mfVersion mf) (tree w) (tree w')
          \<and> marker_val (tree w') (currentFile e (mfID mf)) = mfVersion mf
          \<and> lwPassed w' = lwPassed w @ [(mfID mf, mfVersion mf)]
          \<and> (\<forall>rel. lookup (tree w') (versionDir e (mfID mf) (mfVersion mf) @ rel) = lookup (tree w) (stage @ rel)))"

lemma kept_mkdir:
  assumes "mkdir_ext (leModulesDir e @ [m, ''versions'']) t t'"
  shows "kept e m V t t'"
    "lookup t' (leModulesDir e @ [m, ''current'']) = lookup t (leModulesDir e @ [m, ''current''])"
proof -
  have "\<not> prefix q (leModulesDir e @ [m, ''versions''])" if "region e m V q \<or> q = leModulesDir e @ [m, ''current'']" for q
    using that by (auto simp: region_def)
  then show "kept e m V t t'" "lookup t' (leModulesDir e @ [m, ''current'']) = lookup t (leModulesDir e @ [m, ''current''])"
    using mkdir_ext_outside [OF assms] by (auto simp: kept_def)
qed

lemma kept_rename:
  assumes apart: "unrelated (leModulesDir e) stage" and dir: "is_dir t stage" and v: "\<not> V v"
  shows "kept e m V t (rename_tree stage (leModulesDir e @ [m, ''versions'', v]) t)"
    "lookup (rename_tree stage (leModulesDir e @ [m, ''versions'', v]) t) (leModulesDir e @ [m, ''current''])
       = lookup t (leModulesDir e @ [m, ''current''])"
    "lookup (rename_tree stage (leModulesDir e @ [m, ''versions'', v]) t) (leModulesDir e @ m # ''versions'' # v # rel)
       = lookup t (stage @ rel)"
proof -
  let ?dst = "leModulesDir e @ [m, ''versions'', v]"
  have mv: "rename_tree stage ?dst t = move_tree stage ?dst t" using dir by (simp add: rename_tree_def is_dir_def)
  have un: "\<not> prefix stage (leModulesDir e @ x)" "\<not> prefix (leModulesDir e @ x) stage" for x
    using unrelated_below(1) [OF apart, of x "[]"] unrelated_below(3) [OF apart, of "[]" x] by simp_all
  note look = lookup_move_tree [OF un]
  have "\<not> prefix ?dst q \<and> \<not> prefix stage q" if "region e m V q" for q
    using that v un by (auto simp: region_def)
  then show "kept e m V t (rename_tree stage ?dst t)" by (simp add: kept_def mv look)
  show "lookup (rename_tree stage ?dst t) (leModulesDir e @ [m, ''current'']) = lookup t (leModulesDir e @ [m, ''current''])"
    using un by (simp add: mv look)
  show "lookup (rename_tree stage ?dst t) (leModulesDir e @ m # ''versions'' # v # rel) = lookup t (stage @ rel)"
    by (simp add: mv look)
qed

lemma wp_read_current:
  assumes "\<And>v. v = [] \<or> v = marker_val (tree d) (currentFile e m) \<Longrightarrow> Q v (after_call d (tree d))"
  shows "wp (read_current e m) Q d"
  unfolding read_current_def wp_bind
  by (rule wp_ReadFile)
    (auto simp: wp_simps read_tree_def marker_val_def intro!: assms split: option.splits node.splits)

lemma moved_call: "moved e mf stage w w' \<Longrightarrow> moved e mf stage w (after_call w' (tree w'))"
  by (simp add: moved_def after_call_def)

text \<open>What an install tree must be like for the theorems: names are plain, manifests lie where they belong.\<close>

definition install_tree_ok :: "'st lc_env \<Rightarrow> string \<Rightarrow> fs \<Rightarrow> bool" where
  "install_tree_ok e m t =
     (plain_versions e m t
      \<and> (let old = marker_val t (currentFile e m)
         in old = [] \<or> versionRe old \<and> own_manifest e m old t))"

lemma promote_fail_post:
  assumes names: "idRe (mfID mf)" "versionRe (mfVersion mf)" and ok: "install_tree_ok e (mfID mf) (tree w)"
    and mv: "moved e mf stage w w1" and act: "activated e mf w1 (Inl err) w2"
    and old: "old = [] \<or> old = marker_val (tree w) (currentFile e (mfID mf))"
  shows "wp (restore_old e mf old) (\<lambda>_. promote_post e mf stage w (Inl (PromoteFailed err))) w2"
proof -
  let ?m = "mfID mf" and ?cur = "currentFile e (mfID mf)"
  have k2: "kept e ?m (\<lambda>v. v \<noteq> mfVersion mf) (tree w) (tree w2)"
    using mv act by (auto simp: moved_def activated_def intro: kept_trans kept_mono)
  have c2: "lookup (tree w2) ?cur = lookup (tree w) ?cur" using mv act by (simp add: moved_def activated_def)
  have own: "own_manifest e ?m old (tree w2)" if "old \<noteq> []" "old \<noteq> mfVersion mf"
  proof -
    have o: "versionRe old" "own_manifest e ?m old (tree w)" using ok old that by (auto simp: install_tree_ok_def Let_def)
    have "lookup (tree w2) (versionDir e ?m old @ [manifestFile]) = lookup (tree w) (versionDir e ?m old @ [manifestFile])"
      using kept_version [OF k2, of old "[manifestFile]"] that o(1) by (simp add: module_path_plain names)
    with o(2) show ?thesis by (simp add: own_manifest_def)
  qed
  show ?thesis
  proof (rule wp_mono [OF wp_restore_old [OF names(1) own]])
    fix w3 :: "'a lc_world" assume w3: "kept e ?m (\<lambda>_. True) (tree w2) (tree w3) \<and> (lookup (tree w3) ?cur = lookup (tree w2) ?cur
       \<or> old \<noteq> [] \<and> lookup (tree w3) ?cur = Some (File (old @ newline)))"
    have "marker_val (tree w3) ?cur = marker_val (tree w) ?cur"
    proof (cases "lookup (tree w3) ?cur = lookup (tree w2) ?cur")
      case False
      with w3 ok old have "versionRe old" "lookup (tree w3) ?cur = Some (File (old @ newline))"
        "old = marker_val (tree w) ?cur"
        by (auto simp: install_tree_ok_def Let_def)
      then show ?thesis using versionRe_trimmed [of old] by (simp add: marker_val_def newline_def)
    qed (simp add: marker_val_def c2)
    with w3 k2 show "promote_post e mf stage w (Inl (PromoteFailed err)) w3"
      by (auto simp: promote_post_def intro: kept_trans kept_mono)
  qed
qed


lemma promote_ok_post:
  assumes names: "idRe (mfID mf)" "versionRe (mfVersion mf)" and ok: "install_tree_ok e (mfID mf) (tree w)"
    and mv: "moved e mf stage w w1" and act: "activated e mf w1 (Inr ()) w2"
    and old: "old = [] \<or> old = marker_val (tree w) (currentFile e (mfID mf))"
  shows "wp (retain_old e mf old) (\<lambda>_. promote_post e mf stage w (Inr ())) w2"
proof -
  let ?m = "mfID mf" and ?cur = "currentFile e (mfID mf)" and ?v = "mfVersion mf"
  have k2: "kept e ?m (\<lambda>v. v \<noteq> ?v) (tree w) (tree w2)" and same: "kept e ?m (\<lambda>_. True) (tree w1) (tree w2)"
    using mv act by (auto simp: moved_def activated_def intro: kept_trans kept_mono)
  have new: "lookup (tree w2) (versionDir e ?m ?v @ rel) = lookup (tree w) (stage @ rel)" for rel
    using mv kept_version [OF same, of ?v rel] by (simp add: moved_def module_path_plain names)
  have plain: "plain_versions e ?m (tree w2)"
    unfolding plain_versions_def
  proof (intro allI impI)
    fix c assume c: "lookup (tree w2) (leModulesDir e @ [?m, ''versions'', c]) \<noteq> None"
    show "plain_name c"
    proof (cases "c = ?v")
      case False
      then show ?thesis
        using c ok kept_version [OF k2, of c "[]"] by (auto simp: install_tree_ok_def plain_versions_def)
    qed (simp add: versionRe_plain names)
  qed
  have "lookup (tree w2) ?cur = Some (File (?v @ newline))" "lwPassed w2 = lwPassed w @ [(?m, ?v)]"
    using mv act by (simp_all add: moved_def activated_def)
  show ?thesis
  proof (cases "old = [] \<or> old = ?v")
    case True
    then have "retain_old e mf old = ret ()" by (auto simp: retain_old_def)
    moreover have "promote_post e mf stage w (Inr ()) w2"
      using k2 new \<open>lookup (tree w2) ?cur = _\<close> \<open>lwPassed w2 = _\<close> versionRe_trimmed [OF names(2)]
      by (auto simp: promote_post_def marker_val_def newline_def intro: kept_mono)
    ultimately show ?thesis by (simp add: wp_ret)
  next
    case False
    then have o: "old = marker_val (tree w) ?cur" using old by simp
    show ?thesis
    proof (rule wp_mono [OF wp_retain_old [OF names(1) plain]])
      fix w3 :: "'a lc_world" assume w3: "kept e ?m (\<lambda>v. v = ?v \<or> v = old) (tree w2) (tree w3)
        \<and> lookup (tree w3) ?cur = lookup (tree w2) ?cur \<and> lwPassed w3 = lwPassed w2"
      have "kept e ?m (\<lambda>v. v = old \<and> v \<noteq> ?v) (tree w) (tree w3)"
        using w3 k2 by (auto intro: kept_trans kept_mono)
      moreover have "lookup (tree w3) (versionDir e ?m ?v @ rel) = lookup (tree w) (stage @ rel)" for rel
        using new w3 kept_version [of e ?m "\<lambda>v. v = ?v \<or> v = old" "tree w2" "tree w3" ?v rel]
        by (simp add: module_path_plain names)
      ultimately show "promote_post e mf stage w (Inr ()) w3"
        using w3 o \<open>lookup (tree w2) ?cur = _\<close> \<open>lwPassed w2 = _\<close> versionRe_trimmed [OF names(2)]
        by (auto simp: promote_post_def marker_val_def newline_def)
    qed
  qed
qed

lemma wp_promote_moved:
  assumes names: "idRe (mfID mf)" "versionRe (mfVersion mf)" and ok: "install_tree_ok e (mfID mf) (tree w)"
    and mv: "moved e mf stage w w1"
  shows "wp (do {
       old \<leftarrow> read_current e (mfID mf);
       r \<leftarrow> activate e mf verDir;
       case r of
         Inl err \<Rightarrow> do { _ \<leftarrow> restore_old e mf old; ret (Inl (PromoteFailed err)) }
       | Inr _ \<Rightarrow> do { _ \<leftarrow> retain_old e mf old; ret (Inr ()) } }) (promote_post e mf stage w) w1"
  unfolding wp_bind [of "read_current e (mfID mf)"]
proof (rule wp_read_current)
  fix old assume "old = [] \<or> old = marker_val (tree w1) (currentFile e (mfID mf))"
  then have old: "old = [] \<or> old = marker_val (tree w) (currentFile e (mfID mf))"
    using mv by (simp add: moved_def marker_val_def)
  note post = promote_fail_post [OF names ok moved_call [OF mv] _ old] promote_ok_post [OF names ok moved_call [OF mv] _ old]
  show "wp (do { r \<leftarrow> activate e mf verDir;
       case r of
         Inl err \<Rightarrow> do { _ \<leftarrow> restore_old e mf old; ret (Inl (PromoteFailed err)) }
       | Inr _ \<Rightarrow> do { _ \<leftarrow> retain_old e mf old; ret (Inr ()) } }) (promote_post e mf stage w) (after_call w1 (tree w1))"
    unfolding wp_bind [of "activate e mf verDir"]
    by (rule wp_mono [OF wp_activate [OF names(1)]]) (auto simp: wp_simps split: sum.split dest: post)
qed

text \<open>The steps before the move leave the stage, the markers and the other versions as they are.\<close>

definition unmoved :: "'st lc_env \<Rightarrow> manifest \<Rightarrow> path \<Rightarrow> 'st lc_world \<Rightarrow> 'st lc_world \<Rightarrow> bool" where
  "unmoved e mf stage w w' =
     (kept e (mfID mf) (\<lambda>v. v \<noteq> mfVersion mf) (tree w) (tree w')
      \<and> lookup (tree w') (leModulesDir e @ [mfID mf, ''current'']) = lookup (tree w) (leModulesDir e @ [mfID mf, ''current''])
      \<and> lwPassed w' = lwPassed w \<and> same_under stage (tree w) (tree w'))"

lemma unmoved_fail:
  "idRe (mfID mf) \<Longrightarrow> unmoved e mf stage w w' \<Longrightarrow> promote_post e mf stage w (Inl err) w'"
  by (simp add: unmoved_def promote_post_def marker_val_def module_path_plain)

lemma unmoved_mkdir:
  assumes "unrelated (leModulesDir e) stage" "mkdir_ext (leModulesDir e @ [mfID mf, ''versions'']) (tree w) t'"
  shows "unmoved e mf stage w (after_call w t')"
proof -
  have "unrelated stage (leModulesDir e)" using assms(1) by (auto simp: unrelated_def)
  from same_under_mkdir [OF this assms(2) same_under_refl] show ?thesis
    using kept_mkdir [OF assms(2)] by (simp add: unmoved_def after_call_def)
qed

lemma unmoved_drop:
  assumes apart: "unrelated (leModulesDir e) stage" and w1: "unmoved e mf stage w w1"
    and D: "\<And>q. D q \<Longrightarrow> prefix (leModulesDir e @ [mfID mf, ''versions'', mfVersion mf]) q"
  shows "unmoved e mf stage w (after_call w1 (drop_paths D (tree w1)))"
proof -
  have "\<not> D (leModulesDir e @ [mfID mf, ''current''])" using D by fastforce
  moreover have "unrelated stage (leModulesDir e)" using apart by (auto simp: unrelated_def)
  then have "same_under stage (tree w) (drop_paths D (tree w1))"
    using w1 by (intro same_under_drop [where q = "leModulesDir e" and y = "[mfID mf, ''versions'', mfVersion mf]"] D)
      (auto simp: unmoved_def)
  moreover have "kept e (mfID mf) (\<lambda>v. v \<noteq> mfVersion mf) (tree w1) (drop_paths D (tree w1))"
    by (rule kept_drop [OF D]) auto
  ultimately show ?thesis using w1 by (auto simp: unmoved_def after_call_def intro: kept_trans)
qed

lemma wp_promote_rename:
  assumes names: "idRe (mfID mf)" "versionRe (mfVersion mf)" and apart: "unrelated (leModulesDir e) stage"
    and dir: "is_dir (tree w) stage" and w1: "unmoved e mf stage w w1"
    and rest: "\<And>w2. moved e mf stage w w2 \<Longrightarrow> wp rest (promote_post e mf stage w) w2"
  shows "wp (then_ok (wrap_err PromotingStage (Rename stage (leModulesDir e @ [mfID mf, ''versions'', mfVersion mf]))) (\<lambda>_. rest))
    (promote_post e mf stage w) w1"
proof (rule wp_then_wrap, rule wp_Rename; unfold sum.case)
  have same: "lookup (tree w1) (stage @ rel) = lookup (tree w) (stage @ rel)" for rel
    using w1 by (simp add: unmoved_def same_under_def)
  from same [of "[]"] dir have "is_dir (tree w1) stage" by (simp add: is_dir_def)
  from kept_rename [OF apart this, of "\<lambda>v. v \<noteq> mfVersion mf" "mfVersion mf" "mfID mf"]
  have "moved e mf stage w (after_call w1 (rename_tree stage (leModulesDir e @ [mfID mf, ''versions'', mfVersion mf]) (tree w1)))"
    using w1 same by (auto simp: moved_def unmoved_def module_path_plain names after_call_def intro: kept_trans)
  then show "wp rest (promote_post e mf stage w)
      (after_call w1 (rename_tree stage (leModulesDir e @ [mfID mf, ''versions'', mfVersion mf]) (tree w1)))"
    by (rule rest)
  show "promote_post e mf stage w (Inl (PromotingStage err)) (after_call w1 (tree w1))" for err
    using w1 by (intro unmoved_fail names) (simp add: unmoved_def after_call_def)
qed

lemma wp_promote:
  assumes names: "idRe (mfID mf)" "versionRe (mfVersion mf)" and ok: "install_tree_ok e (mfID mf) (tree w)"
    and apart: "unrelated (leModulesDir e) stage" and dir: "is_dir (tree w) stage"
  shows "wp (promote e mf stage) (promote_post e mf stage w) w"
proof -
  let ?ver = "leModulesDir e @ [mfID mf, ''versions'', mfVersion mf]"
  have dirs: "versionDir e (mfID mf) (mfVersion mf) = ?ver" "Dir ?ver = leModulesDir e @ [mfID mf, ''versions'']"
    by (simp_all add: module_path_plain names Dir_def butlast_append)
  note fail = unmoved_fail [OF names(1)] and drop = unmoved_drop [OF apart] and moved = wp_promote_moved [OF names ok]
  show ?thesis unfolding promote_def Let_def dirs
  proof (rule wp_then_wrap, rule wp_MkdirAll)
    fix r :: "(io_error, unit) result" and t'
    assume "mkdir_ext (leModulesDir e @ [mfID mf, ''versions'']) (tree w) t'"
    note mk = unmoved_mkdir [OF apart this]
    show "case r of Inl x \<Rightarrow> promote_post e mf stage w (Inl (LcIO x)) (after_call w t')
      | Inr _ \<Rightarrow> wp (then_ok (wrap_err LcIO (RemoveAll ?ver)) (\<lambda>_. then_ok (wrap_err PromotingStage (Rename stage ?ver)) (\<lambda>_. do {
         old \<leftarrow> read_current e (mfID mf);
         r \<leftarrow> activate e mf ?ver;
         case r of
           Inl err \<Rightarrow> do { _ \<leftarrow> restore_old e mf old; ret (Inl (PromoteFailed err)) }
         | Inr _ \<Rightarrow> do { _ \<leftarrow> retain_old e mf old; ret (Inr ()) } })))
          (promote_post e mf stage w) (after_call w t')"
    proof (cases r)
      case (Inr u)
      show ?thesis unfolding Inr sum.case
        by (rule wp_then_wrap, rule wp_RemoveAll; unfold sum.case)
          (rule wp_promote_rename [OF names apart dir], rule drop [OF mk], simp, erule moved, rule fail, rule drop [OF mk], simp)
    qed (use mk in \<open>simp add: fail\<close>)
  qed
qed


section \<open>What an install leaves alone outside the module\<close>

text \<open>
  \<open>steady F Z dir t\<close>: the paths in \<open>F\<close> are as in \<open>t\<close>; and, for the runs \<open>Z\<close> in which no call fails,
  the directory is still there.
\<close>

definition steady :: "(path \<Rightarrow> bool) \<Rightarrow> bool \<Rightarrow> path \<Rightarrow> fs \<Rightarrow> 'x disk_scheme \<Rightarrow> bool" where
  "steady F Z dir t d =
     ((\<forall>q. F q \<longrightarrow> lookup (tree d) q = lookup t q) \<and> (Z \<longrightarrow> quiet d \<and> dirs_exist (tree d) dir))"

lemma steady_refl: "(Z \<Longrightarrow> quiet d \<and> dirs_exist (tree d) dir) \<Longrightarrow> steady F Z dir (tree d) d"
  by (simp add: steady_def)

lemma steady_lookup: "steady F Z dir t d \<Longrightarrow> F q \<Longrightarrow> lookup (tree d) q = lookup t q"
  by (simp add: steady_def)

lemma steady_weaken: "steady F Z dir t d \<Longrightarrow> (\<And>q. F' q \<Longrightarrow> F q) \<Longrightarrow> steady F' Z dir t d"
  by (simp add: steady_def)

lemma steady_after_call:
  "steady F Z dir t d \<Longrightarrow> (\<And>q. F q \<Longrightarrow> lookup t' q = lookup (tree d) q) \<Longrightarrow>
    (\<And>q. prefix q dir \<Longrightarrow> lookup (tree d) q \<noteq> None \<Longrightarrow> lookup t' q = lookup (tree d) q) \<Longrightarrow> steady F Z dir t (after_call d t')"
  by (auto simp: steady_def dirs_exist_def is_dir_def)

lemma steady_read [keeps_intros]:
  "keeps (steady F Z dir t) (ReadFile p)" "keeps (steady F Z dir t) (Stat p)" "keeps (steady F Z dir t) (ReadDir p)"
  by (auto intro!: keepsI wp_ReadFile wp_Stat wp_ReadDir steady_after_call)

lemma steady_findBinary [keeps_intros]: "keeps (steady F Z dir t) (findBinary e p m)"
proof -
  have "keeps (steady F Z dir t) (findBinary_in p cs)" for cs
    by (induction cs) (auto intro!: keeps_intros split: sum.splits node.splits)
  then show ?thesis unfolding findBinary_def by (intro keeps_intros)
qed

lemma steady_registry [keeps_intros]:
  "keeps (steady F Z dir t) (replace_module e sp)" "keeps (steady F Z dir t) (run_gate e mf)"
  "keeps (steady F Z dir t) (stop_module m)"
  by (auto simp: keeps_def replace_module_def run_gate_def stop_module_def steady_def quiet_def Let_def split: prod.splits)

lemma keeps_quiet_calls:
  "keeps quiet (MkdirAll p)" "keeps quiet (CreateTemp p c)" "keeps quiet (WriteString p b)"
  "keeps quiet (FileCall p)" "keeps quiet (Remove p)" "keeps quiet (Rename p q)"
  unfolding MkdirAll_def CreateTemp_def WriteString_def FileCall_def Remove_def Rename_def
  by (auto intro!: keepsI simp: wp_syscall)

lemma keeps_quiet_writeFileString: "keeps quiet (writeFileString p s)"
  unfolding writeFileString_def finish_marker_def by (intro keeps_intros keeps_quiet_calls)

lemma steady_writeFileString:
  assumes F: "\<And>q. F q \<Longrightarrow> q \<noteq> dir @ [x] \<and> \<not> prefix q dir \<and> (\<forall>k. q \<noteq> tmp_of (dir @ [x]) k)"
    and x: "marker_name (dir @ [x])"
  shows "keeps (steady F Z dir t) (writeFileString (dir @ [x]) s)"
proof (rule keepsI)
  fix d :: "'b disk_scheme" assume st: "steady F Z dir t d"
  have "wp (writeFileString (dir @ [x]) s) (\<lambda>r d'. marker_post (dir @ [x]) s (tree d) r (tree d') \<and> (Z \<longrightarrow> quiet d')) d"
  proof (rule wpI)
    fix r and d' :: "'b disk_scheme" assume run: "run_state (writeFileString (dir @ [x]) s) d = (r, d')"
    have "marker_post (dir @ [x]) s (tree d) r (tree d')"
      using wpD [OF wp_writeFileString_post [OF x] run] by blast
    moreover have "Z \<longrightarrow> quiet d'" using keepsD [OF keeps_quiet_writeFileString run] st by (simp add: steady_def)
    ultimately show "marker_post (dir @ [x]) s (tree d) r (tree d') \<and> (Z \<longrightarrow> quiet d')" by simp
  qed
  then show "wp (writeFileString (dir @ [x]) s) (\<lambda>_. steady F Z dir t) d"
  proof (rule wp_mono)
    fix r and d' :: "'b disk_scheme" assume p: "marker_post (dir @ [x]) s (tree d) r (tree d') \<and> (Z \<longrightarrow> quiet d')"
    have "lookup (tree d') q = lookup (tree d) q" if "F q" for q
      using p F [OF that] unfolding marker_post_def by auto
    moreover have "is_dir (tree d') q" if "prefix q dir" "is_dir (tree d) q" for q
    proof -
      have "q \<noteq> dir @ [x]" using that(1) by auto
      with p that(2) marker_post_kept [of dir x s "tree d" r "tree d'" q Directory] show ?thesis by (simp add: is_dir_def)
    qed
    ultimately show "steady F Z dir t d'" using st p by (auto simp: steady_def dirs_exist_def)
  qed
qed

text \<open>
  Beside an install of a module: the paths that are neither below the install tree nor above the
  module's directory nor in the stage, the other modules, and the other versions.
\<close>

definition outside :: "'st lc_env \<Rightarrow> string \<Rightarrow> path \<Rightarrow> path \<Rightarrow> bool" where
  "outside e m stage q = (\<not> prefix (leModulesDir e) q \<and> \<not> prefix q (leModulesDir e @ [m]) \<and> \<not> prefix stage q)"

definition spared :: "'st lc_env \<Rightarrow> string \<Rightarrow> (string \<Rightarrow> bool) \<Rightarrow> path \<Rightarrow> path \<Rightarrow> bool" where
  "spared e m V stage q = (outside e m stage q \<or> region e m V q \<or> q = leModulesDir e @ [m, ''previous''])"

lemma spared_apart:
  assumes "spared e m V stage q"
  shows "\<not> prefix q (leModulesDir e @ [m])" "q \<noteq> (leModulesDir e @ [m]) @ [''current'']"
    "\<not> prefix q (leModulesDir e @ [m, ''versions''])" "q \<noteq> tmp_of ((leModulesDir e @ [m]) @ [''current'']) k"
    "\<not> V v \<Longrightarrow> \<not> prefix (leModulesDir e @ [m, ''versions'', v]) q"
  using assms
  by (auto simp: spared_def outside_def region_def tmp_of_def Dir_def butlast_append tempPrefix_def prefix_append prefix_Cons
      dest: append_prefixD)

lemma steady_activate:
  assumes "idRe (mfID mf)"
  shows "keeps (steady (spared e (mfID mf) V stage) Z (leModulesDir e @ [mfID mf]) t) (activate e mf verDir)"
proof -
  have "keeps (steady (spared e (mfID mf) V stage) Z (leModulesDir e @ [mfID mf]) t)
      (writeFileString ((leModulesDir e @ [mfID mf]) @ [''current'']) (mfVersion mf))"
  proof (rule steady_writeFileString)
    fix q assume "spared e (mfID mf) V stage q"
    from spared_apart(1,2,4) [OF this]
    show "q \<noteq> (leModulesDir e @ [mfID mf]) @ [''current''] \<and> \<not> prefix q (leModulesDir e @ [mfID mf])
        \<and> (\<forall>k. q \<noteq> tmp_of ((leModulesDir e @ [mfID mf]) @ [''current'']) k)" by blast
  qed (simp add: marker_name_module)
  then have "keeps (steady (spared e (mfID mf) V stage) Z (leModulesDir e @ [mfID mf]) t)
      (writeFileString (currentFile e (mfID mf)) (mfVersion mf))"
    using assms by (simp add: module_path_plain)
  then show ?thesis unfolding activate_def by (intro keeps_intros)
qed

lemma steady_restore_old:
  assumes m: "idRe (mfID mf)" and st: "steady (spared e (mfID mf) V stage) Z (leModulesDir e @ [mfID mf]) t w"
    and own: "old \<noteq> [] \<Longrightarrow> old \<noteq> mfVersion mf \<Longrightarrow> own_manifest e (mfID mf) old (tree w)"
  shows "wp (restore_old e mf old) (\<lambda>_. steady (spared e (mfID mf) V stage) Z (leModulesDir e @ [mfID mf]) t) w"
    (is "wp _ (\<lambda>_. ?S) w")
proof -
  have act: "wp (activate e oldMf dir) (\<lambda>_. ?S) (after_call w (tree w))" if "mfID oldMf = mfID mf" for oldMf dir
    using steady_activate [of oldMf e V stage Z t dir] m that steady_after_call [OF st, of "tree w"] by (auto intro: keeps_wp)
  have "wp (Load_manifest (leDecode e) (versionDir e (mfID mf) old @ [manifestFile])) (\<lambda>loaded. wp (case loaded of
      Inl _ \<Rightarrow> ret () | Inr oldMf \<Rightarrow> do { _ \<leftarrow> activate e oldMf (versionDir e (mfID mf) old); ret () }) (\<lambda>_. ?S)) w"
    if "own_manifest e (mfID mf) old (tree w)"
    unfolding Load_manifest_def wp_bind [of "ReadFile _"]
    by (rule wp_ReadFile)
      (use that steady_after_call [OF st, of "tree w"] in \<open>auto simp: wp_simps own_manifest_def read_tree_def intro!: act split: option.splits node.splits sum.splits\<close>)
  then show ?thesis unfolding restore_old_def wp_if using own st by (simp add: wp_simps)
qed

lemma steady_remove_version:
  assumes F: "\<And>q. F q \<Longrightarrow> \<not> prefix (leModulesDir e @ [m, ''versions'', c]) q"
    and st: "steady F Z (leModulesDir e @ [m]) t d" and D: "\<And>q. D q \<Longrightarrow> prefix (leModulesDir e @ [m, ''versions'', c]) q"
  shows "steady F Z (leModulesDir e @ [m]) t (after_call d (drop_paths D (tree d)))"
proof (rule steady_after_call [OF st])
  fix q assume "F q"
  then have "\<not> D q" using F [of q] D [of q] by blast
  then show "lookup (drop_paths D (tree d)) q = lookup (tree d) q" by simp
next
  fix q assume "prefix q (leModulesDir e @ [m])"
  then have "\<not> D q" using D [of q] by (auto simp: prefix_def)
  then show "lookup (drop_paths D (tree d)) q = lookup (tree d) q" by simp
qed

lemma steady_prune:
  fixes d :: "'x disk_scheme"
  assumes plain: "plain_versions e m (tree d)" and F: "\<And>q. F q \<Longrightarrow> \<not> prefix (leModulesDir e @ [m, ''versions'']) q"
    and st: "steady F Z (leModulesDir e @ [m]) t d"
  shows "wp (prune (leModulesDir e @ [m]) keep prev) (\<lambda>_. steady F Z (leModulesDir e @ [m]) t) d"
proof -
  let ?S = "steady F Z (leModulesDir e @ [m]) t :: 'x disk_scheme \<Rightarrow> bool"
  have apart: "\<not> prefix (leModulesDir e @ [m, ''versions'', c]) q" if "F q" for c q
    using F [OF that] by (auto simp: prefix_def)
  have one: "keeps ?S (RemoveAll (leModulesDir e @ [m, ''versions'', c]))" for c
    by (rule keepsI, rule wp_RemoveAll; rule steady_remove_version [OF apart]) auto
  have entries: "keeps ?S (prune_entries (leModulesDir e @ [m, ''versions'']) keep prev es)" if "list_all (\<lambda>(c, _). plain_name c) es" for es
    using that by (induction es) (auto intro!: keeps_intros one)
  have "list_all (\<lambda>(c, _). plain_name c) es" if "readdir_tree (leModulesDir e @ [m, ''versions'']) (tree d) = Inr es" for es
    using that plain by (auto simp: readdir_tree_def plain_versions_def list_all_iff set_dir_names split: option.splits node.splits)
  then show ?thesis unfolding prune_def wp_bind
    using steady_after_call [OF st, of "tree d"]
    by (intro wp_ReadDir) (auto simp: wp_ret split: sum.splits intro!: keeps_wp [OF entries])
qed

text \<open>The \<open>previous\<close> marker after a write whose calls all succeed.\<close>

definition marked :: "path \<Rightarrow> string \<Rightarrow> bool \<Rightarrow> 'x disk_scheme \<Rightarrow> bool" where
  "marked p s Z d = (Z \<longrightarrow> lookup (tree d) p = Some (File (s @ newline)))"

lemma wp_write_previous_steady:
  fixes w :: "'st lc_world"
  assumes m: "idRe m" and st: "steady (outside e m stage) Z (leModulesDir e @ [m]) t w"
    and nodir: "Z \<Longrightarrow> lookup (tree w) (previousFile e m) \<noteq> Some Directory"
  shows "wp (writeFileString (previousFile e m) s)
    (\<lambda>_ w'. steady (outside e m stage) Z (leModulesDir e @ [m]) t w' \<and> marked (previousFile e m) s Z w') w"
proof -
  let ?p = "(leModulesDir e @ [m]) @ [''previous'']"
  have p: "previousFile e m = ?p" using m by (simp add: module_path_plain)
  have name: "marker_name ?p" using marker_name_module(2) [of "leModulesDir e" m] by simp
  have "keeps (steady (outside e m stage) Z (leModulesDir e @ [m]) t) (writeFileString ?p s)"
    by (rule steady_writeFileString [OF _ name])
      (auto simp: outside_def tmp_of_def Dir_def butlast_append prefix_def)
  note s = keeps_wp [OF this st]
  have "wp (writeFileString ?p s) (\<lambda>_. marked ?p s Z) w"
  proof (cases Z)
    case True
    have "wp (writeFileString ?p s) (\<lambda>r _. r = Inr ()) w"
      using st True nodir by (intro wp_quiet_writeFileString name) (simp_all add: steady_def p Dir_def butlast_append)
    from wp_conj [OF this wp_writeFileString_post [OF name]]
    show ?thesis by (rule wp_mono) (auto simp: marker_post_def marked_def)
  qed (auto simp: marked_def intro: wpI)
  from wp_conj [OF s this] show ?thesis by (simp add: p)
qed

lemma steady_retain_old:
  assumes m: "idRe (mfID mf)" and plain: "plain_versions e (mfID mf) (tree w)"
    and st: "steady (outside e (mfID mf) stage) Z (leModulesDir e @ [mfID mf]) t w"
    and nodir: "Z \<Longrightarrow> lookup (tree w) (previousFile e (mfID mf)) \<noteq> Some Directory"
  shows "wp (retain_old e mf old) (\<lambda>_ w'. steady (outside e (mfID mf) stage) Z (leModulesDir e @ [mfID mf]) t w'
      \<and> (old \<noteq> [] \<and> old \<noteq> mfVersion mf \<longrightarrow> marked (previousFile e (mfID mf)) old Z w')) w"
    (is "wp _ (\<lambda>_ w'. ?S w' \<and> (?c \<longrightarrow> ?M w')) w")
proof -
  let ?m = "mfID mf"
  have prune: "wp (prune (moduleDir e ?m) (mfVersion mf) old) (\<lambda>_ w'. ?S w' \<and> ?M w') w1"
    if w1: "?S w1" "?M w1" "kept e ?m (\<lambda>_. True) (tree w) (tree w1)" for w1
  proof -
    let ?F = "\<lambda>q. outside e ?m stage q \<or> q = leModulesDir e @ [?m, ''previous'']"
    have "plain_versions e ?m (tree w1)"
      using plain kept_version [OF w1(3), of _ "[]"] by (simp add: plain_versions_def)
    moreover have "steady ?F Z (leModulesDir e @ [?m]) (tree w1) w1" using w1(1) by (simp add: steady_def)
    moreover have "\<not> prefix (leModulesDir e @ [?m, ''versions'']) q" if "?F q" for q
      using that by (auto simp: outside_def dest: append_prefixD)
    ultimately have "wp (prune (leModulesDir e @ [?m]) (mfVersion mf) old) (\<lambda>_. steady ?F Z (leModulesDir e @ [?m]) (tree w1)) w1"
      by (intro steady_prune)
    then show ?thesis unfolding module_path_plain(1) [OF m]
      by (rule wp_mono) (use w1 in \<open>auto simp: steady_def marked_def module_path_plain m\<close>)
  qed
  have "wp (writeFileString (previousFile e ?m) old) (\<lambda>_. wp (prune (moduleDir e ?m) (mfVersion mf) old) (\<lambda>_ w'. ?S w' \<and> ?M w')) w"
    by (rule wp_mono [OF wp_conj [OF wp_write_previous_steady [OF m st nodir] wp_write_previous [OF m, where Q = "\<lambda>_ w'. kept e ?m (\<lambda>_. True) (tree w) (tree w')"]]])
      (auto intro: prune)
  then show ?thesis unfolding retain_old_def wp_if wp_bind using st by (auto simp: wp_ret elim: wp_mono)
qed

text \<open>What promotion does beside the versions and \<open>current\<close>: the paths outside the module, and \<open>previous\<close>.\<close>

definition promote_beside :: "'st lc_env \<Rightarrow> manifest \<Rightarrow> path \<Rightarrow> bool \<Rightarrow> 'st lc_world \<Rightarrow> (lc_error, unit) result \<Rightarrow> 'st lc_world \<Rightarrow> bool" where
  "promote_beside e mf stage Z w r w' =
     ((\<forall>q. outside e (mfID mf) stage q \<longrightarrow> lookup (tree w') q = lookup (tree w) q)
      \<and> (case r of
           Inl _ \<Rightarrow> lookup (tree w') (previousFile e (mfID mf)) = lookup (tree w) (previousFile e (mfID mf))
         | Inr _ \<Rightarrow> (let old = marker_val (tree w) (currentFile e (mfID mf))
             in old \<noteq> [] \<and> old \<noteq> mfVersion mf \<longrightarrow> marked (previousFile e (mfID mf)) old Z w')))"

definition premoved :: "'st lc_env \<Rightarrow> manifest \<Rightarrow> path \<Rightarrow> bool \<Rightarrow> fs \<Rightarrow> 'st lc_world \<Rightarrow> bool" where
  "premoved e mf stage Z =
     steady (\<lambda>q. spared e (mfID mf) (\<lambda>v. v \<noteq> mfVersion mf) stage q \<or> q = leModulesDir e @ [mfID mf, ''current''])
       Z (leModulesDir e @ [mfID mf])"

lemma premoved_spared: "premoved e mf stage Z t w \<Longrightarrow>
    steady (spared e (mfID mf) (\<lambda>v. v \<noteq> mfVersion mf) stage) Z (leModulesDir e @ [mfID mf]) t w"
  unfolding premoved_def by (erule steady_weaken) (rule disjI1)

lemma spared_beside:
  assumes m: "idRe (mfID mf)" and st: "steady (spared e (mfID mf) V stage) Z dir (tree w) w'"
  shows "promote_beside e mf stage Z w (Inl err) w'"
  using st by (auto simp: promote_beside_def steady_def spared_def module_path_plain m)

lemma wp_promote_moved_beside:
  assumes names: "idRe (mfID mf)" "versionRe (mfVersion mf)" and ok: "install_tree_ok e (mfID mf) (tree w)"
    and mv: "premoved e mf stage Z (tree w) w1" and nodir: "Z \<Longrightarrow> lookup (tree w) (previousFile e (mfID mf)) \<noteq> Some Directory"
  shows "wp (do {
       old \<leftarrow> read_current e (mfID mf);
       r \<leftarrow> activate e mf verDir;
       case r of
         Inl err \<Rightarrow> do { _ \<leftarrow> restore_old e mf old; ret (Inl (PromoteFailed err)) }
       | Inr _ \<Rightarrow> do { _ \<leftarrow> retain_old e mf old; ret (Inr ()) } }) (promote_beside e mf stage Z w) w1"
proof -
  let ?m = "mfID mf" and ?V = "\<lambda>v. v \<noteq> mfVersion mf" and ?cur = "marker_val (tree w) (currentFile e (mfID mf))"
  let ?S = "steady (spared e ?m ?V stage) Z (leModulesDir e @ [?m]) (tree w)"
  have cur: "marker_val (tree w1) (currentFile e ?m) = ?cur"
    using mv by (simp add: premoved_def steady_def marker_val_def module_path_plain names)
  have version: "lookup (tree w2) (leModulesDir e @ ?m # ''versions'' # c # rel) = lookup (tree w) (leModulesDir e @ ?m # ''versions'' # c # rel)"
    if "?S w2" "c \<noteq> mfVersion mf" for w2 :: "'a lc_world" and c rel
    using that by (auto simp: steady_def spared_def region_def)
  have fail: "wp (restore_old e mf old) (\<lambda>_. promote_beside e mf stage Z w (Inl err)) w2"
    if s2: "?S w2" and old: "old = [] \<or> old = ?cur" for w2 :: "'a lc_world" and old err
  proof (rule wp_mono [OF steady_restore_old [OF names(1) s2]])
    assume "old \<noteq> []" "old \<noteq> mfVersion mf"
    then have "versionRe old" "own_manifest e ?m old (tree w)" using ok old by (auto simp: install_tree_ok_def Let_def)
    with version [OF s2 \<open>old \<noteq> mfVersion mf\<close>, of "[manifestFile]"] show "own_manifest e ?m old (tree w2)"
      by (simp add: own_manifest_def module_path_plain names)
  qed (rule spared_beside [OF names(1)])
  have plain: "plain_versions e ?m (tree w2)" if s2: "?S w2" for w2 :: "'a lc_world"
    unfolding plain_versions_def
  proof (intro allI impI)
    fix c assume c: "lookup (tree w2) (leModulesDir e @ [?m, ''versions'', c]) \<noteq> None"
    show "plain_name c"
      using version [OF s2, of c "[]"] c ok versionRe_plain [OF names(2)]
      by (cases "c = mfVersion mf") (auto simp: install_tree_ok_def plain_versions_def)
  qed
  have succ: "wp (retain_old e mf old) (\<lambda>_. promote_beside e mf stage Z w (Inr ())) w2"
    if s2: "?S w2" and old: "Z \<longrightarrow> old = ?cur" for w2 :: "'a lc_world" and old
  proof -
    have out: "steady (outside e ?m stage) Z (leModulesDir e @ [?m]) (tree w) w2"
      using s2 by (rule steady_weaken) (simp add: spared_def)
    have "Z \<Longrightarrow> lookup (tree w2) (previousFile e ?m) \<noteq> Some Directory"
      using nodir s2 by (simp add: steady_def spared_def module_path_plain names)
    from steady_retain_old [OF names(1) plain [OF s2] out this] show ?thesis
      by (rule wp_mono) (use old in \<open>auto simp: promote_beside_def steady_def Let_def marked_def\<close>)
  qed
  have act: "wp (do { r \<leftarrow> activate e mf verDir;
       case r of
         Inl err \<Rightarrow> do { _ \<leftarrow> restore_old e mf old; ret (Inl (PromoteFailed err)) }
       | Inr _ \<Rightarrow> do { _ \<leftarrow> retain_old e mf old; ret (Inr ()) } }) (promote_beside e mf stage Z w) (after_call w1 (tree w1))"
    if "old = [] \<or> old = ?cur" "Z \<longrightarrow> old = ?cur" for old
  proof -
    have "?S (after_call w1 (tree w1))" using premoved_spared [OF mv] by (rule steady_after_call) simp_all
    from keeps_wp [OF steady_activate [OF names(1)] this] show ?thesis
      unfolding wp_bind [of "activate e mf verDir"]
      by (rule wp_mono) (use fail [OF _ that(1)] succ [OF _ that(2)] in \<open>auto simp: wp_simps split: sum.split\<close>)
  qed
  have q: "quiet w1" if Z using mv that by (simp add: premoved_def steady_def)
  show ?thesis unfolding wp_bind [of "read_current e ?m"]
  proof (cases Z)
    case True
    have "wp (read_current e ?m) Q w1 = Q (marker_val (tree w1) (currentFile e ?m)) (after_call w1 (tree w1))" for Q
      unfolding read_current_def wp_bind wp_quiet_read [OF q [OF True]] wp_ret
      by (simp add: read_tree_def marker_val_def split: option.splits node.splits)
    with act cur show "wp (read_current e ?m) (\<lambda>old. wp (do { r \<leftarrow> activate e mf verDir;
       case r of
         Inl err \<Rightarrow> do { _ \<leftarrow> restore_old e mf old; ret (Inl (PromoteFailed err)) }
       | Inr _ \<Rightarrow> do { _ \<leftarrow> retain_old e mf old; ret (Inr ()) } }) (promote_beside e mf stage Z w)) w1" by simp
  next
    case False
    then show "wp (read_current e ?m) (\<lambda>old. wp (do { r \<leftarrow> activate e mf verDir;
       case r of
         Inl err \<Rightarrow> do { _ \<leftarrow> restore_old e mf old; ret (Inl (PromoteFailed err)) }
       | Inr _ \<Rightarrow> do { _ \<leftarrow> retain_old e mf old; ret (Inr ()) } }) (promote_beside e mf stage Z w)) w1"
      by (intro wp_read_current act) (auto simp: cur)
  qed
qed

lemma premoved_after_call:
  assumes pm: "premoved e mf stage Z t w"
    and same: "\<And>q. \<not> prefix (leModulesDir e @ [mfID mf, ''versions'', mfVersion mf]) q \<Longrightarrow> \<not> prefix stage q \<Longrightarrow>
      \<not> prefix q (leModulesDir e @ [mfID mf, ''versions'']) \<or> lookup (tree w) q \<noteq> None \<Longrightarrow> lookup t' q = lookup (tree w) q"
    and apart: "unrelated (leModulesDir e) stage"
  shows "premoved e mf stage Z t (after_call w t')"
  unfolding premoved_def
proof (rule steady_after_call [OF pm [unfolded premoved_def]])
  have un: "\<not> prefix stage (leModulesDir e @ x)" for x
    using unrelated_below(3) [OF apart, of "[]" x] by simp
  fix q
  assume "spared e (mfID mf) (\<lambda>v. v \<noteq> mfVersion mf) stage q \<or> q = leModulesDir e @ [mfID mf, ''current'']"
  then show "lookup t' q = lookup (tree w) q"
  proof
    assume sp: "spared e (mfID mf) (\<lambda>v. v \<noteq> mfVersion mf) stage q"
    then have "\<not> prefix stage q" using un by (auto simp: spared_def outside_def region_def)
    with spared_apart(3) [OF sp] spared_apart(5) [OF sp, of "mfVersion mf"] show ?thesis by (intro same) auto
  qed (use un in \<open>auto intro!: same\<close>)
next
  fix q assume q: "prefix q (leModulesDir e @ [mfID mf])" "lookup (tree w) q \<noteq> None"
  have "\<not> prefix stage q" using q(1) unrelated_below(3) [OF apart, of "[]" "[mfID mf]"] by (auto intro: prefix_order.trans)
  moreover have "\<not> prefix (leModulesDir e @ [mfID mf, ''versions'', mfVersion mf]) q" using q(1) by (auto simp: prefix_def)
  ultimately show "lookup t' q = lookup (tree w) q" using q(2) by (intro same) simp_all
qed

lemma wp_promote_beside:
  assumes names: "idRe (mfID mf)" "versionRe (mfVersion mf)" and ok: "install_tree_ok e (mfID mf) (tree w)"
    and apart: "unrelated (leModulesDir e) stage" and dir: "is_dir (tree w) stage"
    and Z: "Z = (quiet w \<and> dirs_exist (tree w) (leModulesDir e @ [mfID mf]) \<and> lookup (tree w) (previousFile e (mfID mf)) \<noteq> Some Directory)"
  shows "wp (promote e mf stage) (promote_beside e mf stage Z w) w"
proof -
  let ?ver = "leModulesDir e @ [mfID mf, ''versions'', mfVersion mf]" and ?P = "premoved e mf stage Z (tree w)"
  have dirs: "versionDir e (mfID mf) (mfVersion mf) = ?ver" "Dir ?ver = leModulesDir e @ [mfID mf, ''versions'']"
    by (simp_all add: module_path_plain names Dir_def butlast_append)
  have fail: "promote_beside e mf stage Z w (Inl err) w1" if "?P w1" for err w1
    using premoved_spared [OF that] by (rule spared_beside [OF names(1)])
  have un: "\<not> prefix stage ?ver" "\<not> prefix ?ver stage"
    using unrelated_below(1) [OF apart, of _ "[]"] unrelated_below(3) [OF apart, of "[]" "[mfID mf, ''versions'', mfVersion mf]"] by simp_all
  have start: "?P w" using Z by (simp add: premoved_def steady_def)
  have mk: "?P (after_call w t')" if "mkdir_ext (leModulesDir e @ [mfID mf, ''versions'']) (tree w) t'" for t'
    by (rule premoved_after_call [OF start _ apart])
      (use mkdir_ext_outside [OF that] mkdir_ext_lookup [OF that] in fastforce)
  have drop: "?P (after_call w1 (drop_paths D (tree w1)))" if "?P w1" "\<And>q. D q \<Longrightarrow> prefix ?ver q" for w1 D
    by (rule premoved_after_call [OF that(1) _ apart]) (use that(2) in auto)
  have ren: "?P (after_call w1 (rename_tree stage ?ver (tree w1)))" if "?P w1" for w1
    by (rule premoved_after_call [OF that _ apart])
      (auto simp: rename_tree_def lookup_move_tree [OF un] split: option.splits node.splits)
  have same: "?P (after_call w1 (tree w1))" if "?P w1" for w1
    by (rule premoved_after_call [OF that _ apart]) simp
  have moved: "wp (do {
         old \<leftarrow> read_current e (mfID mf);
         r \<leftarrow> activate e mf ?ver;
         case r of
           Inl err \<Rightarrow> do { _ \<leftarrow> restore_old e mf old; ret (Inl (PromoteFailed err)) }
         | Inr _ \<Rightarrow> do { _ \<leftarrow> retain_old e mf old; ret (Inr ()) } }) (promote_beside e mf stage Z w) w1" if "?P w1" for w1
    by (rule wp_promote_moved_beside [OF names ok that]) (use Z in simp)
  show ?thesis unfolding promote_def Let_def dirs
  proof (rule wp_then_wrap, rule wp_MkdirAll)
    fix r :: "(io_error, unit) result" and t'
    assume "mkdir_ext (leModulesDir e @ [mfID mf, ''versions'']) (tree w) t'"
    note p1 = mk [OF this]
    let ?rest = "do {
         old \<leftarrow> read_current e (mfID mf);
         r \<leftarrow> activate e mf ?ver;
         case r of
           Inl err \<Rightarrow> do { _ \<leftarrow> restore_old e mf old; ret (Inl (PromoteFailed err)) }
         | Inr _ \<Rightarrow> do { _ \<leftarrow> retain_old e mf old; ret (Inr ()) } }"
    have rename: "wp (then_ok (wrap_err PromotingStage (Rename stage ?ver)) (\<lambda>_. ?rest)) (promote_beside e mf stage Z w) w1" if "?P w1" for w1
      by (rule wp_then_wrap, rule wp_Rename; unfold sum.case) (use that in \<open>auto intro!: moved ren fail same\<close>)
    have remove: "wp (then_ok (wrap_err LcIO (RemoveAll ?ver)) (\<lambda>_. then_ok (wrap_err PromotingStage (Rename stage ?ver)) (\<lambda>_. ?rest)))
        (promote_beside e mf stage Z w) (after_call w t')"
      by (rule wp_then_wrap, rule wp_RemoveAll; unfold sum.case) (rule rename, rule drop [OF p1], simp, rule fail, rule drop [OF p1], simp)
    show "case r of Inl x \<Rightarrow> promote_beside e mf stage Z w (Inl (LcIO x)) (after_call w t')
      | Inr _ \<Rightarrow> wp (then_ok (wrap_err LcIO (RemoveAll ?ver)) (\<lambda>_. then_ok (wrap_err PromotingStage (Rename stage ?ver)) (\<lambda>_. ?rest)))
          (promote_beside e mf stage Z w) (after_call w t')"
      using remove fail [OF p1] by (cases r) simp_all
  qed
qed


section \<open>Downloads and installs\<close>

definition download_post :: "'st lc_env \<Rightarrow> path \<Rightarrow> string \<Rightarrow> int \<Rightarrow> fs \<Rightarrow> 'x \<Rightarrow> (lc_error, path) result \<Rightarrow> 'x disk_scheme \<Rightarrow> bool" where
  "download_post e p digest sz t m r d =
     (same_under p t (tree d) \<and> disk.more d = m
      \<and> (case r of Inl _ \<Rightarrow> True
         | Inr tmp \<Rightarrow> \<exists>k b. tmp = leStagingDir e @ [k] \<and> lookup (tree d) tmp = Some (File b)
             \<and> int (length b) = sz \<and> ''sha256:'' @ hex_encode (leSHA256 e b) = digest))"

lemma wp_discard:
  assumes "unrelated p (leStagingDir e)" "same_under p t (tree d)" "disk.more d = m"
  shows "wp (discard (leStagingDir e @ [k]) err) (download_post e p digest sz t m) d"
  unfolding discard_def wp_bind
  by (rule wp_Remove; simp add: wp_ret download_post_def assms)
    (rule same_under_drop [OF assms(1), where y = "[k]"], use assms in auto)

lemma wp_download:
  assumes apart: "unrelated p (leStagingDir e)"
  shows "wp (download e io url digest sz) (download_post e p digest sz (tree d) (disk.more d)) d"
proof (cases "netArtifact io url")
  case (ArtifactReply status body whole)
  let ?post = "download_post e p digest sz (tree d) (disk.more d)" and ?got = "take (read_limit sz) body"
  note node = same_under_set_node [OF apart]
  have checks: "wp (do { _ \<leftarrow> FileCall (leStagingDir e @ [k]); case copied of
        Inl err \<Rightarrow> discard (leStagingDir e @ [k]) (LcIO err)
      | Inr _ \<Rightarrow>
          if \<not> whole \<and> length body < read_limit sz then discard (leStagingDir e @ [k]) ArtifactBody
          else if int (length ?got) \<noteq> sz then discard (leStagingDir e @ [k]) (ArtifactSize (int (length ?got)) sz)
          else if ''sha256:'' @ hex_encode (leSHA256 e ?got) \<noteq> digest
            then discard (leStagingDir e @ [k]) (ArtifactDigest (''sha256:'' @ hex_encode (leSHA256 e ?got)) digest)
          else ret (Inr (leStagingDir e @ [k])) }) ?post d'"
    if d': "same_under p (tree d) (tree d')" "disk.more d' = disk.more d"
      "copied = Inr () \<Longrightarrow> lookup (tree d') (leStagingDir e @ [k]) = Some (File ?got)" for copied k d'
  proof -
    note drop = wp_discard [OF apart, of "tree d" "after_call d' (tree d')" "disk.more d"]
    have ok: "?post (Inr (leStagingDir e @ [k])) (after_call d' (tree d'))"
      if "copied = Inr ()" "int (length ?got) = sz" "''sha256:'' @ hex_encode (leSHA256 e ?got) = digest"
      using that d' unfolding download_post_def by auto
    show ?thesis unfolding wp_bind
      by (rule wp_FileCall; cases copied; simp only: sum.case wp_if wp_ret)
        (use d' drop ok in \<open>auto simp del: length_take\<close>)
  qed
  show ?thesis
  proof (cases "status = 200")
    case True
    have "wp (CreateTemp (leStagingDir e) ''dl-'') (\<lambda>r d'. case r of Inl x \<Rightarrow> ?post (Inl (LcIO x)) d'
      | Inr tmp \<Rightarrow> wp (do {
            copied \<leftarrow> WriteString tmp ?got;
            _ \<leftarrow> FileCall tmp;
            case copied of
              Inl err \<Rightarrow> discard tmp (LcIO err)
            | Inr _ \<Rightarrow>
                if \<not> whole \<and> length body < read_limit sz then discard tmp ArtifactBody
                else if int (length ?got) \<noteq> sz then discard tmp (ArtifactSize (int (length ?got)) sz)
                else if ''sha256:'' @ hex_encode (leSHA256 e ?got) \<noteq> digest
                  then discard tmp (ArtifactDigest (''sha256:'' @ hex_encode (leSHA256 e ?got)) digest)
                else ret (Inr tmp) }) ?post d') d"
      unfolding wp_bind [of "WriteString _ _"]
      by (rule wp_CreateTemp; unfold sum.case; (rule wp_WriteString; rule checks)?)
        (simp_all add: node download_post_def)
    then show ?thesis
      unfolding download_def ArtifactReply artifact_reply.case Let_def using True
      by simp (rule wp_then_wrap)
  qed (simp add: download_def ArtifactReply wp_ret download_post_def)
qed (simp add: download_def wp_ret download_post_def)

lemma Validate_names: "Validate mf = Inr u \<Longrightarrow> idRe (mfID mf) \<and> versionRe (mfVersion mf)"
  by (auto simp: Validate_def split: if_splits)

text \<open>The install tree of a module depends on the modules directory only.\<close>

lemma same_under_lookup: "same_under p t t' \<Longrightarrow> lookup t' (p @ rel) = lookup t (p @ rel)"
  by (simp add: same_under_def)

lemma marker_val_same:
  "idRe m \<Longrightarrow> same_under (leModulesDir e) t t' \<Longrightarrow> marker_val t' (currentFile e m) = marker_val t (currentFile e m)"
  by (simp add: marker_val_def module_path_plain same_under_def)

lemma own_manifest_same:
  "idRe m \<Longrightarrow> versionRe v \<Longrightarrow> same_under (leModulesDir e) t t' \<Longrightarrow> own_manifest e m v t' = own_manifest e m v t"
  by (simp add: own_manifest_def module_path_plain same_under_def)

lemma install_tree_ok_same:
  assumes "idRe m" "same_under (leModulesDir e) t t'" "install_tree_ok e m t"
  shows "install_tree_ok e m t'"
  using assms(3) by (auto simp: install_tree_ok_def Let_def plain_versions_def own_manifest_same [OF assms(1) _ assms(2)]
      marker_val_same [OF assms(1,2)] same_under_lookup [OF assms(2)])

definition installed :: "'st lc_env \<Rightarrow> manifest \<Rightarrow> bytes \<Rightarrow> 'st lc_world \<Rightarrow> 'st lc_world \<Rightarrow> bool" where
  "installed e mf b w w' =
     ((\<exists>t. leVerifier e t (stageDir e mf @ [binaryName (leGOOS e) (mfID mf)]) mf = None
          \<and> lookup t (stageDir e mf @ [binaryName (leGOOS e) (mfID mf)]) = Some (File b))
      \<and> lookup (tree w') (versionDir e (mfID mf) (mfVersion mf) @ [binaryName (leGOOS e) (mfID mf)]) = Some (File b)
      \<and> (\<exists>raw. leEncode e mf = Some raw
           \<and> lookup (tree w') (versionDir e (mfID mf) (mfVersion mf) @ [manifestFile]) = Some (File raw))
      \<and> marker_val (tree w') (currentFile e (mfID mf)) = mfVersion mf
      \<and> lwPassed w' = lwPassed w @ [(mfID mf, mfVersion mf)])"

lemma wp_install_staged:
  assumes names: "idRe (mfID mf)" "versionRe (mfVersion mf)" and ok: "install_tree_ok e (mfID mf) (tree w)"
    and apart: "unrelated (leModulesDir e) (leStagingDir e)" and bin: "\<not> prefix (stageDir e mf) bin"
  shows "wp (install_staged e mf bin config)
    (\<lambda>r w'. case r of Inl _ \<Rightarrow> True
       | Inr v \<Rightarrow> v = mfVersion mf \<and> (\<exists>b. lookup (tree w) bin = Some (File b) \<and> installed e mf b w w')) w"
  unfolding install_staged_def wp_then_ok
proof (rule wp_mono [OF wp_stageFiles [OF names apart bin]])
  fix r and w1 :: "'a lc_world"
  let ?S = "stageDir e mf"
  let ?Q = "\<lambda>r w'. case r of Inl _ \<Rightarrow> True
       | Inr v \<Rightarrow> v = mfVersion mf \<and> (\<exists>b. lookup (tree w) bin = Some (File b) \<and> installed e mf b w w')"
  assume st: "stage_post e mf (leModulesDir e) bin (tree w) (disk.more w) r w1"
  show "(case r of Inl x \<Rightarrow> ?Q (Inl x) | Inr s \<Rightarrow>
      wp (promote e mf s) (\<lambda>r. case r of Inl x \<Rightarrow> ?Q (Inl x) | Inr _ \<Rightarrow> wp (ret (Inr (mfVersion mf))) ?Q)) w1"
  proof (cases r)
    case (Inr s)
    with st obtain b where s: "s = ?S" and b: "lookup (tree w) bin = Some (File b)" "staged e mf b (tree w1)"
      and same: "same_under (leModulesDir e) (tree w) (tree w1)" "disk.more w1 = disk.more w"
      by (auto simp: stage_post_def)
    have apart': "unrelated (leModulesDir e) ?S"
      using unrelated_below(1) [OF apart, of "[]"] unrelated_below(3) [OF apart, of _ "[]"]
      by (simp add: unrelated_def stageDir_plain names)
    have pw: "wp (promote e mf ?S) (promote_post e mf ?S w1) w1"
      using b(2) by (intro wp_promote names apart' install_tree_ok_same [OF names(1) same(1) ok]) (simp add: staged_def)
    have fin: "?Q (Inr (mfVersion mf)) w2" if "promote_post e mf ?S w1 (Inr ()) w2" for w2
      using that b lwPassed_more [OF same(2)] by (auto simp: promote_post_def installed_def staged_def)
    show ?thesis unfolding Inr s sum.case
      by (rule wp_mono [OF pw], rename_tac r2 w2, case_tac r2) (use fin in \<open>auto simp: wp_ret\<close>)
  qed simp
qed

lemma installed_removed:
  assumes "idRe (mfID mf)" "versionRe (mfVersion mf)" "unrelated (leModulesDir e) (leStagingDir e)"
    and "installed e mf b w w'" "lwPassed w = lwPassed w0"
  shows "installed e mf b w0 (after_call w' (tree w'))"
    "installed e mf b w0 (after_call w' (drop_paths (\<lambda>q. q = leStagingDir e @ [k]) (tree w')))"
  using assms(4,5) unrelated_below(2) [OF assms(3)]
  by (auto simp: installed_def marker_val_def module_path_plain assms(1,2) after_call_def)

definition host_manifest :: "'st lc_env \<Rightarrow> channel_module \<Rightarrow> manifest" where
  "host_manifest e cm = ModuleManifest cm [\<lparr>platOS = leGOOS e, platArch = leGOARCH e\<rparr>]"

lemma host_manifest_names [simp]: "mfID (host_manifest e cm) = cmID cm" "mfVersion (host_manifest e cm) = cmVersion cm"
  by (simp_all add: host_manifest_def ModuleManifest_def)

lemma wp_install_artifact:
  assumes ok: "idRe (cmID cm) \<Longrightarrow> install_tree_ok e (cmID cm) (tree w)" and apart: "unrelated (leModulesDir e) (leStagingDir e)"
  shows "wp (install_artifact e io cm art)
    (\<lambda>r w'. case r of Inl _ \<Rightarrow> True
       | Inr v \<Rightarrow> v = cmVersion cm \<and> Validate (host_manifest e cm) = Inr () \<and> (\<exists>b. installed e (host_manifest e cm) b w w'
             \<and> int (length b) = caSize art \<and> ''sha256:'' @ hex_encode (leSHA256 e b) = caDigest art)) w"
    (is "wp _ ?Q w")
  unfolding install_artifact_def host_manifest_def [symmetric] wp_then_ok
proof (rule wp_mono [OF wp_download [OF apart]])
  fix r and w1 :: "'a lc_world"
  let ?mf = "host_manifest e cm"
  assume dl: "download_post e (leModulesDir e) (caDigest art) (caSize art) (tree w) (disk.more w) r w1"
  have body: "wp (case Validate ?mf of Inl err \<Rightarrow> ret (Inl (LcManifest err)) | Inr _ \<Rightarrow> install_staged e ?mf (leStagingDir e @ [k]) None)
      (\<lambda>r. wp (Remove (leStagingDir e @ [k])) (\<lambda>_. ?Q r)) w1"
    if k: "lookup (tree w1) (leStagingDir e @ [k]) = Some (File b)" "int (length b) = caSize art"
      "''sha256:'' @ hex_encode (leSHA256 e b) = caDigest art" for k b
  proof (cases "Validate ?mf")
    case (Inl err)
    then show ?thesis by (auto simp: wp_simps intro: wp_Remove)
  next
    case (Inr u)
    note names = Validate_names [OF Inr, THEN conjunct1] Validate_names [OF Inr, THEN conjunct2]
    have same: "same_under (leModulesDir e) (tree w) (tree w1)" "lwPassed w1 = lwPassed w"
      using dl by (auto simp: download_post_def intro: lwPassed_more)
    have tree: "install_tree_ok e (mfID ?mf) (tree w1)"
      using install_tree_ok_same [OF names(1) same(1)] ok names(1) by simp
    have "\<not> prefix (stageDir e ?mf) (leStagingDir e @ [k])" unfolding stageDir_plain [OF names] by simp
    from wp_install_staged [OF names tree apart this, of None]
    have "wp (install_staged e ?mf (leStagingDir e @ [k]) None) (\<lambda>r. wp (Remove (leStagingDir e @ [k])) (\<lambda>_. ?Q r)) w1"
    proof (rule wp_mono)
      fix r :: "(lc_error, string) result" and w2 :: "'a lc_world" assume "case r of Inl _ \<Rightarrow> True | Inr v \<Rightarrow> v = mfVersion ?mf
        \<and> (\<exists>b. lookup (tree w1) (leStagingDir e @ [k]) = Some (File b) \<and> installed e ?mf b w1 w2)"
      then show "wp (Remove (leStagingDir e @ [k])) (\<lambda>_. ?Q r) w2"
        using installed_removed(1) [OF names apart _ same(2), of b w2] installed_removed(2) [OF names apart _ same(2), of b w2 k] k
        by (intro wp_Remove; cases r) (auto simp: Inr)
    qed
    then show ?thesis by (simp only: Inr sum.case)
  qed
  show "(case r of Inl x \<Rightarrow> ?Q (Inl x) | Inr tmp \<Rightarrow> wp (let mf = ?mf in do {
       r \<leftarrow> (case Validate mf of Inl err \<Rightarrow> ret (Inl (LcManifest err)) | Inr _ \<Rightarrow> install_staged e mf tmp None);
       _ \<leftarrow> Remove tmp;
       ret r }) ?Q) w1"
  proof (cases r)
    case (Inr tmp)
    with dl obtain k b where "tmp = leStagingDir e @ [k]" "lookup (tree w1) (leStagingDir e @ [k]) = Some (File b)"
      "int (length b) = caSize art" "''sha256:'' @ hex_encode (leSHA256 e b) = caDigest art"
      unfolding download_post_def by auto
    with body [of k b] show ?thesis by (simp only: Inr sum.case Let_def wp_bind wp_ret)
  qed simp
qed

lemma fetchChannel_ok:
  assumes "fetchChannel e rootPub io st = (Inr ch, st')"
  obtains b where "fetch_bundle e io = Inr b" "Verify_bundle (leCrypto e) rootPub b = Inr ch"
    "\<not> Expired (leParseTime e) ch (netNow io)" "check_sequence e ch st = (Inr (), st')"
proof -
  have "fresh_channel e rootPub io = Inr ch" "check_sequence e ch st = (Inr (), st')"
    using assms by (auto simp: fetchChannel_def split: prod.splits sum.splits)
  then show ?thesis by (auto simp: fresh_channel_def bind_result_Inr_iff split: if_splits intro: that)
qed

lemma Install_correct:
  assumes run: "run_state (Install e io m v) w = (Inr ver, w')"
    and apart: "unrelated (leModulesDir e) (leStagingDir e)" and ok: "install_tree_ok e m (tree w)"
  shows "\<exists>rootPub sb ch cm art b.
      leRootPub e = Some rootPub \<and> fetch_bundle e io = Inr sb \<and> Verify_bundle (leCrypto e) rootPub sb = Inr ch
      \<and> \<not> Expired (leParseTime e) ch (netNow io)
      \<and> Module ch m = Some cm \<and> cmVersion cm = ver \<and> (v = [] \<or> v = ver)
      \<and> ArtifactForHost (leGOOS e) (leGOARCH e) (cmArtifacts cm) = Some art
      \<and> int (length b) = caSize art \<and> ''sha256:'' @ hex_encode (leSHA256 e b) = caDigest art
      \<and> Validate (host_manifest e cm) = Inr () \<and> installed e (host_manifest e cm) b w w'"
proof -
  from run obtain rootPub where root: "leRootPub e = Some rootPub" "leManifestURL e \<noteq> []"
    by (auto simp: Install_def split: option.splits if_splits)
  obtain r st where fetch: "fetchChannel e rootPub io (lwStore w) = (r, st)" by fastforce
  with run root obtain ch where r: "r = Inr ch"
    by (cases r) (auto simp: Install_def run_state_then_ok fetch_channel_def)
  obtain sb where sb: "fetch_bundle e io = Inr sb" "Verify_bundle (leCrypto e) rootPub sb = Inr ch"
      "\<not> Expired (leParseTime e) ch (netNow io)"
    using fetch unfolding r by (rule fetchChannel_ok)
  let ?w = "w\<lparr>lwStore := st\<rparr>"
  obtain cm art where cm: "Module ch m = Some cm" "v = [] \<or> v = cmVersion cm"
      "ArtifactForHost (leGOOS e) (leGOARCH e) (cmArtifacts cm) = Some art"
    and art: "run_state (install_artifact e io cm art) ?w = (Inr ver, w')"
    using run root fetch r by (auto simp: Install_def run_state_then_ok fetch_channel_def split: option.splits if_splits)
  have "cmID cm = m" using cm(1) by (auto simp: Module_def find_Some_iff)
  then have "wp (install_artifact e io cm art) (\<lambda>r w'. case r of Inl _ \<Rightarrow> True
       | Inr v \<Rightarrow> v = cmVersion cm \<and> Validate (host_manifest e cm) = Inr () \<and> (\<exists>b. installed e (host_manifest e cm) b ?w w'
             \<and> int (length b) = caSize art \<and> ''sha256:'' @ hex_encode (leSHA256 e b) = caDigest art)) ?w"
    using ok by (intro wp_install_artifact apart) simp
  from wpD [OF this art] obtain b where b: "ver = cmVersion cm" "Validate (host_manifest e cm) = Inr ()" "installed e (host_manifest e cm) b ?w w'"
      "int (length b) = caSize art" "''sha256:'' @ hex_encode (leSHA256 e b) = caDigest art"
    by auto
  then have "installed e (host_manifest e cm) b w w'" by (simp add: installed_def)
  with root sb cm b show ?thesis by auto
qed

text \<open>
  C2: what a channel install puts in place is what the signed channel carries. When \<open>Install\<close>
  succeeds, a bundle verified against the root key gave a channel manifest that is not expired and
  carries the module at the reported version; the installed binary has the size and the SHA-256
  digest of the artifact the manifest lists for this host, and is byte for byte the file the
  verifier accepted in the stage; the version has passed the health gate and is current. This holds
  whatever calls of the operating system fail on the way.
\<close>

theorem Install_authentic:
  assumes run: "run_state (Install e io m v) w = (Inr ver, w')"
    and apart: "unrelated (leModulesDir e) (leStagingDir e)" and ok: "install_tree_ok e m (tree w)"
  shows "\<exists>rootPub sb ch cm art b.
      leRootPub e = Some rootPub \<and> fetch_bundle e io = Inr sb \<and> Verify_bundle (leCrypto e) rootPub sb = Inr ch
      \<and> \<not> Expired (leParseTime e) ch (netNow io)
      \<and> Module ch m = Some cm \<and> cmVersion cm = ver \<and> (v = [] \<or> v = ver)
      \<and> ArtifactForHost (leGOOS e) (leGOARCH e) (cmArtifacts cm) = Some art
      \<and> int (length b) = caSize art \<and> ''sha256:'' @ hex_encode (leSHA256 e b) = caDigest art
      \<and> Validate (host_manifest e cm) = Inr () \<and> installed e (host_manifest e cm) b w w'"
  by (rule Install_correct [OF assms])


section \<open>Rollback\<close>

text \<open>
  Up to the activation a rollback only reads: it loads the manifest of the version the \<open>previous\<close>
  marker names, and the marker it will write is the current one, if that could be read.
\<close>

definition only_read :: "'x disk_scheme \<Rightarrow> 'x disk_scheme \<Rightarrow> bool" where
  "only_read d d' = (tree d' = tree d \<and> fault d' = fault d \<and> disk.more d' = disk.more d)"

lemma only_read_call [simp]: "only_read d (after_call d' t) = (t = tree d \<and> fault d' = fault d \<and> disk.more d' = disk.more d)"
  by (simp add: only_read_def)

lemma wp_read_marker:
  assumes "\<And>r. (quiet d \<Longrightarrow> (case r of Inl _ \<Rightarrow> [] | Inr c \<Rightarrow> TrimSpace c) = marker_val (tree d) p) \<Longrightarrow> P r (after_call d (tree d))"
  shows "wp (ReadFile p) P d"
proof (cases "quiet d")
  case True
  have "(case read_tree p (tree d) of Inl _ \<Rightarrow> [] | Inr c \<Rightarrow> TrimSpace c) = marker_val (tree d) p"
    by (simp add: read_tree_def marker_val_def split: option.splits node.splits)
  with assms True show ?thesis by (simp add: wp_quiet_read)
qed (auto intro!: wp_ReadFile assms)

lemma wp_Rollback_rule:
  assumes own: "own_manifest e m (marker_val (tree w) (previousFile e m)) (tree w)"
    and fail: "\<And>err w'. only_read w w' \<Longrightarrow> Q (Inl err) w'"
    and act: "\<And>mf s w1. only_read w w1 \<Longrightarrow> mfID mf = m \<Longrightarrow> mfVersion mf = marker_val (tree w) (previousFile e m) \<Longrightarrow>
      (quiet w \<Longrightarrow> s = marker_val (tree w) (currentFile e m)) \<Longrightarrow>
      wp (activate e mf (versionDir e m (marker_val (tree w) (previousFile e m)))) (\<lambda>r. case r of Inl x \<Rightarrow> Q (Inl x)
        | Inr _ \<Rightarrow> wp (writeFileString (previousFile e m) s) (\<lambda>_. Q (Inr (marker_val (tree w) (previousFile e m))))) w1"
  shows "wp (Rollback e m) Q w"
proof -
  let ?v = "marker_val (tree w) (previousFile e m)"
  let ?k = "\<lambda>mf. do {
           cur \<leftarrow> ReadFile (currentFile e m);
           then_ok (activate e mf (versionDir e m ?v)) (\<lambda>_. do {
             _ \<leftarrow> writeFileString (previousFile e m) (case cur of Inl _ \<Rightarrow> [] | Inr c \<Rightarrow> TrimSpace c);
             ret (Inr ?v) }) }"
  have k: "wp (?k mf) Q w1" if w1: "only_read w w1" and mf: "mfID mf = m" "mfVersion mf = ?v" for mf w1
    unfolding wp_bind [of "ReadFile _"] wp_then_ok wp_bind [of "writeFileString _ _"] wp_ret
    by (rule wp_read_marker; rule act [OF _ mf]) (use w1 in \<open>simp_all add: only_read_def quiet_def\<close>)
  have load: "wp (then_ok (wrap_err LcManifest (Load_manifest (leDecode e) (versionDir e m ?v @ [manifestFile]))) ?k) Q w1"
    if w1: "only_read w w1" for w1
  proof -
    have "(case map_error LcManifest (bind_result (map_error ManifestIO r) (Parse_manifest (leDecode e))) of
        Inl x \<Rightarrow> Q (Inl x) | Inr mf \<Rightarrow> wp (?k mf) Q) (after_call w1 (tree w1))"
      if "r = Inl err \<or> r = read_tree (versionDir e m ?v @ [manifestFile]) (tree w1)" for r err
    proof (cases "bind_result (map_error ManifestIO r) (Parse_manifest (leDecode e))")
      case (Inr mf)
      then have "mfID mf = m" "mfVersion mf = ?v"
        using own w1 that by (auto simp: only_read_def own_manifest_def read_tree_def bind_result_Inr_iff split: option.splits node.splits)
      with k [of "after_call w1 (tree w1)" mf] Inr w1 show ?thesis by (simp add: only_read_def)
    qed (use fail [of "after_call w1 (tree w1)"] w1 in \<open>simp add: only_read_def\<close>)
    then show ?thesis
      unfolding wp_then_ok wp_wrap_err Load_manifest_def wp_bind [of "ReadFile (versionDir e m ?v @ [manifestFile])"] wp_ret
      by (intro wp_ReadFile) blast+
  qed
  show ?thesis unfolding Rollback_def wp_bind [of "ReadFile (previousFile e m)"]
  proof (rule wp_ReadFile, goal_cases)
    case 1
    show ?case
    proof (cases "read_tree (previousFile e m) (tree w)")
      case (Inr b)
      then have "TrimSpace b = ?v" by (auto simp: read_tree_def marker_val_def split: option.splits node.splits)
      with load [of "after_call w (tree w)"] Inr show ?thesis by (simp add: Let_def)
    qed (simp add: wp_ret fail)
  qed (simp add: wp_ret fail)
qed

lemma wp_Rollback:
  assumes m: "idRe m" and prev: "versionRe (marker_val (tree w) (previousFile e m))"
    and own: "own_manifest e m (marker_val (tree w) (previousFile e m)) (tree w)"
  shows "wp (Rollback e m) (\<lambda>r w'.
      kept e m (\<lambda>_. True) (tree w) (tree w')
      \<and> (case r of
           Inl _ \<Rightarrow> lookup (tree w') (currentFile e m) = lookup (tree w) (currentFile e m)
         | Inr v \<Rightarrow> v = marker_val (tree w) (previousFile e m)
             \<and> lookup (tree w') (currentFile e m) = Some (File (v @ newline))
             \<and> lwPassed w' = lwPassed w @ [(m, v)])) w"
    (is "wp _ ?Q w")
proof (rule wp_Rollback_rule [OF own])
  let ?v = "marker_val (tree w) (previousFile e m)"
  have mark: "wp (writeFileString (previousFile e m) s) (\<lambda>_. ?Q (Inr ?v)) w2"
    if w2: "kept e m (\<lambda>_. True) (tree w) (tree w2)" "lookup (tree w2) (currentFile e m) = Some (File (?v @ newline))"
      "lwPassed w2 = lwPassed w @ [(m, ?v)]" for s w2
    by (rule wp_write_previous [OF m]) (use w2 in \<open>auto intro: kept_trans\<close>)
  fix mf :: manifest and s and w1 :: "'a lc_world" assume a: "only_read w w1" "mfID mf = m" "mfVersion mf = ?v"
  show "wp (activate e mf (versionDir e m ?v)) (\<lambda>r. case r of Inl x \<Rightarrow> ?Q (Inl x)
      | Inr _ \<Rightarrow> wp (writeFileString (previousFile e m) s) (\<lambda>_. ?Q (Inr ?v))) w1"
  proof (rule wp_mono [OF wp_activate])
    fix r and w2 :: "'a lc_world" assume "activated e mf w1 r w2"
    with a lwPassed_more [of w1 w] show "(case r of Inl x \<Rightarrow> ?Q (Inl x)
      | Inr _ \<Rightarrow> wp (writeFileString (previousFile e m) s) (\<lambda>_. ?Q (Inr ?v))) w2"
      using mark [of w2] by (cases r) (simp_all add: activated_def only_read_def)
  qed (simp add: a m)
qed (simp add: only_read_def)

lemma wp_Rollback_previous:
  assumes m: "idRe m" and prev: "versionRe (marker_val (tree w) (previousFile e m))"
    and own: "own_manifest e m (marker_val (tree w) (previousFile e m)) (tree w)"
    and Z: "Z = (quiet w \<and> dirs_exist (tree w) (leModulesDir e @ [m]))"
  shows "wp (Rollback e m) (\<lambda>r w'.
      (\<forall>q. outside e m (leModulesDir e) q \<longrightarrow> lookup (tree w') q = lookup (tree w) q)
      \<and> (case r of
           Inl _ \<Rightarrow> lookup (tree w') (previousFile e m) = lookup (tree w) (previousFile e m)
         | Inr _ \<Rightarrow> marked (previousFile e m) (marker_val (tree w) (currentFile e m)) Z w')) w"
    (is "wp _ ?Q w")
proof (rule wp_Rollback_rule [OF own])
  let ?v = "marker_val (tree w) (previousFile e m)" and ?cur = "marker_val (tree w) (currentFile e m)"
  let ?S = "steady (spared e m (\<lambda>_. True) (leModulesDir e)) Z (leModulesDir e @ [m]) (tree w) :: 'a lc_world \<Rightarrow> bool"
  have p: "previousFile e m = leModulesDir e @ [m, ''previous'']" using m by (simp add: module_path_plain)
  have fail: "?Q (Inl err) w'" if "?S w'" for err w' using that by (simp add: steady_def spared_def p)
  have start: "?S w1" if "only_read w w1" for w1 using that Z by (simp add: steady_def only_read_def quiet_def)
  have "\<not> versionRe []" by code_simp
  then have isfile: "lookup (tree w) (previousFile e m) \<noteq> Some Directory" using prev by (auto simp: marker_val_def)
  have mark: "wp (writeFileString (previousFile e m) s) (\<lambda>_. ?Q (Inr v)) w2" if "?S w2" "Z \<longrightarrow> s = ?cur" for s w2 v
  proof -
    have "steady (outside e m (leModulesDir e)) Z (leModulesDir e @ [m]) (tree w) w2"
      using that(1) by (rule steady_weaken) (simp add: spared_def)
    moreover have "lookup (tree w2) (previousFile e m) \<noteq> Some Directory" using isfile that(1) by (simp add: steady_def spared_def p)
    ultimately show ?thesis
      by (rule wp_mono [OF wp_write_previous_steady [OF m]]) (use that(2) in \<open>auto simp: steady_def marked_def\<close>)
  qed
  show "?Q (Inl err) w'" if "only_read w w'" for err w' using start [OF that] by (rule fail)
  fix mf :: manifest and s and w1 :: "'a lc_world"
  assume a: "only_read w w1" "mfID mf = m" and s: "quiet w \<Longrightarrow> s = ?cur"
  have "wp (activate e mf (versionDir e m ?v)) (\<lambda>_. ?S) w1"
    using keeps_wp [OF steady_activate start [OF a(1), folded a(2)]] m a(2) by simp
  then show "wp (activate e mf (versionDir e m ?v)) (\<lambda>r. case r of Inl x \<Rightarrow> ?Q (Inl x)
      | Inr _ \<Rightarrow> wp (writeFileString (previousFile e m) s) (\<lambda>_. ?Q (Inr ?v))) w1"
    by (rule wp_mono) (use s Z mark fail in \<open>auto split: sum.split\<close>)
qed



section \<open>The anti-rollback mark\<close>

lemma trimmed_dec: "trimmed (dec n)"
  using class_no_space digit_set_dec [of _ n] by (simp add: trimmed_def)

lemma lastSequence_dec:
  "beGet be manifestSeqNamespace ''sequence'' st = Inr (Some (dec (unat (s :: uint64)))) \<Longrightarrow> lastSequence be st = s"
  using uint64_unat_bound [of s] by (simp add: lastSequence_def trimmed_dec ParseUint_dec)

text \<open>Two steps of a fetch with nothing between them are the fetch of \<open>fetchChannel\<close>.\<close>

lemma fetch_alone:
  assumes "fetch_step e rootPub io Waiting st = (p, st1)" "fetch_step e rootPub io p st1 = (p', st')"
  shows "p' = Returned (fst (fetchChannel e rootPub io st)) \<and> st' = snd (fetchChannel e rootPub io st)"
  using assms by (auto simp: fetchChannel_def check_sequence_def split: sum.splits option.splits prod.splits)

text \<open>Whatever the order of steps, a manifest is not below the mark its own fetch has read.\<close>

lemma commit_sequence_le: "commit_sequence be ch mark st = (Inr u, st') \<Longrightarrow> mark \<le> chSequence ch"
  by (auto simp: commit_sequence_def split: if_splits)

lemma fetch_run_own_mark:
  "list_all (\<lambda>(mark, sq). mark \<le> sq) (fsAccepted s) \<Longrightarrow> list_all (\<lambda>(mark, sq). mark \<le> sq) (fsAccepted (fetch_run e rootPub evs s))"
proof (induction evs arbitrary: s)
  case (Cons ev evs)
  have "list_all (\<lambda>(mark, sq). mark \<le> sq) (fsAccepted (fetch_apply e rootPub ev s))"
  proof (cases ev)
    case (Turn i io)
    obtain p st where step: "fetch_step e rootPub io (fsPhase s i) (fsStore s) = (p, st)" by fastforce
    have "list_all (\<lambda>(mark, sq). mark \<le> sq) (accepts (fsPhase s i) p)"
      using step by (cases "(fsPhase s i, p)" rule: accepts.cases)
        (auto split: option.splits prod.splits sum.splits dest: commit_sequence_le)
    with Cons.prems step Turn show ?thesis by simp
  qed (use Cons.prems in simp)
  from Cons.IH [OF this] show ?case by (simp add: fetch_run_def)
qed (simp add: fetch_run_def)

lemma sorted_chain:
  fixes a b c :: "'a :: linorder"
  shows "sorted (a # xs @ [b]) \<Longrightarrow> sorted (b # ys @ [c]) \<Longrightarrow> sorted (a # (xs @ ys) @ [c])"
  by (fastforce simp: sorted_append intro: order_trans)

text \<open>Between the events of a run without overlap: only \<open>busy\<close> holds a mark, and it is the store's.\<close>

definition calm :: "'st backend \<Rightarrow> ('st \<Rightarrow> bool) \<Rightarrow> nat option \<Rightarrow> 'st fetches \<Rightarrow> bool" where
  "calm be ok busy s = (ok (fsStore s)
     \<and> (\<forall>i ch mark. fsPhase s i = MarkRead ch mark \<longrightarrow> busy = Some i \<and> mark = lastSequence be (fsStore s)))"

context reliable_backend
begin

lemma commit_sequence_mark:
  assumes st: "inv st" and chk: "commit_sequence be ch (lastSequence be st) st = (r, st')"
  shows "inv st' \<and> (case r of Inl _ \<Rightarrow> lastSequence be st' = lastSequence be st
      | Inr _ \<Rightarrow> lastSequence be st \<le> chSequence ch \<and> lastSequence be st' = chSequence ch)"
proof (cases "chSequence ch > lastSequence be st")
  case True
  let ?v = "dec (unat (chSequence ch))"
  obtain st2 where put: "bePut be manifestSeqNamespace ''sequence'' ?v st = (Inr (), st2)"
    using put_total [OF st] by blast
  from put_ok [OF st put] have "inv st2" "beGet be manifestSeqNamespace ''sequence'' st2 = Inr (Some ?v)"
    by (auto simp: get_eq)
  moreover have "commit_sequence be ch (lastSequence be st) st = (Inr (), st2)"
    using True put by (simp add: commit_sequence_def not_less_iff_gr_or_eq)
  ultimately show ?thesis using True chk lastSequence_dec [of be st2 "chSequence ch"] by auto
next
  case False
  then show ?thesis using chk st by (auto simp: commit_sequence_def split: if_splits)
qed

lemma turn_calm:
  assumes e: "leSeqStore e = Some be" and calm: "calm be inv busy s" and busy: "busy = None \<or> busy = Some i"
    and s': "s' = fetch_apply e rootPub (Turn i io) s"
  shows "calm be inv (case fsPhase s' i of MarkRead _ _ \<Rightarrow> Some i | _ \<Rightarrow> None) s'
    \<and> (\<exists>new. fsAccepted s' = fsAccepted s @ new
         \<and> sorted (lastSequence be (fsStore s) # map snd new @ [lastSequence be (fsStore s')]))"
proof (cases "fsPhase s i")
  case Waiting
  with e calm busy show ?thesis unfolding s' calm_def by (auto split: sum.splits)
next
  case (MarkRead ch mark)
  with calm have mark: "mark = lastSequence be (fsStore s)" "inv (fsStore s)" by (auto simp: calm_def)
  obtain r st' where c: "commit_sequence be ch mark (fsStore s) = (r, st')" by fastforce
  have "fsPhase s j \<noteq> MarkRead ch' m" if "j \<noteq> i" for j ch' m
    using calm MarkRead that unfolding calm_def by (metis option.inject)
  with commit_sequence_mark [OF mark(2) c [unfolded mark(1)]] c e MarkRead mark show ?thesis
    unfolding s' calm_def by (cases r) auto
next
  case (Returned r)
  with calm busy show ?thesis unfolding s' calm_def by auto
qed

lemma separate_sorted:
  assumes "leSeqStore e = Some be" "calm be inv busy s" "separate e rootPub busy evs s"
  shows "\<exists>new. fsAccepted (fetch_run e rootPub evs s) = fsAccepted s @ new
    \<and> sorted (lastSequence be (fsStore s) # map snd new @ [lastSequence be (fsStore (fetch_run e rootPub evs s))])"
  using assms(2,3)
proof (induction evs arbitrary: busy s)
  case (Cons ev evs)
  let ?s = "fetch_apply e rootPub ev s"
  obtain busy' new where one: "calm be inv busy' ?s" "separate e rootPub busy' evs ?s" "fsAccepted ?s = fsAccepted s @ new"
      "sorted (lastSequence be (fsStore s) # map snd new @ [lastSequence be (fsStore ?s)])"
  proof (cases ev)
    case (Turn i io)
    with turn_calm [OF assms(1) Cons.prems(1), of i ?s rootPub io] Cons.prems(2) show ?thesis by (auto simp: Let_def intro: that)
  next
    case Restart
    with Cons.prems show ?thesis by (intro that [of None "[]"]) (auto simp: calm_def)
  qed
  from Cons.IH [OF one(1,2)] obtain new' where n: "fsAccepted (fetch_run e rootPub evs ?s) = fsAccepted ?s @ new'"
      "sorted (lastSequence be (fsStore ?s) # map snd new' @ [lastSequence be (fsStore (fetch_run e rootPub evs ?s))])"
    by blast
  have run: "fetch_run e rootPub (ev # evs) s = fetch_run e rootPub evs ?s" by (simp add: fetch_run_def)
  from sorted_chain [OF one(4) n(2)] show ?case
    unfolding run n(1) one(3) by (intro exI [of _ "new @ new'"] conjI) (simp, simp only: map_append)
qed (simp add: fetch_run_def)

end

text \<open>
  C5: replayed channel manifests are refused, by fetches that do not overlap. Whatever the order in which
  concurrent fetches take their steps, a manifest is accepted only if its sequence is at least the
  mark that its own fetch has read. If no fetch runs between another's read of the mark and the end of that
  fetch, and the store works, the sequences accepted never go down, none is below the mark the store held at the
  beginning nor above the mark it holds at the end; this spans restarts of the agent, also in the middle of a fetch.
\<close>

theorem channel_sequence_monotone:
  assumes "reliable_backend be ok view" "leSeqStore e = Some be" "ok st"
    and run: "s = fetch_run e rootPub evs (no_fetches st)"
  shows "list_all (\<lambda>(mark, sq). mark \<le> sq) (fsAccepted s)
    \<and> (separate e rootPub None evs (no_fetches st) \<longrightarrow>
         sorted (lastSequence be st # map snd (fsAccepted s) @ [lastSequence be (fsStore s)]))"
proof -
  have "calm be ok None (no_fetches st)" using assms(3) by (simp add: calm_def no_fetches_def)
  from reliable_backend.separate_sorted [OF assms(1,2) this, of rootPub evs] show ?thesis
    unfolding run using fetch_run_own_mark [of "no_fetches st" e rootPub evs] by (auto simp: no_fetches_def)
qed

text \<open>
  When the store cannot be read, or holds a mark that does not parse, the mark counts as 0 and every
  sequence is accepted.
\<close>

theorem sequence_check_fails_open:
  "leSeqStore e = Some be \<Longrightarrow> beGet be manifestSeqNamespace ''sequence'' st = Inl err \<Longrightarrow>
     is_ok (fst (check_sequence e ch st))"
  by (simp add: check_sequence_def commit_sequence_def lastSequence_def)

text \<open>
  C3: promotion is all or nothing for every version but the one promoted. If \<open>promote\<close> fails, at whatever step and whatever calls of the
  operating system failed, the module's \<open>current\<close> marker still names the old version, \<open>previous\<close> is
  unchanged, and no file of any version other than the one promoted, or of any other module, has changed. If it
  succeeds, the new version has passed the health gate, is current, consists of exactly the staged
  files, the old version is retained, and, unless a call of the operating system failed, \<open>previous\<close>
  names it. In both cases nothing outside the install tree has changed but the stage, which is
  moved. The directory of the promoted version itself is replaced before the gate: a failed
  reinstall of the version that is current leaves the marker on replaced files.
\<close>

theorem promote_atomic:
  assumes run: "run_state (promote e mf stage) w = (r, w')"
    and "idRe (mfID mf)" "versionRe (mfVersion mf)" "install_tree_ok e (mfID mf) (tree w)"
    and "unrelated (leModulesDir e) stage" "is_dir (tree w) stage"
    and old: "old = marker_val (tree w) (currentFile e (mfID mf))"
  shows "(\<forall>q. outside e (mfID mf) stage q \<longrightarrow> lookup (tree w') q = lookup (tree w) q)
    \<and> (case r of
      Inl _ \<Rightarrow>
        marker_val (tree w') (currentFile e (mfID mf)) = old
        \<and> lookup (tree w') (previousFile e (mfID mf)) = lookup (tree w) (previousFile e (mfID mf))
        \<and> kept e (mfID mf) (\<lambda>v. v \<noteq> mfVersion mf) (tree w) (tree w')
    | Inr _ \<Rightarrow>
        marker_val (tree w') (currentFile e (mfID mf)) = mfVersion mf
        \<and> lwPassed w' = lwPassed w @ [(mfID mf, mfVersion mf)]
        \<and> (\<forall>rel. lookup (tree w') (versionDir e (mfID mf) (mfVersion mf) @ rel) = lookup (tree w) (stage @ rel))
        \<and> kept e (mfID mf) (\<lambda>v. v = old \<and> v \<noteq> mfVersion mf) (tree w) (tree w')
        \<and> (quiet w \<and> dirs_exist (tree w) (leModulesDir e @ [mfID mf]) \<and> lookup (tree w) (previousFile e (mfID mf)) \<noteq> Some Directory
             \<and> old \<noteq> [] \<and> old \<noteq> mfVersion mf \<longrightarrow>
             lookup (tree w') (previousFile e (mfID mf)) = Some (File (old @ newline))))"
  using wpD [OF wp_promote [OF assms(2-6)] run] wpD [OF wp_promote_beside [OF assms(2-6) refl] run]
  unfolding old by (cases r) (auto simp: promote_post_def promote_beside_def marked_def Let_def)


definition ex_lc_env :: "mem_store lc_env" where
  "ex_lc_env = \<lparr>leModulesDir = [''modules''], leStagingDir = [''staging''], leGOOS = ''linux'', leGOARCH = ''amd64'',
     leVerifier = (\<lambda>_ _ _. None), leSup = ex_sup, leGateTimeout = 0, leGateStable = 0,
     leDecode = (\<lambda>_. Inl []), leEncode = (\<lambda>_. Some ''mf''), leSHA256 = (\<lambda>b. b),
     leRootPub = Some (ex_key CHR ''r''), leManifestURL = ''https://w/'',
     leCrypto = ex_host_crypto,
     leParseTime = (\<lambda>_. None), leSeqStore = Some MemStore\<rparr>"

definition ex_net :: net where
  "ex_net = \<lparr>netGet = (\<lambda>u. Reply 200 (map_of [(''https://w/manifest.json'', ''doc''), (''https://w/manifest.json.sig'', ''k1''),
       (''https://w/signing.pub'', ''key''), (''https://w/signing.pub.sig'', ''root'')] u)),
     netArtifact = (\<lambda>u. if u = ''u'' then ArtifactReply 200 ''hi'' True else NoArtifactReply), netNow = 0\<rparr>"

definition ex_world :: "mem_store lc_world" where
  "ex_world = \<lparr>tree = [([], Directory), ([''modules''], Directory), ([''staging''], Directory),
      ([''modules'', ''sysinfo''], Directory), ([''modules'', ''sysinfo'', ''current''], File ''1.0.0'')],
     calls = 0, fault = (\<lambda>_. None), lwRegistry = \<lparr>rgRunners = [], rgBase = True\<rparr>, lwStore = [],
     lwGates = [(0, ex_gate)], lwPassed = []\<rparr>"

lemma ex_tree_ok: "install_tree_ok ex_lc_env ''sysinfo'' (tree ex_world)"
proof -
  have "marker_val (tree ex_world) (currentFile ex_lc_env ''sysinfo'') = ''1.0.0''" by code_simp
  moreover have "versionRe ''1.0.0''" by code_simp
  ultimately show ?thesis
    by (simp add: install_tree_ok_def plain_versions_def own_manifest_def ex_world_def ex_lc_env_def Parse_manifest_def
        split: option.splits node.splits)
qed

lemma ParseChannel_decoded: "ParseChannel decode data = Inr c \<Longrightarrow> decode data = Inr c"
  by (cases "decode data") (auto simp: ParseChannel_def bind_result_Inr_iff split: if_splits)

theorem Install_authentic_witness:
  "\<exists>w' b. run_state (Install ex_lc_env ex_net ''sysinfo'' []) ex_world = (Inr ''1.2.3-rc.1'', w')
     \<and> lookup (tree w') [''modules'', ''sysinfo'', ''versions'', ''1.2.3-rc.1'', ''sysinfo''] = Some (File b)
     \<and> hex_encode b = ''6869'' \<and> length b = 2 \<and> lwPassed w' = [(''sysinfo'', ''1.2.3-rc.1'')]"
proof -
  have "fst (run_state (Install ex_lc_env ex_net ''sysinfo'' []) ex_world) = Inr ''1.2.3-rc.1''" by code_simp
  then obtain w' where w': "run_state (Install ex_lc_env ex_net ''sysinfo'' []) ex_world = (Inr ''1.2.3-rc.1'', w')"
    by (metis prod.collapse)
  have apart: "unrelated (leModulesDir ex_lc_env) (leStagingDir ex_lc_env)" by (simp add: unrelated_def ex_lc_env_def)
  from Install_authentic [OF w' apart ex_tree_ok] obtain rootPub sb ch cm art b where
      v: "Verify_bundle (leCrypto ex_lc_env) rootPub sb = Inr ch" "Module ch ''sysinfo'' = Some cm"
        "ArtifactForHost (leGOOS ex_lc_env) (leGOARCH ex_lc_env) (cmArtifacts cm) = Some art" "cmVersion cm = ''1.2.3-rc.1''"
        "int (length b) = caSize art" "''sha256:'' @ hex_encode (leSHA256 ex_lc_env b) = caDigest art"
    and inst: "installed ex_lc_env (host_manifest ex_lc_env cm) b ex_world w'"
    by blast
  have "decodeChannel (leCrypto ex_lc_env) (bManifest sb) = Inr ch"
    using v(1) by (rule Verify_bundle_chain) (rule ParseChannel_decoded)
  then have "ch = ex_host_channel" by (simp add: ex_lc_env_def ex_host_crypto_def)
  moreover have "Module ex_host_channel ''sysinfo'' = Some ex_host_module" by code_simp
  ultimately have cm: "cm = ex_host_module" using v(2) by simp
  have "ArtifactForHost (leGOOS ex_lc_env) (leGOARCH ex_lc_env) (cmArtifacts ex_host_module) = Some (hd (cmArtifacts ex_host_module))"
    by code_simp
  then have art: "caSize art = 2" "caDigest art = ''sha256:6869''" using v(3) by (auto simp: cm ex_host_module_def)
  have mf: "mfID (host_manifest ex_lc_env ex_host_module) = ''sysinfo''" "mfVersion (host_manifest ex_lc_env ex_host_module) = ''1.2.3-rc.1''"
    by (simp_all add: ex_host_module_def ex_module_def)
  have dir: "versionDir ex_lc_env ''sysinfo'' ''1.2.3-rc.1'' @ [binaryName (leGOOS ex_lc_env) ''sysinfo'']
      = [''modules'', ''sysinfo'', ''versions'', ''1.2.3-rc.1'', ''sysinfo'']" by code_simp
  have "lookup (tree w') [''modules'', ''sysinfo'', ''versions'', ''1.2.3-rc.1'', ''sysinfo''] = Some (File b)"
    "lwPassed w' = lwPassed ex_world @ [(''sysinfo'', ''1.2.3-rc.1'')]"
    using inst unfolding installed_def cm mf dir by blast+
  moreover have "hex_encode b = ''6869''" using v(6) by (simp add: art ex_lc_env_def)
  moreover have "length b = 2" "lwPassed ex_world = []" using v(5) by (simp_all add: art ex_world_def)
  ultimately show ?thesis using w' by auto
qed

definition ex_staged :: "mem_store lc_world" where
  "ex_staged = ex_world\<lparr>tree := tree ex_world @ [([''staging'', ''sysinfo''], Directory), ([''staging'', ''sysinfo'', ''1.1.0''], Directory),
     ([''staging'', ''sysinfo'', ''1.1.0'', ''sysinfo''], File ''bin'')], lwGates := []\<rparr>"

theorem promote_atomic_witness:
  "marker_val (tree (snd (run_state (promote ex_lc_env ((spManifest ex_spec)\<lparr>mfVersion := ''1.1.0''\<rparr>) [''staging'', ''sysinfo'', ''1.1.0'']) ex_staged)))
     [''modules'', ''sysinfo'', ''current''] = ''1.0.0''"
proof -
  let ?mf = "(spManifest ex_spec)\<lparr>mfVersion := ''1.1.0''\<rparr>" and ?stage = "[''staging'', ''sysinfo'', ''1.1.0'']"
  let ?run = "run_state (promote ex_lc_env ?mf ?stage) ex_staged"
  have names: "idRe ''sysinfo''" "versionRe ''1.1.0''" by code_simp+
  have "\<not> is_ok (fst ?run)" by code_simp
  then obtain err where run: "?run = (Inl err, snd ?run)" by (cases ?run; cases "fst ?run") auto
  have tree: "install_tree_ok ex_lc_env ''sysinfo'' (tree ex_staged)"
    using ex_tree_ok by (rule install_tree_ok_same [OF names(1), rotated]) (simp add: same_under_def ex_staged_def ex_lc_env_def ex_world_def)
  have val: "marker_val (tree ex_staged) [''modules'', ''sysinfo'', ''current''] = ''1.0.0''" by code_simp
  have cur: "currentFile ex_lc_env ''sysinfo'' = [''modules'', ''sysinfo'', ''current'']" by code_simp
  show ?thesis
    using promote_atomic [OF run _ _ _ _ _ refl] names tree val cur
    by (simp add: ex_spec_def unrelated_def ex_lc_env_def is_dir_def ex_staged_def ex_world_def)
qed

definition ex_old_manifest :: manifest where
  "ex_old_manifest = (host_manifest ex_lc_env ex_host_module)\<lparr>mfVersion := ''1.0.0''\<rparr>"

definition ex_retained :: "mem_store lc_world" where
  "ex_retained = ex_world\<lparr>tree := [([], Directory), ([''modules''], Directory), ([''modules'', ''sysinfo''], Directory),
     ([''modules'', ''sysinfo'', ''current''], File ''1.1.0''), ([''modules'', ''sysinfo'', ''previous''], File ''1.0.0''),
     ([''modules'', ''sysinfo'', ''versions''], Directory), ([''modules'', ''sysinfo'', ''versions'', ''1.0.0''], Directory),
     ([''modules'', ''sysinfo'', ''versions'', ''1.0.0'', ''sysinfo''], File ''bin''),
     ([''modules'', ''sysinfo'', ''versions'', ''1.0.0'', manifestFile], File ''mf'')]\<rparr>"


text \<open>A second signed document of the channel, with the sequence 10.\<close>

definition ex_two_channels :: "mem_store lc_env" where
  "ex_two_channels = ex_lc_env\<lparr>leCrypto := ex_host_crypto\<lparr>
     edVerify := (\<lambda>pub msg s. pub = ex_key CHR ''r'' \<and> msg = SigningMessage EndorseContext ''key''
        \<or> pub = ex_key CHR ''k'' \<and> msg \<in> {SigningMessage ManifestContext ''doc'', SigningMessage ManifestContext ''doc10''}),
     decodeChannel := (\<lambda>d. Inr (if d = ''doc10'' then ex_host_channel\<lparr>chSequence := 10\<rparr> else ex_host_channel))\<rparr>\<rparr>"

definition ex_net10 :: net where
  "ex_net10 = ex_net\<lparr>netGet := (\<lambda>u. if u = ''https://w/manifest.json'' then Reply 200 (Some ''doc10'') else netGet ex_net u)\<rparr>"

lemma ex_two_fresh:
  "fresh_channel ex_two_channels (ex_key CHR ''r'') ex_net = Inr ex_host_channel"
  "fresh_channel ex_two_channels (ex_key CHR ''r'') ex_net10 = Inr (ex_host_channel\<lparr>chSequence := 10\<rparr>)"
  by code_simp+

lemma ex_two_store: "leSeqStore ex_two_channels = Some MemStore"
  by (simp add: ex_two_channels_def ex_lc_env_def)

lemma ex_two_marks:
  "lastSequence MemStore [] = 0"
  "lastSequence MemStore [((manifestSeqNamespace, ''sequence''), ''7'')] = 7"
  "lastSequence MemStore [((manifestSeqNamespace, ''sequence''), ''10'')] = 10"
  "commit_sequence MemStore ex_host_channel 0 [] = (Inr (), [((manifestSeqNamespace, ''sequence''), ''7'')])"
  "commit_sequence MemStore (ex_host_channel\<lparr>chSequence := 10\<rparr>) 0 [] = (Inr (), [((manifestSeqNamespace, ''sequence''), ''10'')])"
  "commit_sequence MemStore (ex_host_channel\<lparr>chSequence := 10\<rparr>) 7 [((manifestSeqNamespace, ''sequence''), ''7'')]
     = (Inr (), [((manifestSeqNamespace, ''sequence''), ''10'')])"
  "commit_sequence MemStore ex_host_channel 0 [((manifestSeqNamespace, ''sequence''), ''10'')]
     = (Inr (), [((manifestSeqNamespace, ''sequence''), ''7'')])"
  by code_simp+

lemmas ex_two_run = fetch_run_def no_fetches_def ex_two_fresh ex_two_store ex_two_marks

text \<open>Sequence 7 is accepted, the agent restarts in the middle of a fetch, and 10 is accepted.\<close>

theorem channel_sequence_monotone_witness:
  "\<exists>s. s = fetch_run ex_two_channels (ex_key CHR ''r'')
          [Turn 0 ex_net, Turn 0 ex_net, Turn 1 ex_net10, Restart, Turn 0 ex_net10, Turn 0 ex_net10] (no_fetches [])
     \<and> map snd (fsAccepted s) = [7, 10] \<and> sorted (map snd (fsAccepted s) @ [lastSequence MemStore (fsStore s)])"
proof -
  let ?evs = "[Turn 0 ex_net, Turn 0 ex_net, Turn 1 ex_net10, Restart, Turn 0 ex_net10, Turn 0 ex_net10]"
  let ?s = "fetch_run ex_two_channels (ex_key CHR ''r'') ?evs (no_fetches [])"
  have seq: "chSequence ex_host_channel = 7" by code_simp
  have "map snd (fsAccepted ?s) = [7, 10]" by (simp add: ex_two_run seq)
  moreover have "separate ex_two_channels (ex_key CHR ''r'') None ?evs (no_fetches [])" by (simp add: ex_two_run)
  ultimately show ?thesis
    using channel_sequence_monotone [OF memr.reliable_backend_axioms ex_two_store, of "[]" ?s "ex_key CHR ''r''" ?evs]
    by (simp add: mem_inv_def)
qed

text \<open>
  Without that condition the mark can go down: two fetches read the mark 0, the one with sequence 10 ends and
  writes 10, then the one with sequence 7 ends, is accepted and writes 7 over it.
\<close>

theorem overlapping_fetches_lower_mark:
  "\<exists>s1 s2. s1 = fetch_run ex_two_channels (ex_key CHR ''r'') [Turn 0 ex_net10, Turn 1 ex_net, Turn 0 ex_net10] (no_fetches [])
     \<and> s2 = fetch_run ex_two_channels (ex_key CHR ''r'') [Turn 1 ex_net] s1
     \<and> lastSequence MemStore (fsStore s1) = 10 \<and> lastSequence MemStore (fsStore s2) = 7
     \<and> map snd (fsAccepted s2) = [10, 7]"
proof -
  have seq: "chSequence ex_host_channel = 7" by code_simp
  show ?thesis by (simp add: ex_two_run seq)
qed

end
