(* ===== verification/Weavemanifest.thy ===== *)
theory Weavemanifest
  imports Manifest_Verify
begin

text \<open>
  The signing tool of channel manifests (\<open>src/cmd/weavemanifest/main.go\<close>): key generation,
  endorsement, signing and verification over files, with the verifier of core. The signing half
  of Ed25519, base64 and JSON printing are parameters, collected in the record \<open>signing_tool\<close>
  beside those of \<open>crypto\<close>; \<open>tool_laws\<close> states what the standard library promises of them.
\<close>

section \<open>The tool\<close>

record private_key_file =
  pfSchema :: int
  pfKeyID :: string
  pfPrivateKey :: string

record signing_tool =
  toCrypto :: crypto
  edSign :: "bytes \<Rightarrow> bytes \<Rightarrow> bytes"
  base64Encode :: "bytes \<Rightarrow> string"
  encodePublicKey :: "public_key \<Rightarrow> (string, bytes) result"
  encodeSignature :: "signature \<Rightarrow> (string, bytes) result"
  encodePrivate :: "private_key_file \<Rightarrow> (string, bytes) result"
  decodePrivate :: "bytes \<Rightarrow> (string, private_key_file) result"

datatype tool_error =
    ToolUsage | NotALocalVerb string | ToolIO io_error | ToolJSON string | NoEntropy
  | BadPrivateKey string | BadRootKey string key_error | ChainBroken verify_error

text \<open>A path of the command line, seen from the working directory.\<close>

definition arg_path :: "path \<Rightarrow> string \<Rightarrow> path" where
  "arg_path cwd s = (if HasPrefix s ''/'' then Join [] s else Join cwd s)"

definition writeJSON :: "path \<Rightarrow> (string, bytes) result \<Rightarrow> ('x disk_scheme, (tool_error, unit) result) state" where
  "writeJSON p doc =
     (case doc of
        Inl e \<Rightarrow> ret (Inl (ToolJSON e))
      | Inr d \<Rightarrow> wrap_err ToolIO (WriteFile p (d @ newline)))"

definition keygen ::
    "signing_tool \<Rightarrow> path \<Rightarrow> (bytes \<times> bytes) option \<Rightarrow> string list \<Rightarrow> ('x disk_scheme, (tool_error, unit) result) state" where
  "keygen tool cwd pair args =
     (case args of
        [kid, pre] \<Rightarrow>
          (case pair of
             None \<Rightarrow> ret (Inl NoEntropy)
           | Some (pub, priv) \<Rightarrow>
               then_ok (writeJSON (arg_path cwd (pre @ ''.pub''))
                   (encodePublicKey tool \<lparr>pkSchema = 1, pkKeyID = kid, pkPublicKey = base64Encode tool pub\<rparr>)) (\<lambda>_.
                 writeJSON (arg_path cwd (pre @ ''.key''))
                   (encodePrivate tool \<lparr>pfSchema = 1, pfKeyID = kid, pfPrivateKey = base64Encode tool priv\<rparr>)))
      | _ \<Rightarrow> ret (Inl ToolUsage))"

definition readPrivate :: "signing_tool \<Rightarrow> path \<Rightarrow> string \<Rightarrow> ('x disk_scheme, (tool_error, bytes \<times> string) result) state" where
  "readPrivate tool cwd arg =
     then_ok (wrap_err ToolIO (ReadFile (arg_path cwd arg))) (\<lambda>data.
       ret (case decodePrivate tool data of
              Inl e \<Rightarrow> Inl (ToolJSON e)
            | Inr pk \<Rightarrow>
                (case base64Decode (toCrypto tool) (pfPrivateKey pk) of
                   None \<Rightarrow> Inl (BadPrivateKey arg)
                 | Some raw \<Rightarrow> if length raw \<noteq> 64 then Inl (BadPrivateKey arg) else Inr (raw, pfKeyID pk))))"

definition signFile ::
    "signing_tool \<Rightarrow> path \<Rightarrow> string list \<Rightarrow> bool \<Rightarrow> ('x disk_scheme, (tool_error, unit) result) state" where
  "signFile tool cwd args endorse =
     (case args of
        [key, target] \<Rightarrow>
          then_ok (readPrivate tool cwd key) (\<lambda>(priv, kid).
          then_ok (wrap_err ToolIO (ReadFile (arg_path cwd target))) (\<lambda>data.
            let context = (if endorse then EndorseContext else ManifestContext);
                sig = edSign tool priv (SigningMessage context data)
            in writeJSON (arg_path cwd (target @ ''.sig''))
                 (encodeSignature tool \<lparr>sigSchema = 1, sigKeyID = kid, sigSignature = base64Encode tool sig\<rparr>)))
      | _ \<Rightarrow> ret (Inl ToolUsage))"

definition read_arg :: "path \<Rightarrow> string \<Rightarrow> ('x disk_scheme, (tool_error, bytes) result) state" where
  "read_arg cwd arg = wrap_err ToolIO (ReadFile (arg_path cwd arg))"

definition tool_verify ::
    "signing_tool \<Rightarrow> path \<Rightarrow> string list \<Rightarrow> ('x disk_scheme, (tool_error, channel_manifest) result) state" where
  "tool_verify tool cwd args =
     (case args of
        [root, signing, target] \<Rightarrow>
          then_ok (read_arg cwd root) (\<lambda>rootData.
            case ParsePublicKey (toCrypto tool) rootData of
              Inl e \<Rightarrow> ret (Inl (BadRootKey root e))
            | Inr (_, rootRaw) \<Rightarrow>
                then_ok (read_arg cwd signing) (\<lambda>sk.
                then_ok (read_arg cwd (signing @ ''.sig'')) (\<lambda>sks.
                then_ok (read_arg cwd target) (\<lambda>m.
                then_ok (read_arg cwd (target @ ''.sig'')) (\<lambda>ms.
                  ret (map_error ChainBroken (Verify_bundle (toCrypto tool) rootRaw
                    \<lparr>bManifest = m, bManifestSig = ms, bSigningKey = sk, bSigningKeySig = sks\<rparr>)))))))
      | _ \<Rightarrow> ret (Inl ToolUsage))"

text \<open>\<open>main\<close>: the verb and the exit code.\<close>

definition weavemanifest ::
    "signing_tool \<Rightarrow> path \<Rightarrow> (bytes \<times> bytes) option \<Rightarrow> string list \<Rightarrow> ('x disk_scheme, int) state" where
  "weavemanifest tool cwd pair args =
     (let code = (\<lambda>m :: ('x disk_scheme, (tool_error, unit) result) state. do { r \<leftarrow> m; ret (if is_ok r then 0 else 1) })
      in case args of
           [] \<Rightarrow> ret 1
         | verb # rest \<Rightarrow>
             if verb = ''keygen'' then code (keygen tool cwd pair rest)
             else if verb = ''endorse'' then code (signFile tool cwd rest True)
             else if verb = ''sign'' then code (signFile tool cwd rest False)
             else if verb = ''verify'' then code (then_ok (tool_verify tool cwd rest) (\<lambda>_. ret (Inr ())))
             else if verb \<in> {''generate'', ''promote'', ''pin''} then code (ret (Inl (NotALocalVerb verb)))
             else ret 1)"


section \<open>What the library promises\<close>

text \<open>
  Decoding undoes encoding, the newline after a document included; a pair that key generation gives
  has the documented lengths and verifies what it signs.
\<close>

definition tool_laws :: "signing_tool \<Rightarrow> bool" where
  "tool_laws tool =
     ((\<forall>b. base64Decode (toCrypto tool) (base64Encode tool b) = Some b)
      \<and> (\<forall>kid b. \<exists>d. encodePublicKey tool \<lparr>pkSchema = 1, pkKeyID = kid, pkPublicKey = b\<rparr> = Inr d
           \<and> decodePublicKey (toCrypto tool) (d @ newline) = Inr \<lparr>pkSchema = 1, pkKeyID = kid, pkPublicKey = b\<rparr>)
      \<and> (\<forall>kid b. \<exists>d. encodeSignature tool \<lparr>sigSchema = 1, sigKeyID = kid, sigSignature = b\<rparr> = Inr d
           \<and> decodeSignature (toCrypto tool) (d @ newline) = Inr \<lparr>sigSchema = 1, sigKeyID = kid, sigSignature = b\<rparr>)
      \<and> (\<forall>kid b. \<exists>d. encodePrivate tool \<lparr>pfSchema = 1, pfKeyID = kid, pfPrivateKey = b\<rparr> = Inr d
           \<and> decodePrivate tool (d @ newline) = Inr \<lparr>pfSchema = 1, pfKeyID = kid, pfPrivateKey = b\<rparr>))"

definition key_pair :: "signing_tool \<Rightarrow> bytes \<times> bytes \<Rightarrow> bool" where
  "key_pair tool pair =
     (length (fst pair) = 32 \<and> length (snd pair) = 64
      \<and> (\<forall>msg. length (edSign tool (snd pair) msg) = 64 \<and> edVerify (toCrypto tool) (fst pair) msg (edSign tool (snd pair) msg)))"

text \<open>The file of a name in the working directory, and what the tool stores there.\<close>

definition holds_public :: "signing_tool \<Rightarrow> string \<Rightarrow> bytes \<Rightarrow> bytes \<Rightarrow> bool" where
  "holds_public tool kid pub data = (\<exists>pk. ParsePublicKey (toCrypto tool) data = Inr (pk, pub) \<and> pkKeyID pk = kid)"

definition holds_private :: "signing_tool \<Rightarrow> string \<Rightarrow> bytes \<Rightarrow> bytes \<Rightarrow> bool" where
  "holds_private tool kid priv data =
     (\<exists>pf. decodePrivate tool data = Inr pf \<and> base64Decode (toCrypto tool) (pfPrivateKey pf) = Some priv \<and> pfKeyID pf = kid)"

definition holds_signature :: "signing_tool \<Rightarrow> string \<Rightarrow> bytes \<Rightarrow> bytes \<Rightarrow> bool" where
  "holds_signature tool kid sig data = (\<exists>s. ParseSignature (toCrypto tool) data = Inr (s, sig) \<and> sigKeyID s = kid)"

lemma public_document:
  assumes "tool_laws tool" "kid \<noteq> []" "length pub = 32"
  obtains d where "encodePublicKey tool \<lparr>pkSchema = 1, pkKeyID = kid, pkPublicKey = base64Encode tool pub\<rparr> = Inr d"
    "holds_public tool kid pub (d @ newline)"
proof -
  from assms(1) have base: "base64Decode (toCrypto tool) (base64Encode tool pub) = Some pub" by (simp add: tool_laws_def)
  from assms(1) obtain d where d: "encodePublicKey tool \<lparr>pkSchema = 1, pkKeyID = kid, pkPublicKey = base64Encode tool pub\<rparr> = Inr d"
      "decodePublicKey (toCrypto tool) (d @ newline) = Inr \<lparr>pkSchema = 1, pkKeyID = kid, pkPublicKey = base64Encode tool pub\<rparr>"
    unfolding tool_laws_def by blast
  show ?thesis by (rule that [OF d(1)]) (simp add: holds_public_def ParsePublicKey_def d(2) base assms(2,3))
qed

lemma private_document:
  assumes "tool_laws tool"
  obtains d where "encodePrivate tool \<lparr>pfSchema = 1, pfKeyID = kid, pfPrivateKey = base64Encode tool priv\<rparr> = Inr d"
    "holds_private tool kid priv (d @ newline)"
proof -
  from assms(1) have base: "base64Decode (toCrypto tool) (base64Encode tool priv) = Some priv" by (simp add: tool_laws_def)
  from assms(1) obtain d where d: "encodePrivate tool \<lparr>pfSchema = 1, pfKeyID = kid, pfPrivateKey = base64Encode tool priv\<rparr> = Inr d"
      "decodePrivate tool (d @ newline) = Inr \<lparr>pfSchema = 1, pfKeyID = kid, pfPrivateKey = base64Encode tool priv\<rparr>"
    unfolding tool_laws_def by blast
  show ?thesis by (rule that [OF d(1)]) (simp add: holds_private_def d(2) base)
qed

lemma signature_document:
  assumes "tool_laws tool" "kid \<noteq> []" "length sig = 64"
  obtains d where "encodeSignature tool \<lparr>sigSchema = 1, sigKeyID = kid, sigSignature = base64Encode tool sig\<rparr> = Inr d"
    "holds_signature tool kid sig (d @ newline)"
proof -
  from assms(1) have base: "base64Decode (toCrypto tool) (base64Encode tool sig) = Some sig" by (simp add: tool_laws_def)
  from assms(1) obtain d where d: "encodeSignature tool \<lparr>sigSchema = 1, sigKeyID = kid, sigSignature = base64Encode tool sig\<rparr> = Inr d"
      "decodeSignature (toCrypto tool) (d @ newline) = Inr \<lparr>sigSchema = 1, sigKeyID = kid, sigSignature = base64Encode tool sig\<rparr>"
    unfolding tool_laws_def by blast
  show ?thesis by (rule that [OF d(1)]) (simp add: holds_signature_def ParseSignature_def d(2) base assms(2,3))
qed


section \<open>The ceremony\<close>

text \<open>
  The steps of the usage text, one after the other: a root key, a signing key, its endorsement, a
  signed manifest, and the check of the whole chain.
\<close>

definition release_chain where
  "release_chain tool cwd rootPair pair root kid pre target =
     then_ok (keygen tool cwd (Some rootPair) [''root'', root]) (\<lambda>_.
     then_ok (keygen tool cwd (Some pair) [kid, pre]) (\<lambda>_.
     then_ok (signFile tool cwd [root @ ''.key'', pre @ ''.pub''] True) (\<lambda>_.
     then_ok (signFile tool cwd [pre @ ''.key'', target] False) (\<lambda>_.
       tool_verify tool cwd [root @ ''.pub'', pre @ ''.pub'', target]))))"

text \<open>The files of a working directory by name; \<open>None\<close> for what is no file.\<close>

definition content :: "path \<Rightarrow> 'x disk_scheme \<Rightarrow> string \<Rightarrow> bytes option" where
  "content cwd d s = (case lookup (tree d) (cwd @ [s]) of Some (File b) \<Rightarrow> Some b | _ \<Rightarrow> None)"

definition workdir :: "path \<Rightarrow> string set \<Rightarrow> 'x disk_scheme \<Rightarrow> bool" where
  "workdir cwd names d =
     (quiet d \<and> is_dir (tree d) cwd \<and> (\<forall>s \<in> names. plain_name s \<and> lookup (tree d) (cwd @ [s]) \<noteq> Some Directory))"

lemma arg_path_plain [simp]: "plain_name s \<Longrightarrow> arg_path cwd s = cwd @ [s]"
  by (cases s) (auto simp: arg_path_def plain_name_def HasPrefix_def Join_def Split_none)

lemma workdir_read:
  assumes "workdir cwd names d" "s \<in> names" "content cwd d s = Some b"
  shows "wp (ReadFile (arg_path cwd s)) Q d = Q (Inr b) (after_call d (tree d))"
  using assms by (auto simp: workdir_def content_def wp_quiet_read read_tree_def split: option.splits node.splits)

lemma workdir_after [simp]:
  "workdir cwd names (after_call d (tree d)) = workdir cwd names d" "content cwd (after_call d (tree d)) = content cwd d"
  by (simp_all add: workdir_def content_def fun_eq_iff)

lemma workdir_write:
  assumes "workdir cwd names d" "s \<in> names"
    and "\<And>d'. workdir cwd names d' \<Longrightarrow> content cwd d' = (content cwd d)(s \<mapsto> b) \<Longrightarrow> Q (Inr ()) d'"
  shows "wp (WriteFile (arg_path cwd s) b) Q d"
proof -
  have s: "plain_name s" "write_error (cwd @ [s]) (tree d) = None" "quiet d"
    using assms(1,2) by (auto simp: workdir_def write_error_def)
  let ?d = "after_call d (set_node (cwd @ [s]) (File b) (tree d))"
  have "workdir cwd names ?d"
    using assms(1) by (auto simp: workdir_def is_dir_def)
  moreover have "content cwd ?d = (content cwd d)(s \<mapsto> b)"
    by (auto simp: content_def fun_eq_iff)
  ultimately have "Q (Inr ()) ?d" by (rule assms(3))
  with s show ?thesis by (simp add: WriteFile_def wp_syscall)
qed

text \<open>The two effects of the tool on a working directory.\<close>

lemma writeJSON_ok:
  assumes "workdir cwd names d" "s \<in> names" "doc = Inr b"
    and "\<And>d'. workdir cwd names d' \<Longrightarrow> content cwd d' = (content cwd d)(s \<mapsto> b @ newline) \<Longrightarrow> Q (Inr ()) d'"
  shows "wp (writeJSON (arg_path cwd s) doc) Q d"
  using workdir_write [OF assms(1,2), of "b @ newline" "\<lambda>r. Q (map_error ToolIO r)"] assms(3,4)
  by (simp add: writeJSON_def wp_wrap_err)

lemma read_arg_ok:
  assumes "workdir cwd names d" "s \<in> names" "content cwd d s = Some b"
    and "\<And>d'. workdir cwd names d' \<Longrightarrow> content cwd d' = content cwd d \<Longrightarrow> Q (Inr b) d'"
  shows "wp (wrap_err ToolIO (ReadFile (arg_path cwd s))) Q d" "wp (read_arg cwd s) Q d"
  using workdir_read [OF assms(1-3)] assms(1,4) by (simp_all add: read_arg_def wp_wrap_err)

lemma keygen_ok:
  assumes laws: "tool_laws tool" "key_pair tool pair" "kid \<noteq> []"
    and d: "workdir cwd names d" "pre @ ''.pub'' \<in> names" "pre @ ''.key'' \<in> names"
    and Q: "\<And>d' dp dk. workdir cwd names d' \<Longrightarrow> holds_public tool kid (fst pair) dp \<Longrightarrow> holds_private tool kid (snd pair) dk \<Longrightarrow>
      content cwd d' = (content cwd d)(pre @ ''.pub'' \<mapsto> dp, pre @ ''.key'' \<mapsto> dk) \<Longrightarrow> Q (Inr ()) d'"
  shows "wp (keygen tool cwd (Some pair) [kid, pre]) Q d"
proof -
  obtain pub priv where pair: "pair = (pub, priv)" by (cases pair)
  obtain dp where dp: "encodePublicKey tool \<lparr>pkSchema = 1, pkKeyID = kid, pkPublicKey = base64Encode tool pub\<rparr> = Inr dp"
      "holds_public tool kid pub (dp @ newline)"
    using laws by (auto simp: key_pair_def pair elim: public_document)
  obtain dk where dk: "encodePrivate tool \<lparr>pfSchema = 1, pfKeyID = kid, pfPrivateKey = base64Encode tool priv\<rparr> = Inr dk"
      "holds_private tool kid priv (dk @ newline)"
    using laws(1) by (rule private_document)
  show ?thesis
    unfolding keygen_def pair list.case option.case prod.case wp_then_ok
  proof (rule writeJSON_ok [OF d(1,2) dp(1)], simp only: sum.case)
    fix d1 :: "'a disk_scheme" assume d1: "workdir cwd names d1" "content cwd d1 = (content cwd d)(pre @ ''.pub'' \<mapsto> dp @ newline)"
    show "wp (writeJSON (arg_path cwd (pre @ ''.key''))
        (encodePrivate tool \<lparr>pfSchema = 1, pfKeyID = kid, pfPrivateKey = base64Encode tool priv\<rparr>)) Q d1"
      by (rule writeJSON_ok [OF d1(1) d(3) dk(1)], rule Q) (use d1 dp dk in \<open>auto simp: pair\<close>)
  qed
qed

lemma readPrivate_ok:
  assumes "workdir cwd names d" "key \<in> names" "content cwd d key = Some dk" "holds_private tool kid priv dk" "length priv = 64"
    and Q: "\<And>d'. workdir cwd names d' \<Longrightarrow> content cwd d' = content cwd d \<Longrightarrow> Q (Inr (priv, kid)) d'"
  shows "wp (readPrivate tool cwd key) Q d"
  unfolding readPrivate_def wp_then_ok
  by (rule read_arg_ok(1) [OF assms(1-3)])
    (use assms(4,5) Q in \<open>auto simp: holds_private_def wp_ret\<close>)

lemma signFile_ok:
  assumes laws: "tool_laws tool" "key_pair tool pair" "kid \<noteq> []"
    and d: "workdir cwd names d" "key \<in> names" "target \<in> names" "target @ ''.sig'' \<in> names"
    and files: "content cwd d key = Some dk" "holds_private tool kid (snd pair) dk" "content cwd d target = Some data"
    and Q: "\<And>d' ds. workdir cwd names d' \<Longrightarrow>
      holds_signature tool kid (edSign tool (snd pair) (SigningMessage (if endorse then EndorseContext else ManifestContext) data)) ds \<Longrightarrow>
      content cwd d' = (content cwd d)(target @ ''.sig'' \<mapsto> ds) \<Longrightarrow> Q (Inr ()) d'"
  shows "wp (signFile tool cwd [key, target] endorse) Q d"
proof -
  let ?sig = "edSign tool (snd pair) (SigningMessage (if endorse then EndorseContext else ManifestContext) data)"
  have len: "length ?sig = 64" "length (snd pair) = 64" using laws(2) by (auto simp: key_pair_def)
  obtain ds where ds: "encodeSignature tool \<lparr>sigSchema = 1, sigKeyID = kid, sigSignature = base64Encode tool ?sig\<rparr> = Inr ds"
      "holds_signature tool kid ?sig (ds @ newline)"
    using laws(1,3) len(1) by (rule signature_document)
  show ?thesis
    unfolding signFile_def list.case wp_then_ok [of "readPrivate _ _ _"]
  proof (rule readPrivate_ok [OF d(1,2) files(1,2) len(2)], unfold sum.case prod.case wp_then_ok)
    fix d1 :: "'a disk_scheme" assume d1: "workdir cwd names d1" "content cwd d1 = content cwd d"
    have "content cwd d1 target = Some data" using d1(2) files(3) by simp
    note read = read_arg_ok(1) [OF d1(1) d(3) this]
    show "wp (wrap_err ToolIO (ReadFile (arg_path cwd target))) (\<lambda>r. case r of Inl e \<Rightarrow> Q (Inl e)
        | Inr data \<Rightarrow> wp (let context = if endorse then EndorseContext else ManifestContext; sig = edSign tool (snd pair) (SigningMessage context data)
            in writeJSON (arg_path cwd (target @ ''.sig'')) (encodeSignature tool \<lparr>sigSchema = 1, sigKeyID = kid, sigSignature = base64Encode tool sig\<rparr>)) Q) d1"
    proof (rule read, unfold sum.case Let_def)
      fix d2 :: "'a disk_scheme" assume d2: "workdir cwd names d2" "content cwd d2 = content cwd d1"
      show "wp (writeJSON (arg_path cwd (target @ ''.sig''))
          (encodeSignature tool \<lparr>sigSchema = 1, sigKeyID = kid, sigSignature = base64Encode tool ?sig\<rparr>)) Q d2"
        by (rule writeJSON_ok [OF d2(1) d(4) ds(1)], rule Q) (use d1 d2 ds in auto)
    qed
  qed
qed

lemma tool_verify_ok:
  assumes d: "workdir cwd names d" "{root, signing, signing @ ''.sig'', target, target @ ''.sig''} \<subseteq> names"
    and files: "content cwd d root = Some rk" "content cwd d signing = Some sk" "content cwd d (signing @ ''.sig'') = Some sks"
      "content cwd d target = Some m" "content cwd d (target @ ''.sig'') = Some ms"
    and root: "holds_public tool kid rootPub rk"
  shows "wp (tool_verify tool cwd [root, signing, target]) (\<lambda>r _. r = map_error ChainBroken (Verify_bundle (toCrypto tool) rootPub
      \<lparr>bManifest = m, bManifestSig = ms, bSigningKey = sk, bSigningKeySig = sks\<rparr>)) d"
proof -
  obtain pk where pk: "ParsePublicKey (toCrypto tool) rk = Inr (pk, rootPub)" using root by (auto simp: holds_public_def)
  have read: "wp (read_arg cwd s) Q d1" if "s \<in> names" "workdir cwd names d1" "content cwd d1 = content cwd d" "content cwd d s = Some b"
      "\<And>d'. workdir cwd names d' \<Longrightarrow> content cwd d' = content cwd d \<Longrightarrow> Q (Inr b) d'" for s b Q and d1 :: "'a disk_scheme"
    by (rule read_arg_ok(2)) (use that in auto)
  show ?thesis
    unfolding tool_verify_def list.case wp_then_ok [of "read_arg _ root"]
    by (rule read [OF _ _ _ files(1)]; (use d in simp; fail)?; simp only: sum.case pk prod.case wp_then_ok wp_ret;
      rule read [OF _ _ _ files(2)]; (use d in simp; fail)?; simp only: sum.case; rule read [OF _ _ _ files(3)]; (use d in simp; fail)?;
      simp only: sum.case; rule read [OF _ _ _ files(4)]; (use d in simp; fail)?; simp only: sum.case; rule read [OF _ _ _ files(5)]; (use d in simp; fail)?; simp)
qed


text \<open>A bundle whose parts were made by the two pairs verifies.\<close>

lemma Verify_bundle_made:
  assumes "key_pair tool rootPair" "key_pair tool pair"
    and "holds_public tool kid (fst pair) sk"
    and "holds_signature tool ''root'' (edSign tool (snd rootPair) (SigningMessage EndorseContext sk)) sks"
    and "holds_signature tool kid (edSign tool (snd pair) (SigningMessage ManifestContext m)) ms"
  shows "Verify_bundle (toCrypto tool) (fst rootPair) \<lparr>bManifest = m, bManifestSig = ms, bSigningKey = sk, bSigningKeySig = sks\<rparr>
    = map_error PayloadInvalid (ParseChannel (decodeChannel (toCrypto tool)) m)"
  using assms by (auto simp: Verify_bundle_def holds_public_def holds_signature_def key_pair_def)

definition ceremony_files :: "string \<Rightarrow> string \<Rightarrow> string \<Rightarrow> string list" where
  "ceremony_files root pre target =
     [root @ ''.pub'', root @ ''.key'', pre @ ''.pub'', pre @ ''.key'', pre @ ''.pub.sig'', target, target @ ''.sig'']"

text \<open>From the two key pairs on disk to the verdict.\<close>

lemma sign_chain_ok:
  assumes laws: "tool_laws tool" "key_pair tool rootPair" "key_pair tool pair" "kid \<noteq> []"
    and d: "workdir cwd (set (ceremony_files root pre target)) d" "distinct (ceremony_files root pre target)"
    and files: "content cwd d (root @ ''.pub'') = Some rp" "content cwd d (root @ ''.key'') = Some rk"
      "content cwd d (pre @ ''.pub'') = Some dp" "content cwd d (pre @ ''.key'') = Some dk" "content cwd d target = Some m"
    and keys: "holds_public tool ''root'' (fst rootPair) rp" "holds_private tool ''root'' (snd rootPair) rk"
      "holds_public tool kid (fst pair) dp" "holds_private tool kid (snd pair) dk"
    and ch: "ParseChannel (decodeChannel (toCrypto tool)) m = Inr ch"
  shows "wp (then_ok (signFile tool cwd [root @ ''.key'', pre @ ''.pub''] True) (\<lambda>_.
     then_ok (signFile tool cwd [pre @ ''.key'', target] False) (\<lambda>_.
       tool_verify tool cwd [root @ ''.pub'', pre @ ''.pub'', target]))) (\<lambda>r _. r = Inr ch) d"
    (is "wp _ ?Q d")
  unfolding wp_then_ok
proof (rule signFile_ok [OF laws(1,2) _ d(1) _ _ _ files(2) keys(2) files(3)], unfold sum.case if_True)
  let ?N = "set (ceremony_files root pre target)"
  note neq = d(2) [unfolded ceremony_files_def, simplified]
  fix d3 :: "'a disk_scheme" and sks assume d3: "workdir cwd ?N d3"
    "holds_signature tool ''root'' (edSign tool (snd rootPair) (SigningMessage EndorseContext dp)) sks"
    "content cwd d3 = (content cwd d)((pre @ ''.pub'') @ ''.sig'' \<mapsto> sks)"
  have c3: "content cwd d3 (pre @ ''.key'') = Some dk" "content cwd d3 target = Some m"
    using neq files by (auto simp: d3(3))
  show "wp (signFile tool cwd [pre @ ''.key'', target] False) (\<lambda>r. case r of Inl e \<Rightarrow> ?Q (Inl e) | Inr _ \<Rightarrow>
    wp (tool_verify tool cwd [root @ ''.pub'', pre @ ''.pub'', target]) ?Q) d3"
  proof (rule signFile_ok [OF laws(1,3,4) d3(1) _ _ _ c3(1) keys(4) c3(2)], unfold sum.case if_False)
    fix d4 :: "'a disk_scheme" and ms assume d4: "workdir cwd ?N d4"
      "holds_signature tool kid (edSign tool (snd pair) (SigningMessage ManifestContext m)) ms"
      "content cwd d4 = (content cwd d3)(target @ ''.sig'' \<mapsto> ms)"
    have c4: "content cwd d4 (root @ ''.pub'') = Some rp" "content cwd d4 (pre @ ''.pub'') = Some dp" "content cwd d4 ((pre @ ''.pub'') @ ''.sig'') = Some sks"
        "content cwd d4 target = Some m" "content cwd d4 (target @ ''.sig'') = Some ms"
      using neq files by (auto simp: d4(3) d3(3))
    have "{root @ ''.pub'', pre @ ''.pub'', (pre @ ''.pub'') @ ''.sig'', target, target @ ''.sig''} \<subseteq> ?N"
      by (simp add: ceremony_files_def)
    from tool_verify_ok [OF d4(1) this c4 keys(1)]
    show "wp (tool_verify tool cwd [root @ ''.pub'', pre @ ''.pub'', target]) ?Q d4"
      by (simp add: Verify_bundle_made [OF laws(2,3) keys(3) d3(2) d4(2)] ch)
  qed (simp_all add: ceremony_files_def)
qed (simp_all add: ceremony_files_def)

lemma release_chain_ok:
  assumes laws: "tool_laws tool" "key_pair tool rootPair" "key_pair tool pair" "kid \<noteq> []"
    and d: "workdir cwd (set (ceremony_files root pre target)) d" "distinct (ceremony_files root pre target)"
    and m: "content cwd d target = Some m" "ParseChannel (decodeChannel (toCrypto tool)) m = Inr ch"
  shows "wp (release_chain tool cwd rootPair pair root kid pre target) (\<lambda>r _. r = Inr ch) d"
    (is "wp _ ?Q d")
  unfolding release_chain_def wp_then_ok [of "keygen _ _ _ _"]
proof (rule keygen_ok [OF laws(1,2) _ d(1)], unfold sum.case)
  let ?N = "set (ceremony_files root pre target)"
  note neq = d(2) [unfolded ceremony_files_def, simplified]
  fix d1 :: "'a disk_scheme" and rp rk assume d1: "workdir cwd ?N d1" "holds_public tool ''root'' (fst rootPair) rp" "holds_private tool ''root'' (snd rootPair) rk"
    "content cwd d1 = (content cwd d)(root @ ''.pub'' \<mapsto> rp, root @ ''.key'' \<mapsto> rk)"
  show "wp (keygen tool cwd (Some pair) [kid, pre]) (\<lambda>r. case r of Inl e \<Rightarrow> ?Q (Inl e) | Inr _ \<Rightarrow>
      wp (then_ok (signFile tool cwd [root @ ''.key'', pre @ ''.pub''] True) (\<lambda>_.
        then_ok (signFile tool cwd [pre @ ''.key'', target] False) (\<lambda>_.
          tool_verify tool cwd [root @ ''.pub'', pre @ ''.pub'', target]))) ?Q) d1"
  proof (rule keygen_ok [OF laws(1,3,4) d1(1)], unfold sum.case)
    fix d2 :: "'a disk_scheme" and dp dk assume d2: "workdir cwd ?N d2" "holds_public tool kid (fst pair) dp" "holds_private tool kid (snd pair) dk"
      "content cwd d2 = (content cwd d1)(pre @ ''.pub'' \<mapsto> dp, pre @ ''.key'' \<mapsto> dk)"
    have "content cwd d2 (root @ ''.pub'') = Some rp" "content cwd d2 (root @ ''.key'') = Some rk" "content cwd d2 (pre @ ''.pub'') = Some dp"
        "content cwd d2 (pre @ ''.key'') = Some dk" "content cwd d2 target = Some m"
      using neq m(1) by (auto simp: d2(4) d1(4))
    from sign_chain_ok [OF laws d2(1) d(2) this d1(2,3) d2(2,3) m(2)]
    show "wp (then_ok (signFile tool cwd [root @ ''.key'', pre @ ''.pub''] True) (\<lambda>_.
        then_ok (signFile tool cwd [pre @ ''.key'', target] False) (\<lambda>_.
          tool_verify tool cwd [root @ ''.pub'', pre @ ''.pub'', target]))) ?Q d2" .
  qed (simp_all add: ceremony_files_def)
qed (simp_all add: ceremony_files_def)


section \<open>Properties\<close>

text \<open>
  C39: What the tool signs, core accepts. On a disk that answers, the ceremony of the usage text (a key
  pair for the root and one for signing, the endorsement, the signature of a manifest that parses)
  ends with the verdict of core's own verifier that the chain holds, and gives the manifest,
  whatever the names of the files, as long as they are apart.
\<close>

theorem signing_ceremony:
  assumes "tool_laws tool" "key_pair tool rootPair" "key_pair tool pair" "kid \<noteq> []"
    and "workdir cwd (set (ceremony_files root pre target)) d" "distinct (ceremony_files root pre target)"
    and "content cwd d target = Some m" "ParseChannel (decodeChannel (toCrypto tool)) m = Inr ch"
  shows "fst (run_state (release_chain tool cwd rootPair pair root kid pre target) d) = Inr ch"
  using release_chain_ok [OF assms] by (simp add: wp_def split: prod.splits)

definition pack :: "string \<Rightarrow> string \<Rightarrow> bytes" where
  "pack a b = replicate (length a) CHR ''x'' @ ''|'' @ a @ b"

definition unpack :: "bytes \<Rightarrow> string \<times> string" where
  "unpack s = (let n = length (takeWhile (\<lambda>c. c = CHR ''x'') s); r = drop (Suc n) s in (take n r, butlast (drop n r)))"

lemma unpack_pack: "unpack (pack a b @ newline) = (a, b)"
proof -
  have "takeWhile (\<lambda>c. c = CHR ''x'') (pack a b @ newline) = replicate (length a) CHR ''x''"
    by (simp add: pack_def takeWhile_append)
  then show ?thesis by (simp add: unpack_def Let_def pack_def newline_def)
qed

definition ex_tool :: signing_tool where
  "ex_tool = \<lparr>toCrypto = \<lparr>edVerify = (\<lambda>pub msg sig. sig = replicate 64 (hd pub)), base64Decode = Some,
       decodePublicKey = (\<lambda>d. case unpack d of (a, b) \<Rightarrow> Inr \<lparr>pkSchema = 1, pkKeyID = a, pkPublicKey = b\<rparr>),
       decodeSignature = (\<lambda>d. case unpack d of (a, b) \<Rightarrow> Inr \<lparr>sigSchema = 1, sigKeyID = a, sigSignature = b\<rparr>),
       decodeChannel = (\<lambda>_. Inr ex_host_channel)\<rparr>,
     edSign = (\<lambda>priv msg. replicate 64 (hd priv)), base64Encode = (\<lambda>b. b),
     encodePublicKey = (\<lambda>pk. Inr (pack (pkKeyID pk) (pkPublicKey pk))), encodeSignature = (\<lambda>s. Inr (pack (sigKeyID s) (sigSignature s))),
     encodePrivate = (\<lambda>pf. Inr (pack (pfKeyID pf) (pfPrivateKey pf))),
     decodePrivate = (\<lambda>d. case unpack d of (a, b) \<Rightarrow> Inr \<lparr>pfSchema = 1, pfKeyID = a, pfPrivateKey = b\<rparr>)\<rparr>"

definition ex_workdir :: disk where
  "ex_workdir = \<lparr>tree = [([''w''], Directory), ([''w'', ''m.json''], File ''doc'')], calls = 0, fault = (\<lambda>_. None)\<rparr>"

text \<open>Applied to keys named \<open>r\<close> and \<open>s\<close> and a manifest of one module.\<close>

theorem signing_ceremony_witness:
  "fst (run_state (release_chain ex_tool [''w''] (replicate 32 CHR ''r'', replicate 64 CHR ''r'')
     (replicate 32 CHR ''s'', replicate 64 CHR ''s'') ''r'' ''k1'' ''s'' ''m.json'') ex_workdir) = Inr ex_host_channel"
proof (rule signing_ceremony)
  show "tool_laws ex_tool" by (simp add: tool_laws_def ex_tool_def unpack_pack)
  show "key_pair ex_tool (replicate 32 CHR ''r'', replicate 64 CHR ''r'')" "key_pair ex_tool (replicate 32 CHR ''s'', replicate 64 CHR ''s'')"
    by (simp_all add: key_pair_def ex_tool_def hd_replicate)
  show "workdir [''w''] (set (ceremony_files ''r'' ''s'' ''m.json'')) ex_workdir"
    by (simp add: workdir_def ceremony_files_def ex_workdir_def quiet_def is_dir_def plain_name_def)
  show "ParseChannel (decodeChannel (toCrypto ex_tool)) ''doc'' = Inr ex_host_channel" by code_simp
qed (simp_all add: ceremony_files_def content_def ex_workdir_def)

end
