(* ===== verification/Transport.thy ===== *)
theory Transport
  imports Store
begin

text \<open>
  The channel mux (\<open>src/internal/transport/transport.go\<close>): routing to a peer, the offline
  queue in the core-owned namespace of the store, its cap, and the flush after a send that went
  through. The store is any backend (\<open>Store.thy\<close>); the peers and the JSON codec of queued
  messages are parameters. An oracle says which attempts to reach a peer succeed. The flush and
  the cap are shown to refine operations on the list of queued messages in the order of their
  keys.
\<close>

section \<open>State\<close>

definition queueNamespace :: string where "queueNamespace = ''core.transport''"
definition queuePrefix :: string where "queuePrefix = ''queue/''"

definition PEER_UNSPECIFIED :: int where "PEER_UNSPECIFIED = 0"
definition PEER_GATEWEAVE :: int where "PEER_GATEWEAVE = 1"
definition PEER_HYPERVISOR :: int where "PEER_HYPERVISOR = 2"

record queued_message =
  qmModule :: string
  qmPeer :: int
  qmKind :: string
  qmData :: bytes

record queue_codec =
  encodeQueued :: "queued_message \<Rightarrow> bytes option"
  decodeQueued :: "bytes \<Rightarrow> queued_message option"

text \<open>
  The mux with its queue (\<open>None\<close> when the queue is disabled), the peers that are connected, and
  the wire: what has been sent, with the number of attempts so far.
\<close>

record 'st mux =
  mxQueue :: "'st option"
  mxMaxQueued :: int
  mxNextID :: uint64
  mxSeeded :: bool
  mxDropped :: uint64
  mxGateWeave :: bool
  mxHypervisor :: bool
  mxAttempts :: nat
  mxWire :: "queued_message list"

record 'st mux_env =
  mxBackend :: "'st backend"
  mxCodec :: queue_codec
  mxUp :: "nat \<Rightarrow> bool"

definition maxQueued :: "'st mux \<Rightarrow> int" where
  "maxQueued mx = (if mxMaxQueued mx > 0 then mxMaxQueued mx else 10000)"

definition peerFor :: "int \<Rightarrow> 'st mux \<Rightarrow> bool" where
  "peerFor peer mx = (if peer = PEER_HYPERVISOR then mxHypervisor mx else mxGateWeave mx)"


section \<open>Operations\<close>

text \<open>One attempt to send to a connected peer.\<close>

definition peer_Send :: "'st mux_env \<Rightarrow> queued_message \<Rightarrow> 'st mux \<Rightarrow> bool \<times> 'st mux" where
  "peer_Send e msg mx =
     (let up = mxUp e (mxAttempts mx); mx' = mx\<lparr>mxAttempts := Suc (mxAttempts mx)\<rparr>
      in (up, if up then mx'\<lparr>mxWire := mxWire mx @ [msg]\<rparr> else mx'))"

definition Dropped :: "'st mux \<Rightarrow> uint64" where
  "Dropped mx = mxDropped mx"

text \<open>
  The peer over HTTP: the JSON document and the request are parameters, the answer decides. An
  answer other than 200 and 202 is a failed send, which leaves the message to the queue.
\<close>

datatype post_reply = NoReply string | Answered int

record http_peer =
  hpURL :: string
  hpDevice :: string
  hpMarshal :: "string \<Rightarrow> queued_message \<Rightarrow> (string, bytes) result"
  hpPost :: "string \<Rightarrow> bytes \<Rightarrow> post_reply"

definition HTTPPeer_Send :: "http_peer \<Rightarrow> queued_message \<Rightarrow> string option" where
  "HTTPPeer_Send h msg =
     (case hpMarshal h (hpDevice h) msg of
        Inl e \<Rightarrow> Some e
      | Inr body \<Rightarrow>
          (case hpPost h (hpURL h) body of
             NoReply e \<Rightarrow> Some e
           | Answered c \<Rightarrow> if c \<noteq> 200 \<and> c \<noteq> 202 then Some ''message endpoint returned an error status'' else None))"

text \<open>\<open>fmt.Sscanf(k, "queue/%020d", &n)\<close>: up to twenty digits after the prefix.\<close>

definition scan_key :: "string \<Rightarrow> nat option" where
  "scan_key k =
     (case CutPrefix k queuePrefix of
        None \<Rightarrow> None
      | Some r \<Rightarrow> ParseUint 64 (takeWhile is_digit (take 20 r)))"

definition queue_key :: "uint64 \<Rightarrow> string" where
  "queue_key n = queuePrefix @ zero_pad 20 (unat n)"

fun seed_from :: "string list \<Rightarrow> uint64 \<Rightarrow> uint64" where
  "seed_from [] n = n"
| "seed_from (k # ks) n =
     (case scan_key k of
        None \<Rightarrow> seed_from ks n
      | Some v \<Rightarrow> seed_from ks (if of_nat v > n then of_nat v else n))"

definition seedNextID :: "'st mux_env \<Rightarrow> 'st mux \<Rightarrow> 'st mux" where
  "seedNextID e mx =
     (if mxSeeded mx then mx
      else case mxQueue mx of
        None \<Rightarrow> mx\<lparr>mxSeeded := True\<rparr>
      | Some q \<Rightarrow>
          (case beList (mxBackend e) queueNamespace queuePrefix q of
             Inl _ \<Rightarrow> mx\<lparr>mxSeeded := True\<rparr>
           | Inr keys \<Rightarrow> mx\<lparr>mxSeeded := True, mxNextID := seed_from keys (mxNextID mx)\<rparr>))"

definition delete_key :: "'st mux_env \<Rightarrow> string \<Rightarrow> 'st mux \<Rightarrow> 'st mux" where
  "delete_key e k mx =
     mx\<lparr>mxQueue := map_option (\<lambda>q. snd (beDelete (mxBackend e) queueNamespace k q)) (mxQueue mx)\<rparr>"

definition drop_key :: "'st mux_env \<Rightarrow> string \<Rightarrow> 'st mux \<Rightarrow> 'st mux" where
  "drop_key e k mx = (delete_key e k mx)\<lparr>mxDropped := mxDropped mx + 1\<rparr>"

definition enforceCap :: "'st mux_env \<Rightarrow> 'st mux \<Rightarrow> 'st mux" where
  "enforceCap e mx =
     (case mxQueue mx of
        None \<Rightarrow> mx
      | Some q \<Rightarrow>
          (case beList (mxBackend e) queueNamespace queuePrefix q of
             Inl _ \<Rightarrow> mx
           | Inr keys \<Rightarrow>
               let over = int (length keys) - maxQueued mx in
               if over \<le> 0 then mx
               else foldl (\<lambda>mx k. drop_key e k mx) mx (take (nat over) (sort keys))))"

definition enqueue :: "'st mux_env \<Rightarrow> queued_message \<Rightarrow> 'st mux \<Rightarrow> 'st mux" where
  "enqueue e msg mx =
     (case mxQueue mx of
        None \<Rightarrow> mx
      | Some q \<Rightarrow>
          (case encodeQueued (mxCodec e) msg of
             None \<Rightarrow> mx
           | Some raw \<Rightarrow>
               let mx1 = seedNextID e mx;
                   mx2 = mx1\<lparr>mxNextID := mxNextID mx1 + 1\<rparr>
               in case bePut (mxBackend e) queueNamespace (queue_key (mxNextID mx2)) raw q of
                    (Inl _, q') \<Rightarrow> mx2\<lparr>mxQueue := Some q'\<rparr>
                  | (Inr _, q') \<Rightarrow> enforceCap e (mx2\<lparr>mxQueue := Some q'\<rparr>)))"

text \<open>The loop of \<open>flush\<close> over the sorted keys.\<close>

fun flush_keys :: "'st mux_env \<Rightarrow> int \<Rightarrow> string list \<Rightarrow> 'st mux \<Rightarrow> 'st mux" where
  "flush_keys e peer [] mx = mx"
| "flush_keys e peer (key # keys) mx =
     (case mxQueue mx of
        None \<Rightarrow> mx
      | Some q \<Rightarrow>
          (case beGet (mxBackend e) queueNamespace key q of
             Inl _ \<Rightarrow> flush_keys e peer keys mx
           | Inr None \<Rightarrow> flush_keys e peer keys mx
           | Inr (Some raw) \<Rightarrow>
               (case decodeQueued (mxCodec e) raw of
                  None \<Rightarrow> flush_keys e peer keys (drop_key e key mx)
                | Some qm \<Rightarrow>
                    if qmPeer qm \<noteq> peer then flush_keys e peer keys mx
                    else (case peer_Send e qm mx of
                        (False, mx') \<Rightarrow> mx'
                      | (True, mx') \<Rightarrow> flush_keys e peer keys (delete_key e key mx')))))"

definition flush :: "'st mux_env \<Rightarrow> int \<Rightarrow> 'st mux \<Rightarrow> 'st mux" where
  "flush e peer mx =
     (case mxQueue mx of
        None \<Rightarrow> mx
      | Some q \<Rightarrow>
          (case beList (mxBackend e) queueNamespace queuePrefix q of
             Inl _ \<Rightarrow> mx
           | Inr keys \<Rightarrow> flush_keys e peer (sort keys) mx))"

definition Flush :: "'st mux_env \<Rightarrow> int \<Rightarrow> 'st mux \<Rightarrow> 'st mux" where
  "Flush e peer mx = (if peerFor peer mx then flush e peer mx else mx)"

datatype send_error = PeerNotConnected int | PeerUnreachable int

definition mux_Send ::
    "'st mux_env \<Rightarrow> queued_message \<Rightarrow> bool \<Rightarrow> 'st mux \<Rightarrow> (send_error, bool) result \<times> 'st mux" where
  "mux_Send e msg queueOffline mx =
     (let peer = qmPeer msg;
          (sent, mx1) = (if peerFor peer mx then peer_Send e msg mx else (False, mx))
      in if sent then (Inr True, flush e peer mx1)
         else if \<not> queueOffline then
           (Inl (if peerFor peer mx then PeerUnreachable peer else PeerNotConnected peer), mx1)
         else (Inr False, enqueue e msg mx1))"



section \<open>The queue as a list\<close>

text \<open>The queued entries in the order of their keys.\<close>

definition queue_list :: "(string \<Rightarrow> bytes option) \<Rightarrow> (string \<times> bytes) list" where
  "queue_list f =
     map (\<lambda>k. (k, the (f k))) (sorted_list_of_set {k. f k \<noteq> None \<and> prefix queuePrefix k})"

text \<open>
  What a flush does to that list: it sends the entries for the peer in order until the first
  failure, drops the ones that do not decode on the way, and keeps the rest. The result is the
  remaining list, the messages sent, the number of attempts and of dropped entries.
\<close>

fun drain :: "(bytes \<Rightarrow> queued_message option) \<Rightarrow> (nat \<Rightarrow> bool) \<Rightarrow> int \<Rightarrow> (string \<times> bytes) list \<Rightarrow> nat
    \<Rightarrow> (string \<times> bytes) list \<times> queued_message list \<times> nat \<times> nat" where
  "drain decode up peer [] a = ([], [], a, 0)"
| "drain decode up peer ((k, raw) # es) a =
     (case decode raw of
        None \<Rightarrow> (case drain decode up peer es a of (es', ms, a', n) \<Rightarrow> (es', ms, a', Suc n))
      | Some qm \<Rightarrow>
          if qmPeer qm \<noteq> peer then
            (case drain decode up peer es a of (es', ms, a', n) \<Rightarrow> ((k, raw) # es', ms, a', n))
          else if up a then
            (case drain decode up peer es (Suc a) of (es', ms, a', n) \<Rightarrow> (es', qm # ms, a', n))
          else ((k, raw) # es, [], Suc a, 0))"

text \<open>The messages for a peer, and the entries that are not for it.\<close>

definition msgs_for :: "(bytes \<Rightarrow> queued_message option) \<Rightarrow> int \<Rightarrow> (string \<times> bytes) list \<Rightarrow> queued_message list" where
  "msgs_for decode peer es = filter (\<lambda>qm. qmPeer qm = peer) (List.map_filter (\<lambda>(_, raw). decode raw) es)"

definition entries_for_others ::
    "(bytes \<Rightarrow> queued_message option) \<Rightarrow> int \<Rightarrow> (string \<times> bytes) list \<Rightarrow> (string \<times> bytes) list" where
  "entries_for_others decode peer es =
     filter (\<lambda>(_, raw). case decode raw of None \<Rightarrow> False | Some qm \<Rightarrow> qmPeer qm \<noteq> peer) es"

lemma msgs_for_simps [simp]:
  "msgs_for decode peer [] = []"
  "msgs_for decode peer ((k, raw) # es) =
     (case decode raw of None \<Rightarrow> [] | Some qm \<Rightarrow> if qmPeer qm = peer then [qm] else []) @ msgs_for decode peer es"
  by (simp_all add: msgs_for_def map_filter_simps split: option.split)

lemma drain_fifo:
  assumes "drain decode up peer es a = (es', ms, a', n)"
  shows "msgs_for decode peer es = ms @ msgs_for decode peer es'
    \<and> entries_for_others decode peer es' = entries_for_others decode peer es
    \<and> subseq es' es"
  using assms
proof (induction es arbitrary: a es' ms a' n)
  case (Cons x es)
  obtain k raw where x: "x = (k, raw)" by (cases x)
  obtain e0 m0 a0 n0 where d0: "drain decode up peer es a = (e0, m0, a0, n0)" by (cases "drain decode up peer es a")
  obtain e1 m1 a1 n1 where d1: "drain decode up peer es (Suc a) = (e1, m1, a1, n1)"
    by (cases "drain decode up peer es (Suc a)")
  consider "decode raw = None" | qm where "decode raw = Some qm" "qmPeer qm \<noteq> peer"
    | qm where "decode raw = Some qm" "qmPeer qm = peer" "up a"
    | qm where "decode raw = Some qm" "qmPeer qm = peer" "\<not> up a"
    by (cases "decode raw") auto
  then show ?case
  proof cases
    case 3
    with Cons.prems d1 Cons.IH [OF d1] show ?thesis by (auto simp: x entries_for_others_def)
  qed (use Cons.prems d0 Cons.IH [OF d0] in \<open>auto simp: x entries_for_others_def\<close>)
qed (simp add: entries_for_others_def)

lemma drain_all:
  assumes "drain decode up peer es a = (es', ms, a', n)" "\<And>k. up k"
  shows "msgs_for decode peer es' = []"
  using assms(1)
proof (induction es arbitrary: a es' ms a' n)
  case (Cons x es)
  then show ?case
    by (cases x) (auto simp: assms(2) split: prod.splits option.splits if_splits)
qed simp

lemma drain_keys: "drain decode up peer es a = (es', ms, a', n) \<Longrightarrow> set (map fst es') \<subseteq> set (map fst es)"
  using drain_fifo [of decode up peer es a es' ms a' n] by (auto dest: subseq_map list_emb_set)


lemma subseq_set: "subseq xs ys \<Longrightarrow> set xs \<subseteq> set ys"
  by (induction rule: list_emb.induct) auto

lemma subseq_distinct: "subseq xs ys \<Longrightarrow> distinct ys \<Longrightarrow> distinct xs"
  by (induction rule: list_emb.induct) (auto dest: list_emb_set)

lemma subseq_sorted: "subseq xs ys \<Longrightarrow> sorted ys \<Longrightarrow> sorted xs"
  by (induction rule: list_emb.induct) (auto dest: list_emb_set)

lemma queue_list_eq:
  assumes "sorted (map fst es)" "distinct (map fst es)"
    "\<And>k. prefix queuePrefix k \<Longrightarrow> f k = map_of es k" "\<And>k. k \<in> set (map fst es) \<Longrightarrow> prefix queuePrefix k"
  shows "queue_list f = es"
proof -
  have "{k. f k \<noteq> None \<and> prefix queuePrefix k} = set (map fst es)"
  proof (rule set_eqI)
    fix k
    show "k \<in> {k. f k \<noteq> None \<and> prefix queuePrefix k} \<longleftrightarrow> k \<in> set (map fst es)"
      using assms(3) [of k] assms(4) [of k] map_of_eq_None_iff [of es k] by (cases "k \<in> set (map fst es)") auto
  qed
  then have keys: "sorted_list_of_set {k. f k \<noteq> None \<and> prefix queuePrefix k} = map fst es"
    using sorted_list_of_set.idem_if_sorted_distinct [OF assms(1,2)] by (simp only: )
  have "(k, the (f k)) = x" if mem: "x \<in> set es" and k: "k = fst x" for x k
  proof -
    obtain b where x: "x = (k, b)" using k by (cases x) auto
    with mem have "map_of es k = Some b" "k \<in> set (map fst es)"
      using assms(2) by (auto intro: map_of_is_SomeI rev_image_eqI)
    with assms(3,4) x show ?thesis by simp
  qed
  then have "map (\<lambda>k. (k, the (f k))) (map fst es) = es" by (simp add: map_idI)
  then show ?thesis by (simp only: queue_list_def keys)
qed

context reliable_backend
begin

lemma flush_keys_refines:
  assumes "mxBackend e = be" "mxQueue mx = Some q" "inv q" "distinct ks"
    and "\<And>k. k \<in> set ks \<Longrightarrow> view q queueNamespace k \<noteq> None"
    and "drain (decodeQueued (mxCodec e)) (mxUp e) peer
      (map (\<lambda>k. (k, the (view q queueNamespace k))) ks) (mxAttempts mx) = (es', ms, a', n)"
  shows "\<exists>q'. flush_keys e peer ks mx = mx\<lparr>mxQueue := Some q', mxWire := mxWire mx @ ms,
        mxAttempts := a', mxDropped := mxDropped mx + of_nat n\<rparr>
    \<and> inv q' \<and> (\<forall>m. m \<noteq> queueNamespace \<longrightarrow> view q' m = view q m)
    \<and> (\<forall>k. view q' queueNamespace k = (if k \<in> set ks then map_of es' k else view q queueNamespace k))"
  using assms(2-)
proof (induction ks arbitrary: mx q es' ms a' n)
  case (Cons k ks)
  let ?dec = "decodeQueued (mxCodec e)" and ?ents = "\<lambda>q. map (\<lambda>k. (k, the (view q queueNamespace k))) ks"
  let ?q = "snd (beDelete be queueNamespace k q)"
  obtain raw where raw: "view q queueNamespace k = Some raw" using Cons.prems(4) by auto
  have get: "beGet (mxBackend e) queueNamespace k q = Inr (Some raw)"
    using get_eq [OF Cons.prems(2)] raw assms(1) by simp
  have del: "inv ?q" "view ?q = (view q)(queueNamespace := (view q queueNamespace)(k := None))"
    using deleted [OF Cons.prems(2)] by blast+
  have ents: "?ents ?q = ?ents q" using Cons.prems(3) del(2) by auto
  have keys: "k \<notin> set (map fst es)" if "drain ?dec (mxUp e) peer (?ents q) a = (es, m', b, i)" for es a m' b i
    using drain_keys [OF that] Cons.prems(3) by auto
  obtain e0 m0 a0 n0 where d0: "drain ?dec (mxUp e) peer (?ents q) (mxAttempts mx) = (e0, m0, a0, n0)"
    by (cases "drain ?dec (mxUp e) peer (?ents q) (mxAttempts mx)")
  obtain e1 m1 a1 n1 where d1: "drain ?dec (mxUp e) peer (?ents q) (Suc (mxAttempts mx)) = (e1, m1, a1, n1)"
    by (cases "drain ?dec (mxUp e) peer (?ents q) (Suc (mxAttempts mx))")
  have prems: "distinct ks" "\<And>k'. k' \<in> set ks \<Longrightarrow> view q queueNamespace k' \<noteq> None"
    "\<And>k'. k' \<in> set ks \<Longrightarrow> view ?q queueNamespace k' \<noteq> None" "k \<notin> set ks"
    using Cons.prems del(2) by auto
  consider "?dec raw = None" | qm where "?dec raw = Some qm" "qmPeer qm \<noteq> peer"
    | qm where "?dec raw = Some qm" "qmPeer qm = peer" "mxUp e (mxAttempts mx)"
    | qm where "?dec raw = Some qm" "qmPeer qm = peer" "\<not> mxUp e (mxAttempts mx)"
    by (cases "?dec raw") auto
  then show ?case
  proof cases
    case 1
    let ?mx = "mx\<lparr>mxQueue := Some ?q, mxDropped := mxDropped mx + 1\<rparr>"
    have run: "flush_keys e peer (k # ks) mx = flush_keys e peer ks ?mx"
      using 1 get Cons.prems(1) assms(1) by (simp add: drop_key_def delete_key_def)
    have "es' = e0" "ms = m0" "a' = a0" "n = Suc n0" using Cons.prems(5) 1 d0 raw by auto
    moreover from Cons.IH [of ?mx ?q e0 m0 a0 n0] obtain q' where
      "flush_keys e peer ks ?mx = ?mx\<lparr>mxQueue := Some q', mxWire := mxWire ?mx @ m0, mxAttempts := a0,
          mxDropped := mxDropped ?mx + of_nat n0\<rparr>" "inv q'"
      "\<forall>m. m \<noteq> queueNamespace \<longrightarrow> view q' m = view ?q m"
      "\<forall>k'. view q' queueNamespace k' = (if k' \<in> set ks then map_of e0 k' else view ?q queueNamespace k')"
      using del(1) prems d0 ents by auto
    ultimately show ?thesis
      using keys [OF d0] prems(4) del(2) map_of_eq_None_iff [of e0 k]
      unfolding run by (intro exI [of _ q']) (auto simp: add.assoc)
  next
    case (2 qm)
    have run: "flush_keys e peer (k # ks) mx = flush_keys e peer ks mx"
      using 2 get Cons.prems(1) by simp
    have "es' = (k, raw) # e0" "ms = m0" "a' = a0" "n = n0" using Cons.prems(5) 2 d0 raw by auto
    moreover from Cons.IH [of mx q e0 m0 a0 n0] Cons.prems(1,2) prems d0 obtain q' where
      "flush_keys e peer ks mx = mx\<lparr>mxQueue := Some q', mxWire := mxWire mx @ m0, mxAttempts := a0,
          mxDropped := mxDropped mx + of_nat n0\<rparr>" "inv q'"
      "\<forall>m. m \<noteq> queueNamespace \<longrightarrow> view q' m = view q m"
      "\<forall>k'. view q' queueNamespace k' = (if k' \<in> set ks then map_of e0 k' else view q queueNamespace k')"
      by auto
    ultimately show ?thesis using prems(4) raw unfolding run by (intro exI [of _ q']) auto
  next
    case (3 qm)
    let ?mx = "mx\<lparr>mxAttempts := Suc (mxAttempts mx), mxWire := mxWire mx @ [qm], mxQueue := Some ?q\<rparr>"
    have run: "flush_keys e peer (k # ks) mx = flush_keys e peer ks ?mx"
      using 3 get Cons.prems(1) assms(1) by (simp add: peer_Send_def Let_def delete_key_def)
    have "es' = e1" "ms = qm # m1" "a' = a1" "n = n1" using Cons.prems(5) 3 d1 raw by auto
    moreover from Cons.IH [of ?mx ?q e1 m1 a1 n1] obtain q' where
      "flush_keys e peer ks ?mx = ?mx\<lparr>mxQueue := Some q', mxWire := mxWire ?mx @ m1, mxAttempts := a1,
          mxDropped := mxDropped ?mx + of_nat n1\<rparr>" "inv q'"
      "\<forall>m. m \<noteq> queueNamespace \<longrightarrow> view q' m = view ?q m"
      "\<forall>k'. view q' queueNamespace k' = (if k' \<in> set ks then map_of e1 k' else view ?q queueNamespace k')"
      using del(1) prems d1 ents by auto
    ultimately show ?thesis
      using keys [OF d1] prems(4) del(2) map_of_eq_None_iff [of e1 k]
      unfolding run by (intro exI [of _ q']) auto
  next
    case (4 qm)
    have "flush_keys e peer (k # ks) mx = mx\<lparr>mxAttempts := Suc (mxAttempts mx)\<rparr>"
      using 4 get Cons.prems(1) by (simp add: peer_Send_def Let_def)
    moreover have "es' = map (\<lambda>k. (k, the (view q queueNamespace k))) (k # ks)" "ms = []"
        "a' = Suc (mxAttempts mx)" "n = 0"
      using Cons.prems(5) 4 raw by auto
    moreover have "map_of (map (\<lambda>k. (k, the (view q queueNamespace k))) (k # ks)) k'
        = view q queueNamespace k'" if "k' \<in> set (k # ks)" for k'
      using that Cons.prems(4) by (auto simp: map_of_map_restrict)
    ultimately show ?thesis using Cons.prems(1,2) by (intro exI [of _ q]) auto
  qed
next
  case Nil
  then have "mx\<lparr>mxQueue := Some q\<rparr> = mx" by (cases mx) simp
  with Nil show ?case by (intro exI [of _ q]) auto
qed

lemma flush_refines_list:
  assumes "mxBackend e = be" "mxQueue mx = Some q" "inv q"
    and "drain (decodeQueued (mxCodec e)) (mxUp e) peer (queue_list (view q queueNamespace)) (mxAttempts mx)
      = (es', ms, a', n)"
  shows "\<exists>q'. flush e peer mx = mx\<lparr>mxQueue := Some q', mxWire := mxWire mx @ ms,
        mxAttempts := a', mxDropped := mxDropped mx + of_nat n\<rparr>
    \<and> inv q' \<and> (\<forall>m. m \<noteq> queueNamespace \<longrightarrow> view q' m = view q m)
    \<and> queue_list (view q' queueNamespace) = es'"
proof -
  obtain ks where ks: "beList be queueNamespace queuePrefix q = Inr ks" "distinct ks"
      "set ks = {k. view q queueNamespace k \<noteq> None \<and> prefix queuePrefix k}"
    by (rule listed [OF assms(3)])
  have sorted: "sort ks = sorted_list_of_set {k. view q queueNamespace k \<noteq> None \<and> prefix queuePrefix k}"
    using ks(2,3) by (metis sorted_list_of_set_sort_remdups distinct_remdups_id)
  have "\<exists>q'. flush_keys e peer (sort ks) mx = mx\<lparr>mxQueue := Some q', mxWire := mxWire mx @ ms,
        mxAttempts := a', mxDropped := mxDropped mx + of_nat n\<rparr>
    \<and> inv q' \<and> (\<forall>m. m \<noteq> queueNamespace \<longrightarrow> view q' m = view q m)
    \<and> (\<forall>k. view q' queueNamespace k = (if k \<in> set (sort ks) then map_of es' k else view q queueNamespace k))"
  proof (rule flush_keys_refines [OF assms(1-3)])
    show "view q queueNamespace k \<noteq> None" if "k \<in> set (sort ks)" for k using that ks(3) by simp
    show "drain (decodeQueued (mxCodec e)) (mxUp e) peer
        (map (\<lambda>k. (k, the (view q queueNamespace k))) (sort ks)) (mxAttempts mx) = (es', ms, a', n)"
      using assms(4) by (simp only: sorted queue_list_def)
  qed (use ks(2) in simp)
  then obtain q' where q': "flush_keys e peer (sort ks) mx = mx\<lparr>mxQueue := Some q', mxWire := mxWire mx @ ms,
        mxAttempts := a', mxDropped := mxDropped mx + of_nat n\<rparr>" "inv q'"
      "\<forall>m. m \<noteq> queueNamespace \<longrightarrow> view q' m = view q m"
      "\<forall>k. view q' queueNamespace k = (if k \<in> set ks then map_of es' k else view q queueNamespace k)" by auto
  have sub: "subseq (map fst es') (sort ks)"
    using drain_fifo [OF assms(4)] sorted by (auto simp: queue_list_def dest: subseq_map [of _ _ fst] simp: comp_def)
  have "queue_list (view q' queueNamespace) = es'"
  proof (rule queue_list_eq)
    show "sorted (map fst es')" "distinct (map fst es')"
      using sub ks(2) by (auto intro: subseq_distinct subseq_sorted)
    show "view q' queueNamespace k = map_of es' k" if "prefix queuePrefix k" for k
    proof (cases "k \<in> set ks")
      case False
      then have "k \<notin> set (map fst es')" using subseq_set [OF sub] by auto
      then have "map_of es' k = None" by (simp add: map_of_eq_None_iff)
      with False q'(4) ks(3) that show ?thesis by auto
    qed (use q'(4) in simp)
    show "prefix queuePrefix k" if "k \<in> set (map fst es')" for k
      using subseq_set [OF sub] that ks(3) by auto
  qed
  with q' ks(1) assms(1,2) show ?thesis by (auto simp: flush_def)
qed

end


section \<open>Keys of the queue\<close>

lemma uint64_unat_dec: "unat (n :: uint64) < 10 ^ 20"
  using uint64_unat_bound [of n] by simp

lemma zero_pad_digits: "c \<in> set (zero_pad w n) \<Longrightarrow> is_digit c"
  using digit_set_dec by (auto simp: zero_pad_def is_digit_def split: if_splits)

lemma scan_queue_key: "scan_key (queue_key n) = Some (unat n)"
proof -
  have len: "length (zero_pad 20 (unat n)) = 20"
    using length_zero_pad [OF uint64_unat_dec] by simp
  then have "takeWhile is_digit (take 20 (zero_pad 20 (unat n))) = zero_pad 20 (unat n)"
    using zero_pad_digits by (simp add: takeWhile_eq_all_conv)
  moreover have "zero_pad 20 (unat n) \<noteq> []" using len by auto
  ultimately show ?thesis
    using uint64_unat_bound [of n]
    by (simp add: scan_key_def queue_key_def CutPrefix_def ParseUint_def)
qed

lemma list_less_append: "(xs :: 'a :: linorder list) @ ys < xs @ zs \<longleftrightarrow> ys < zs"
  by (induction xs) auto

lemma queue_key_less: "queue_key a < queue_key b \<longleftrightarrow> a < b"
  using zero_pad_less_iff [of "unat a" 20 "unat b"] uint64_unat_dec [of a] uint64_unat_dec [of b]
  by (simp add: queue_key_def list_less_append word_less_nat_alt)

lemma queue_key_inj [simp]: "queue_key m = queue_key n \<longleftrightarrow> m = n"
proof
  assume "queue_key m = queue_key n"
  then have "Some (unat m) = Some (unat n)" by (metis scan_queue_key)
  then show "m = n" using word_eq_iff_unsigned [of m n] by blast
qed simp

lemma prefix_queue_key [simp]: "prefix queuePrefix (queue_key n)"
  by (simp add: queue_key_def)

lemma seed_from_bounds: "n \<le> seed_from ks n \<and> (\<forall>v. queue_key v \<in> set ks \<longrightarrow> v \<le> seed_from ks n)"
proof (induction ks arbitrary: n)
  case (Cons k ks)
  show ?case
  proof (cases "scan_key k")
    case None
    then have "k \<noteq> queue_key v" for v using scan_queue_key [of v] by auto
    with Cons [of n] None show ?thesis by auto
  next
    case (Some v)
    let ?n = "if of_nat v > n then of_nat v else n"
    have "v' = of_nat v" if "k = queue_key v'" for v'
      using Some scan_queue_key [of v'] that by auto
    moreover have "n \<le> ?n" "of_nat v \<le> ?n" by auto
    ultimately show ?thesis using Cons [of ?n] Some by (auto intro: order_trans)
  qed
qed simp

text \<open>
  The queue is in order: every key was made by \<open>enqueue\<close>, and once the counter is seeded it is
  at least every number in use.
\<close>

definition queue_ok :: "(string \<Rightarrow> bytes option) \<Rightarrow> 'st mux \<Rightarrow> bool" where
  "queue_ok f mx =
     ((\<forall>k. f k \<noteq> None \<and> prefix queuePrefix k \<longrightarrow> (\<exists>n. k = queue_key n))
      \<and> (mxSeeded mx \<longrightarrow> (\<forall>n. f (queue_key n) \<noteq> None \<longrightarrow> n \<le> mxNextID mx)))"

lemma queue_list_append:
  assumes fin: "finite {k. f k \<noteq> None \<and> prefix queuePrefix k}"
    and less: "\<And>k. f k \<noteq> None \<Longrightarrow> prefix queuePrefix k \<Longrightarrow> k < key" and key: "prefix queuePrefix key"
  shows "queue_list (f(key := Some raw)) = queue_list f @ [(key, raw)]"
proof (rule queue_list_eq)
  let ?S = "{k. f k \<noteq> None \<and> prefix queuePrefix k}"
  have keys: "map fst (queue_list f @ [(key, raw)]) = sorted_list_of_set ?S @ [key]"
    by (simp add: queue_list_def comp_def)
  show "sorted (map fst (queue_list f @ [(key, raw)]))"
    unfolding keys using fin less by (auto simp: sorted_append intro: less_imp_le)
  show "distinct (map fst (queue_list f @ [(key, raw)]))"
    unfolding keys using fin less by auto
  show "prefix queuePrefix k" if "k \<in> set (map fst (queue_list f @ [(key, raw)]))" for k
    using that fin key unfolding keys by auto
  show "(f(key := Some raw)) k = map_of (queue_list f @ [(key, raw)]) k" if "prefix queuePrefix k" for k
  proof -
    have "map_of (queue_list f) k = (if k \<in> ?S then f k else None)"
      using fin by (auto simp: queue_list_def map_of_map_restrict restrict_map_def)
    with that less [of key] show ?thesis by (auto simp: map_add_def split: option.split)
  qed
qed

lemma queue_list_drop:
  assumes fin: "finite {k. f k \<noteq> None \<and> prefix queuePrefix k}"
    and g: "\<And>k. prefix queuePrefix k \<Longrightarrow> g k = (if k \<in> set (take n (map fst (queue_list f))) then None else f k)"
  shows "queue_list g = drop n (queue_list f)"
proof (rule queue_list_eq)
  let ?S = "{k. f k \<noteq> None \<and> prefix queuePrefix k}"
  have keys: "map fst (drop n (queue_list f)) = drop n (sorted_list_of_set ?S)"
    by (simp add: queue_list_def comp_def drop_map)
  have all: "map fst (queue_list f) = sorted_list_of_set ?S" by (simp add: queue_list_def comp_def)
  show "sorted (map fst (drop n (queue_list f)))" "distinct (map fst (drop n (queue_list f)))"
    unfolding keys by (simp_all add: sorted_wrt_drop)
  show "prefix queuePrefix k" if "k \<in> set (map fst (drop n (queue_list f)))" for k
    using that fin unfolding keys by (auto dest: in_set_dropD)
  show "g k = map_of (drop n (queue_list f)) k" if pre: "prefix queuePrefix k" for k
  proof -
    define T where "T = set (take n (sorted_list_of_set ?S))"
    define D where "D = set (drop n (sorted_list_of_set ?S))"
    have gk: "g k = (if k \<in> T then None else f k)" using g [OF pre] by (simp only: all T_def)
    have disj: "T \<inter> D = {}"
      unfolding T_def D_def by (rule set_take_disj_set_drop_if_distinct) simp_all
    have "T \<union> D = set (take n (sorted_list_of_set ?S) @ drop n (sorted_list_of_set ?S))"
      by (simp only: T_def D_def set_append)
    also have "\<dots> = ?S" by (simp only: append_take_drop_id set_sorted_list_of_set [OF fin])
    finally have "k \<in> T \<union> D \<longleftrightarrow> k \<in> ?S" by (rule arg_cong)
    then have mem: "f k \<noteq> None \<longleftrightarrow> k \<in> T \<or> k \<in> D" using pre by simp
    have "map_of (drop n (queue_list f)) k = (if k \<in> D then Some (the (f k)) else None)"
      by (simp add: queue_list_def drop_map map_of_map_restrict restrict_map_def D_def)
    then show ?thesis using gk mem disj by (cases "k \<in> T"; cases "k \<in> D"; cases "f k") (simp_all, blast)
  qed
qed


section \<open>Enqueue refines append\<close>

context reliable_backend
begin

lemma drop_keys:
  assumes "mxBackend e = be" "mxQueue mx = Some q" "inv q"
  shows "\<exists>q'. foldl (\<lambda>mx k. drop_key e k mx) mx ds
      = mx\<lparr>mxQueue := Some q', mxDropped := mxDropped mx + of_nat (length ds)\<rparr>
    \<and> inv q' \<and> view q' queueNamespace = (\<lambda>k. if k \<in> set ds then None else view q queueNamespace k)"
  using assms(2,3)
proof (induction ds arbitrary: mx q)
  case Nil
  then have "mx\<lparr>mxQueue := Some q\<rparr> = mx" by (cases mx) simp
  with Nil show ?case by (intro exI [of _ q]) auto
next
  case (Cons k ds)
  let ?q = "snd (beDelete be queueNamespace k q)"
  have del: "inv ?q" "view ?q = (view q)(queueNamespace := (view q queueNamespace)(k := None))"
    using deleted [OF Cons.prems(2)] by blast+
  have "drop_key e k mx = mx\<lparr>mxQueue := Some ?q, mxDropped := mxDropped mx + 1\<rparr>"
    using Cons.prems(1) assms(1) by (simp add: drop_key_def delete_key_def)
  with Cons.IH [of "drop_key e k mx" ?q] del show ?case by (auto simp: fun_eq_iff add.assoc)
qed

lemma finite_queue: "inv q \<Longrightarrow> finite {k. view q queueNamespace k \<noteq> None \<and> prefix queuePrefix k}"
  by (metis listed finite_set)

lemma listed_sorted:
  assumes "inv q"
  obtains ks where "beList be queueNamespace queuePrefix q = Inr ks"
    "sort ks = map fst (queue_list (view q queueNamespace))"
    "set ks = {k. view q queueNamespace k \<noteq> None \<and> prefix queuePrefix k}"
proof -
  obtain ks where ks: "beList be queueNamespace queuePrefix q = Inr ks" "distinct ks"
      "set ks = {k. view q queueNamespace k \<noteq> None \<and> prefix queuePrefix k}"
    by (rule listed [OF assms])
  have "sort ks = sorted_list_of_set (set ks)"
    using ks(2) by (simp add: sorted_list_of_set_sort_remdups distinct_remdups_id)
  then have "sort ks = map fst (queue_list (view q queueNamespace))"
    by (simp add: ks(3) queue_list_def comp_def)
  with ks show ?thesis by (intro that) auto
qed

lemma enforceCap_refines_drop:
  assumes "mxBackend e = be" "mxQueue mx = Some q" "inv q"
  shows "\<exists>q' d. enforceCap e mx = mx\<lparr>mxQueue := Some q', mxDropped := d\<rparr> \<and> inv q'
    \<and> queue_list (view q' queueNamespace)
        = drop (length (queue_list (view q queueNamespace)) - nat (maxQueued mx)) (queue_list (view q queueNamespace))
    \<and> (\<forall>k. view q' queueNamespace k \<noteq> None \<longrightarrow> view q queueNamespace k \<noteq> None)"
proof -
  let ?es = "queue_list (view q queueNamespace)"
  obtain ks where ks: "beList be queueNamespace queuePrefix q = Inr ks" "sort ks = map fst ?es"
    by (rule listed_sorted [OF assms(3)])
  have len: "length ks = length ?es" using arg_cong [OF ks(2), of length] by simp
  have pos: "0 < maxQueued mx" by (simp add: maxQueued_def)
  let ?n = "length ?es - nat (maxQueued mx)"
  have run: "enforceCap e mx = foldl (\<lambda>mx k. drop_key e k mx) mx (take ?n (map fst ?es))"
  proof (cases "int (length ?es) - maxQueued mx \<le> 0")
    case True
    then have "?n = 0" by simp
    with True show ?thesis using assms(1,2) ks(1) len by (simp add: enforceCap_def)
  next
    case False
    then have "nat (int (length ?es) - maxQueued mx) = ?n" using pos by simp
    with False show ?thesis using assms(1,2) ks len by (simp add: enforceCap_def)
  qed
  obtain q' where q': "enforceCap e mx = mx\<lparr>mxQueue := Some q',
        mxDropped := mxDropped mx + of_nat (length (take ?n (map fst ?es)))\<rparr>" "inv q'"
      "view q' queueNamespace = (\<lambda>k. if k \<in> set (take ?n (map fst ?es)) then None else view q queueNamespace k)"
    using drop_keys [OF assms, of "take ?n (map fst ?es)"] run by auto
  moreover have "queue_list (view q' queueNamespace) = drop ?n ?es"
    by (rule queue_list_drop [OF finite_queue [OF assms(3)]]) (simp only: q'(3))
  ultimately show ?thesis by (intro exI conjI) (auto split: if_splits)
qed

lemma seedNextID_covers:
  assumes "mxBackend e = be" "mxQueue mx = Some q" "inv q" "queue_ok (view q queueNamespace) mx"
  shows "seedNextID e mx = mx\<lparr>mxSeeded := True, mxNextID := mxNextID (seedNextID e mx)\<rparr>"
    and "view q queueNamespace (queue_key n) \<noteq> None \<Longrightarrow> n \<le> mxNextID (seedNextID e mx)"
proof -
  obtain ks where ks: "beList be queueNamespace queuePrefix q = Inr ks"
      "set ks = {k. view q queueNamespace k \<noteq> None \<and> prefix queuePrefix k}"
    using listed_sorted [OF assms(3)] by metis
  show "seedNextID e mx = mx\<lparr>mxSeeded := True, mxNextID := mxNextID (seedNextID e mx)\<rparr>"
    using ks(1) assms(1,2) by (cases mx) (simp add: seedNextID_def)
  show "n \<le> mxNextID (seedNextID e mx)" if "view q queueNamespace (queue_key n) \<noteq> None"
  proof (cases "mxSeeded mx")
    case True
    with assms(4) that show ?thesis by (simp add: queue_ok_def seedNextID_def)
  next
    case False
    have "queue_key n \<in> set ks" using that by (simp add: ks(2))
    then have "n \<le> seed_from ks (mxNextID mx)" using seed_from_bounds [of "mxNextID mx" ks] by blast
    with False show ?thesis using ks(1) assms(1,2) by (simp add: seedNextID_def)
  qed
qed

lemma enqueue_refines_append:
  assumes "mxBackend e = be" "mxQueue mx = Some q" "inv q" "queue_ok (view q queueNamespace) mx"
    and "encodeQueued (mxCodec e) msg = Some raw"
    and "unat (mxNextID (seedNextID e mx)) + 1 < 2 ^ 64"
  shows "\<exists>q'. mxQueue (enqueue e msg mx) = Some q' \<and> inv q'
    \<and> queue_ok (view q' queueNamespace) (enqueue e msg mx)
    \<and> queue_list (view q' queueNamespace)
        = drop (Suc (length (queue_list (view q queueNamespace))) - nat (maxQueued mx))
            (queue_list (view q queueNamespace) @ [(queue_key (mxNextID (seedNextID e mx) + 1), raw)])"
proof -
  let ?f = "view q queueNamespace" and ?n = "mxNextID (seedNextID e mx)"
  let ?mx = "(seedNextID e mx)\<lparr>mxNextID := ?n + 1\<rparr>"
  note seed = seedNextID_covers [OF assms(1-4)]
  have lt: "?n < ?n + 1" using assms(6) by (simp add: word_less_nat_alt unat_word_ariths)
  obtain q1 where q1: "bePut be queueNamespace (queue_key (?n + 1)) raw q = (Inr (), q1)"
    using put_total [OF assms(3)] by blast
  have v1: "inv q1" "view q1 queueNamespace = ?f(queue_key (?n + 1) := Some raw)"
    using put_ok [OF assms(3) q1] by auto
  have new: "k < queue_key (?n + 1)" if "?f k \<noteq> None" "prefix queuePrefix k" for k
  proof -
    from that have "\<exists>m. k = queue_key m" using assms(4) unfolding queue_ok_def by blast
    then obtain m where "k = queue_key m" ..
    with that seed(2) [of m] lt show ?thesis by (simp add: queue_key_less)
  qed
  have list: "queue_list (view q1 queueNamespace) = queue_list ?f @ [(queue_key (?n + 1), raw)]"
    unfolding v1(2) by (rule queue_list_append [OF finite_queue [OF assms(3)] new]) simp_all
  let ?mx1 = "?mx\<lparr>mxQueue := Some q1\<rparr>"
  have run: "enqueue e msg mx = enforceCap e ?mx1"
    using assms(1,2,5) q1 by (simp add: enqueue_def Let_def)
  have flds: "mxSeeded ?mx1" "mxNextID ?mx1 = ?n + 1" "maxQueued ?mx1 = maxQueued mx"
    by (subst seed(1), simp add: maxQueued_def)+
  obtain q' d where q': "enforceCap e ?mx1 = ?mx1\<lparr>mxQueue := Some q', mxDropped := d\<rparr>" "inv q'"
      "queue_list (view q' queueNamespace)
        = drop (length (queue_list (view q1 queueNamespace)) - nat (maxQueued ?mx1)) (queue_list (view q1 queueNamespace))"
      "\<forall>k. view q' queueNamespace k \<noteq> None \<longrightarrow> view q1 queueNamespace k \<noteq> None"
    using enforceCap_refines_drop [OF assms(1), of ?mx1 q1] v1(1) by auto
  have "queue_ok (view q' queueNamespace) (enqueue e msg mx)"
    unfolding run q'(1) queue_ok_def
  proof (intro conjI allI impI, goal_cases)
    case (1 k)
    then show ?case using q'(4) v1(2) assms(4) by (auto simp: queue_ok_def split: if_splits)
  next
    case (2 m)
    then have "view q1 queueNamespace (queue_key m) \<noteq> None" using q'(4) by blast
    then have "?f (queue_key m) \<noteq> None \<or> m = ?n + 1" using v1(2) by (auto split: if_splits)
    then have "m \<le> ?n + 1" using seed(2) [of m] lt by (auto intro: order_trans less_imp_le)
    then show ?case by simp
  qed
  with q' show ?thesis unfolding run by (intro exI [of _ q']) (simp add: list flds)
qed

end

section \<open>Sending\<close>

lemma seed_from_origin: "seed_from ks n = n \<or> (\<exists>k v. k \<in> set ks \<and> scan_key k = Some v \<and> seed_from ks n = of_nat v)"
proof (induction ks arbitrary: n)
  case (Cons k ks)
  show ?case
  proof (cases "scan_key k")
    case None
    with Cons [of n] show ?thesis by auto
  next
    case (Some v)
    from Cons [of "if of_nat v > n then of_nat v else n"] Some show ?thesis
      by (cases "n < of_nat v") auto
  qed
qed simp

lemma unat_below_max: "unat (n :: uint64) + 1 < 2 ^ 64 \<longleftrightarrow> n \<noteq> - 1"
proof -
  have "n = - 1 \<longleftrightarrow> unat n = unat (- 1 :: uint64)" by (metis word_unat_eq_iff)
  also have "unat (- 1 :: uint64) = 2 ^ 64 - 1" by (simp add: unsigned_minus_1_eq_mask mask_eq_exp_minus_1)
  finally show ?thesis using uint64_unat_bound [of n] by auto
qed

text \<open>The counter has numbers left: neither it nor a key of the queue is at the end of 64 bits.\<close>

definition numbers_left :: "(string \<Rightarrow> bytes option) \<Rightarrow> 'st mux \<Rightarrow> bool" where
  "numbers_left f mx = (mxNextID mx \<noteq> - 1 \<and> f (queue_key (- 1)) = None)"

lemma enqueue_wire: "mxWire (enqueue e msg mx) = mxWire mx"
proof -
  have drops: "mxWire (foldl (\<lambda>mx k. drop_key e k mx) mx ks) = mxWire mx" for ks mx
    by (induction ks arbitrary: mx) (simp_all add: drop_key_def delete_key_def)
  have "mxWire (seedNextID e mx) = mxWire mx"
    by (simp add: seedNextID_def split: option.splits sum.splits)
  then show ?thesis
    by (auto simp: enqueue_def enforceCap_def Let_def drops split: option.splits sum.splits prod.splits)
qed

context reliable_backend
begin

lemma seedNextID_left:
  assumes "mxBackend e = be" "mxQueue mx = Some q" "inv q" "queue_ok (view q queueNamespace) mx"
    and "numbers_left (view q queueNamespace) mx"
  shows "unat (mxNextID (seedNextID e mx)) + 1 < 2 ^ 64"
  unfolding unat_below_max
proof (cases "mxSeeded mx")
  case False
  obtain ks where ks: "beList be queueNamespace queuePrefix q = Inr ks"
      "set ks = {k. view q queueNamespace k \<noteq> None \<and> prefix queuePrefix k}"
    using listed_sorted [OF assms(3)] by metis
  have "of_nat v \<noteq> (- 1 :: uint64)" if "k \<in> set ks" "scan_key k = Some v" for k v
  proof -
    from that(1) have "\<exists>n. k = queue_key n" using assms(4) unfolding ks(2) queue_ok_def by blast
    then obtain n where n: "k = queue_key n" ..
    with that assms(5) have "n \<noteq> - 1" by (auto simp: ks(2) numbers_left_def)
    with that(2) show ?thesis by (auto simp: n scan_queue_key)
  qed
  with seed_from_origin [of ks "mxNextID mx"] assms(5) have "seed_from ks (mxNextID mx) \<noteq> - 1"
    by (auto simp: numbers_left_def)
  with False ks(1) assms(1,2) show "mxNextID (seedNextID e mx) \<noteq> - 1" by (simp add: seedNextID_def)
qed (use assms(5) in \<open>simp add: seedNextID_def numbers_left_def\<close>)

lemma flush_wire:
  assumes "mxBackend e = be" "mxQueue mx = Some q" "inv q"
  shows "prefix (mxWire mx) (mxWire (flush e peer mx))"
proof -
  obtain es' ms a' n where "drain (decodeQueued (mxCodec e)) (mxUp e) peer (queue_list (view q queueNamespace)) (mxAttempts mx)
      = (es', ms, a', n)" by (metis prod_cases4)
  from flush_refines_list [OF assms this] show ?thesis by auto
qed

text \<open>
  A message that may wait is put on the wire when its peer is connected and takes it, ahead of what a flush adds; otherwise it is the last
  entry of the queue.
\<close>

lemma queued_send:
  assumes "mxBackend e = be" "mxQueue mx = Some q" "inv q" "queue_ok (view q queueNamespace) mx" "numbers_left (view q queueNamespace) mx"
    and "encodeQueued (mxCodec e) msg = Some raw" "mux_Send e msg True mx = (r, mx')"
  shows "if peerFor (qmPeer msg) mx \<and> mxUp e (mxAttempts mx)
    then r = Inr True \<and> prefix (mxWire mx @ [msg]) (mxWire mx')
    else r = Inr False \<and> mxWire mx' = mxWire mx \<and> (\<exists>q' key. mxQueue mx' = Some q'
      \<and> queue_list (view q' queueNamespace) = drop (Suc (length (queue_list (view q queueNamespace))) - nat (maxQueued mx))
            (queue_list (view q queueNamespace) @ [(key, raw)]))"
proof -
  define sent where "sent = (peerFor (qmPeer msg) mx \<and> mxUp e (mxAttempts mx))"
  define mx1 where "mx1 = (if peerFor (qmPeer msg) mx then snd (peer_Send e msg mx) else mx)"
  have send: "(r, mx') = (if sent then (Inr True, flush e (qmPeer msg) mx1) else (Inr False, enqueue e msg mx1))"
    using assms(7) by (auto simp: mux_Send_def Let_def peer_Send_def sent_def mx1_def split: if_splits)
  have mx1: "mxQueue mx1 = Some q" "mxWire mx1 = mxWire mx @ (if sent then [msg] else [])" "maxQueued mx1 = maxQueued mx"
      "queue_ok f mx1 = queue_ok f mx" "numbers_left f mx1 = numbers_left f mx" for f
    using assms(2) by (auto simp: mx1_def sent_def peer_Send_def Let_def queue_ok_def numbers_left_def maxQueued_def)
  show ?thesis
  proof (cases sent)
    case True
    with flush_wire [OF assms(1) mx1(1) assms(3), of "qmPeer msg"] send mx1(2) show ?thesis by (simp add: sent_def)
  next
    case False
    have "unat (mxNextID (seedNextID e mx1)) + 1 < 2 ^ 64"
      by (rule seedNextID_left [OF assms(1) mx1(1) assms(3)]) (simp_all add: mx1 assms)
    from enqueue_refines_append [OF assms(1) mx1(1) assms(3) _ assms(6) this] assms(4) mx1 False send
    show ?thesis unfolding sent_def [symmetric] by (auto simp: enqueue_wire)
  qed
qed

end



section \<open>Receive streams and delivery\<close>

text \<open>
  The inbound side: \<open>Receive\<close> registers a buffered channel for a module and, when its context
  ends, removes it from \<open>subs\<close> under the lock and closes it; \<open>deliver\<close>, called by the read
  loop of the hypervisor peer, copies the channels of the module under the lock and then sends to
  each without blocking. The steps are the sections between which other goroutines may run. A send
  on a closed channel panics, also in a \<open>select\<close> with a default.
\<close>

definition inboundBuffer :: nat where "inboundBuffer = 64"

record recv_state =
  rsSubs :: "(string \<times> nat) list"
  rsNext :: nat
  rsBuf :: "nat \<Rightarrow> queued_message list"
  rsRemoved :: "nat set"
  rsClosed :: "nat set"
  rsPending :: "(nat list \<times> queued_message) option"
  rsPanicked :: bool

definition recv_init :: recv_state where
  "recv_init = \<lparr>rsSubs = [], rsNext = 0, rsBuf = (\<lambda>_. []), rsRemoved = {}, rsClosed = {},
     rsPending = None, rsPanicked = False\<rparr>"

text \<open>The non-blocking send of \<open>deliver\<close> to one channel.\<close>

definition offer :: "nat \<Rightarrow> queued_message \<Rightarrow> recv_state \<Rightarrow> recv_state" where
  "offer c msg s =
     (if c \<in> rsClosed s then s\<lparr>rsPanicked := True\<rparr>
      else if length (rsBuf s c) < inboundBuffer then s\<lparr>rsBuf := (rsBuf s)(c := rsBuf s c @ [msg])\<rparr>
      else s)"

inductive recv_step :: "recv_state \<Rightarrow> recv_state \<Rightarrow> bool" where
  Subscribe: "recv_step s (s\<lparr>rsSubs := rsSubs s @ [(m, rsNext s)], rsNext := Suc (rsNext s)\<rparr>)"
| Unsubscribe: "(m, c) \<in> set (rsSubs s) \<Longrightarrow>
    recv_step s (s\<lparr>rsSubs := filter (\<lambda>(_, c'). c' \<noteq> c) (rsSubs s), rsRemoved := insert c (rsRemoved s)\<rparr>)"
| Close: "c \<in> rsRemoved s \<Longrightarrow>
    recv_step s (s\<lparr>rsRemoved := rsRemoved s - {c}, rsClosed := insert c (rsClosed s)\<rparr>)"
| Snapshot: "rsPending s = None \<Longrightarrow>
    recv_step s (s\<lparr>rsPending := Some (map snd (filter (\<lambda>(m', _). m' = m) (rsSubs s)), msg)\<rparr>)"
| Offer: "rsPending s = Some (c # cs, msg) \<Longrightarrow>
    recv_step s ((offer c msg s)\<lparr>rsPending := Some (cs, msg)\<rparr>)"
| Delivered: "rsPending s = Some ([], msg) \<Longrightarrow> recv_step s (s\<lparr>rsPending := None\<rparr>)"
| Consume: "rsBuf s c = msg # rest \<Longrightarrow> recv_step s (s\<lparr>rsBuf := (rsBuf s)(c := rest)\<rparr>)"

inductive recv_reach :: "recv_state \<Rightarrow> bool" where
  init: "recv_reach recv_init"
| step: "recv_reach s \<Longrightarrow> recv_step s s' \<Longrightarrow> recv_reach s'"

lemma recv_buffers_bounded: "recv_reach s \<Longrightarrow> length (rsBuf s c) \<le> inboundBuffer"
proof (induction rule: recv_reach.induct)
  case (step s s')
  from step(2,3) show ?case
  proof (cases rule: recv_step.cases)
    case (Consume c' msg rest)
    then have "length rest < length (rsBuf s c')" by simp
    with step.IH show ?thesis using Consume by (cases "c = c'") auto
  qed (auto simp: offer_def)
qed (simp add: recv_init_def)


section \<open>Properties\<close>

text \<open>
  C27: a flush delivers in the order of the queue and loses nothing. With a backend that does not
  fail, the messages for the peer that were queued are exactly the ones the flush put on the wire,
  in order, followed by the ones still queued; the entries for other peers are untouched; and when
  every attempt goes through, none for this peer is left.
\<close>

theorem flush_fifo:
  assumes "reliable_backend be ok view" "mxBackend e = be" "mxQueue mx = Some q" "ok q"
  shows "\<exists>q' ms. mxQueue (flush e peer mx) = Some q' \<and> ok q' \<and> mxWire (flush e peer mx) = mxWire mx @ ms
    \<and> msgs_for (decodeQueued (mxCodec e)) peer (queue_list (view q queueNamespace))
        = ms @ msgs_for (decodeQueued (mxCodec e)) peer (queue_list (view q' queueNamespace))
    \<and> entries_for_others (decodeQueued (mxCodec e)) peer (queue_list (view q' queueNamespace))
        = entries_for_others (decodeQueued (mxCodec e)) peer (queue_list (view q queueNamespace))
    \<and> ((\<forall>k. mxUp e k) \<longrightarrow>
        msgs_for (decodeQueued (mxCodec e)) peer (queue_list (view q' queueNamespace)) = [])"
proof -
  let ?dec = "decodeQueued (mxCodec e)"
  obtain es' ms a' n where d: "drain ?dec (mxUp e) peer (queue_list (view q queueNamespace)) (mxAttempts mx) = (es', ms, a', n)"
    by (cases "drain ?dec (mxUp e) peer (queue_list (view q queueNamespace)) (mxAttempts mx)")
  from reliable_backend.flush_refines_list [OF assms d] drain_fifo [OF d] drain_all [OF d]
  show ?thesis by auto
qed

text \<open>A queue of two messages for different peers, and a codec that knows the two.\<close>

definition ex_msg :: "int \<Rightarrow> queued_message" where
  "ex_msg peer = \<lparr>qmModule = ''m'', qmPeer = peer, qmKind = ''k'', qmData = []\<rparr>"

definition ex_codec :: queue_codec where
  "ex_codec = \<lparr>encodeQueued = (\<lambda>qm. if qm = ex_msg 1 then Some ''g'' else if qm = ex_msg 2 then Some ''h'' else None),
     decodeQueued = (\<lambda>b. if b = ''g'' then Some (ex_msg 1) else if b = ''h'' then Some (ex_msg 2) else None)\<rparr>"

definition ex_queue :: mem_store where
  "ex_queue = [((queueNamespace, queue_key 5), ''h''), ((queueNamespace, queue_key 4), ''g'')]"

definition ex_mux_env :: "mem_store mux_env" where
  "ex_mux_env = \<lparr>mxBackend = MemStore, mxCodec = ex_codec, mxUp = (\<lambda>_. True)\<rparr>"

definition ex_mux :: "mem_store mux" where
  "ex_mux = \<lparr>mxQueue = Some ex_queue, mxMaxQueued = 0, mxNextID = 0, mxSeeded = False, mxDropped = 0,
     mxGateWeave = True, mxHypervisor = True, mxAttempts = 0, mxWire = []\<rparr>"

lemma ex_mux_fields [simp]:
  "mxBackend ex_mux_env = MemStore" "mxQueue ex_mux = Some ex_queue" "mxUp ex_mux_env k"
  "mxCodec ex_mux_env = ex_codec" "mxWire ex_mux = []" "\<not> mxSeeded ex_mux" "mxNextID ex_mux = 0"
  by (simp_all add: ex_mux_env_def ex_mux_def)

lemma ex_queue_inv [simp]: "mem_inv ex_queue"
  by (simp add: mem_inv_def ex_queue_def)

theorem flush_fifo_witness:
  "\<exists>q' ms. mxQueue (flush ex_mux_env 2 ex_mux) = Some q' \<and> mxWire (flush ex_mux_env 2 ex_mux) = ms
    \<and> msgs_for (decodeQueued ex_codec) 2 (queue_list (mem_view ex_queue queueNamespace)) = ms
    \<and> msgs_for (decodeQueued ex_codec) 2 (queue_list (mem_view q' queueNamespace)) = []"
  using flush_fifo [OF memr.reliable_backend_axioms, of ex_mux_env ex_mux ex_queue 2] by auto

text \<open>
  C28: \<open>enqueue\<close> appends, as long as the calls of the store succeed. Also right after a restart, when the counter is
  recovered from the keys in the store, the new message goes to the end of the queue under a key of its own, and when
  the queue is over its cap exactly the oldest messages are dropped; the counter must not have reached the end of 64 bits, and the keys of
  the queue must be ones it made. (When the listing of the first \<open>enqueue\<close> fails, the message overwrites a queued one:
  \<open>enqueue_overwrites_after_list_error\<close>.)
\<close>

theorem enqueue_appends:
  assumes "reliable_backend be ok view" "mxBackend e = be" "mxQueue mx = Some q" "ok q"
    and "queue_ok (view q queueNamespace) mx" "encodeQueued (mxCodec e) msg = Some raw"
    and "unat (mxNextID (seedNextID e mx)) + 1 < 2 ^ 64"
  shows "\<exists>q' key. mxQueue (enqueue e msg mx) = Some q' \<and> ok q'
    \<and> queue_ok (view q' queueNamespace) (enqueue e msg mx)
    \<and> queue_list (view q' queueNamespace)
        = drop (Suc (length (queue_list (view q queueNamespace))) - nat (maxQueued mx))
            (queue_list (view q queueNamespace) @ [(key, raw)])"
  using reliable_backend.enqueue_refines_append [OF assms] by blast

text \<open>
  Two messages that were queued in the encrypted store before a restart: the store is opened again over the database with nonces
  of its own, and the counter of the new process is at zero.
\<close>

definition ex_sealed_queue :: "mem_store store" where
  "ex_sealed_queue = snd (Store_Put ex_store_env queueNamespace (queue_key 5) ''h''
     (snd (Store_Put ex_store_env queueNamespace (queue_key 4) ''g'' ex_store)))"

definition ex_reopened_queue :: "mem_store store" where
  "ex_reopened_queue = \<lparr>storeDB = storeDB ex_sealed_queue, storeDraws = 0, storeRandom = (\<lambda>_. Some (replicate 12 CHR ''y''))\<rparr>"

definition ex_sealed_env :: "mem_store store mux_env" where
  "ex_sealed_env = \<lparr>mxBackend = Store ex_store_env, mxCodec = ex_codec, mxUp = (\<lambda>_. True)\<rparr>"

definition ex_restarted_mux :: "mem_store store mux" where
  "ex_restarted_mux = \<lparr>mxQueue = Some ex_reopened_queue, mxMaxQueued = 0, mxNextID = 0, mxSeeded = False, mxDropped = 0,
     mxGateWeave = True, mxHypervisor = True, mxAttempts = 0, mxWire = []\<rparr>"

lemma ex_store_reliable: "reliable_backend (Store ex_store_env) (store_ready ex_store_env) (store_view ex_store_env)"
proof (rule Store_reliable)
  show "bolt_total (envBolt ex_store_env)" by (simp add: ex_store_env_def bolt_total_def is_ok_def ex_bolt_def)
qed (simp_all add: ex_store_env_def ex_bolt_laws ex_aead_laws)

lemma ex_reopened_queue_view:
  "store_ready ex_store_env ex_reopened_queue"
  "store_view ex_store_env ex_reopened_queue queueNamespace = [queue_key 4 \<mapsto> ''g'', queue_key 5 \<mapsto> ''h'']"
proof -
  let ?v = "store_view ex_store_env" and ?ok = "store_ready ex_store_env"
  have ok0: "?ok ex_store" and v0: "?v ex_store queueNamespace = Map.empty"
    by (simp_all add: store_ready_def store_inv_def store_view_def ex_store_env_def ex_store_def ex_bolt_def mem_view_def aeadNonceSize_def fun_eq_iff)
  have put: "?ok (snd (Store_Put ex_store_env queueNamespace k v s))
      \<and> ?v (snd (Store_Put ex_store_env queueNamespace k v s)) queueNamespace = (?v s queueNamespace)(k \<mapsto> v)"
    if "?ok s" for k v s
    using reliable_backend.put_total [OF ex_store_reliable that, of queueNamespace k v]
      store_backend.put_ok [OF reliable_backend.axioms(1) [OF ex_store_reliable] that, of queueNamespace k v]
    by (auto simp: Store_def)
  have s: "?ok ex_sealed_queue" "?v ex_sealed_queue queueNamespace = [queue_key 4 \<mapsto> ''g'', queue_key 5 \<mapsto> ''h'']"
    using put ok0 v0 by (simp_all add: ex_sealed_queue_def)
  then show "?ok ex_reopened_queue" "?v ex_reopened_queue queueNamespace = [queue_key 4 \<mapsto> ''g'', queue_key 5 \<mapsto> ''h'']"
    by (simp_all add: ex_reopened_queue_def store_ready_def store_inv_def store_view_def aeadNonceSize_def fun_eq_iff)
qed

theorem enqueue_appends_witness:
  "\<exists>q' key. mxQueue (enqueue ex_sealed_env (ex_msg 1) ex_restarted_mux) = Some q'
    \<and> queue_list (store_view ex_store_env q' queueNamespace)
        = drop (Suc (length (queue_list (store_view ex_store_env ex_reopened_queue queueNamespace))) - nat (maxQueued ex_restarted_mux))
            (queue_list (store_view ex_store_env ex_reopened_queue queueNamespace) @ [(key, ''g'')])"
proof -
  have ok: "queue_ok (store_view ex_store_env ex_reopened_queue queueNamespace) ex_restarted_mux"
    by (auto simp: queue_ok_def ex_reopened_queue_view ex_restarted_mux_def split: if_splits)
  have enc: "encodeQueued (mxCodec ex_sealed_env) (ex_msg 1) = Some ''g''" by (simp add: ex_sealed_env_def ex_codec_def)
  have "unat (mxNextID (seedNextID ex_sealed_env ex_restarted_mux)) = 5" by code_simp
  then have "unat (mxNextID (seedNextID ex_sealed_env ex_restarted_mux)) + 1 < 2 ^ 64" by simp
  from enqueue_appends [OF ex_store_reliable _ _ ex_reopened_queue_view(1) ok enc this]
  show ?thesis by (auto simp: ex_sealed_env_def ex_restarted_mux_def)
qed

text \<open>
  When the store cannot list the queue at the first \<open>enqueue\<close> after a start, the counter begins
  again at 1 and the message replaces whatever was queued under that key.
\<close>

theorem enqueue_overwrites_after_list_error:
  assumes "store_backend be ok view" "mxBackend e = be" "mxQueue mx = Some q" "ok q"
    and "\<not> mxSeeded mx" "mxNextID mx = 0" "beList be queueNamespace queuePrefix q = Inl err"
    and "encodeQueued (mxCodec e) msg = Some raw"
    and "bePut be queueNamespace (queue_key 1) raw q = (Inr (), q')" "beList be queueNamespace queuePrefix q' = Inl err"
  shows "mxQueue (enqueue e msg mx) = Some q' \<and> view q' queueNamespace (queue_key 1) = Some raw"
  using assms store_backend.put_ok [OF assms(1,4,9)]
  by (simp add: enqueue_def seedNextID_def enforceCap_def)

text \<open>A store whose listing fails while its reads and writes work.\<close>

definition ex_unlisted :: "mem_store backend" where
  "ex_unlisted = MemStore\<lparr>beList := (\<lambda>_ _ _. Inl ''i/o error'')\<rparr>"

lemma ex_unlisted_backend: "store_backend ex_unlisted mem_inv mem_view"
  by unfold_locales (auto simp: ex_unlisted_def MemStore_def mem_Get_def mem_Put_def mem_Delete_def mem_inv_def
      mem_view_def map_of_filter_neq distinct_filter_fst fun_eq_iff)

theorem enqueue_overwrites_after_list_error_witness:
  "mem_view [((queueNamespace, queue_key 1), ''h'')] queueNamespace (queue_key 1) = Some ''h''
   \<and> (\<exists>q'. mxQueue (enqueue (ex_mux_env\<lparr>mxBackend := ex_unlisted\<rparr>) (ex_msg 1)
            (ex_mux\<lparr>mxQueue := Some [((queueNamespace, queue_key 1), ''h'')]\<rparr>)) = Some q'
    \<and> mem_view q' queueNamespace (queue_key 1) = Some ''g'')"
  using enqueue_overwrites_after_list_error [OF ex_unlisted_backend, of "ex_mux_env\<lparr>mxBackend := ex_unlisted\<rparr>"
      "ex_mux\<lparr>mxQueue := Some [((queueNamespace, queue_key 1), ''h'')]\<rparr>"
      "[((queueNamespace, queue_key 1), ''h'')]" "''i/o error''" "ex_msg 1" "''g''"
      "snd (mem_Put queueNamespace (queue_key 1) ''g'' [((queueNamespace, queue_key 1), ''h'')])"]
  by (simp add: ex_unlisted_def MemStore_def mem_Put_def ex_codec_def mem_inv_def mem_view_def)

text \<open>
  Closing a receive stream can crash core. From the initial state there is an interleaving in
  which \<open>deliver\<close> has taken its copy of a channel, the context of the stream ends and the channel
  is closed, and the send of \<open>deliver\<close> panics.
\<close>

theorem deliver_close_race: "\<exists>s. recv_reach s \<and> rsPanicked s"
proof -
  let ?msg = "\<lparr>qmModule = ''m'', qmPeer = 2, qmKind = ''k'', qmData = []\<rparr>"
  let ?s1 = "recv_init\<lparr>rsSubs := [(''m'', 0)], rsNext := 1\<rparr>"
  let ?s2 = "?s1\<lparr>rsPending := Some ([0], ?msg)\<rparr>"
  let ?s3 = "?s2\<lparr>rsSubs := [], rsRemoved := {0}\<rparr>"
  let ?s4 = "?s3\<lparr>rsRemoved := {}, rsClosed := {0}\<rparr>"
  have "recv_reach ?s1"
    using recv_step.Subscribe [of recv_init "''m''"] by (intro recv_reach.step [OF recv_reach.init]) (simp add: recv_init_def)
  then have "recv_reach ?s2"
    by (rule recv_reach.step) (use recv_step.Snapshot [of ?s1 "''m''" ?msg] in \<open>simp add: recv_init_def\<close>)
  then have "recv_reach ?s3"
    by (rule recv_reach.step) (use recv_step.Unsubscribe [of "''m''" 0 ?s2] in \<open>simp add: recv_init_def\<close>)
  then have "recv_reach ?s4"
    by (rule recv_reach.step) (use recv_step.Close [of 0 ?s3] in \<open>simp add: recv_init_def\<close>)
  then have "recv_reach ((offer 0 ?msg ?s4)\<lparr>rsPending := Some ([], ?msg)\<rparr>)"
    by (rule recv_reach.step) (rule recv_step.Offer, simp)
  then show ?thesis by (intro exI, intro conjI) (assumption, simp add: offer_def)
qed

end
