(* ===== verification/Event_Bus.thy ===== *)
theory Event_Bus
  imports Manifest
begin

text \<open>
  The event bus (\<open>src/internal/eventbus/bus.go\<close>) and the rule for subscribing to it
  (\<open>topicAllowed\<close> of \<open>src/internal/hostserv/hostserv.go\<close>). A subscription is named by a number
  where the code has its pointer, and the set of subscriptions is an association list. A run of the
  bus interleaves publications, subscriptions, receives and closes; the log of a run records what was
  published, for the theorem that relates it to what a subscriber gets.
\<close>

section \<open>The bus\<close>

record event =
  evTopic :: string
  evData :: bytes
  evPublishedAt :: time
  evSequence :: uint64

record subscription =
  subTopics :: "string list"
  subFeed :: "event list"
  subDropped :: uint64

record bus =
  busSubs :: "(nat \<times> subscription) list"
  busSeq :: "string \<Rightarrow> uint64"

definition feedBuffer :: nat where "feedBuffer = 64"

definition New_bus :: bus where
  "New_bus = \<lparr>busSubs = [], busSeq = (\<lambda>_. 0)\<rparr>"

text \<open>One pattern of a subscription or of an allow-list: exact, or a prefix before a final star.\<close>

definition covers :: "string \<Rightarrow> string \<Rightarrow> bool" where
  "covers p topic =
     (p = topic \<or> (case CutSuffix p ''*'' of None \<Rightarrow> False | Some pre \<Rightarrow> HasPrefix topic pre))"

definition matches :: "string list \<Rightarrow> string \<Rightarrow> bool" where
  "matches topics topic = list_ex (\<lambda>p. covers p topic) topics"

definition deliver_event :: "event \<Rightarrow> subscription \<Rightarrow> subscription" where
  "deliver_event ev s =
     (if matches (subTopics s) (evTopic ev) then
        if length (subFeed s) < feedBuffer then s\<lparr>subFeed := subFeed s @ [ev]\<rparr>
        else s\<lparr>subDropped := subDropped s + 1\<rparr>
      else s)"

definition full_topic :: "string \<Rightarrow> string \<Rightarrow> string" where
  "full_topic from topic = from @ ''.'' @ topic"

definition stamp :: "string \<Rightarrow> string \<Rightarrow> bytes \<Rightarrow> time \<Rightarrow> bus \<Rightarrow> event" where
  "stamp from topic data now b =
     \<lparr>evTopic = full_topic from topic, evData = data, evPublishedAt = now,
      evSequence = busSeq b (full_topic from topic) + 1\<rparr>"

definition Publish :: "string \<Rightarrow> string \<Rightarrow> bytes \<Rightarrow> time \<Rightarrow> bus \<Rightarrow> bus" where
  "Publish from topic data now b =
     (let ev = stamp from topic data now b
      in b\<lparr>busSeq := (busSeq b)(evTopic ev := evSequence ev),
           busSubs := map (\<lambda>(c, s). (c, deliver_event ev s)) (busSubs b)\<rparr>)"

definition Subscribe :: "nat \<Rightarrow> string list \<Rightarrow> bus \<Rightarrow> bus" where
  "Subscribe c topics b =
     b\<lparr>busSubs := (c, \<lparr>subTopics = topics, subFeed = [], subDropped = 0\<rparr>) # busSubs b\<rparr>"

definition Close_sub :: "nat \<Rightarrow> bus \<Rightarrow> bus" where
  "Close_sub c b = b\<lparr>busSubs := filter (\<lambda>(k, _). k \<noteq> c) (busSubs b)\<rparr>"

text \<open>A receive from the feed takes its oldest event.\<close>

definition take_event :: "nat \<Rightarrow> bus \<Rightarrow> (event \<times> bus) option" where
  "take_event c b =
     (case map_of (busSubs b) c of
        None \<Rightarrow> None
      | Some s \<Rightarrow>
          (case subFeed s of
             [] \<Rightarrow> None
           | ev # rest \<Rightarrow>
               Some (ev, b\<lparr>busSubs := map (\<lambda>(k, t). (k, if k = c then t\<lparr>subFeed := rest\<rparr> else t)) (busSubs b)\<rparr>)))"

text \<open>\<open>topicAllowed\<close> of the host services: the same rule, for a requested pattern.\<close>

definition topicAllowed :: "string \<Rightarrow> string list \<Rightarrow> bool" where
  "topicAllowed request allow = list_ex (\<lambda>a. covers a request) allow"


section \<open>Runs\<close>

text \<open>
  A run with its history: the publications in order with their publisher, what each subscriber has
  received so far, and how long the log was when it subscribed.
\<close>

record bus_run =
  brBus :: bus
  brLog :: "(string \<times> event) list"
  brReceived :: "nat \<Rightarrow> event list"
  brStart :: "nat \<Rightarrow> nat"
  brNext :: nat

definition run_init :: bus_run where
  "run_init = \<lparr>brBus = New_bus, brLog = [], brReceived = (\<lambda>_. []), brStart = (\<lambda>_. 0), brNext = 0\<rparr>"

inductive bus_step :: "bus_run \<Rightarrow> bus_run \<Rightarrow> bool" where
  Publish: "bus_step r (r\<lparr>brBus := Publish from topic data now (brBus r),
      brLog := brLog r @ [(from, stamp from topic data now (brBus r))]\<rparr>)"
| Subscribe: "bus_step r (r\<lparr>brBus := Subscribe (brNext r) topics (brBus r),
      brStart := (brStart r)(brNext r := length (brLog r)), brNext := Suc (brNext r)\<rparr>)"
| Receive: "take_event c (brBus r) = Some (ev, b) \<Longrightarrow>
    bus_step r (r\<lparr>brBus := b, brReceived := (brReceived r)(c := brReceived r c @ [ev])\<rparr>)"
| Close: "bus_step r (r\<lparr>brBus := Close_sub c (brBus r)\<rparr>)"

inductive bus_reach :: "bus_run \<Rightarrow> bool" where
  init: "bus_reach run_init"
| step: "bus_reach r \<Longrightarrow> bus_step r r' \<Longrightarrow> bus_reach r'"

text \<open>What a subscriber has got, in its hands or in its feed, and what was published for it.\<close>

definition got :: "bus_run \<Rightarrow> nat \<Rightarrow> subscription \<Rightarrow> event list" where
  "got r c s = brReceived r c @ subFeed s"

definition meant_for :: "bus_run \<Rightarrow> nat \<Rightarrow> subscription \<Rightarrow> event list" where
  "meant_for r c s = filter (\<lambda>ev. matches (subTopics s) (evTopic ev)) (map snd (drop (brStart r c) (brLog r)))"

definition sub_ok :: "bus_run \<Rightarrow> nat \<Rightarrow> subscription \<Rightarrow> bool" where
  "sub_ok r c s =
     (c < brNext r \<and> brStart r c \<le> length (brLog r) \<and> subseq (got r c s) (meant_for r c s)
      \<and> length (subFeed s) \<le> feedBuffer
      \<and> of_nat (length (meant_for r c s)) = of_nat (length (got r c s)) + subDropped s)"

text \<open>The publications under a topic, and that the bus numbers them 1, 2, 3 and so on.\<close>

definition of_topic :: "string \<Rightarrow> (string \<times> event) list \<Rightarrow> event list" where
  "of_topic t log = filter (\<lambda>ev. evTopic ev = t) (map snd log)"

lemma of_topic_append [simp]:
  "of_topic t (log @ [(frm, ev)]) = of_topic t log @ (if evTopic ev = t then [ev] else [])"
  by (simp add: of_topic_def)

definition numbered :: "(string \<times> event) list \<Rightarrow> bool" where
  "numbered log = (\<forall>t. map evSequence (of_topic t log) = map of_nat [1..<Suc (length (of_topic t log))])"

definition attributed :: "(string \<times> event) list \<Rightarrow> bool" where
  "attributed log = list_all (\<lambda>(frm, ev). prefix (frm @ ''.'') (evTopic ev)) log"

definition run_ok :: "bus_run \<Rightarrow> bool" where
  "run_ok r =
     (numbered (brLog r) \<and> attributed (brLog r)
      \<and> (\<forall>t. busSeq (brBus r) t = of_nat (length (of_topic t (brLog r))))
      \<and> (\<forall>c. brNext r \<le> c \<longrightarrow> brReceived r c = [])
      \<and> (\<forall>c s. map_of (busSubs (brBus r)) c = Some s \<longrightarrow> sub_ok r c s))"

lemma map_of_map_snd: "map_of (map (\<lambda>(k, v). (k, f k v)) xs) c = map_option (f c) (map_of xs c)"
  by (induction xs) auto

lemma map_of_filter_key: "map_of (filter (\<lambda>(k, _). k \<noteq> c) xs) k = (if k = c then None else map_of xs k)"
  by (induction xs) auto

lemma subs_Publish:
  "map_of (busSubs (Publish frm topic data now b)) c
     = map_option (deliver_event (stamp frm topic data now b)) (map_of (busSubs b) c)"
  by (simp add: Publish_def Let_def map_of_map_snd)

lemma take_event_Some:
  assumes "take_event c b = Some (ev, b')"
  obtains s rest where "map_of (busSubs b) c = Some s" "subFeed s = ev # rest" "busSeq b' = busSeq b"
    "\<And>k. map_of (busSubs b') k = (if k = c then Some (s\<lparr>subFeed := rest\<rparr>) else map_of (busSubs b) k)"
proof -
  obtain s rest where s: "map_of (busSubs b) c = Some s" "subFeed s = ev # rest"
      "b' = b\<lparr>busSubs := map (\<lambda>(k, t). (k, if k = c then t\<lparr>subFeed := rest\<rparr> else t)) (busSubs b)\<rparr>"
    using assms by (auto simp: take_event_def split: option.splits list.splits)
  have "map_of (busSubs b') k = (if k = c then Some (s\<lparr>subFeed := rest\<rparr>) else map_of (busSubs b) k)" for k
    using s(1) map_of_map_snd [of "\<lambda>k t. if k = c then t\<lparr>subFeed := rest\<rparr> else t" "busSubs b" k]
    by (cases "map_of (busSubs b) k") (auto simp: s(3))
  with s show ?thesis by (intro that) auto
qed

lemma sub_ok_deliver:
  assumes "sub_ok r c s"
  shows "sub_ok (r\<lparr>brBus := b, brLog := brLog r @ [(frm, ev)]\<rparr>) c (deliver_event ev s)"
proof -
  let ?r = "r\<lparr>brBus := b, brLog := brLog r @ [(frm, ev)]\<rparr>" and ?s = "deliver_event ev s"
  have topics: "subTopics ?s = subTopics s" by (simp add: deliver_event_def)
  have meant: "meant_for ?r c ?s = meant_for r c s @ (if matches (subTopics s) (evTopic ev) then [ev] else [])"
    using assms by (simp add: meant_for_def topics sub_ok_def)
  have sub: "subseq (got r c s) (meant_for r c s)" using assms by (simp add: sub_ok_def)
  then have sub1: "subseq (got r c s) (meant_for r c s @ [ev])" "subseq (got r c s @ [ev]) (meant_for r c s @ [ev])"
    by (auto intro: subseq_order.trans)
  show ?thesis
    using assms sub sub1 unfolding sub_ok_def meant
    by (auto simp: deliver_event_def got_def algebra_simps)
qed

lemma run_ok_step:
  assumes "run_ok r" "bus_step r r'"
  shows "run_ok r'"
  using assms(2)
proof cases
  case (Publish frm topic data now)
  let ?ev = "stamp frm topic data now (brBus r)"
  have log: "brLog r' = brLog r @ [(frm, ?ev)]" and bus: "brBus r' = Publish frm topic data now (brBus r)"
    and rest: "brReceived r' = brReceived r" "brNext r' = brNext r" using Publish by simp_all
  have num: "busSeq (brBus r) t = of_nat (length (of_topic t (brLog r)))" for t
    using assms(1) by (simp add: run_ok_def)
  have "numbered (brLog r')"
    using assms(1) num [of "full_topic frm topic"]
    by (simp add: run_ok_def numbered_def log stamp_def)
  moreover have "attributed (brLog r')"
    using assms(1) by (simp add: run_ok_def attributed_def log stamp_def full_topic_def)
  moreover have "busSeq (brBus r') t = of_nat (length (of_topic t (brLog r')))" for t
    using num [of t] num [of "full_topic frm topic"] by (simp add: bus log Publish_def Let_def stamp_def)
  moreover have "sub_ok r' c s" if "map_of (busSubs (brBus r')) c = Some s" for c s
    using that assms(1) sub_ok_deliver [where frm = frm and ev = ?ev] Publish
    by (auto simp: run_ok_def subs_Publish)
  ultimately show ?thesis using assms(1) by (simp add: run_ok_def rest)
next
  case (Subscribe topics)
  have "sub_ok r' c t" if "sub_ok r c t" for c t
    using that Subscribe by (simp add: sub_ok_def got_def meant_for_def)
  moreover have "sub_ok r' (brNext r) \<lparr>subTopics = topics, subFeed = [], subDropped = 0\<rparr>"
    using assms(1) Subscribe by (simp add: run_ok_def sub_ok_def got_def meant_for_def feedBuffer_def)
  ultimately show ?thesis using assms(1) Subscribe by (auto simp: run_ok_def Subscribe_def)
next
  case (Receive c ev b)
  obtain s rest where s: "map_of (busSubs (brBus r)) c = Some s" "subFeed s = ev # rest" "busSeq b = busSeq (brBus r)"
      "\<And>k. map_of (busSubs b) k = (if k = c then Some (s\<lparr>subFeed := rest\<rparr>) else map_of (busSubs (brBus r)) k)"
    using take_event_Some [OF Receive(2)] by blast
  have "sub_ok r c s" using assms(1) s(1) by (simp add: run_ok_def)
  then have "sub_ok r' c (s\<lparr>subFeed := rest\<rparr>)" "c < brNext r"
    using s(2) Receive(1) by (auto simp: sub_ok_def got_def meant_for_def)
  moreover have "sub_ok r' k t" if "sub_ok r k t" "k \<noteq> c" for k t
    using that Receive(1) by (simp add: sub_ok_def got_def meant_for_def)
  ultimately show ?thesis using assms(1) Receive(1) s(3,4) by (auto simp: run_ok_def)
next
  case (Close c)
  have "sub_ok r' k t" if "sub_ok r k t" for k t
    using that Close by (simp add: sub_ok_def got_def meant_for_def)
  with assms(1) Close show ?thesis by (auto simp: run_ok_def Close_sub_def map_of_filter_key)
qed

lemma run_ok_reach: "bus_reach r \<Longrightarrow> run_ok r"
proof (induction rule: bus_reach.induct)
  case init
  show ?case
    by (simp add: run_ok_def run_init_def New_bus_def numbered_def attributed_def of_topic_def)
qed (rule run_ok_step)


section \<open>Subscribing\<close>

lemma covers_iff: "covers p t \<longleftrightarrow> p = t \<or> (\<exists>pre. p = pre @ ''*'' \<and> prefix pre t)"
proof (cases "CutSuffix p ''*''")
  case None
  then have "p \<noteq> pre @ ''*''" for pre using CutSuffix_Some_iff [of p "''*''" pre] by simp
  with None show ?thesis by (auto simp: covers_def)
next
  case (Some pre)
  then have "p = pre @ ''*''" by (simp add: CutSuffix_Some_iff)
  with Some show ?thesis by (auto simp: covers_def HasPrefix_def)
qed

text \<open>What an entry of the allow-list admits: itself, and, where it ends in two stars, what it says without the last.\<close>

definition widened :: "string list \<Rightarrow> string list" where
  "widened allow = allow @ map butlast (filter (suffix ''**'') allow)"

lemma covers_trans:
  assumes "covers a p" "covers p t"
  shows "covers a t \<or> suffix ''**'' a \<and> covers (butlast a) t"
proof (cases "a = p \<or> p = t")
  case False
  with assms(1) obtain pre where a: "a = pre @ ''*''" "prefix pre p" unfolding covers_iff by blast
  from False assms(2) obtain q where p: "p = q @ ''*''" "prefix q t" unfolding covers_iff by blast
  show ?thesis
  proof (cases "pre = p")
    case True
    with a(1) p(1) have "suffix ''**'' a" by (auto simp: suffix_def)
    with True a(1) assms(2) show ?thesis by simp
  next
    case False
    then have "prefix pre q" using a(2) p(1) by (auto simp: prefix_def append_eq_append_conv2 Cons_eq_append_conv)
    with a(1) p(2) show ?thesis by (auto simp: covers_iff)
  qed
qed (use assms in auto)

lemma covers_butlast: "suffix ''**'' a \<Longrightarrow> covers a (butlast a)"
  by (auto simp: covers_iff suffix_def butlast_append)


section \<open>Properties\<close>

text \<open>
  C21: what a subscriber gets. In every run of the bus, what a subscription has received and holds in
  its feed is a subsequence, in order, of the events published for its topics since it
  subscribed; what is missing is counted by its drop counter; and the events of a topic carry the
  numbers 1, 2, 3 and so on, so that a gap in the numbers of a topic is a missed event.
\<close>

theorem bus_delivery:
  assumes "bus_reach r" "map_of (busSubs (brBus r)) c = Some s"
  shows "subseq (got r c s) (meant_for r c s) \<and> length (subFeed s) \<le> feedBuffer
    \<and> of_nat (length (meant_for r c s)) = of_nat (length (got r c s)) + subDropped s
    \<and> numbered (brLog r) \<and> attributed (brLog r)"
  using run_ok_reach [OF assms(1)] assms(2) by (auto simp: run_ok_def sub_ok_def)

definition ex_run :: bus_run where
  "ex_run = run_init\<lparr>brBus := Subscribe 0 [''sysinfo.*''] New_bus, brStart := (\<lambda>_. 0)(0 := 0), brNext := 1\<rparr>"

theorem bus_delivery_witness:
  "\<exists>s. map_of (busSubs (Publish ''sysinfo'' ''up'' [] 0 (brBus ex_run))) 0 = Some s \<and> length (subFeed s) \<le> feedBuffer"
proof -
  have "bus_reach ex_run"
    using bus_reach.step [OF bus_reach.init bus_step.Subscribe [of run_init "[''sysinfo.*'']"]]
    by (simp add: ex_run_def run_init_def)
  then have "bus_reach (ex_run\<lparr>brBus := Publish ''sysinfo'' ''up'' [] 0 (brBus ex_run),
      brLog := brLog ex_run @ [(''sysinfo'', stamp ''sysinfo'' ''up'' [] 0 (brBus ex_run))]\<rparr>)"
    by (rule bus_reach.step) (rule bus_step.Publish)
  moreover obtain s where "map_of (busSubs (Publish ''sysinfo'' ''up'' [] 0 (brBus ex_run))) 0 = Some s"
    by (simp add: subs_Publish ex_run_def Subscribe_def)
  ultimately show ?thesis using bus_delivery by fastforce
qed



text \<open>
  An entry that ends in two stars admits a broader subscription than itself: with only
  \<open>sysinfo.**\<close> allowed, \<open>sysinfo.*\<close> is accepted and matches a topic the entry does not cover.
\<close>

theorem double_star_widens:
  "topicAllowed ''sysinfo.*'' [''sysinfo.**''] \<and> matches [''sysinfo.*''] ''sysinfo.cpu''
   \<and> matches [''sysinfo.**''] ''sysinfo.cpu'' = False"
  by code_simp

text \<open>The first dot of a topic ends the publisher: module ids have no dot (\<open>idRe\<close>).\<close>

lemma attributed_origin:
  assumes "attributed log" "(frm, ev) \<in> set log" "idRe frm"
  shows "takeWhile (\<lambda>c. c \<noteq> CHR ''.'') (evTopic ev) = frm"
proof -
  from assms(1,2) obtain t where "evTopic ev = frm @ ''.'' @ t"
    by (auto simp: attributed_def list_all_iff prefix_def)
  moreover have "CHR ''.'' \<notin> set frm" by (rule idRe_no_dot [OF assms(3)])
  ultimately show ?thesis by (auto simp: takeWhile_tail intro: takeWhile_append2 [THEN trans])
qed

end
