(* ===== verification/Hostserv.thy ===== *)
theory Hostserv
  imports Transport Event_Bus Policy
begin

text \<open>
  The host services core serves to a module (\<open>src/internal/hostserv/hostserv.go\<close>), with the error
  sentinels of \<open>src/sdk/werror/werror.go\<close>: the token gate in front of every call, the handlers of
  the store, policy, events, identity, transport, log and watchdog services, each bound to the id of
  the module its socket belongs to. Core has one store, which the store service, the offline queue
  and the policy cache share; so the host state has one store here. The policy watch stream is in
  \<open>Policy.thy\<close> and the receive stream in \<open>Transport.thy\<close>.
\<close>

section \<open>Errors\<close>

datatype sentinel = ErrNotFound | ErrUnavailable | ErrProtocol | ErrDenied

text \<open>An error: its text and the sentinels that \<open>errors.Is\<close> finds in its chain.\<close>

record go_error =
  errText :: string
  errIs :: "sentinel list"

definition Op :: "string \<Rightarrow> go_error option \<Rightarrow> go_error option" where
  "Op label err = map_option (\<lambda>e. e\<lparr>errText := label @ '': '' @ errText e\<rparr>) err"

datatype code = NotFound | Unavailable | PermissionDenied | FailedPrecondition | Internal
  | Unauthenticated | Unimplemented | InvalidArgument | Canceled | Unknown

type_synonym status = "code \<times> string"

definition grpcErr :: "go_error option \<Rightarrow> status option" where
  "grpcErr err =
     (case err of
        None \<Rightarrow> None
      | Some e \<Rightarrow>
          Some (if ErrNotFound \<in> set (errIs e) then NotFound
                else if ErrUnavailable \<in> set (errIs e) then Unavailable
                else if ErrDenied \<in> set (errIs e) then PermissionDenied
                else if ErrProtocol \<in> set (errIs e) then FailedPrecondition
                else Internal, errText e))"

text \<open>An error of the store carries no sentinel.\<close>

definition plain_error :: "string \<Rightarrow> go_error" where
  "plain_error t = \<lparr>errText = t, errIs = []\<rparr>"

definition peer_name :: "int \<Rightarrow> string" where
  "peer_name p =
     (if p = PEER_UNSPECIFIED then ''PEER_UNSPECIFIED'' else if p = PEER_GATEWEAVE then ''PEER_GATEWEAVE''
      else if p = PEER_HYPERVISOR then ''PEER_HYPERVISOR''
      else if p < 0 then ''-'' @ dec (nat (- p)) else dec (nat p))"

definition send_go_error :: "send_error \<Rightarrow> go_error" where
  "send_go_error e =
     (case e of
        PeerNotConnected p \<Rightarrow> \<lparr>errText = ''peer '' @ peer_name p @ '' not connected: unavailable'', errIs = [ErrUnavailable]\<rparr>
      | PeerUnreachable p \<Rightarrow> \<lparr>errText = ''peer '' @ peer_name p @ '' unreachable: unavailable'', errIs = [ErrUnavailable]\<rparr>)"


section \<open>Services\<close>

record log_line =
  logLevel :: int
  logMessage :: string
  logAttrs :: "(string \<times> string) list"

record 'st services =
  svStore :: "'st backend"
  svMux :: "'st mux_env"
  svWhoAmI :: "string \<times> bool \<times> string"
  svCredential :: "string \<Rightarrow> string list \<Rightarrow> (go_error, string \<times> int \<times> string list) result"
  svWatchdog :: bool

record 'st host =
  hsBus :: bus
  hsNextSub :: nat
  hsStore :: 'st
  hsPolicy :: "'st manager"
  hsMux :: "'st mux"
  hsWatchdog :: "string list"
  hsLog :: "log_line list"

datatype request =
    StoreGet string | StorePut string bytes | StoreDelete string | StoreList string
  | PolicyGet
  | EventPublish string bytes time | EventSubscribe "string list"
  | IdentityWhoAmI | IdentityCredential "string list"
  | TransportSend int string bytes bool
  | LogWrite "(int \<times> string \<times> (string \<times> string) list) list" bool
  | WatchdogNotify "uint64 list" bool

datatype response =
    StoreValue bytes bool | StoreDone | StoreKeys "string list"
  | PolicyDocument uint64 bytes
  | EventDone | EventFeed nat
  | Device string bool string | CredentialToken string int "string list"
  | Delivered bool
  | LogDone | WatchdogSummary uint64 | StreamBroken

text \<open>The interceptor: exactly one token in the metadata, equal to the one of the handshake.\<close>

definition token_ok :: "string \<Rightarrow> string list \<Rightarrow> bool" where
  "token_ok token vals = (case vals of [v] \<Rightarrow> v = token | _ \<Rightarrow> False)"

definition storeServer_Get :: "'st services \<Rightarrow> string \<Rightarrow> string \<Rightarrow> 'st \<Rightarrow> (status, response) result" where
  "storeServer_Get svc m k st =
     (case beGet (svStore svc) m k st of
        Inl e \<Rightarrow> Inl (the (grpcErr (Some (plain_error e))))
      | Inr None \<Rightarrow> Inr (StoreValue [] False)
      | Inr (Some v) \<Rightarrow> Inr (StoreValue v True))"

definition storeServer_Put ::
    "'st services \<Rightarrow> string \<Rightarrow> string \<Rightarrow> bytes \<Rightarrow> 'st \<Rightarrow> (status, response) result \<times> 'st" where
  "storeServer_Put svc m k v st =
     (case bePut (svStore svc) m k v st of
        (Inl e, st') \<Rightarrow> (Inl (the (grpcErr (Some (plain_error e)))), st')
      | (Inr _, st') \<Rightarrow> (Inr StoreDone, st'))"

definition storeServer_Delete ::
    "'st services \<Rightarrow> string \<Rightarrow> string \<Rightarrow> 'st \<Rightarrow> (status, response) result \<times> 'st" where
  "storeServer_Delete svc m k st =
     (case beDelete (svStore svc) m k st of
        (Inl e, st') \<Rightarrow> (Inl (the (grpcErr (Some (plain_error e)))), st')
      | (Inr _, st') \<Rightarrow> (Inr StoreDone, st'))"

definition storeServer_List :: "'st services \<Rightarrow> string \<Rightarrow> string \<Rightarrow> 'st \<Rightarrow> (status, response) result" where
  "storeServer_List svc m p st =
     (case beList (svStore svc) m p st of
        Inl e \<Rightarrow> Inl (the (grpcErr (Some (plain_error e))))
      | Inr ks \<Rightarrow> Inr (StoreKeys ks))"

text \<open>\<open>eventsServer.Subscribe\<close>: every topic is checked before the bus is touched; the
  refusal names the topic.\<close>

definition eventsServer_Subscribe ::
    "string list \<Rightarrow> string list \<Rightarrow> 'st host \<Rightarrow> (status, response) result \<times> 'st host" where
  "eventsServer_Subscribe allow topics h =
     (case find (\<lambda>t. \<not> topicAllowed t allow) topics of
        Some t \<Rightarrow> (Inl (PermissionDenied, t), h)
      | None \<Rightarrow> (Inr (EventFeed (hsNextSub h)),
          h\<lparr>hsBus := Subscribe (hsNextSub h) topics (hsBus h), hsNextSub := Suc (hsNextSub h)\<rparr>))"

text \<open>The mux queues in the shared store.\<close>

definition transportServer_Send ::
    "'st services \<Rightarrow> string \<Rightarrow> int \<Rightarrow> string \<Rightarrow> bytes \<Rightarrow> bool \<Rightarrow> 'st host \<Rightarrow> (status, response) result \<times> 'st host" where
  "transportServer_Send svc m peer kind data queueOffline h =
     (case mux_Send (svMux svc) \<lparr>qmModule = m, qmPeer = peer, qmKind = kind, qmData = data\<rparr> queueOffline
             ((hsMux h)\<lparr>mxQueue := Some (hsStore h)\<rparr>) of
        (r, mx) \<Rightarrow>
          (case r of Inl e \<Rightarrow> Inl (Unavailable, errText (send_go_error e)) | Inr d \<Rightarrow> Inr (Delivered d),
           h\<lparr>hsMux := mx, hsStore := (case mxQueue mx of None \<Rightarrow> hsStore h | Some st \<Rightarrow> st)\<rparr>))"

fun slogArgs :: "string list \<Rightarrow> (string \<times> string) list" where
  "slogArgs (k # v # rest) = (k, v) # slogArgs rest"
| "slogArgs _ = []"

definition log_record :: "string \<Rightarrow> int \<times> string \<times> (string \<times> string) list \<Rightarrow> log_line" where
  "log_record m rec =
     (case rec of (level, msg, attrs) \<Rightarrow>
        \<lparr>logLevel = level, logMessage = msg,
         logAttrs = slogArgs (''module'' # m # concat (map (\<lambda>(k, v). [k, v]) attrs))\<rparr>)"

text \<open>The stream of records until it ends, normally or with an error.\<close>

definition logServer_Write ::
    "string \<Rightarrow> (int \<times> string \<times> (string \<times> string) list) list \<Rightarrow> bool \<Rightarrow> 'st host \<Rightarrow> response \<times> 'st host" where
  "logServer_Write m recs eof h =
     (if eof then LogDone else StreamBroken, h\<lparr>hsLog := hsLog h @ map (log_record m) recs\<rparr>)"

definition watchdogServer_Notify ::
    "'st services \<Rightarrow> string \<Rightarrow> uint64 list \<Rightarrow> bool \<Rightarrow> 'st host \<Rightarrow> response \<times> 'st host" where
  "watchdogServer_Notify svc m pings eof h =
     (if eof then WatchdogSummary (foldl (\<lambda>_ seq. seq) 0 pings) else StreamBroken,
      if svWatchdog svc then h\<lparr>hsWatchdog := hsWatchdog h @ map (\<lambda>_. m) pings\<rparr> else h)"

definition policyServer_Get :: "string \<Rightarrow> 'st host \<Rightarrow> (status, response) result" where
  "policyServer_Get m h = (case policy_Get m (hsPolicy h) of (revision, d) \<Rightarrow> Inr (PolicyDocument revision d))"

definition eventsServer_Publish :: "string \<Rightarrow> string \<Rightarrow> bytes \<Rightarrow> time \<Rightarrow> 'st host \<Rightarrow> 'st host" where
  "eventsServer_Publish m topic data now h = h\<lparr>hsBus := Publish m topic data now (hsBus h)\<rparr>"

definition identityServer_WhoAmI :: "'st services \<Rightarrow> (status, response) result" where
  "identityServer_WhoAmI svc = (case svWhoAmI svc of (dev, eph, tenant) \<Rightarrow> Inr (Device dev eph tenant))"

definition identityServer_Credential :: "'st services \<Rightarrow> string \<Rightarrow> string list \<Rightarrow> (status, response) result" where
  "identityServer_Credential svc m scopes =
     (case svCredential svc m scopes of
        Inl e \<Rightarrow> Inl (Unimplemented, errText e)
      | Inr (tok, expiry, granted) \<Rightarrow> Inr (CredentialToken tok expiry granted))"

text \<open>
  \<open>transportServer.Receive\<close> on what its \<open>select\<close> takes, one event after the other: what has been
  sent on the stream, and how the call ended if it did (\<open>Some None\<close> is a clean end).
\<close>

datatype receive_event = CallerGone | InboundClosed | Inbound queued_message "string option"

fun transportServer_Receive :: "receive_event list \<Rightarrow> queued_message list \<times> string option option" where
  "transportServer_Receive [] = ([], None)"
| "transportServer_Receive (CallerGone # evs) = ([], Some None)"
| "transportServer_Receive (InboundClosed # evs) = ([], Some None)"
| "transportServer_Receive (Inbound msg (Some e) # evs) = ([], Some (Some e))"
| "transportServer_Receive (Inbound msg None # evs) =
     (case transportServer_Receive evs of (sent, end_of_call) \<Rightarrow> (msg # sent, end_of_call))"

text \<open>The server of one module behind its gate (\<open>NewServer\<close>).\<close>

definition handle_request ::
    "'st services \<Rightarrow> string \<Rightarrow> string list \<Rightarrow> request \<Rightarrow> 'st host \<Rightarrow> (status, response) result \<times> 'st host" where
  "handle_request svc m allow req h =
     (case req of
        StoreGet k \<Rightarrow> (storeServer_Get svc m k (hsStore h), h)
      | StorePut k v \<Rightarrow> (case storeServer_Put svc m k v (hsStore h) of (r, st) \<Rightarrow> (r, h\<lparr>hsStore := st\<rparr>))
      | StoreDelete k \<Rightarrow> (case storeServer_Delete svc m k (hsStore h) of (r, st) \<Rightarrow> (r, h\<lparr>hsStore := st\<rparr>))
      | StoreList p \<Rightarrow> (storeServer_List svc m p (hsStore h), h)
      | PolicyGet \<Rightarrow> (policyServer_Get m h, h)
      | EventPublish topic data now \<Rightarrow> (Inr EventDone, eventsServer_Publish m topic data now h)
      | EventSubscribe topics \<Rightarrow> eventsServer_Subscribe allow topics h
      | IdentityWhoAmI \<Rightarrow> (identityServer_WhoAmI svc, h)
      | IdentityCredential scopes \<Rightarrow> (identityServer_Credential svc m scopes, h)
      | TransportSend peer kind data queueOffline \<Rightarrow> transportServer_Send svc m peer kind data queueOffline h
      | LogWrite recs eof \<Rightarrow> (case logServer_Write m recs eof h of (r, h') \<Rightarrow> (Inr r, h'))
      | WatchdogNotify pings eof \<Rightarrow> (case watchdogServer_Notify svc m pings eof h of (r, h') \<Rightarrow> (Inr r, h')))"

definition serve ::
    "'st services \<Rightarrow> string \<Rightarrow> string \<Rightarrow> string list \<Rightarrow> string list \<times> request \<Rightarrow> 'st host
      \<Rightarrow> (status, response) result \<times> 'st host" where
  "serve svc m token allow call h =
     (case call of (vals, req) \<Rightarrow>
        if token_ok token vals then handle_request svc m allow req h
        else (Inl (Unauthenticated, ''missing or wrong handshake token''), h))"

text \<open>A session of a module: its session in order.\<close>

fun serve_all ::
    "'st services \<Rightarrow> string \<Rightarrow> string \<Rightarrow> string list \<Rightarrow> (string list \<times> request) list \<Rightarrow> 'st host
      \<Rightarrow> (status, response) result list \<times> 'st host" where
  "serve_all svc m token allow [] h = ([], h)"
| "serve_all svc m token allow (call # session) h =
     (case serve svc m token allow call h of (r, h') \<Rightarrow>
        case serve_all svc m token allow session h' of (rs, h'') \<Rightarrow> (r # rs, h''))"


section \<open>The queue stays in its namespace\<close>

context store_backend
begin

definition queue_frame :: "'st mux \<Rightarrow> 'st mux \<Rightarrow> bool" where
  "queue_frame mx mx' =
     (\<forall>q. mxQueue mx = Some q \<and> inv q \<longrightarrow>
        (\<exists>q'. mxQueue mx' = Some q' \<and> inv q' \<and> (\<forall>m. m \<noteq> queueNamespace \<longrightarrow> view q' m = view q m)))"

lemma queue_frame_same: "mxQueue mx' = mxQueue mx \<Longrightarrow> queue_frame mx mx'"
  by (simp add: queue_frame_def)

lemma queue_frame_trans: "queue_frame mx mx' \<Longrightarrow> queue_frame mx' mx'' \<Longrightarrow> queue_frame mx mx''"
  unfolding queue_frame_def by metis

lemma queue_frame_delete:
  assumes "mxBackend e = be"
  shows "queue_frame mx (delete_key e k mx)"
  unfolding queue_frame_def
proof (intro allI impI, elim conjE)
  fix q assume q: "mxQueue mx = Some q" "inv q"
  let ?q = "snd (beDelete be queueNamespace k q)"
  have "mxQueue (delete_key e k mx) = Some ?q" using q(1) assms by (simp add: delete_key_def)
  moreover have "view ?q m = view q m" if "m \<noteq> queueNamespace" for m
    by (rule delete_keeps_namespaces [OF q(2) prod.collapse [symmetric] that])
  ultimately show "\<exists>q'. mxQueue (delete_key e k mx) = Some q' \<and> inv q'
      \<and> (\<forall>m. m \<noteq> queueNamespace \<longrightarrow> view q' m = view q m)"
    using delete_inv [OF q(2)] by blast
qed

lemma queue_frame_drop: "mxBackend e = be \<Longrightarrow> queue_frame mx (drop_key e k mx)"
  by (rule queue_frame_trans [OF queue_frame_delete queue_frame_same]) (simp_all add: drop_key_def)

lemma queue_frame_drops:
  assumes "mxBackend e = be"
  shows "queue_frame mx (foldl (\<lambda>mx k. drop_key e k mx) mx ks)"
  by (induction ks arbitrary: mx) (auto intro: queue_frame_same queue_frame_trans [OF queue_frame_drop [OF assms]])

lemma queue_frame_enforceCap:
  assumes "mxBackend e = be"
  shows "queue_frame mx (enforceCap e mx)"
  by (auto simp: enforceCap_def Let_def intro: queue_frame_same queue_frame_drops [OF assms] split: option.splits sum.splits)

lemma seedNextID_queue: "mxQueue (seedNextID e mx) = mxQueue mx"
  by (simp add: seedNextID_def split: option.splits sum.splits)

lemma queue_frame_put:
  assumes "mxQueue mx = Some q" "bePut be queueNamespace k v q = (r, q')" "mxQueue mx' = Some q'"
  shows "queue_frame mx mx'"
  using assms put_inv [of q queueNamespace k v] put_keeps_namespaces [OF _ assms(2)]
  by (auto simp: queue_frame_def)

lemma queue_frame_enqueue:
  assumes "mxBackend e = be"
  shows "queue_frame mx (enqueue e msg mx)"
proof (cases "mxQueue mx = None \<or> encodeQueued (mxCodec e) msg = None")
  case True
  then show ?thesis by (auto simp: enqueue_def intro: queue_frame_same split: option.splits)
next
  case False
  then obtain q raw where q: "mxQueue mx = Some q" "encodeQueued (mxCodec e) msg = Some raw" by auto
  let ?n = "mxNextID (seedNextID e mx) + 1"
  let ?mx = "(seedNextID e mx)\<lparr>mxNextID := ?n\<rparr>"
  obtain r q' where put: "bePut be queueNamespace (queue_key ?n) raw q = (r, q')" by fastforce
  have "queue_frame mx (?mx\<lparr>mxQueue := Some q'\<rparr>)" by (rule queue_frame_put [OF q(1) put]) simp
  moreover have "enqueue e msg mx = (if is_ok r then enforceCap e (?mx\<lparr>mxQueue := Some q'\<rparr>) else ?mx\<lparr>mxQueue := Some q'\<rparr>)"
    using q put assms by (cases r) (simp_all add: enqueue_def Let_def)
  ultimately show ?thesis by (auto intro: queue_frame_trans queue_frame_enforceCap [OF assms])
qed

lemma queue_frame_send: "queue_frame mx (snd (peer_Send e msg mx))"
  by (rule queue_frame_same) (simp add: peer_Send_def Let_def)

lemma queue_frame_flush_keys:
  assumes "mxBackend e = be"
  shows "queue_frame mx (flush_keys e peer ks mx)"
proof (induction ks arbitrary: mx)
  case (Cons k ks)
  have send: "queue_frame mx mx'" if "peer_Send e qm mx = (b, mx')" for qm b mx'
    using queue_frame_send [of mx e qm] that by simp
  show ?case
    using Cons by (auto intro: queue_frame_same queue_frame_trans [OF queue_frame_drop [OF assms]] send
        queue_frame_trans [OF send queue_frame_trans [OF queue_frame_delete [OF assms]]]
        split: option.splits sum.splits prod.splits bool.splits)
qed (simp add: queue_frame_same)

lemma queue_frame_flush:
  assumes "mxBackend e = be"
  shows "queue_frame mx (flush e peer mx)"
  by (auto simp: flush_def intro: queue_frame_same queue_frame_flush_keys [OF assms] split: option.splits sum.splits)

lemma queue_frame_mux_Send:
  assumes "mxBackend e = be"
  shows "queue_frame mx (snd (mux_Send e msg queueOffline mx))"
proof -
  obtain sent mx1 where s: "(if peerFor (qmPeer msg) mx then peer_Send e msg mx else (False, mx)) = (sent, mx1)"
    by fastforce
  have "queue_frame mx mx1"
    using s queue_frame_send [of mx e msg] by (auto intro: queue_frame_same split: if_splits)
  with s show ?thesis
    by (auto simp: mux_Send_def Let_def intro: queue_frame_trans queue_frame_flush [OF assms] queue_frame_enqueue [OF assms])
qed

text \<open>The frame of one call: every namespace but the module's own and the queue's is as it was.\<close>

lemma handle_request_frame:
  assumes "svStore svc = be" "mxBackend (svMux svc) = be" "inv (hsStore h)"
    and "m' \<noteq> m" "m' \<noteq> queueNamespace" "handle_request svc m allow req h = (r, h')"
  shows "inv (hsStore h') \<and> view (hsStore h') m' = view (hsStore h) m'"
proof (cases req)
  case (StorePut k v)
  with assms put_inv [of "hsStore h" m k v] put_keeps_namespaces [of "hsStore h" m k v _ _ m'] show ?thesis
    by (auto simp: handle_request_def storeServer_Put_def split: prod.splits sum.splits)
next
  case (StoreDelete k)
  with assms delete_inv [of "hsStore h" m k] delete_keeps_namespaces [of "hsStore h" m k _ _ m'] show ?thesis
    by (auto simp: handle_request_def storeServer_Delete_def split: prod.splits sum.splits)
next
  case (TransportSend peer kind data queueOffline)
  let ?msg = "\<lparr>qmModule = m, qmPeer = peer, qmKind = kind, qmData = data\<rparr>"
  from queue_frame_mux_Send [OF assms(2), of "(hsMux h)\<lparr>mxQueue := Some (hsStore h)\<rparr>" ?msg queueOffline]
    assms(3-6) TransportSend
  show ?thesis by (auto simp: handle_request_def transportServer_Send_def queue_frame_def split: prod.splits)
qed (use assms in \<open>auto simp: handle_request_def eventsServer_Publish_def eventsServer_Subscribe_def logServer_Write_def
      watchdogServer_Notify_def split: prod.splits option.splits sum.splits if_splits\<close>)

lemma serve_all_frame:
  assumes "svStore svc = be" "mxBackend (svMux svc) = be" "inv (hsStore h)" "m' \<noteq> m" "m' \<noteq> queueNamespace"
    and "serve_all svc m token allow session h = (rs, h')"
  shows "inv (hsStore h') \<and> view (hsStore h') m' = view (hsStore h) m'"
  using assms(3,6)
proof (induction session arbitrary: h rs)
  case (Cons call session)
  obtain r h1 where r: "serve svc m token allow call h = (r, h1)" by fastforce
  obtain rs1 where rs: "serve_all svc m token allow session h1 = (rs1, h')"
    using Cons.prems(2) r by (auto split: prod.splits)
  have "inv (hsStore h1) \<and> view (hsStore h1) m' = view (hsStore h) m'"
    using r handle_request_frame [OF assms(1,2) Cons.prems(1) assms(4,5)] Cons.prems(1)
    by (auto simp: serve_def split: prod.splits if_splits)
  with Cons.IH [OF _ rs] show ?case by simp
qed simp

end


section \<open>Properties\<close>

text \<open>Calls that do not pass the gate leave no trace in a session.\<close>

lemma session_authenticated:
  "snd (serve_all svc m token allow session h)
     = snd (serve_all svc m token allow (filter (\<lambda>(vals, _). token_ok token vals) session) h)"
  by (induction session arbitrary: h) (auto simp: serve_def split_beta)

lemma refused_calls:
  "length (fst (serve_all svc m token allow session h)) = length session
   \<and> list_all (\<lambda>((vals, _), r). token_ok token vals \<or> r = Inl (Unauthenticated, ''missing or wrong handshake token''))
       (zip session (fst (serve_all svc m token allow session h)))"
  by (induction session arbitrary: h) (auto simp: serve_def split_beta)

text \<open>
  C19: modules are isolated in the store. Whatever calls a module makes to the host services, in any
  order and with a store that may fail at any call, every namespace of the shared store but its own
  and the one of the transport queue, where core keeps its messages, is as it was. A call without the token is
  answered by the refusal, and the bus, the store, the queue, the log and all else of the host are in the end as if it had not been made.
\<close>

theorem modules_isolated:
  assumes "store_backend be ok view" "svStore svc = be" "mxBackend (svMux svc) = be" "ok (hsStore h)"
    and "serve_all svc m token allow session h = (rs, h')"
  shows "ok (hsStore h')
    \<and> (m' \<noteq> m \<and> m' \<noteq> queueNamespace \<longrightarrow> view (hsStore h') m' = view (hsStore h) m')
    \<and> h' = snd (serve_all svc m token allow (filter (\<lambda>(vals, _). token_ok token vals) session) h)
    \<and> length rs = length session
    \<and> list_all (\<lambda>((vals, _), r). token_ok token vals \<or> r = Inl (Unauthenticated, ''missing or wrong handshake token'')) (zip session rs)"
proof -
  obtain x where x: "x \<noteq> m" "x \<noteq> queueNamespace" using ex_new_if_finite [of "{m, queueNamespace}"] infinite_UNIV_listI by auto
  have frame: "ok (hsStore h') \<and> view (hsStore h') n = view (hsStore h) n" if "n \<noteq> m" "n \<noteq> queueNamespace" for n
    using store_backend.serve_all_frame [OF assms(1-4) that assms(5)] .
  show ?thesis
    using frame [of m'] frame [OF x] session_authenticated [of svc m token allow session h] refused_calls [of svc m token allow session h] assms(5)
    by auto
qed

definition ex_services :: "mem_store services" where
  "ex_services = \<lparr>svStore = MemStore, svMux = ex_mux_env, svWhoAmI = (''dev'', True, []),
     svCredential = (\<lambda>_ _. Inl (plain_error ''identity: scoped credentials are not yet implemented'')), svWatchdog = True\<rparr>"

definition ex_host :: "mem_store host" where
  "ex_host = \<lparr>hsBus = New_bus, hsNextSub = 0, hsStore = [((''other'', ''k''), ''v'')], hsPolicy = new_manager None,
     hsMux = ex_mux\<lparr>mxGateWeave := False\<rparr>, hsWatchdog = [], hsLog = []\<rparr>"

definition ex_session :: "(string list \<times> request) list" where
  "ex_session = [([''tok''], StorePut ''k'' ''w''), ([''tok''], TransportSend 1 ''k'' [] True), ([''bad''], StoreDelete ''k'')]"

theorem modules_isolated_witness:
  "mem_inv (hsStore (snd (serve_all ex_services ''m'' ''tok'' [] ex_session ex_host)))
   \<and> mem_view (hsStore (snd (serve_all ex_services ''m'' ''tok'' [] ex_session ex_host))) ''other''
       = mem_view (hsStore ex_host) ''other''
   \<and> snd (serve_all ex_services ''m'' ''tok'' [] ex_session ex_host)
       = snd (serve_all ex_services ''m'' ''tok'' [] (take 2 ex_session) ex_host)"
proof -
  have svc: "svStore ex_services = MemStore" "mxBackend (svMux ex_services) = MemStore"
    by (simp_all add: ex_services_def)
  have "mem_inv (hsStore ex_host)" by (simp add: ex_host_def mem_inv_def)
  note iso = modules_isolated [OF mem.store_backend_axioms svc this prod.collapse [symmetric], of "''m''" "''tok''" "[]" ex_session "''other''"]
  have auth: "filter (\<lambda>(vals, _). token_ok ''tok'' vals) ex_session = take 2 ex_session" by code_simp
  have "''other'' \<noteq> ''m'' \<and> ''other'' \<noteq> queueNamespace" by (simp add: queueNamespace_def)
  with iso show ?thesis unfolding auth by blast
qed

text \<open>A module sees only topics of its allow-list: the accepted subscriptions are covered.\<close>

lemma eventsServer_Subscribe_allowed:
  assumes "eventsServer_Subscribe allow topics h = (Inr r, h')"
  shows "list_all (\<lambda>t. topicAllowed t allow) topics \<and> hsBus h' = Subscribe (hsNextSub h) topics (hsBus h)"
  using assms by (auto simp: eventsServer_Subscribe_def find_None_iff list_all_iff split: option.splits)

end
