(* ===== verification/Hostclient.thy ===== *)
theory Hostclient
  imports Hostserv
begin

text \<open>
  The module's side of the host services (\<open>src/sdk/modulesdk/hostclient.go\<close>,
  \<open>errmap.go\<close>, \<open>loghandler.go\<close>, \<open>module.go\<close>) and the small packages \<open>sdk/config\<close> and
  \<open>sdk/wlog\<close>: the mapping of statuses back to sentinels, the clients of the services over a
  connection that carries the handshake token, the partitioned store, the pumps of the streams,
  the recurring jobs with their cancellation, the push watchdog and the log handler with its
  fallback. The server at the other end of the connection is the one of \<open>Hostserv.thy\<close>, so the
  store a module sees is proved to satisfy the contract of the store core has.
\<close>

section \<open>Errors\<close>

text \<open>What an RPC returns as its error: a status of the server, or any other error.\<close>

datatype client_error = StatusError status | GoError go_error

fun sentinel_text :: "sentinel \<Rightarrow> string" where
  "sentinel_text ErrNotFound = ''not found''"
| "sentinel_text ErrUnavailable = ''unavailable''"
| "sentinel_text ErrProtocol = ''protocol violation''"
| "sentinel_text ErrDenied = ''denied''"

text \<open>\<open>errors.Is\<close> on what a client returns; a status matches no sentinel.\<close>

fun client_Is :: "sentinel \<Rightarrow> client_error \<Rightarrow> bool" where
  "client_Is s (GoError e) = (s \<in> set (errIs e))"
| "client_Is s (StatusError st) = False"

fun code_sentinel :: "code \<Rightarrow> sentinel option" where
  "code_sentinel NotFound = Some ErrNotFound"
| "code_sentinel Unavailable = Some ErrUnavailable"
| "code_sentinel PermissionDenied = Some ErrDenied"
| "code_sentinel FailedPrecondition = Some ErrProtocol"
| "code_sentinel _ = None"

definition sentinelErr :: "client_error option \<Rightarrow> client_error option" where
  "sentinelErr err =
     (case err of
        None \<Rightarrow> None
      | Some (GoError e) \<Rightarrow> Some (GoError e)
      | Some (StatusError (c, msg)) \<Rightarrow>
          (case code_sentinel c of
             None \<Rightarrow> Some (StatusError (c, msg))
           | Some s \<Rightarrow> Some (GoError \<lparr>errText = msg @ '': '' @ sentinel_text s, errIs = [s]\<rparr>)))"

text \<open>The order in which \<open>grpcErr\<close> looks for a sentinel decides which one survives the wire.\<close>

definition leading_sentinel :: "go_error \<Rightarrow> sentinel option" where
  "leading_sentinel e = find (\<lambda>s. s \<in> set (errIs e)) [ErrNotFound, ErrUnavailable, ErrDenied, ErrProtocol]"


section \<open>The clients\<close>

text \<open>The interceptors of \<open>dialHost\<close>: the token rides on every call, a status is mapped.\<close>

definition invoke ::
    "'st services \<Rightarrow> string \<Rightarrow> string list \<Rightarrow> string \<Rightarrow> request \<Rightarrow> 'st host
      \<Rightarrow> (client_error, response) result \<times> 'st host" where
  "invoke svc token allow m req h =
     (case serve svc m token allow ([token], req) h of
        (Inl st, h') \<Rightarrow> (Inl (the (sentinelErr (Some (StatusError st)))), h')
      | (Inr resp, h') \<Rightarrow> (Inr resp, h'))"

fun getDevice :: "response \<Rightarrow> string \<times> bool \<times> string" where
  "getDevice (Device dev eph tenant) = (dev, eph, tenant)"
| "getDevice _ = ([], False, [])"

definition identityClient_WhoAmI where
  "identityClient_WhoAmI svc token allow m h =
     (case invoke svc token allow m IdentityWhoAmI h of
        (Inl e, h') \<Rightarrow> (Inl e, h') | (Inr resp, h') \<Rightarrow> (Inr (getDevice resp), h'))"

fun getCredential :: "response \<Rightarrow> string \<times> int \<times> string list" where
  "getCredential (CredentialToken tok expiry granted) = (tok, expiry, granted)"
| "getCredential _ = ([], 0, [])"

definition identityClient_Credential where
  "identityClient_Credential svc token allow m scopes h =
     (case invoke svc token allow m (IdentityCredential scopes) h of
        (Inl e, h') \<Rightarrow> (Inl e, h') | (Inr resp, h') \<Rightarrow> (Inr (getCredential resp), h'))"

definition transportClient_Send where
  "transportClient_Send svc token allow m peer kind data queueOffline h =
     (case invoke svc token allow m (TransportSend peer kind data queueOffline) h of
        (Inl e, h') \<Rightarrow> (Inl e, h') | (Inr resp, h') \<Rightarrow> (Inr (resp = Delivered True), h'))"

record policy_document =
  pdRevision :: uint64
  pdData :: bytes
  pdSchemaVersion :: uint32
  pdContentType :: string

text \<open>\<open>policyDoc\<close>; core's document carries the revision and the data only.\<close>

fun policyDoc :: "response \<Rightarrow> policy_document" where
  "policyDoc (PolicyDocument revision d) =
     \<lparr>pdRevision = revision, pdData = d, pdSchemaVersion = 0, pdContentType = []\<rparr>"
| "policyDoc _ = \<lparr>pdRevision = 0, pdData = [], pdSchemaVersion = 0, pdContentType = []\<rparr>"

definition policyClient_Get where
  "policyClient_Get svc token allow m h =
     (case invoke svc token allow m PolicyGet h of
        (Inl e, h') \<Rightarrow> (Inl e, h') | (Inr resp, h') \<Rightarrow> (Inr (policyDoc resp), h'))"

definition eventsClient_Publish where
  "eventsClient_Publish svc token allow m topic data now h =
     (case invoke svc token allow m (EventPublish topic data now) h of
        (Inl e, h') \<Rightarrow> (Inl e, h') | (Inr _, h') \<Rightarrow> (Inr (), h'))"

text \<open>
  The goroutine behind \<open>Receive\<close>, \<open>Watch\<close> and \<open>Subscribe\<close>: what \<open>Recv\<close> gives is converted
  and handed to the consumer until \<open>Recv\<close> fails (\<open>None\<close>) or the context ends while the
  consumer is awaited (the flag is \<open>False\<close>). The result is what the consumer got and whether
  the channel is closed.
\<close>

fun pump :: "('a \<Rightarrow> 'b) \<Rightarrow> ('a \<times> bool) option list \<Rightarrow> 'b list \<times> bool" where
  "pump conv [] = ([], False)"
| "pump conv (None # evs) = ([], True)"
| "pump conv (Some (x, taken) # evs) =
     (if taken then (case pump conv evs of (ys, ended) \<Rightarrow> (conv x # ys, ended)) else ([], True))"


section \<open>The partitioned store\<close>

definition ns_prefix :: "string \<Rightarrow> string" where
  "ns_prefix ns = (if ns \<noteq> [] then ns @ ''/'' else [])"

definition error_text :: "client_error \<Rightarrow> string" where
  "error_text e = (case e of GoError g \<Rightarrow> errText g | StatusError (c, msg) \<Rightarrow> msg)"

fun getValue :: "response \<Rightarrow> bytes option" where
  "getValue (StoreValue v found) = (if found then Some v else None)"
| "getValue _ = None"

fun getKeys :: "response \<Rightarrow> string list" where
  "getKeys (StoreKeys ks) = ks"
| "getKeys _ = []"

definition storeClient_Get where
  "storeClient_Get svc token allow ns m k h =
     map_error error_text (case fst (invoke svc token allow m (StoreGet (ns_prefix ns @ k)) h) of
        Inl e \<Rightarrow> Inl e | Inr resp \<Rightarrow> Inr (getValue resp))"

definition storeClient_Put where
  "storeClient_Put svc token allow ns m k v h =
     (case invoke svc token allow m (StorePut (ns_prefix ns @ k) v) h of
        (Inl e, h') \<Rightarrow> (Inl (error_text e), h') | (Inr _, h') \<Rightarrow> (Inr (), h'))"

definition storeClient_Delete where
  "storeClient_Delete svc token allow ns m k h =
     (case invoke svc token allow m (StoreDelete (ns_prefix ns @ k)) h of
        (Inl e, h') \<Rightarrow> (Inl (error_text e), h') | (Inr _, h') \<Rightarrow> (Inr (), h'))"

definition storeClient_List where
  "storeClient_List svc token allow ns m p h =
     map_error error_text (case fst (invoke svc token allow m (StoreList (ns_prefix ns @ p)) h) of
        Inl e \<Rightarrow> Inl e
      | Inr resp \<Rightarrow>
          Inr (if ns_prefix ns \<noteq> [] then map (\<lambda>k. TrimPrefix k (ns_prefix ns)) (getKeys resp) else getKeys resp))"

text \<open>\<open>hostClient.Store\<close>: the partition \<open>ns\<close> of each module's namespace, as a backend again.\<close>

definition storeClient :: "'st services \<Rightarrow> string \<Rightarrow> string list \<Rightarrow> string \<Rightarrow> 'st host backend" where
  "storeClient svc token allow ns =
     \<lparr>beGet = storeClient_Get svc token allow ns, bePut = storeClient_Put svc token allow ns,
      beDelete = storeClient_Delete svc token allow ns, beList = storeClient_List svc token allow ns\<rparr>"

definition partition_view :: "('st \<Rightarrow> string \<Rightarrow> string \<Rightarrow> bytes option) \<Rightarrow> string \<Rightarrow> 'st host \<Rightarrow> string \<Rightarrow> string \<Rightarrow> bytes option" where
  "partition_view view ns h m k = view (hsStore h) m (ns_prefix ns @ k)"

lemmas client_defs = storeClient_def storeClient_Get_def storeClient_Put_def storeClient_Delete_def
  storeClient_List_def invoke_def serve_def token_ok_def handle_request_def

lemmas server_defs = storeServer_Get_def storeServer_Put_def storeServer_Delete_def storeServer_List_def

lemma TrimPrefix_image:
  assumes "A \<subseteq> {k. prefix pre k}"
  shows "k \<in> (\<lambda>k. TrimPrefix k pre) ` A \<longleftrightarrow> pre @ k \<in> A"
proof
  assume "pre @ k \<in> A"
  then have "TrimPrefix (pre @ k) pre \<in> (\<lambda>k. TrimPrefix k pre) ` A" by (rule imageI)
  then show "k \<in> (\<lambda>k. TrimPrefix k pre) ` A" by simp
qed (use assms in \<open>auto simp: prefix_def\<close>)

lemma inj_on_TrimPrefix: "inj_on (\<lambda>k. TrimPrefix k pre) {k. prefix pre k}"
  by (auto simp: inj_on_def prefix_def)

lemma TrimPrefix_Nil [simp]: "TrimPrefix k [] = k"
  using TrimPrefix_append [of "[]" k] by simp

text \<open>
  The client through the token gate, the server and the store behind it satisfies the contract of
  the store, whatever the partition.
\<close>

lemma storeClient_backend:
  assumes "store_backend (svStore svc) Q view"
  shows "store_backend (storeClient svc token allow ns) (\<lambda>h. Q (hsStore h)) (partition_view view ns)"
proof (unfold_locales, goal_cases)
  case (1 s m k r)
  then show ?case
    using store_backend.get_view [OF assms, of "hsStore s" m "ns_prefix ns @ k"]
    by (auto simp: client_defs server_defs partition_view_def split: sum.splits option.splits)
next
  case (2 s m k v u s')
  then show ?case
    using store_backend.put_ok [OF assms, of "hsStore s" m "ns_prefix ns @ k" v]
    by (auto simp: client_defs server_defs partition_view_def fun_eq_iff split: sum.splits prod.splits)
next
  case (3 s m k v e s')
  then show ?case
    using store_backend.put_err [OF assms, of "hsStore s" m "ns_prefix ns @ k" v]
    by (auto simp: client_defs server_defs partition_view_def fun_eq_iff split: sum.splits prod.splits)
next
  case (4 s m k u s')
  then show ?case
    using store_backend.delete_ok [OF assms, of "hsStore s" m "ns_prefix ns @ k"]
    by (auto simp: client_defs server_defs partition_view_def fun_eq_iff split: sum.splits prod.splits)
next
  case (5 s m k e s')
  then show ?case
    using store_backend.delete_err [OF assms, of "hsStore s" m "ns_prefix ns @ k"]
    by (auto simp: client_defs server_defs partition_view_def fun_eq_iff split: sum.splits prod.splits)
next
  case (6 s m p ks)
  let ?pre = "ns_prefix ns"
  from 6(2) obtain ks' where ks': "beList (svStore svc) m (?pre @ p) (hsStore s) = Inr ks'"
    and ks: "ks = map (\<lambda>k. TrimPrefix k ?pre) ks'"
    by (auto simp: client_defs server_defs split: sum.splits if_splits)
  have keys: "distinct ks'" "set ks' = {k. view (hsStore s) m k \<noteq> None \<and> prefix (?pre @ p) k}"
    using store_backend.list_view [OF assms 6(1) ks'] by auto
  have sub: "set ks' \<subseteq> {k. prefix ?pre k}"
    by (auto simp: keys(2) prefix_def)
  have "distinct ks"
    unfolding ks by (simp add: distinct_map keys(1) inj_on_subset [OF inj_on_TrimPrefix sub])
  moreover have "set ks = {k. partition_view view ns s m k \<noteq> None \<and> prefix p k}"
  proof (rule set_eqI)
    fix k
    have "k \<in> set ks \<longleftrightarrow> ?pre @ k \<in> set ks'"
      by (simp only: ks set_map TrimPrefix_image [OF sub])
    then show "k \<in> set ks \<longleftrightarrow> k \<in> {k. partition_view view ns s m k \<noteq> None \<and> prefix p k}"
      by (simp add: keys(2) partition_view_def)
  qed
  ultimately show ?case ..
qed

interpretation memc: store_backend "storeClient (svc\<lparr>svStore := MemStore\<rparr>) token allow ns"
    "\<lambda>h. mem_inv (hsStore h)" "partition_view mem_view ns"
  for svc :: "mem_store services" and token allow ns
  by (rule storeClient_backend) (simp add: mem.store_backend_axioms)


section \<open>Jobs, surfaces and the watchdog\<close>

record surface =
  sfID :: string
  sfTitle :: string
  sfKind :: string
  sfData :: bytes

text \<open>A job; \<open>EveryFunc\<close> may answer differently in every cycle.\<close>

record job =
  jbName :: string
  jbEvery :: duration
  jbEveryFunc :: "(nat \<Rightarrow> duration) option"

definition job_next :: "job \<Rightarrow> nat \<Rightarrow> duration" where
  "job_next j n = (case jbEveryFunc j of Some f \<Rightarrow> f n | None \<Rightarrow> jbEvery j)"

datatype job_phase = JobWaiting | JobEnded | JobCancelled

text \<open>
  The loop of a job from its \<open>n\<close>-th cycle on: each event is the timer (\<open>True\<close>) or the end of
  the context (\<open>False\<close>), whichever the \<open>select\<close> takes. The result counts the runs in the loop.
\<close>

fun job_loop :: "job \<Rightarrow> nat \<Rightarrow> bool list \<Rightarrow> nat \<times> job_phase" where
  "job_loop j n [] = (0, if job_next j n \<le> 0 then JobEnded else JobWaiting)"
| "job_loop j n (fired # evs) =
     (if job_next j n \<le> 0 then (0, JobEnded)
      else if fired then (case job_loop j (Suc n) evs of (r, ph) \<Rightarrow> (Suc r, ph))
      else (0, JobCancelled))"

definition launchJob :: "job \<Rightarrow> bool list \<Rightarrow> nat \<times> job_phase" where
  "launchJob j evs = (case job_loop j 0 evs of (r, ph) \<Rightarrow> (Suc r, ph))"

text \<open>The ping loop: a tick meets a stream that opens or not and a send that succeeds or not.\<close>

record watchdog =
  wdStream :: bool
  wdSeq :: uint64
  wdSent :: "uint64 list"

definition new_watchdog :: watchdog where
  "new_watchdog = \<lparr>wdStream = False, wdSeq = 0, wdSent = []\<rparr>"

definition watchdog_tick :: "bool \<times> bool \<Rightarrow> watchdog \<Rightarrow> watchdog" where
  "watchdog_tick ans w =
     (case ans of (opens, sends) \<Rightarrow>
        if \<not> wdStream w \<and> \<not> opens then w
        else
          let seq = wdSeq w + 1
          in if sends then \<lparr>wdStream = True, wdSeq = seq, wdSent = wdSent w @ [seq]\<rparr>
             else w\<lparr>wdStream := False, wdSeq := seq\<rparr>)"

record host_client =
  hcSurfaces :: "surface list"
  hcJobs :: "job list"
  hcWatchdogInterval :: duration
  hcJobCancel :: bool
  hcStarted :: bool
  hcOpen :: bool

definition new_hostClient :: host_client where
  "new_hostClient =
     \<lparr>hcSurfaces = [], hcJobs = [], hcWatchdogInterval = 0, hcJobCancel = False, hcStarted = False, hcOpen = True\<rparr>"

definition Close :: "host_client \<Rightarrow> host_client" where
  "Close h = h\<lparr>hcOpen := False\<rparr>"

definition Declare :: "surface list \<Rightarrow> host_client \<Rightarrow> (string, unit) result \<times> host_client" where
  "Declare surfaces h =
     (if hcStarted h then (Inl ''modulesdk: declaring surfaces after Init is not supported at protocol 1'', h)
      else (Inr (), h\<lparr>hcSurfaces := hcSurfaces h @ surfaces\<rparr>))"

definition declaredSurfaces :: "host_client \<Rightarrow> surface list" where
  "declaredSurfaces h = hcSurfaces h"

definition addJobs :: "job list \<Rightarrow> host_client \<Rightarrow> host_client" where
  "addJobs jobs h = h\<lparr>hcJobs := hcJobs h @ jobs\<rparr>"

definition setWatchdogInterval :: "duration \<Rightarrow> host_client \<Rightarrow> host_client" where
  "setWatchdogInterval d h = h\<lparr>hcWatchdogInterval := d\<rparr>"

text \<open>\<open>startJobs\<close> and what it launches: the jobs, and the watchdog when it has a cadence.\<close>

definition startJobs :: "host_client \<Rightarrow> (job list \<times> duration option) \<times> host_client" where
  "startJobs h =
     (if hcJobCancel h then (([], None), h)
      else ((hcJobs h, if hcWatchdogInterval h > 0 then Some (hcWatchdogInterval h) else None),
        h\<lparr>hcJobCancel := True, hcStarted := True\<rparr>))"

text \<open>\<open>stopJobs\<close>; the flag tells whether there was anything to cancel and await.\<close>

definition stopJobs :: "host_client \<Rightarrow> bool \<times> host_client" where
  "stopJobs h = (hcJobCancel h, h\<lparr>hcJobCancel := False\<rparr>)"

datatype conn_state = Idle | Connecting | Ready | TransientFailure | ConnShutdown

text \<open>\<open>awaitDisconnect\<close> on the states it observes: does the callback fire?\<close>

fun awaitDisconnect :: "conn_state list \<Rightarrow> bool" where
  "awaitDisconnect [] = False"
| "awaitDisconnect (c # cs) = (if c = ConnShutdown then True else if c = TransientFailure then True else awaitDisconnect cs)"


section \<open>The log handler\<close>

record slog_record =
  srLevel :: int
  srMessage :: string
  srTimeMs :: int
  srAttrs :: "(string \<times> string) list"

record wire_record =
  wrLevel :: "32 word"
  wrMessage :: string
  wrTimeMs :: int
  wrAttrs :: "string \<rightharpoonup> string"

text \<open>
  \<open>streamHandler\<close>: whether it has a client and an open stream. The stream itself is shared by
  the handlers derived from one, the mark \<open>broken\<close> is not.
\<close>

record stream_handler =
  shClient :: bool
  shStream :: bool
  shBroken :: bool
  shAttrs :: "(string \<times> string) list"
  shGroup :: string

definition newStreamHandler :: "bool \<Rightarrow> stream_handler" where
  "newStreamHandler client = \<lparr>shClient = client, shStream = False, shBroken = False, shAttrs = [], shGroup = []\<rparr>"

definition set_attr :: "string \<times> string \<Rightarrow> (string \<rightharpoonup> string) \<Rightarrow> (string \<rightharpoonup> string)" where
  "set_attr a m = m(fst a \<mapsto> snd a)"

definition qualify :: "string \<Rightarrow> string \<times> string \<Rightarrow> string \<times> string" where
  "qualify g a = (if g \<noteq> [] then g @ ''.'' @ fst a else fst a, snd a)"

definition to_wire :: "stream_handler \<Rightarrow> slog_record \<Rightarrow> wire_record" where
  "to_wire h r =
     \<lparr>wrLevel = of_int (srLevel r), wrMessage = srMessage r, wrTimeMs = srTimeMs r,
      wrAttrs = fold set_attr (shAttrs h @ map (qualify (shGroup h)) (srAttrs r)) Map.empty\<rparr>"

text \<open>\<open>send\<close> under the answers of opening the stream and of sending on it.\<close>

definition handler_send :: "bool \<times> bool \<Rightarrow> stream_handler \<Rightarrow> bool \<times> stream_handler" where
  "handler_send ans h =
     (case ans of (opens, sends) \<Rightarrow>
        if shBroken h \<or> \<not> shClient h then (False, h)
        else if \<not> shStream h \<and> \<not> opens then (False, h\<lparr>shBroken := True\<rparr>)
        else if sends then (True, h\<lparr>shStream := True\<rparr>)
        else (False, h\<lparr>shBroken := True, shStream := False\<rparr>))"

text \<open>\<open>Handle\<close>: what has gone over the wire, and what to the local handler.\<close>

definition Handle ::
    "bool \<times> bool \<Rightarrow> slog_record \<Rightarrow> stream_handler \<times> wire_record list \<times> slog_record list
      \<Rightarrow> stream_handler \<times> wire_record list \<times> slog_record list" where
  "Handle ans r s =
     (case s of (h, wire, local) \<Rightarrow>
        case handler_send ans h of
          (True, h') \<Rightarrow> (h', wire @ [to_wire h r], local)
        | (False, h') \<Rightarrow> (h', wire, local @ [r]))"

fun Handle_all where
  "Handle_all [] s = s"
| "Handle_all ((ans, r) # rs) s = Handle_all rs (Handle ans r s)"

definition WithAttrs :: "(string \<times> string) list \<Rightarrow> stream_handler \<Rightarrow> stream_handler" where
  "WithAttrs attrs h = h\<lparr>shBroken := False, shAttrs := shAttrs h @ attrs\<rparr>"

definition WithGroup :: "string \<Rightarrow> stream_handler \<Rightarrow> stream_handler" where
  "WithGroup name h =
     h\<lparr>shBroken := False, shGroup := (if shGroup h \<noteq> [] then shGroup h @ ''.'' @ name else name)\<rparr>"


section \<open>Configuration and log level\<close>

text \<open>
  The environment of a process as the list handed to it: \<open>exec\<close> keeps the last value of a
  duplicate key.
\<close>

fun LookupEnv :: "string list \<Rightarrow> string \<Rightarrow> string option" where
  "LookupEnv [] key = None"
| "LookupEnv (e # env) key =
     (case LookupEnv env key of Some v \<Rightarrow> Some v | None \<Rightarrow> CutPrefix e (key @ ''=''))"

definition Getenv :: "string list \<Rightarrow> string \<Rightarrow> string" where
  "Getenv env key = (case LookupEnv env key of Some v \<Rightarrow> v | None \<Rightarrow> [])"

definition Env :: "string list \<Rightarrow> string \<Rightarrow> string \<Rightarrow> string" where
  "Env env key fallback = (case LookupEnv env key of Some v \<Rightarrow> v | None \<Rightarrow> fallback)"

text \<open>\<open>config.Load\<close>; decoding the document over the defaults is the parameter.\<close>

definition Load :: "(bytes \<Rightarrow> 'c \<Rightarrow> (string, 'c) result) \<Rightarrow> bytes \<Rightarrow> 'c \<Rightarrow> (string, 'c) result" where
  "Load unmarshal doc dst =
     (if doc = [] then Inr dst else map_error (\<lambda>e. ''config: '' @ e) (unmarshal doc dst))"

definition lower_char :: "char \<Rightarrow> char" where
  "lower_char c =
     (if (65 :: nat) \<le> of_char c \<and> (of_char c :: nat) \<le> 90 then char_of (of_char c + (32 :: nat)) else c)"

text \<open>The levels of \<open>log/slog\<close>. Lower-casing other letters gives none of the names.\<close>

definition LevelFromEnv :: "string list \<Rightarrow> int" where
  "LevelFromEnv env =
     (let v = map lower_char (Getenv env ''WEAVE_LOG_LEVEL'')
      in if v = ''debug'' then -4 else if v = ''warn'' then 4 else if v = ''error'' then 8 else 0)"

lemma LookupEnv_append:
  "LookupEnv (env @ env') key = (case LookupEnv env' key of Some v \<Rightarrow> Some v | None \<Rightarrow> LookupEnv env key)"
  by (induction env) (auto split: option.splits)


section \<open>Properties\<close>

lemma client_Is_grpcErr:
  "client_Is s (the (sentinelErr (Some (StatusError (the (grpcErr (Some e))))))) \<longleftrightarrow> leading_sentinel e = Some s"
  by (auto simp: grpcErr_def sentinelErr_def leading_sentinel_def)

text \<open>
  The sentinel survives the wire: a module's \<open>errors.Is\<close> on what a host call returned finds
  exactly the sentinel of core's error, the first in the order of \<open>grpcErr\<close> when it has several,
  and none when core's error has none; the text core gave is a prefix of the text the module sees.
\<close>

theorem sentinel_roundtrip:
  "(client_Is s (the (sentinelErr (Some (StatusError (the (grpcErr (Some e))))))) \<longleftrightarrow> leading_sentinel e = Some s)
   \<and> prefix (errText e) (error_text (the (sentinelErr (Some (StatusError (the (grpcErr (Some e))))))))"
  by (rule conjI [OF client_Is_grpcErr]) (auto simp: grpcErr_def sentinelErr_def error_text_def)

lemma append_slash_eq:
  assumes "CHR ''/'' \<notin> set a" "CHR ''/'' \<notin> set b"
  shows "a @ CHR ''/'' # x = b @ CHR ''/'' # y \<longleftrightarrow> a = b \<and> x = y"
  using Split_append [OF assms(1), of x] Split_append [OF assms(2), of y]
  by (metis append_same_eq list.inject same_append_eq)

lemma ns_prefix_eq:
  assumes "ns \<noteq> []" "ns' \<noteq> []" "CHR ''/'' \<notin> set ns" "CHR ''/'' \<notin> set ns'"
  shows "ns_prefix ns' @ k' = ns_prefix ns @ k \<longleftrightarrow> ns' = ns \<and> k' = k"
  using assms append_slash_eq [of ns' ns k' k] by (simp add: ns_prefix_def)

text \<open>
  C37: A module's partitioned store reads its own writes, through the client, the token gate, the
  server and any store that keeps the contract. After a successful \<open>Put\<close>, a \<open>Get\<close> that succeeds answers the new
  value exactly when it is by the same module and its partition and key make the same stored key, and otherwise what was
  there before. For partitions whose names are not empty and have no slash that means the same partition and the same key;
  with other names two partitions can meet (\<open>partitions_collide\<close>).
\<close>

theorem partition_get_after_put:
  assumes "store_backend (svStore svc) Q view" "Q (hsStore h)"
    and put: "bePut (storeClient svc token allow ns) m k v h = (Inr u, h')"
    and get: "beGet (storeClient svc token allow ns') m' k' h' = Inr r"
  shows "r = (if m' = m \<and> ns_prefix ns' @ k' = ns_prefix ns @ k then Some v else partition_view view ns' h m' k')
    \<and> (ns \<noteq> [] \<and> ns' \<noteq> [] \<and> CHR ''/'' \<notin> set ns \<and> CHR ''/'' \<notin> set ns' \<longrightarrow>
         (ns_prefix ns' @ k' = ns_prefix ns @ k \<longleftrightarrow> ns' = ns \<and> k' = k))"
proof -
  note be = storeClient_backend [OF assms(1)]
  have "Q (hsStore h') \<and> partition_view view ns h' = (partition_view view ns h)(m := (partition_view view ns h m)(k := Some v))"
    by (rule store_backend.put_ok [OF be _ put]) (rule assms)
  moreover have "view (hsStore h') = (view (hsStore h))(m := (view (hsStore h) m)(ns_prefix ns @ k := Some v))"
    using put store_backend.put_ok [OF assms(1,2), of m "ns_prefix ns @ k" v]
    by (auto simp: client_defs server_defs split: sum.splits prod.splits)
  moreover have "Q (hsStore h') \<Longrightarrow> r = partition_view view ns' h' m' k'"
    by (rule store_backend.get_view [OF be _ get])
  ultimately have "r = (if m' = m \<and> ns_prefix ns' @ k' = ns_prefix ns @ k then Some v else partition_view view ns' h m' k')"
    by (auto simp: partition_view_def)
  then show ?thesis using ns_prefix_eq [of ns ns' k' k] by blast
qed

text \<open>Applied to the in-memory store: one partition is written, then it and another one are read.\<close>

theorem partition_get_after_put_witness:
  "beGet (storeClient ex_services ''t'' [] ''state'') ''sysinfo'' ''k''
     (snd (bePut (storeClient ex_services ''t'' [] ''cache'') ''sysinfo'' ''k'' ''v'' ex_host)) = Inr None
   \<and> beGet (storeClient ex_services ''t'' [] ''cache'') ''sysinfo'' ''k''
     (snd (bePut (storeClient ex_services ''t'' [] ''cache'') ''sysinfo'' ''k'' ''v'' ex_host)) = Inr (Some ''v'')"
proof -
  let ?put = "bePut (storeClient ex_services ''t'' [] ''cache'') ''sysinfo'' ''k'' ''v'' ex_host"
  let ?get = "\<lambda>ns. beGet (storeClient ex_services ''t'' [] ns) ''sysinfo'' ''k'' (snd ?put)"
  have be: "store_backend (svStore ex_services) mem_inv mem_view"
    by (simp add: ex_services_def mem.store_backend_axioms)
  have st: "mem_inv (hsStore ex_host)" by code_simp
  have "fst ?put = Inr ()" by code_simp
  then have put: "?put = (Inr (), snd ?put)" by (simp add: prod_eq_iff)
  obtain r where get: "?get ''state'' = Inr r" by (cases "?get ''state''") (code_simp, blast)
  obtain r' where get': "?get ''cache'' = Inr r'" by (cases "?get ''cache''") (code_simp, blast)
  have none: "partition_view mem_view ''state'' ex_host ''sysinfo'' ''k'' = None" by code_simp
  have "r = None" "r' = Some ''v''"
    using partition_get_after_put [OF be st put get] partition_get_after_put [OF be st put get']
    by (simp_all add: none ns_prefix_def)
  with get get' show ?thesis by simp
qed

text \<open>
  With a slash in its name a partition overlaps another one: what is stored as \<open>b/x\<close> in the
  partition \<open>a\<close> is read as \<open>x\<close> in the partition \<open>a/b\<close>.
\<close>

theorem partitions_collide:
  "beGet (storeClient ex_services ''t'' [] ''a/b'') ''sysinfo'' ''x''
     (snd (bePut (storeClient ex_services ''t'' [] ''a'') ''sysinfo'' ''b/x'' ''v'' ex_host)) = Inr (Some ''v'')"
  by code_simp

lemma Handle_all_broken:
  assumes "shBroken h \<or> \<not> shClient h"
  shows "Handle_all rs (h, wire, local) = (h, wire, local @ map snd rs)"
  using assms by (induction rs arbitrary: local) (auto simp: Handle_def handler_send_def)

lemma Handle_all_split:
  "\<exists>n. fst (snd (Handle_all rs (h, wire, local))) = wire @ map (to_wire h) (take n (map snd rs))
     \<and> snd (snd (Handle_all rs (h, wire, local))) = local @ drop n (map snd rs)"
proof (induction rs arbitrary: h wire)
  case (Cons r rs)
  obtain ans r0 where r: "r = (ans, r0)" by (cases r)
  obtain ok h' where snd: "handler_send ans h = (ok, h')" by (cases "handler_send ans h")
  show ?case
  proof (cases ok)
    case True
    then have same: "to_wire h' = to_wire h"
      using snd by (auto simp: handler_send_def to_wire_def fun_eq_iff split: prod.splits if_splits)
    obtain n where "fst (snd (Handle_all rs (h', wire @ [to_wire h r0], local))) = (wire @ [to_wire h r0]) @ map (to_wire h') (take n (map snd rs))
       \<and> snd (snd (Handle_all rs (h', wire @ [to_wire h r0], local))) = local @ drop n (map snd rs)"
      using Cons.IH by blast
    then show ?thesis
      using True by (intro exI [of _ "Suc n"]) (simp add: r snd Handle_def same)
  next
    case False
    then have "shBroken h' \<or> \<not> shClient h'"
      using snd by (auto simp: handler_send_def split: prod.splits if_splits)
    from Handle_all_broken [OF this, of rs wire "local @ [r0]"] False show ?thesis
      by (intro exI [of _ 0]) (simp add: r snd Handle_def)
  qed
qed simp

text \<open>
  No log record is lost or doubled: for every sequence of records and of answers of the stream,
  the first records go over the wire, in order, and all later ones to the local handler, in order.
\<close>

theorem log_never_lost:
  "\<exists>n. fst (snd (Handle_all rs (h, [], []))) = map (to_wire h) (take n (map snd rs))
     \<and> snd (snd (Handle_all rs (h, [], []))) = drop n (map snd rs)"
  using Handle_all_split [of rs h "[]" "[]"] by simp

lemma job_loop_spec:
  assumes "job_loop j n evs = (r, ph)"
  shows "r \<le> length evs \<and> (\<forall>i < r. evs ! i \<and> 0 < job_next j (n + i))
    \<and> (case ph of JobEnded \<Rightarrow> job_next j (n + r) \<le> 0
       | JobCancelled \<Rightarrow> 0 < job_next j (n + r) \<and> r < length evs \<and> \<not> evs ! r
       | JobWaiting \<Rightarrow> 0 < job_next j (n + r) \<and> r = length evs)"
  using assms
proof (induction evs arbitrary: n r)
  case (Cons e evs)
  show ?case
  proof (cases "0 < job_next j n \<and> e")
    case True
    then obtain r' where r': "job_loop j (Suc n) evs = (r', ph)" "r = Suc r'"
      using Cons.prems by (auto split: prod.splits)
    from Cons.IH [OF r'(1)] True show ?thesis
      by (auto simp: r'(2) less_Suc_eq_0_disj split: job_phase.splits)
  qed (use Cons.prems in \<open>auto split: if_splits\<close>)
qed (auto split: if_splits)

text \<open>
  A job runs once at the start and once more for every timer that fires before it ends. It ends
  when its interval, read anew in each cycle, is not positive, or when its context is cancelled;
  otherwise it waits, having run for every timer so far. So \<open>stopJobs\<close>, which cancels and
  then waits for the jobs, does not wait for a timer.
\<close>

theorem launchJob_runs:
  assumes "launchJob j evs = (n, ph)"
  shows "\<exists>r. n = Suc r \<and> r \<le> length evs \<and> (\<forall>i < r. evs ! i \<and> 0 < job_next j i)
    \<and> (case ph of JobEnded \<Rightarrow> job_next j r \<le> 0
       | JobCancelled \<Rightarrow> 0 < job_next j r \<and> r < length evs \<and> \<not> evs ! r
       | JobWaiting \<Rightarrow> 0 < job_next j r \<and> r = length evs)"
proof -
  obtain r where "job_loop j 0 evs = (r, ph)" "n = Suc r"
    using assms by (auto simp: launchJob_def split: prod.splits)
  with job_loop_spec [OF this(1)] show ?thesis by (simp cong: job_phase.case_cong)
qed

text \<open>Applied to a job whose interval is set to zero in its third cycle.\<close>

theorem launchJob_runs_witness:
  "\<exists>r. 3 = Suc r \<and> (\<forall>i < r. [True, True, True] ! i \<and> 0 < job_next \<lparr>jbName = ''beat'', jbEvery = 5,
     jbEveryFunc = Some (\<lambda>i. 2 - int i)\<rparr> i)"
proof -
  have "launchJob \<lparr>jbName = ''beat'', jbEvery = 5, jbEveryFunc = Some (\<lambda>i. 2 - int i)\<rparr> [True, True, True] = (3, JobEnded)"
    by (simp add: launchJob_def job_next_def)
  from launchJob_runs [OF this] show ?thesis by blast
qed

lemma watchdog_fold:
  assumes "unat (wdSeq w) + length ticks < 2 ^ 64" "sorted_wrt (<) (wdSent w)" "\<forall>p \<in> set (wdSent w). p \<le> wdSeq w"
  shows "sorted_wrt (<) (wdSent (fold watchdog_tick ticks w))
    \<and> (\<forall>p \<in> set (wdSent (fold watchdog_tick ticks w)). p \<le> wdSeq (fold watchdog_tick ticks w))"
  using assms
proof (induction ticks arbitrary: w)
  case (Cons t ticks)
  have step: "unat (wdSeq w + 1) = Suc (unat (wdSeq w))"
    using Cons.prems(1) by (simp add: unat_word_ariths)
  then have lt: "wdSeq w < wdSeq w + 1" by (simp add: word_less_nat_alt)
  let ?w = "watchdog_tick t w"
  have "unat (wdSeq ?w) + length ticks < 2 ^ 64"
    using Cons.prems(1) step by (auto simp: watchdog_tick_def Let_def split: prod.splits)
  moreover have "sorted_wrt (<) (wdSent ?w)"
    using Cons.prems(2,3) lt by (auto simp: watchdog_tick_def Let_def sorted_wrt_append split: prod.splits)
  moreover have "\<forall>p \<in> set (wdSent ?w). p \<le> wdSeq ?w"
    using Cons.prems(3) lt by (auto simp: watchdog_tick_def Let_def split: prod.splits)
  ultimately show ?case using Cons.IH [of ?w] by simp
qed simp

text \<open>
  The pings a module sends carry strictly increasing sequence numbers, across every stream that
  breaks and is reopened, for as many ticks as a 64-bit counter can count.
\<close>

theorem watchdog_increases:
  assumes "length ticks < 2 ^ 64"
  shows "sorted_wrt (<) (wdSent (fold watchdog_tick ticks new_watchdog))"
  using watchdog_fold [of new_watchdog ticks] assms by (simp add: new_watchdog_def)

text \<open>Applied to a stream that breaks once.\<close>

theorem watchdog_increases_witness:
  "sorted_wrt (<) (wdSent (fold watchdog_tick [(True, True), (False, False), (True, True)] new_watchdog))"
  by (rule watchdog_increases) simp

end
