(* ===== verification/Module_Server.thy ===== *)
theory Module_Server
  imports Hostclient Launch
begin

text \<open>
  The runtime of a module (\<open>src/sdk/modulesdk/lifecycle.go\<close>, \<open>serve.go\<close>): the state machine
  behind core's lifecycle calls over the module's own code, which is a parameter that answers each
  call, and \<open>Serve\<close> from the handshake environment to the exit code. The lemmas show that the
  runtime calls the module in the order of its contract whatever core sends, and that the
  environment core prepares and the line the module prints fit together.
\<close>

section \<open>The state machine\<close>

datatype module_state = Created | Inited | Started | Stopped

text \<open>
  A module: its id, its declared requirements, whether it takes configuration, its jobs.
\<close>

record module_code =
  mdID :: string
  mdRequires :: "string list"
  mdConfigReceiver :: bool
  mdScheduled :: "job list option"

text \<open>What the runtime does to the module and its connection, with the outcome of each call.\<close>

datatype module_call =
    CallSetConfig bytes bool
  | CallConnect bool
  | CallInit bool
  | CallStart bool
  | RunJobs "job list" "duration option"
  | CancelJobs
  | CallStop bool
  | CallHealth
  | CloseHost

record module_server =
  msState :: module_state
  msHost :: "host_client option"
  msShutdown :: bool
  msTrace :: "module_call list"

definition new_server :: module_server where
  "new_server = \<lparr>msState = Created, msHost = None, msShutdown = False, msTrace = []\<rparr>"

text \<open>
  The answers of the module's code and of the connection to one call; \<open>None\<close> is success. While
  it runs, \<open>Init\<close> may declare surfaces, and so may \<open>Start\<close>.
\<close>

record answers =
  anConfig :: "string option"
  anConnect :: "string option"
  anInit :: "string option"
  anDeclares :: "surface list list"
  anStart :: "string option"
  anStop :: "string option"
  anHealth :: "int \<times> string"

datatype rpc = RpcInit init_request | RpcStart | RpcStop uint32 | RpcHealth | RpcShutdown

datatype reply =
    InitReply "string list" "surface list" uint32 | StartReply | StopReply | HealthReply int string | ShutdownReply

definition Protocol :: uint32 where "Protocol = 1"

definition add_trace :: "module_call list \<Rightarrow> module_server \<Rightarrow> module_server" where
  "add_trace tr s = s\<lparr>msTrace := msTrace s @ tr\<rparr>"

definition declare_all :: "surface list list \<Rightarrow> host_client \<Rightarrow> host_client" where
  "declare_all dss h = fold (\<lambda>ds h. snd (Declare ds h)) dss h"

text \<open>What \<open>Init\<close> does once the module has accepted: the cadence and the jobs.\<close>

definition after_init :: "module_code \<Rightarrow> init_request \<Rightarrow> host_client \<Rightarrow> host_client" where
  "after_init md req h =
     (let h1 = (if irWatchdogSeconds req > 0 then setWatchdogInterval (int (unat (irWatchdogSeconds req)) * 10 ^ 9) h else h)
      in case mdScheduled md of None \<Rightarrow> h1 | Some jobs \<Rightarrow> addJobs jobs h1)"

text \<open>\<open>Init\<close> from the connection on.\<close>

definition init_connected ::
    "module_code \<Rightarrow> answers \<Rightarrow> init_request \<Rightarrow> module_server \<Rightarrow> (status, reply) result \<times> module_server" where
  "init_connected md an req s =
     (case anConnect an of
        Some e \<Rightarrow> (Inl (Unavailable, ''connecting host services: '' @ e), add_trace [CallConnect False] s)
      | None \<Rightarrow>
          let h = declare_all (anDeclares an) new_hostClient
          in case anInit an of
               Some e \<Rightarrow> (Inl (Internal, ''module init: '' @ e),
                 (add_trace [CallConnect True, CallInit False, CloseHost] s)\<lparr>msHost := None\<rparr>)
             | None \<Rightarrow>
                 let h' = after_init md req h
                 in (Inr (InitReply (mdRequires md) (declaredSurfaces h') 0),
                     (add_trace [CallConnect True, CallInit True] s)\<lparr>msHost := Some h', msState := Inited\<rparr>))"

definition server_Init ::
    "module_code \<Rightarrow> answers \<Rightarrow> init_request \<Rightarrow> module_server \<Rightarrow> (status, reply) result \<times> module_server" where
  "server_Init md an req s =
     (if msState s \<noteq> Created then (Inl (FailedPrecondition, ''Init called twice''), s)
      else if irModuleID req \<noteq> mdID md then (Inl (FailedPrecondition, ''module identity mismatch''), s)
      else if irProtocol req \<noteq> Protocol then (Inl (FailedPrecondition, ''protocol mismatch''), s)
      else if mdConfigReceiver md then
        (case anConfig an of
           Some e \<Rightarrow> (Inl (InvalidArgument, ''module config: '' @ e), add_trace [CallSetConfig (irConfig req) False] s)
         | None \<Rightarrow> init_connected md an req (add_trace [CallSetConfig (irConfig req) True] s))
      else init_connected md an req s)"

definition server_Start :: "answers \<Rightarrow> module_server \<Rightarrow> (status, reply) result \<times> module_server" where
  "server_Start an s =
     (if msState s \<noteq> Inited then (Inl (FailedPrecondition, ''Start in the wrong state''), s)
      else case anStart an of
        Some e \<Rightarrow> (Inl (Internal, ''module start: '' @ e),
          (add_trace [CallStart False] s)\<lparr>msHost := map_option (declare_all (anDeclares an)) (msHost s)\<rparr>)
      | None \<Rightarrow>
          (case startJobs (declare_all (anDeclares an) (the (msHost s))) of ((jobs, wd), h) \<Rightarrow>
             (Inr StartReply,
              (add_trace [CallStart True, RunJobs jobs wd] s)\<lparr>msHost := Some h, msState := Started\<rparr>)))"

text \<open>
  \<open>stopLocked\<close>. The deadline only bounds the context handed to the module's \<open>Stop\<close>, so it is
  part of the answer of that call.
\<close>

definition stopLocked :: "answers \<Rightarrow> module_server \<Rightarrow> status option \<times> module_server" where
  "stopLocked an s =
     (if msState s \<in> {Stopped, Created, Inited} then (None, s\<lparr>msState := Stopped\<rparr>)
      else
        case stopJobs (the (msHost s)) of (running, h) \<Rightarrow>
          let s1 = (add_trace (if running then [CancelJobs] else []) s)\<lparr>msHost := Some h\<rparr>
          in case anStop an of
               Some e \<Rightarrow> (Some (Internal, ''module stop: '' @ e), add_trace [CallStop False] s1)
             | None \<Rightarrow> (None, (add_trace [CallStop True] s1)\<lparr>msState := Stopped\<rparr>))"

definition server_Stop :: "answers \<Rightarrow> module_server \<Rightarrow> (status, reply) result \<times> module_server" where
  "server_Stop an s =
     (case stopLocked an s of (Some st, s') \<Rightarrow> (Inl st, s') | (None, s') \<Rightarrow> (Inr StopReply, s'))"

definition server_Health :: "answers \<Rightarrow> module_server \<Rightarrow> (status, reply) result \<times> module_server" where
  "server_Health an s = (Inr (HealthReply (fst (anHealth an)) (snd (anHealth an))), add_trace [CallHealth] s)"

text \<open>\<open>Shutdown\<close>: the channel holds one signal, a second one is dropped.\<close>

definition server_Shutdown :: "answers \<Rightarrow> module_server \<Rightarrow> (status, reply) result \<times> module_server" where
  "server_Shutdown an s =
     (case stopLocked an s of
        (Some st, s') \<Rightarrow> (Inl st, s')
      | (None, s') \<Rightarrow> (Inr ShutdownReply, s'\<lparr>msShutdown := True\<rparr>))"

definition server_call ::
    "module_code \<Rightarrow> rpc \<times> answers \<Rightarrow> module_server \<Rightarrow> (status, reply) result \<times> module_server" where
  "server_call md c s =
     (case c of (r, an) \<Rightarrow>
        case r of
          RpcInit req \<Rightarrow> server_Init md an req s
        | RpcStart \<Rightarrow> server_Start an s
        | RpcStop deadline \<Rightarrow> server_Stop an s
        | RpcHealth \<Rightarrow> server_Health an s
        | RpcShutdown \<Rightarrow> server_Shutdown an s)"

fun server_calls ::
    "module_code \<Rightarrow> (rpc \<times> answers) list \<Rightarrow> module_server \<Rightarrow> (status, reply) result list \<times> module_server" where
  "server_calls md [] s = ([], s)"
| "server_calls md (c # cs) s =
     (case server_call md c s of (r, s') \<Rightarrow> case server_calls md cs s' of (rs, s'') \<Rightarrow> (r # rs, s''))"


section \<open>The contract of a module\<close>

text \<open>
  What an author of a module may rely on: \<open>SetConfig\<close> comes before \<open>Init\<close> and only then,
  \<open>Init\<close> until it succeeds once, \<open>Start\<close> after that until it succeeds once, the jobs right
  after it, their cancellation before \<open>Stop\<close>, and nothing but \<open>Health\<close> after a \<open>Stop\<close> that
  succeeded; the connection is not closed under running jobs. The automaton has the state of the jobs beside the phase.
\<close>

datatype phase = Fresh | Ready_to_start | Starting | Running bool | Finished

fun contract_step :: "phase \<Rightarrow> module_call \<Rightarrow> phase option" where
  "contract_step ph CallHealth = Some ph"
| "contract_step Fresh (CallSetConfig doc ok) = Some Fresh"
| "contract_step Fresh (CallConnect ok) = Some Fresh"
| "contract_step Fresh CloseHost = Some Fresh"
| "contract_step Ready_to_start CloseHost = Some Ready_to_start"
| "contract_step (Running False) CloseHost = Some (Running False)"
| "contract_step Finished CloseHost = Some Finished"
| "contract_step Fresh (CallInit ok) = Some (if ok then Ready_to_start else Fresh)"
| "contract_step Ready_to_start (CallStart ok) = Some (if ok then Starting else Ready_to_start)"
| "contract_step Starting (RunJobs jobs wd) = Some (Running True)"
| "contract_step (Running True) CancelJobs = Some (Running False)"
| "contract_step (Running False) (CallStop ok) = Some (if ok then Finished else Running False)"
| "contract_step _ _ = None"

fun contract_run :: "phase \<Rightarrow> module_call list \<Rightarrow> phase option" where
  "contract_run ph [] = Some ph"
| "contract_run ph (c # cs) = (case contract_step ph c of None \<Rightarrow> None | Some ph' \<Rightarrow> contract_run ph' cs)"

lemma contract_run_append [simp]:
  "contract_run ph (cs @ ds) = (case contract_run ph cs of None \<Rightarrow> None | Some ph' \<Rightarrow> contract_run ph' ds)"
  by (induction cs arbitrary: ph) (auto split: option.splits)

text \<open>The state of the runtime and the phase of the contract.\<close>

definition phase_ok :: "module_server \<Rightarrow> phase \<Rightarrow> bool" where
  "phase_ok s ph =
     (case msState s of
        Created \<Rightarrow> ph = Fresh \<and> msHost s = None
      | Inited \<Rightarrow> ph = Ready_to_start \<and> (\<exists>h. msHost s = Some h \<and> \<not> hcJobCancel h \<and> \<not> hcStarted h)
      | Started \<Rightarrow> (\<exists>h. msHost s = Some h \<and> ph = Running (hcJobCancel h))
      | Stopped \<Rightarrow> ph \<in> {Fresh, Ready_to_start, Finished} \<and> (\<forall>h. msHost s = Some h \<longrightarrow> \<not> hcJobCancel h))"

definition server_ok :: "module_server \<Rightarrow> bool" where
  "server_ok s = (\<exists>ph. contract_run Fresh (msTrace s) = Some ph \<and> phase_ok s ph)"

lemma declare_all_flags [simp]:
  "hcJobCancel (declare_all dss h) = hcJobCancel h" "hcStarted (declare_all dss h) = hcStarted h"
  "hcJobs (declare_all dss h) = hcJobs h" "hcWatchdogInterval (declare_all dss h) = hcWatchdogInterval h"
  unfolding declare_all_def by (induction dss arbitrary: h) (auto simp: Declare_def)

lemma after_init_flags [simp]:
  "hcJobCancel (after_init md req h) = hcJobCancel h" "hcStarted (after_init md req h) = hcStarted h"
  by (auto simp: after_init_def Let_def setWatchdogInterval_def addJobs_def split: option.splits)

lemma new_hostClient_flags [simp]: "\<not> hcJobCancel new_hostClient" "\<not> hcStarted new_hostClient"
  by (simp_all add: new_hostClient_def)

lemma init_connected_ok:
  assumes "contract_run Fresh (msTrace s) = Some Fresh" "msState s = Created" "msHost s = None"
  shows "server_ok (snd (init_connected md an req s))"
  using assms by (auto simp: init_connected_def Let_def server_ok_def phase_ok_def add_trace_def split: option.splits)

lemma server_Init_ok:
  assumes "server_ok s"
  shows "server_ok (snd (server_Init md an req s))"
proof (cases "msState s = Created")
  case True
  then have fresh: "contract_run Fresh (msTrace s) = Some Fresh" "msHost s = None"
    using assms by (auto simp: server_ok_def phase_ok_def)
  let ?s = "\<lambda>ok. add_trace [CallSetConfig (irConfig req) ok] s"
  have "server_ok (?s False)"
    using True fresh by (simp add: server_ok_def phase_ok_def add_trace_def)
  moreover have "server_ok (snd (init_connected md an req (?s True)))"
    by (rule init_connected_ok) (simp_all add: True fresh add_trace_def)
  ultimately show ?thesis
    using assms True fresh by (auto simp: server_Init_def init_connected_ok split: option.splits)
qed (use assms in \<open>simp add: server_Init_def\<close>)

lemma server_Start_ok:
  assumes "server_ok s"
  shows "server_ok (snd (server_Start an s))"
proof (cases "msState s = Inited")
  case True
  then obtain h where "contract_run Fresh (msTrace s) = Some Ready_to_start" "msHost s = Some h"
    "\<not> hcJobCancel h" "\<not> hcStarted h"
    using assms by (auto simp: server_ok_def phase_ok_def)
  with True show ?thesis
    by (auto simp: server_Start_def startJobs_def server_ok_def phase_ok_def add_trace_def split: option.splits)
qed (use assms in \<open>simp add: server_Start_def\<close>)

lemma stopLocked_ok:
  assumes "server_ok s"
  shows "server_ok (snd (stopLocked an s))"
proof (cases "msState s = Started")
  case True
  then obtain h where "contract_run Fresh (msTrace s) = Some (Running (hcJobCancel h))" "msHost s = Some h"
    using assms by (auto simp: server_ok_def phase_ok_def)
  with True show ?thesis
    by (cases "hcJobCancel h")
      (auto simp: stopLocked_def stopJobs_def Let_def server_ok_def phase_ok_def add_trace_def split: option.splits)
next
  case False
  with assms show ?thesis
    by (cases "msState s") (auto simp: stopLocked_def server_ok_def phase_ok_def)
qed

lemma server_ok_shutdown [simp]: "server_ok (s\<lparr>msShutdown := b\<rparr>) = server_ok s"
  by (simp add: server_ok_def phase_ok_def cong: module_state.case_cong)

lemma server_Health_ok: "server_ok s \<Longrightarrow> server_ok (snd (server_Health an s))"
  by (auto simp: server_Health_def server_ok_def phase_ok_def add_trace_def cong: module_state.case_cong)

lemma server_call_ok:
  assumes "server_ok s"
  shows "server_ok (snd (server_call md c s))"
proof -
  obtain r an where c: "c = (r, an)" by (cases c)
  obtain st s' where stop: "stopLocked an s = (st, s')" by (cases "stopLocked an s")
  then have ok: "server_ok s'"
    using stopLocked_ok [OF assms, of an] by simp
  have "server_ok (snd (server_Stop an s))" "server_ok (snd (server_Shutdown an s))"
    using ok by (cases st; simp add: server_Stop_def server_Shutdown_def stop)+
  with assms show ?thesis
    by (cases r) (simp_all add: c server_call_def server_Init_ok server_Start_ok server_Health_ok)
qed

lemma server_calls_ok:
  "server_ok s \<Longrightarrow> server_ok (snd (server_calls md cs s))"
proof (induction cs arbitrary: s)
  case (Cons c cs)
  obtain r s' where c: "server_call md c s = (r, s')" by (cases "server_call md c s")
  with server_call_ok [OF Cons.prems, of md c] have "server_ok s'" by simp
  from Cons.IH [OF this] c show ?case by (auto split: prod.splits)
qed simp

lemma new_server_ok: "server_ok new_server"
  by (simp add: server_ok_def phase_ok_def new_server_def)



section \<open>Serve\<close>

text \<open>\<open>filepath.Clean\<close> and \<open>filepath.Join\<close> of two elements, on unix strings.\<close>

definition clean_push :: "bool \<Rightarrow> string list \<Rightarrow> string \<Rightarrow> string list" where
  "clean_push rooted st c =
     (if c = [] \<or> c = ''.'' then st
      else if c = ''..'' then
        (if st \<noteq> [] \<and> last st \<noteq> ''..'' then butlast st else if rooted then st else st @ [''..''])
      else st @ [c])"

definition Clean :: "string \<Rightarrow> string" where
  "Clean s =
     (let rooted = HasPrefix s ''/'';
          st = foldl (clean_push rooted) [] (Split s CHR ''/'')
      in if rooted then CHR ''/'' # join_with CHR ''/'' st
         else if st = [] then ''.'' else join_with CHR ''/'' st)"

definition filepath_Join :: "string \<Rightarrow> string \<Rightarrow> string" where
  "filepath_Join a b =
     (if a = [] then (if b = [] then [] else Clean b) else if b = [] then Clean a else Clean (a @ ''/'' @ b))"

datatype serve_error =
    BadWindow handshake_error | ProtocolOutOfWindow | EnvironmentIncomplete | SocketDirUnset
  | NoRandomness | CannotListen string | ServerFailed string

definition pipe_prefix :: string where
  "pipe_prefix = [CHR 0x5C, CHR 0x5C, CHR ''.'', CHR 0x5C] @ ''pipe'' @ [CHR 0x5C] @ ''weave-''"

definition moduleAddr :: "bool \<Rightarrow> bytes option \<Rightarrow> string list \<Rightarrow> string \<Rightarrow> (serve_error, string) result" where
  "moduleAddr windows nonce env m =
     (if windows then
        (case nonce of None \<Rightarrow> Inl NoRandomness | Some b \<Rightarrow> Inr (pipe_prefix @ m @ ''-'' @ hex_encode b))
      else
        let dir = Getenv env EnvSocketDir
        in if dir = [] then Inl SocketDirUnset else Inr (filepath_Join dir (m @ ''.sock'')))"

text \<open>Why the loop of \<open>serve\<close> ends.\<close>

datatype run_end = ShutdownRequested | HostLost | SignalReceived | ServerStopped string

record process_io =
  piWindows :: bool
  piNonce :: "bytes option"
  piListen :: "string option"
  piCalls :: "(rpc \<times> answers) list"
  piEnd :: run_end

definition ipc_Network :: "bool \<Rightarrow> string" where
  "ipc_Network windows = (if windows then NetworkPipe else NetworkUnix)"

text \<open>After the loop: the jobs are cancelled and awaited, the connection is closed.\<close>

definition wind_down :: "module_server \<Rightarrow> module_server" where
  "wind_down s =
     (case msHost s of
        None \<Rightarrow> s
      | Some h \<Rightarrow>
          (case stopJobs h of (running, h') \<Rightarrow>
             (add_trace ((if running then [CancelJobs] else []) @ [CloseHost]) s)\<lparr>msHost := Some (Close h')\<rparr>))"

text \<open>\<open>serve\<close>: its error, what it printed on the standard output, and its server at the end.\<close>

definition serve_listening ::
    "module_code \<Rightarrow> process_io \<Rightarrow> string \<Rightarrow> (serve_error, unit) result \<times> string list \<times> module_server" where
  "serve_listening md io addr =
     (let printed = [Format \<lparr>lineProtocol = Protocol, lineNetwork = ipc_Network (piWindows io), lineAddr = addr\<rparr>];
          s = snd (server_calls md (piCalls io) new_server)
      in case piEnd io of
           ServerStopped e \<Rightarrow> (Inl (ServerFailed e), printed, s)
         | _ \<Rightarrow> (Inr (), printed, wind_down s))"

definition module_serve ::
    "module_code \<Rightarrow> string list \<Rightarrow> process_io \<Rightarrow> (serve_error, unit) result \<times> string list \<times> module_server" where
  "module_serve md env io =
     (case ParseWindow (Getenv env EnvProtocolMin) (Getenv env EnvProtocolMax) of
        Inl e \<Rightarrow> (Inl (BadWindow e), [], new_server)
      | Inr win \<Rightarrow>
          if \<not> Contains win Protocol then (Inl ProtocolOutOfWindow, [], new_server)
          else if Getenv env EnvToken = [] \<or> Getenv env EnvHostAddr = [] then (Inl EnvironmentIncomplete, [], new_server)
          else case moduleAddr (piWindows io) (piNonce io) env (mdID md) of
            Inl e \<Rightarrow> (Inl e, [], new_server)
          | Inr addr \<Rightarrow>
              (case piListen io of
                 Some e \<Rightarrow> (Inl (CannotListen e), [], new_server)
               | None \<Rightarrow> serve_listening md io addr))"

definition exit_code :: "(serve_error, unit) result \<Rightarrow> int" where
  "exit_code r =
     (case r of Inr _ \<Rightarrow> 0 | Inl ProtocolOutOfWindow \<Rightarrow> ExitProtocolUnsupported | Inl _ \<Rightarrow> 1)"

text \<open>What core sees first of such a process.\<close>

definition first_of_process :: "(serve_error, unit) result \<times> string list \<times> module_server \<Rightarrow> first_event" where
  "first_of_process p =
     (case fst (snd p) of [] \<Rightarrow> ExitedEarly (exit_code (fst p)) | raw # _ \<Rightarrow> FirstLine raw)"

lemma wind_down_ok: "server_ok s \<Longrightarrow> server_ok (wind_down s)"
proof (cases "msHost s")
  case (Some h)
  assume ok: "server_ok s"
  show ?thesis
  proof (cases "hcJobCancel h")
    case True
    with ok Some have "msState s = Started" "contract_run Fresh (msTrace s) = Some (Running True)"
      by (cases "msState s"; auto simp: server_ok_def phase_ok_def)+
    with Some True show ?thesis
      by (simp add: wind_down_def stopJobs_def server_ok_def phase_ok_def add_trace_def Close_def)
  next
    case False
    with ok Some show ?thesis
      by (cases "msState s")
        (auto simp: wind_down_def stopJobs_def server_ok_def phase_ok_def add_trace_def Close_def)
  qed
qed (simp add: wind_down_def)

lemma module_serve_ok: "server_ok (snd (snd (module_serve md env io)))"
  by (auto simp: module_serve_def serve_listening_def Let_def new_server_ok server_calls_ok wind_down_ok
      split: sum.splits option.splits run_end.splits)


section \<open>Joined addresses\<close>

lemma Split_snoc: "CHR ''/'' \<notin> set t \<Longrightarrow> Split (s @ CHR ''/'' # t) CHR ''/'' = Split s CHR ''/'' @ [t]"
proof (induction s)
  case (Cons x xs)
  then show ?case by (cases "Split xs CHR ''/''") auto
qed (simp add: Split_none)

lemma join_with_snoc: "join_with c (ps @ [p]) = (if ps = [] then p else join_with c ps @ c # p)"
  by (induction ps rule: join_with.induct) auto

lemma set_join_with: "set (join_with c ps) \<subseteq> \<Union> (set ` set ps) \<union> {c}"
  by (induction ps rule: join_with.induct) auto

lemma clean_push_chars:
  "\<forall>p \<in> set st. set p \<subseteq> A \<Longrightarrow> CHR ''.'' \<in> A \<Longrightarrow> set c \<subseteq> A \<Longrightarrow> \<forall>p \<in> set (clean_push rooted st c). set p \<subseteq> A"
  by (auto simp: clean_push_def dest: in_set_butlastD)

lemma clean_fold_chars:
  "\<forall>p \<in> set st. set p \<subseteq> A \<Longrightarrow> CHR ''.'' \<in> A \<Longrightarrow> \<forall>c \<in> set cs. set c \<subseteq> A \<Longrightarrow>
    \<forall>p \<in> set (foldl (clean_push rooted) st cs). set p \<subseteq> A"
proof (induction cs arbitrary: st)
  case (Cons c cs)
  then have "\<forall>p \<in> set (clean_push rooted st c). set p \<subseteq> A"
    by (intro clean_push_chars) auto
  from Cons.IH [OF this Cons.prems(2)] Cons.prems(3) show ?case by simp
qed simp

lemma set_Split: "p \<in> set (Split s c) \<Longrightarrow> set p \<subseteq> set s"
proof (induction s arbitrary: p)
  case (Cons x xs)
  then show ?case by (cases "Split xs c") (fastforce split: if_splits)+
qed simp

text \<open>Joining a name that is one component keeps it as the end of the path.\<close>

lemma filepath_Join_name:
  assumes "dir \<noteq> []" "plain_name name"
  obtains u where "filepath_Join dir name = u @ name" "set u \<subseteq> set dir \<union> {CHR ''/'', CHR ''.''}"
proof -
  let ?A = "set dir \<union> {CHR ''/'', CHR ''.''}"
  define r where "r = HasPrefix (dir @ ''/'' @ name) ''/''"
  define st where "st = foldl (clean_push r) [] (Split dir CHR ''/'')"
  define u where "u = (if r then ''/'' else []) @ (if st = [] then [] else join_with CHR ''/'' st @ ''/'')"
  have "\<forall>p \<in> set st. set p \<subseteq> ?A"
    unfolding st_def by (rule clean_fold_chars) (use set_Split in \<open>fastforce\<close>)+
  then have "\<Union> (set ` set st) \<subseteq> ?A" by blast
  with set_join_with [of "CHR ''/''" st] have "set (join_with CHR ''/'' st) \<subseteq> ?A" by blast
  then have chars: "set u \<subseteq> ?A" by (auto simp: u_def)
  have "foldl (clean_push r) [] (Split (dir @ ''/'' @ name) CHR ''/'') = st @ [name]"
    using assms(2) by (simp add: Split_snoc plain_name_def st_def clean_push_def)
  then have "Clean (dir @ ''/'' @ name) = (if r then ''/'' else []) @ join_with CHR ''/'' (st @ [name])"
    by (simp only: Clean_def Let_def r_def [symmetric]) simp
  then have "filepath_Join dir name = u @ name"
    using assms by (simp add: filepath_Join_def join_with_snoc plain_name_def u_def)
  from that [OF this chars] show ?thesis .
qed

lemma socket_line_wf:
  assumes "dir \<noteq> []" "CHR ''|'' \<notin> set dir" "CHR ''/'' \<notin> set m" "CHR ''|'' \<notin> set m"
  shows "wf_line \<lparr>lineProtocol = Protocol, lineNetwork = NetworkUnix, lineAddr = filepath_Join dir (m @ ''.sock'')\<rparr>"
proof -
  have "plain_name (m @ ''.sock'')"
    using assms by (auto simp: plain_name_def append_eq_Cons_conv)
  with assms(1) obtain u where u: "filepath_Join dir (m @ ''.sock'') = u @ m @ ''.sock''"
    "set u \<subseteq> set dir \<union> {CHR ''/'', CHR ''.''}"
    by (rule filepath_Join_name)
  have "trim_right ((u @ m @ ''.soc'') @ CHR ''k'' # []) = (u @ m @ ''.soc'') @ CHR ''k'' # []"
    by (subst trim_right_append) (simp_all add: no_space_def space_runes_def)
  with u assms show ?thesis
    by (auto simp: wf_line_def Protocol_def)
qed


section \<open>The environment core prepares\<close>

lemma CutPrefix_same [simp]: "CutPrefix (pre @ s) pre = Some s"
  by (simp add: CutPrefix_def)

lemmas env_names = EnvProtocolMin_def EnvProtocolMax_def EnvToken_def EnvHostAddr_def EnvSocketDir_def

lemma Getenv_module_env:
  "Getenv (base @ module_env windows st sp token) EnvProtocolMin = dec (unat (winMin (stWindow st)))"
  "Getenv (base @ module_env windows st sp token) EnvProtocolMax = dec (unat (winMax (stWindow st)))"
  "Getenv (base @ module_env windows st sp token) EnvToken = token"
  "Getenv (base @ module_env windows st sp token) EnvHostAddr = host_addr windows st sp token"
  "Getenv (base @ module_env windows st sp token) EnvSocketDir = ModuleRunDir (stRunDir st) (mfID (spManifest sp))"
  by (simp_all add: Getenv_def LookupEnv_append module_env_def window_env_def env_names CutPrefix_def)

lemmas Getenv_handshake = Getenv_module_env [where windows = False, folded handshake_env_def]


section \<open>Properties\<close>

lemma wind_down_ends: "case msHost (wind_down s) of None \<Rightarrow> True | Some h \<Rightarrow> \<not> hcJobCancel h \<and> \<not> hcOpen h"
  by (simp add: wind_down_def stopJobs_def Close_def split: option.splits prod.splits)

text \<open>
  C36: Whatever core sends, in whatever order, and however the module's code answers, the runtime
  calls the module within its contract to the end of the process; and when \<open>serve\<close> returns without an error, on a
  shutdown, a lost core or a signal, no job runs any more and the connection to core is closed. (When the
  server itself fails, \<open>serve\<close> returns at once and leaves both to the end of the process.)
\<close>

theorem module_contract:
  assumes run: "module_serve md env io = (r, printed, s)"
  shows "(\<exists>ph. contract_run Fresh (msTrace s) = Some ph)
   \<and> (r = Inr () \<longrightarrow> (case msHost s of None \<Rightarrow> True | Some h \<Rightarrow> \<not> hcJobCancel h \<and> \<not> hcOpen h))"
proof -
  have "server_ok s" using module_serve_ok [of md env io] by (simp add: run)
  moreover have "\<exists>s0. s = wind_down s0" if "r = Inr ()"
    using run that
    by (auto simp: module_serve_def serve_listening_def Let_def split: sum.splits if_splits option.splits run_end.splits)
  ultimately show ?thesis using wind_down_ends by (auto simp: server_ok_def)
qed

lemma declare_all_fresh: "\<not> hcStarted h \<Longrightarrow> hcSurfaces (declare_all dss h) = hcSurfaces h @ concat dss"
  unfolding declare_all_def by (induction dss arbitrary: h) (auto simp: Declare_def)

lemma after_init_surfaces [simp]: "hcSurfaces (after_init md req h) = hcSurfaces h"
  by (simp add: after_init_def Let_def setWatchdogInterval_def addJobs_def split: option.splits)

text \<open>
  \<open>Init\<close> on a fresh module succeeds exactly when core means this module and speaks its
  protocol, the configuration is accepted, the connection to core is made and the module's own
  \<open>Init\<close> succeeds; the reply then carries the declared requirements and exactly the surfaces the
  module declared while initialising.
\<close>

theorem Init_accepts:
  "fst (server_Init md an req new_server) = Inr rep \<longleftrightarrow>
     irModuleID req = mdID md \<and> irProtocol req = Protocol
     \<and> (if mdConfigReceiver md then anConfig an = None else True)
     \<and> anConnect an = None \<and> anInit an = None
     \<and> rep = InitReply (mdRequires md) (concat (anDeclares an)) 0"
proof -
  have surfaces: "hcSurfaces (declare_all dss new_hostClient) = concat dss" for dss
    by (simp add: declare_all_fresh) (simp add: new_hostClient_def)
  have "fst (init_connected md an req s) = Inr rep \<longleftrightarrow> anConnect an = None \<and> anInit an = None
      \<and> rep = InitReply (mdRequires md) (concat (anDeclares an)) 0" for s
    by (auto simp: init_connected_def Let_def declaredSurfaces_def surfaces split: option.splits)
  then show ?thesis
    by (auto simp: server_Init_def new_server_def split: option.splits)
qed

lemma module_serve_launched:
  assumes "wf_window (stWindow st)" "token \<noteq> []" "\<not> piWindows io" "piListen io = None"
  shows "module_serve md (base @ handshake_env st sp token) io =
    (if Contains (stWindow st) Protocol
     then serve_listening md io
       (filepath_Join (ModuleRunDir (stRunDir st) (mfID (spManifest sp))) (mdID md @ ''.sock''))
     else (Inl ProtocolOutOfWindow, [], new_server))"
proof -
  have "ModuleRunDir (stRunDir st) (mfID (spManifest sp)) \<noteq> []"
    by (simp add: ModuleRunDir_def)
  with assms show ?thesis
    by (simp add: module_serve_def Getenv_handshake host_addr_def ParseWindow_roundtrip [THEN iffD2] moduleAddr_def)
qed

lemma serve_listening_prints:
  "fst (snd (serve_listening md io addr)) =
    [Format \<lparr>lineProtocol = Protocol, lineNetwork = ipc_Network (piWindows io), lineAddr = addr\<rparr>]"
  by (simp add: serve_listening_def Let_def split: run_end.splits)

text \<open>
  C35: Core and a module built with the SDK agree on the handshake: in the environment core prepares,
  on top of any other variables, a module whose protocol is in the window prints one line, which
  core accepts and which names the module's socket in the directory core made for it; a module
  whose protocol is not in the window exits with the code that core reads as an unsupported
  protocol. A base environment cannot spoil the exchange.
\<close>

theorem handshake_agreement:
  assumes "wf_window (stWindow st)" "token \<noteq> []" "\<not> piWindows io" "piListen io = None"
    and "mdID md = mfID (spManifest sp)"
    and "CHR ''|'' \<notin> set (stRunDir st)" "CHR ''|'' \<notin> set (mdID md)" "CHR ''/'' \<notin> set (mdID md)"
    and first: "ioFirst lio = first_of_process (module_serve md (base @ handshake_env st sp token) io)"
  shows "if Contains (stWindow st) Protocol
    then \<exists>raw. ioFirst lio = FirstLine raw \<and> check_line st raw = Inr \<lparr>lineProtocol = Protocol, lineNetwork = NetworkUnix,
      lineAddr = filepath_Join (ModuleRunDir (stRunDir st) (mfID (spManifest sp))) (mdID md @ ''.sock'')\<rparr>
    else fst (await_handshake st sp lio) = Inl ProtocolUnsupported"
proof -
  let ?dir = "ModuleRunDir (stRunDir st) (mfID (spManifest sp))"
  let ?l = "\<lparr>lineProtocol = Protocol, lineNetwork = NetworkUnix, lineAddr = filepath_Join ?dir (mdID md @ ''.sock'')\<rparr>"
  note serve = module_serve_launched [OF assms(1-4), of md base sp]
  show ?thesis
  proof (cases "Contains (stWindow st) Protocol")
    case True
    have "wf_line ?l"
      using assms(5-8) by (intro socket_line_wf) (auto simp: ModuleRunDir_def)
    then have "check_line st (Format ?l) = Inr ?l"
      using True by (simp add: check_line_ok Parse_line_Format)
    moreover have "ioFirst lio = FirstLine (Format ?l)"
      using True assms(3) by (simp add: first serve first_of_process_def serve_listening_prints ipc_Network_def)
    ultimately show ?thesis using True by auto
  next
    case False
    then have "ioFirst lio = ExitedEarly ExitProtocolUnsupported"
      by (simp add: first serve first_of_process_def exit_code_def)
    with False show ?thesis by (simp add: await_handshake_def)
  qed
qed


definition ex_sdk_module :: module_code where
  "ex_sdk_module = \<lparr>mdID = ''sysinfo'', mdRequires = [''platform.osinfo''], mdConfigReceiver = False, mdScheduled = None\<rparr>"

definition ex_process :: process_io where
  "ex_process = \<lparr>piWindows = False, piNonce = None, piListen = None, piCalls = [], piEnd = SignalReceived\<rparr>"

text \<open>Applied to the module \<open>sysinfo\<close>, started where a stale token is already set.\<close>

theorem handshake_agreement_witness:
  "\<exists>raw. check_line ex_settings raw = Inr \<lparr>lineProtocol = 1, lineNetwork = ''unix'',
     lineAddr = ''/run/modules/sysinfo/sysinfo.sock''\<rparr>"
proof -
  let ?io = "ex_launch_io\<lparr>ioFirst := first_of_process (module_serve ex_sdk_module
    ([''WEAVE_HANDSHAKE_TOKEN=stale''] @ handshake_env ex_settings ex_spec ''t'') ex_process)\<rparr>"
  have "Contains (stWindow ex_settings) Protocol" by code_simp
  then have "\<exists>raw. ioFirst ?io = FirstLine raw \<and> check_line ex_settings raw = Inr \<lparr>lineProtocol = Protocol,
      lineNetwork = NetworkUnix, lineAddr = filepath_Join (ModuleRunDir (stRunDir ex_settings)
        (mfID (spManifest ex_spec))) (mdID ex_sdk_module @ ''.sock'')\<rparr>"
    using handshake_agreement [of ex_settings "''t''" ex_process ex_sdk_module ex_spec ?io "[''WEAVE_HANDSHAKE_TOKEN=stale'']"]
    by (simp add: ex_settings_def ex_process_def ex_sdk_module_def ex_spec_def wf_window_def)
  moreover have "filepath_Join (ModuleRunDir (stRunDir ex_settings) (mfID (spManifest ex_spec))) (mdID ex_sdk_module @ ''.sock'')
      = ''/run/modules/sysinfo/sysinfo.sock''"
    by code_simp
  ultimately show ?thesis by (auto simp: Protocol_def NetworkUnix_def)
qed

text \<open>
  The same exchange on Windows: the module is told the pipe of the host services, and the line it prints, which names a pipe
  of its own, is one core accepts.
\<close>

theorem handshake_agreement_windows:
  assumes "wf_window (stWindow st)" "token \<noteq> []" "piWindows io" "piListen io = None" "piNonce io = Some nonce" "nonce \<noteq> []"
    and "Contains (stWindow st) Protocol" "CHR ''|'' \<notin> set (mdID md)"
  shows "\<exists>raw. first_of_process (module_serve md (base @ module_env True st sp token) io) = FirstLine raw
    \<and> check_line st raw = Inr \<lparr>lineProtocol = Protocol, lineNetwork = NetworkPipe, lineAddr = pipe_prefix @ mdID md @ ''-'' @ hex_encode nonce\<rparr>"
proof -
  let ?l = "\<lparr>lineProtocol = Protocol, lineNetwork = NetworkPipe, lineAddr = pipe_prefix @ mdID md @ ''-'' @ hex_encode nonce\<rparr>"
  have "CHR ''|'' \<notin> set hex_chars" by code_simp
  then have bar: "CHR ''|'' \<notin> set (hex_encode nonce)" using set_hex_encode [of nonce] by blast
  have "hex_encode nonce \<noteq> []" using assms(6) length_hex_encode [of nonce] by auto
  then obtain h c where h: "hex_encode nonce = h @ [c]" by (cases "hex_encode nonce" rule: rev_cases) auto
  then have "no_space c" using hex_plain(1) [of nonce] by simp
  then have "trim_right ((pipe_prefix @ mdID md @ ''-'' @ h) @ c # []) = (pipe_prefix @ mdID md @ ''-'' @ h) @ c # []"
    by (subst trim_right_append) simp_all
  with bar assms(8) have "wf_line ?l"
    by (auto simp: wf_line_def Protocol_def pipe_prefix_def h)
  then have "check_line st (Format ?l) = Inr ?l"
    using assms(7) by (simp add: check_line_ok Parse_line_Format)
  moreover have "module_serve md (base @ module_env True st sp token) io = serve_listening md io (lineAddr ?l)"
    using assms(1-5,7)
    by (simp add: module_serve_def Getenv_module_env host_addr_def ParseWindow_roundtrip [THEN iffD2] moduleAddr_def)
  ultimately show ?thesis
    using assms(3) by (auto simp: first_of_process_def serve_listening_prints ipc_Network_def)
qed

text \<open>
  Applied to a module that was initialised, started with its watchdog, and then got a signal.
\<close>

definition ex_answers :: answers where
  "ex_answers = \<lparr>anConfig = None, anConnect = None, anInit = None, anDeclares = [], anStart = None, anStop = None,
     anHealth = (1, [])\<rparr>"

definition ex_served :: process_io where
  "ex_served = ex_process\<lparr>piCalls := [(RpcInit \<lparr>irProtocol = 1, irModuleID = ''sysinfo'', irCapabilities = [],
     irConfig = [], irPrivilege = privilegeLevel (spManifest ex_spec), irWatchdogSeconds = 30\<rparr>, ex_answers), (RpcStart, ex_answers)]\<rparr>"

definition ex_served_end :: "(serve_error, unit) result \<times> string list \<times> module_server" where
  "ex_served_end = module_serve ex_sdk_module (handshake_env ex_settings ex_spec ''t'') ex_served"

theorem module_contract_witness:
  "\<exists>h jobs. msHost (snd (snd ex_served_end)) = Some h
    \<and> RunJobs jobs (Some 30000000000) \<in> set (msTrace (snd (snd ex_served_end)))
    \<and> (\<exists>ph. contract_run Fresh (msTrace (snd (snd ex_served_end))) = Some ph) \<and> \<not> hcJobCancel h \<and> \<not> hcOpen h"
proof -
  obtain r printed s where run: "ex_served_end = (r, printed, s)" by (cases ex_served_end) auto
  have "fst ex_served_end = Inr () \<and> msHost (snd (snd ex_served_end)) \<noteq> None
    \<and> list_ex (\<lambda>c. case c of RunJobs jobs (Some wd) \<Rightarrow> wd = 30000000000 | _ \<Rightarrow> False) (msTrace (snd (snd ex_served_end)))"
    by code_simp
  then obtain h c where r: "r = Inr ()" "msHost s = Some h" and c: "c \<in> set (msTrace s)"
    "case c of RunJobs jobs (Some wd) \<Rightarrow> wd = 30000000000 | _ \<Rightarrow> False"
    by (auto simp: run list_ex_iff)
  from c(2) obtain jobs where "c = RunJobs jobs (Some 30000000000)"
    by (cases c) (auto split: option.split_asm)
  with module_contract [OF run [unfolded ex_served_end_def]] r c(1) show ?thesis by (auto simp: run)
qed

end
