(* ===== verification/Host_Facts.thy ===== *)
theory Host_Facts
  imports Launch
begin

text \<open>
  What the agent learns of its host: \<open>platform.Host\<close> (\<open>src/sdk/platform/platform.go\<close> and the
  \<open>fill\<close> of each operating system) and the capability probe that runs once at the start
  (\<open>src/internal/capability\<close>). The operating system is the record \<open>host_os\<close>: what its
  files, registry and sysctls answer. The lemmas show that the line scanner reads back a text
  file, that the decimal printer of the Windows probe stays within its buffer and prints what
  \<open>%d\<close> prints, and when the channel of the hypervisor is claimed.
\<close>

section \<open>The operating system\<close>

text \<open>
  \<open>osOpen\<close> gives what a reader gets until the end of the file or an error, \<open>osRead\<close> what
  \<open>os.ReadFile\<close> gives. A registry key that opens answers for its integer and string values.
\<close>

record host_os =
  osGOOS :: string
  osGOARCH :: string
  osHostname :: "string option"
  osOpen :: "path \<Rightarrow> bytes option"
  osRead :: "path \<Rightarrow> bytes option"
  osExists :: "path \<Rightarrow> bool"
  osReadDir :: "path \<Rightarrow> string list option"
  osSysctl :: "string \<Rightarrow> string option"
  osRegistry :: "string \<Rightarrow> ((string \<Rightarrow> uint64 option) \<times> (string \<Rightarrow> string option)) option"

text \<open>
  \<open>bufio.Scanner\<close> over lines: a line ends at a newline or at the end of the file, one carriage
  return before that is dropped, and a line of 64 KiB or more ends the scan.
\<close>

definition maxScanToken :: nat where "maxScanToken = 65536"

definition dropCR :: "string \<Rightarrow> string" where
  "dropCR s = TrimSuffix s [CHR 0x0D]"

fun take_lines :: "string list \<Rightarrow> string list" where
  "take_lines [] = []"
| "take_lines [l] = (if l = [] \<or> length l \<ge> maxScanToken then [] else [dropCR l])"
| "take_lines (l # ls) = (if length l \<ge> maxScanToken then [] else dropCR l # take_lines ls)"

definition scan_lines :: "bytes \<Rightarrow> string list" where
  "scan_lines b = take_lines (Split b CHR 0x0A)"

text \<open>\<open>strings.Trim\<close> with one character.\<close>

definition trim_char :: "char \<Rightarrow> string \<Rightarrow> string" where
  "trim_char c s = rev (dropWhile (\<lambda>x. x = c) (rev (dropWhile (\<lambda>x. x = c) s)))"


section \<open>Host\<close>

record info =
  inOS :: string
  inArch :: string
  inVersion :: string
  inBuild :: string
  inHostname :: string

definition fill_hostname :: "host_os \<Rightarrow> info \<Rightarrow> info" where
  "fill_hostname os i = (case osHostname os of None \<Rightarrow> i | Some hn \<Rightarrow> i\<lparr>inHostname := hn\<rparr>)"

definition fill_line :: "string \<Rightarrow> info \<Rightarrow> info" where
  "fill_line l i =
     (let i1 = (case CutPrefix l ''VERSION_ID='' of None \<Rightarrow> i | Some v \<Rightarrow> i\<lparr>inVersion := trim_char CHR 0x22 v\<rparr>)
      in case CutPrefix l ''BUILD_ID='' of None \<Rightarrow> i1 | Some v \<Rightarrow> i1\<lparr>inBuild := trim_char CHR 0x22 v\<rparr>)"

definition fill_linux :: "host_os \<Rightarrow> info \<Rightarrow> info" where
  "fill_linux os i =
     (let i1 = fill_hostname os i
      in case osOpen os [''etc'', ''os-release''] of
           None \<Rightarrow> i1
         | Some b \<Rightarrow> fold fill_line (scan_lines b) i1)"

definition fill_darwin :: "host_os \<Rightarrow> info \<Rightarrow> info" where
  "fill_darwin os i =
     (let i1 = fill_hostname os i;
          i2 = (case osSysctl os ''kern.osproductversion'' of None \<Rightarrow> i1 | Some v \<Rightarrow> i1\<lparr>inVersion := v\<rparr>)
      in case osSysctl os ''kern.osversion'' of None \<Rightarrow> i2 | Some v \<Rightarrow> i2\<lparr>inBuild := v\<rparr>)"

text \<open>
  \<open>itoa\<close> of the Windows probe: digits from the end of a buffer of 20 bytes. The result \<open>None\<close>
  is the panic of a write before its start.
\<close>

function itoa_loop :: "char list \<Rightarrow> nat \<Rightarrow> uint64 \<Rightarrow> (char list \<times> nat) option" where
  "itoa_loop buf i v =
     (if v = 0 then Some (buf, i)
      else if i = 0 then None
      else itoa_loop (buf[i - 1 := char_of (48 + unat (v mod 10))]) (i - 1) (v div 10))"
  by auto
termination
  by (relation "measure (\<lambda>(buf, i, v). unat v)") (auto simp: unat_div unat_gt_0)

declare itoa_loop.simps [simp del]

definition itoa :: "uint64 \<Rightarrow> string option" where
  "itoa v =
     (if v = 0 then Some ''0''
      else case itoa_loop (replicate 20 (char_of (0 :: nat))) 20 v of
             None \<Rightarrow> None
           | Some (buf, i) \<Rightarrow> Some (drop i buf))"

definition currentVersionKey :: string where
  "currentVersionKey = ''SOFTWARE'' @ [CHR 0x5C] @ ''Microsoft'' @ [CHR 0x5C] @ ''Windows NT'' @ [CHR 0x5C] @ ''CurrentVersion''"

definition fill_windows :: "host_os \<Rightarrow> info \<Rightarrow> info" where
  "fill_windows os i =
     (let i1 = fill_hostname os i
      in case osRegistry os currentVersionKey of
           None \<Rightarrow> i1
         | Some (ints, strings) \<Rightarrow>
             (case (ints ''CurrentMajorVersionNumber'', ints ''CurrentMinorVersionNumber'', strings ''CurrentBuildNumber'') of
                (Some major, Some minor, Some build) \<Rightarrow>
                  i1\<lparr>inVersion := the (itoa major) @ ''.'' @ the (itoa minor) @ ''.'' @ build, inBuild := build\<rparr>
              | _ \<Rightarrow> i1))"

text \<open>\<open>Host\<close>: the build of each operating system has its own \<open>fill\<close>. \<open>itoa_correct\<close> shows that
  the Windows one does not panic.\<close>

definition Host :: "host_os \<Rightarrow> info" where
  "Host os =
     (let i = \<lparr>inOS = osGOOS os, inArch = osGOARCH os, inVersion = [], inBuild = [], inHostname = []\<rparr>
      in if osGOOS os = ''windows'' then fill_windows os i
         else if osGOOS os = ''darwin'' then fill_darwin os i
         else fill_linux os i)"


section \<open>Capabilities\<close>

definition ChannelPortName :: string where "ChannelPortName = ''org.weave.agent.0''"
definition devDir :: path where "devDir = [''dev'']"
definition sysVirtioPorts :: path where "sysVirtioPorts = [''sys'', ''class'', ''virtio-ports'']"

definition path_text :: "path \<Rightarrow> string" where
  "path_text p = concat (map (\<lambda>c. CHR ''/'' # c) p)"

text \<open>The loop over the ports of sysfs: the first one that has the name and a device node.\<close>

fun find_port :: "host_os \<Rightarrow> string list \<Rightarrow> path option" where
  "find_port os [] = None"
| "find_port os (e # es) =
     (case osRead os (Join (Join sysVirtioPorts e) ''name'') of
        None \<Rightarrow> find_port os es
      | Some name \<Rightarrow>
          if TrimSpace name \<noteq> ChannelPortName then find_port os es
          else if osExists os (Join devDir e) then Some (Join devDir e)
          else find_port os es)"

definition channelDevice :: "host_os \<Rightarrow> path option" where
  "channelDevice os =
     (let link = Join (Join devDir ''virtio-ports'') ChannelPortName
      in if osExists os link then Some link
         else case osReadDir os sysVirtioPorts of None \<Rightarrow> None | Some entries \<Rightarrow> find_port os entries)"

definition probeOS_linux :: "host_os \<Rightarrow> capability_set" where
  "probeOS_linux os =
     (case channelDevice os of
        None \<Rightarrow> []
      | Some dev \<Rightarrow> [(''hypervisor.channel'', [(''kind'', ''virtio-serial''), (''device'', path_text dev)])])"

definition darwin_devices :: "path list" where
  "darwin_devices = [[''dev'', ''cu.org.weave.agent.0''], [''dev'', ''virtio-ports'', ''org.weave.agent.0'']]"

definition probeOS_darwin :: "host_os \<Rightarrow> capability_set" where
  "probeOS_darwin os =
     (case find (osExists os) darwin_devices of
        None \<Rightarrow> []
      | Some dev \<Rightarrow> [(''hypervisor.channel'', [(''device'', path_text dev)])])"

definition guestParametersKey :: string where
  "guestParametersKey = ''SOFTWARE'' @ [CHR 0x5C] @ ''Microsoft'' @ [CHR 0x5C] @ ''Virtual Machine'' @ [CHR 0x5C]
     @ ''Guest'' @ [CHR 0x5C] @ ''Parameters''"

definition probeOS_windows :: "host_os \<Rightarrow> capability_set" where
  "probeOS_windows os =
     (if osRegistry os guestParametersKey \<noteq> None then [(''hypervisor.channel'', [(''kind'', ''hvsocket'')])] else [])"

definition probeOS :: "host_os \<Rightarrow> capability_set" where
  "probeOS os =
     (if osGOOS os = ''windows'' then probeOS_windows os
      else if osGOOS os = ''darwin'' then probeOS_darwin os
      else probeOS_linux os)"

definition Probe :: "host_os \<Rightarrow> capability_set" where
  "Probe os =
     (let i = Host os
      in (''platform.osinfo'', [(''os'', inOS i), (''arch'', inArch i), (''version'', inVersion i),
           (''build'', inBuild i), (''hostname'', inHostname i)]) # probeOS os)"


section \<open>Lemmas\<close>

lemma take_lines_Cons:
  "ls \<noteq> [] \<Longrightarrow> take_lines (l # ls) = (if length l \<ge> maxScanToken then [] else dropCR l # take_lines ls)"
  by (cases ls) auto

text \<open>A line as the scanner gives it back: without its end, and short enough.\<close>

definition text_line :: "string \<Rightarrow> bool" where
  "text_line l = (CHR 0x0A \<notin> set l \<and> \<not> suffix [CHR 0x0D] l \<and> length l < maxScanToken)"

lemma dropCR_id: "\<not> suffix [CHR 0x0D] l \<Longrightarrow> dropCR l = l"
  by (simp add: dropCR_def TrimSuffix_def CutSuffix_def HasSuffix_def)

lemma scan_lines_Cons:
  "CHR 0x0A \<notin> set l \<Longrightarrow> length l < maxScanToken \<Longrightarrow> scan_lines (l @ CHR 0x0A # b) = dropCR l # scan_lines b"
  by (simp add: scan_lines_def Split_append take_lines_Cons)

lemma scan_lines_Nil [simp]: "scan_lines [] = []"
  by (simp add: scan_lines_def)

lemma scan_lines_text: "list_all text_line ls \<Longrightarrow> scan_lines (concat (map (\<lambda>l. l @ [CHR 0x0A]) ls)) = ls"
  by (induction ls) (simp_all add: text_line_def scan_lines_Cons dropCR_id)

lemma dec_step: "0 < n \<Longrightarrow> dec n = (if n < 10 then [] else dec (n div 10)) @ [digit_char (n mod 10)]"
  by (simp add: dec.simps [of n])

lemma itoa_loop_0 [simp]: "itoa_loop buf i 0 = Some (buf, i)"
  by (simp add: itoa_loop.simps)

lemma dec_0: "dec 0 = ''0''"
  by code_simp

lemma itoa_loop_dec:
  assumes "v \<noteq> 0" "length (dec (unat v)) \<le> i" "i \<le> length buf"
  shows "\<exists>buf'. itoa_loop buf i v = Some (buf', i - length (dec (unat v)))
    \<and> drop (i - length (dec (unat v))) buf' = dec (unat v) @ drop i buf"
  using assms
proof (induction buf i v rule: itoa_loop.induct)
  case (1 buf i v)
  let ?n = "unat v" and ?b = "buf[i - 1 := char_of (48 + unat (v mod 10))]"
  have pos: "0 < ?n" using 1(2) by (simp add: unat_gt_0)
  have i: "0 < i" using 1(3) by (cases i) auto
  have d: "char_of (48 + unat (v mod 10)) = digit_char (?n mod 10)"
    by (simp add: digit_char_def unat_mod)
  have last: "drop (i - 1) ?b = digit_char (?n mod 10) # drop i buf"
    using i 1(4) by (simp add: d Cons_nth_drop_Suc [symmetric])
  have step: "itoa_loop buf i v = itoa_loop ?b (i - 1) (v div 10)"
    using 1(2) i by (simp add: itoa_loop.simps [of buf])
  show ?case
  proof (cases "v div 10 = 0")
    case True
    then have "unat (v div 10) = 0" by simp
    then have "?n < 10" by (simp add: unat_div)
    then show ?thesis
      using step last True pos by (simp add: dec_step)
  next
    case False
    then have "unat (v div 10) \<noteq> 0" using unat_eq_zero [of "v div 10"] by blast
    then have big: "\<not> ?n < 10" by (simp add: unat_div)
    have split: "dec ?n = dec (unat (v div 10)) @ [digit_char (?n mod 10)]"
      using big pos by (simp add: dec_step unat_div)
    have len: "length (dec (unat (v div 10))) \<le> i - 1" using 1(3) split by simp
    have le: "i - 1 \<le> length ?b" using 1(4) by simp
    obtain buf' where "itoa_loop ?b (i - 1) (v div 10) = Some (buf', i - 1 - length (dec (unat (v div 10))))"
      "drop (i - 1 - length (dec (unat (v div 10)))) buf' = dec (unat (v div 10)) @ drop (i - 1) ?b"
      using 1(1) [OF 1(2) _ False len] i le by auto
    then show ?thesis using last by (simp add: step split)
  qed
qed

lemma length_dec_uint64: "length (dec (unat (v :: uint64))) \<le> 20"
  by (rule length_dec_le) (use uint64_unat_bound [of v] in auto)

lemma itoa_dec: "itoa v = Some (dec (unat v))"
proof (cases "v = 0")
  case False
  from itoa_loop_dec [OF this length_dec_uint64, of "replicate 20 (char_of (0 :: nat))"] False show ?thesis
    by (auto simp: itoa_def)
qed (simp add: itoa_def dec_0)


section \<open>Properties\<close>

text \<open>
  The decimal printer of the Windows probe prints what \<open>%d\<close> prints for every 64-bit number,
  and never writes before the start of its buffer.
\<close>

theorem itoa_correct: "itoa v = Some (dec (unat v)) \<and> length (dec (unat v)) \<le> 20"
  by (simp add: itoa_dec length_dec_uint64)

lemma find_port_Some:
  "find_port os es = Some dev \<Longrightarrow>
     \<exists>e name. e \<in> set es \<and> dev = Join devDir e \<and> osExists os dev
       \<and> osRead os (Join (Join sysVirtioPorts e) ''name'') = Some name \<and> TrimSpace name = ChannelPortName"
  by (induction es) (auto split: option.splits if_splits)

lemma find_port_None:
  "find_port os es = None \<longleftrightarrow>
     (\<forall>e \<in> set es. \<forall>name. osRead os (Join (Join sysVirtioPorts e) ''name'') = Some name \<longrightarrow>
        TrimSpace name = ChannelPortName \<longrightarrow> \<not> osExists os (Join devDir e))"
  by (induction es) (auto split: option.splits if_splits)

text \<open>When a port of this host is the channel: its link is there, or sysfs gives its name to a node that is.\<close>

definition is_channel :: "host_os \<Rightarrow> path \<Rightarrow> bool" where
  "is_channel os dev =
     (osExists os dev \<and>
      (dev = [''dev'', ''virtio-ports'', ''org.weave.agent.0''] \<or>
       (\<exists>es e name. osReadDir os sysVirtioPorts = Some es \<and> e \<in> set es \<and> dev = Join devDir e
          \<and> osRead os (Join (Join sysVirtioPorts e) ''name'') = Some name \<and> TrimSpace name = ChannelPortName)))"

lemma channel_link: "Join (Join devDir ''virtio-ports'') ChannelPortName = [''dev'', ''virtio-ports'', ''org.weave.agent.0'']"
  by code_simp

lemma channelDevice_Some: "channelDevice os = Some dev \<Longrightarrow> is_channel os dev"
  by (auto simp: channelDevice_def Let_def is_channel_def channel_link dest: find_port_Some split: if_splits option.splits)

lemma channelDevice_None: "channelDevice os = None \<Longrightarrow> \<not> is_channel os dev"
  by (auto simp: channelDevice_def Let_def is_channel_def channel_link find_port_None split: if_splits option.splits)

text \<open>
  On Linux the capability of the hypervisor channel is claimed exactly when this host has a device
  node that is the channel by name, and the device it names is one: a node of another port, or a
  device that only exists, such as \<open>/dev/vsock\<close>, is never claimed.
\<close>

theorem channel_claimed_iff:
  assumes "osGOOS os = ''linux''"
  shows "(Has (Probe os) [''hypervisor.channel''] = [] \<longleftrightarrow> (\<exists>dev. is_channel os dev))
    \<and> (\<forall>attrs. map_of (Probe os) ''hypervisor.channel'' = Some attrs \<longrightarrow>
          (\<exists>dev. is_channel os dev \<and> map_of attrs ''device'' = Some (path_text dev)))"
proof -
  have "map_of (Probe os) ''hypervisor.channel'' = map_of (probeOS_linux os) ''hypervisor.channel''"
    using assms by (simp add: Probe_def probeOS_def Let_def)
  then show ?thesis
    using channelDevice_Some [of os] channelDevice_None [of os]
    by (cases "channelDevice os") (auto simp: Has_def probeOS_linux_def)
qed

text \<open>Applied to a guest without udev: the second port of sysfs has the name.\<close>

definition ex_guest :: host_os where
  "ex_guest = \<lparr>osGOOS = ''linux'', osGOARCH = ''amd64'', osHostname = Some ''h'', osOpen = (\<lambda>_. None),
     osRead = (\<lambda>p. if p = [''sys'', ''class'', ''virtio-ports'', ''vport0p2'', ''name''] then Some (''org.weave.agent.0'' @ [CHR 0x0A])
       else None),
     osExists = (\<lambda>p. p \<in> {[''dev'', ''vport0p1''], [''dev'', ''vport0p2''], [''dev'', ''vsock'']}),
     osReadDir = (\<lambda>p. Some [''vport0p1'', ''vport0p2'']), osSysctl = (\<lambda>_. None), osRegistry = (\<lambda>_. None)\<rparr>"

theorem channel_claimed_iff_witness: "\<exists>dev. is_channel ex_guest dev \<and> path_text dev = ''/dev/vport0p2''"
proof -
  have caps: "map_of (Probe ex_guest) ''hypervisor.channel'' = Some [(''kind'', ''virtio-serial''), (''device'', ''/dev/vport0p2'')]"
    by code_simp
  have "osGOOS ex_guest = ''linux''" by (simp add: ex_guest_def)
  from channel_claimed_iff [OF this] caps show ?thesis by auto
qed

text \<open>The host can always describe itself, on every operating system.\<close>

lemma osinfo_present: "Has (Probe os) [''platform.osinfo''] = []"
  by (simp add: Probe_def Has_def Let_def)

end
