(* ===== verification/Sysinfo.thy ===== *)
theory Sysinfo
  imports Module_Server Host_Facts
begin

text \<open>
  The module \<open>sysinfo\<close> (\<open>src/modules/sysinfo\<close>): the collection of the inventory on each operating
  system, the module with its interval under configuration and policy, its health, and the
  report that goes to the store, the bus and the platform through the clients of the SDK. What
  the operating system, JSON and WMI answer are parameters. The lemmas show what a report leaves
  in core, when the collection job can end, and what the health report says.
\<close>

section \<open>The inventory\<close>

record inventory =
  ivCollectedAt :: time
  ivHostname :: string
  ivOS :: string
  ivArch :: string
  ivOSVersion :: string
  ivOSBuild :: string
  ivHardwareModel :: string
  ivSerialNumber :: string
  ivMemoryBytes :: uint64
  ivUptimeSeconds :: uint64
  ivCPUModel :: string
  ivCPUCores :: int

text \<open>
  What the collectors ask beside the facts of \<open>host_os\<close>: the memory call (units and their size,
  uptime), the raw sysctl for the memory size, the uptime in whole seconds, the output of ioreg,
  and the WMI queries, whose inner \<open>None\<close> is an error or an empty answer.
\<close>

record inventory_os =
  ioHost :: host_os
  ioNumCPU :: int
  ioSysinfo :: "(uint64 \<times> uint32 \<times> uint64) option"
  ioMemsize :: "bytes option"
  ioUptime :: "uint64 option"
  ioIoreg :: "string option"
  ioTotalPhys :: "uint64 option"
  ioWMI :: "(string option \<times> string option) option"

definition readTrimmed :: "host_os \<Rightarrow> path \<Rightarrow> string" where
  "readTrimmed os p = (case osRead os p of None \<Rightarrow> [] | Some b \<Rightarrow> TrimSpace b)"

text \<open>The scan of \<open>cpuinfo\<close> stops at the first line with the model name.\<close>

fun cpu_model :: "string list \<Rightarrow> string option" where
  "cpu_model [] = None"
| "cpu_model (l # ls) =
     (case CutPrefix l ''model name'' of
        None \<Rightarrow> cpu_model ls
      | Some name \<Rightarrow> Some (TrimSpace (TrimPrefix (TrimSpace name) '':'')))"

definition collectOS_linux :: "inventory_os \<Rightarrow> inventory \<Rightarrow> inventory" where
  "collectOS_linux io iv =
     (let os = ioHost io;
          iv1 = iv\<lparr>ivCPUCores := ioNumCPU io\<rparr>;
          iv2 = (case ioSysinfo io of
                   None \<Rightarrow> iv1
                 | Some (totalram, unit, uptime) \<Rightarrow>
                     iv1\<lparr>ivMemoryBytes := totalram * ucast unit, ivUptimeSeconds := uptime\<rparr>);
          iv3 = (case osOpen os [''proc'', ''cpuinfo''] of
                   None \<Rightarrow> iv2
                 | Some b \<Rightarrow> (case cpu_model (scan_lines b) of None \<Rightarrow> iv2 | Some name \<Rightarrow> iv2\<lparr>ivCPUModel := name\<rparr>))
      in iv3\<lparr>ivHardwareModel := readTrimmed os [''sys'', ''class'', ''dmi'', ''id'', ''product_name''],
             ivSerialNumber := readTrimmed os [''sys'', ''class'', ''dmi'', ''id'', ''product_serial'']\<rparr>)"

text \<open>\<open>strings.Index\<close>, \<open>None\<close> for \<open>-1\<close>.\<close>

fun Index :: "string \<Rightarrow> string \<Rightarrow> nat option" where
  "Index [] sub = (if sub = [] then Some 0 else None)"
| "Index (c # s) sub = (if prefix sub (c # s) then Some 0 else map_option Suc (Index s sub))"

definition extractPlistKey :: "string \<Rightarrow> string \<Rightarrow> string" where
  "extractPlistKey plist key =
     (let marker = ''<key>'' @ key @ ''</key>''
      in case Index plist marker of
           None \<Rightarrow> []
         | Some i \<Rightarrow>
             (let rest = drop (i + length marker) plist
              in case (Index rest ''<string>'', Index rest ''</string>'') of
                   (Some start, Some stop) \<Rightarrow>
                     if stop \<le> start then []
                     else TrimSpace (drop (start + length ''<string>'') (take stop rest))
                 | _ \<Rightarrow> []))"

definition LittleEndian_Uint64 :: "bytes \<Rightarrow> uint64" where
  "LittleEndian_Uint64 b = foldr (\<lambda>c acc. of_nat (of_char c) + 256 * acc) (take 8 b) 0"

definition collectOS_darwin :: "inventory_os \<Rightarrow> inventory \<Rightarrow> inventory" where
  "collectOS_darwin io iv =
     (let os = ioHost io;
          iv1 = iv\<lparr>ivCPUCores := ioNumCPU io\<rparr>;
          iv2 = (case osSysctl os ''machdep.cpu.brand_string'' of None \<Rightarrow> iv1 | Some v \<Rightarrow> iv1\<lparr>ivCPUModel := v\<rparr>);
          iv3 = (case osSysctl os ''hw.model'' of None \<Rightarrow> iv2 | Some v \<Rightarrow> iv2\<lparr>ivHardwareModel := v\<rparr>);
          iv4 = (case ioMemsize io of
                   None \<Rightarrow> iv3
                 | Some b \<Rightarrow> if length b \<ge> 8 then iv3\<lparr>ivMemoryBytes := LittleEndian_Uint64 b\<rparr> else iv3);
          iv5 = (case ioUptime io of None \<Rightarrow> iv4 | Some u \<Rightarrow> iv4\<lparr>ivUptimeSeconds := u\<rparr>)
      in case ioIoreg io of
           None \<Rightarrow> iv5
         | Some out \<Rightarrow>
             (let s = extractPlistKey out ''IOPlatformSerialNumber''
              in if s \<noteq> [] then iv5\<lparr>ivSerialNumber := s\<rparr> else iv5))"

definition collectWMI :: "inventory_os \<Rightarrow> inventory \<Rightarrow> inventory" where
  "collectWMI io iv =
     (case ioWMI io of
        None \<Rightarrow> iv
      | Some (bios, cs) \<Rightarrow>
          let iv1 = (case bios of None \<Rightarrow> iv | Some serial \<Rightarrow> iv\<lparr>ivSerialNumber := serial\<rparr>)
          in case cs of None \<Rightarrow> iv1 | Some model \<Rightarrow> if model \<noteq> [] then iv1\<lparr>ivHardwareModel := model\<rparr> else iv1)"

definition reg_string :: "host_os \<Rightarrow> string list \<Rightarrow> string \<Rightarrow> string option" where
  "reg_string os key name =
     (case osRegistry os (join_with CHR 0x5C key) of None \<Rightarrow> None | Some (ints, strings) \<Rightarrow> strings name)"

definition collectOS_windows :: "inventory_os \<Rightarrow> inventory \<Rightarrow> inventory" where
  "collectOS_windows io iv =
     (let os = ioHost io;
          iv1 = iv\<lparr>ivCPUCores := ioNumCPU io, ivUptimeSeconds := (case ioUptime io of None \<Rightarrow> 0 | Some u \<Rightarrow> u)\<rparr>;
          iv2 = (case ioTotalPhys io of None \<Rightarrow> iv1 | Some n \<Rightarrow> iv1\<lparr>ivMemoryBytes := n\<rparr>);
          iv3 = (case reg_string os [''HARDWARE'', ''DESCRIPTION'', ''System'', ''CentralProcessor'', ''0''] ''ProcessorNameString'' of
                   None \<Rightarrow> iv2 | Some v \<Rightarrow> iv2\<lparr>ivCPUModel := v\<rparr>);
          iv4 = (case reg_string os [''HARDWARE'', ''DESCRIPTION'', ''System'', ''BIOS''] ''SystemProductName'' of
                   None \<Rightarrow> iv3 | Some v \<Rightarrow> iv3\<lparr>ivHardwareModel := v\<rparr>)
      in collectWMI io iv4)"

definition collectOS :: "inventory_os \<Rightarrow> inventory \<Rightarrow> inventory" where
  "collectOS io iv =
     (if osGOOS (ioHost io) = ''windows'' then collectOS_windows io iv
      else if osGOOS (ioHost io) = ''darwin'' then collectOS_darwin io iv
      else collectOS_linux io iv)"

definition Collect :: "inventory_os \<Rightarrow> time \<Rightarrow> (string, inventory) result" where
  "Collect io now =
     (let i = Host (ioHost io)
      in Inr (collectOS io
           \<lparr>ivCollectedAt = now, ivHostname = inHostname i, ivOS = inOS i, ivArch = inArch i,
            ivOSVersion = inVersion i, ivOSBuild = inBuild i, ivHardwareModel = [], ivSerialNumber = [],
            ivMemoryBytes = 0, ivUptimeSeconds = 0, ivCPUModel = [], ivCPUCores = 0\<rparr>))"


section \<open>The module\<close>

text \<open>A duration is a 64-bit number of nanoseconds and its arithmetic wraps around.\<close>

definition wrap64 :: "int \<Rightarrow> int" where
  "wrap64 n = sint (of_int n :: 64 word)"

definition seconds :: "int \<Rightarrow> duration" where
  "seconds n = wrap64 (n * 10 ^ 9)"

text \<open>\<open>time.Since\<close> saturates.\<close>

definition Since :: "time \<Rightarrow> time \<Rightarrow> duration" where
  "Since now t = max (- (2 ^ 63)) (min (2 ^ 63 - 1) (now - t))"

text \<open>The fields of \<open>Module\<close>, whether its watch has been started, and what it has logged.\<close>

record sysinfo =
  smIntervalSeconds :: int
  smInterval :: duration
  smStopWatch :: bool
  smLastCollected :: "time option"
  smLastErr :: "string option"
  smLog :: "(int \<times> string) list"

definition New_sysinfo :: sysinfo where
  "New_sysinfo = \<lparr>smIntervalSeconds = 900, smInterval = 0, smStopWatch = False, smLastCollected = None,
     smLastErr = None, smLog = []\<rparr>"

definition sysinfo_ID :: string where "sysinfo_ID = ''sysinfo''"
definition sysinfo_Requires :: "string list" where "sysinfo_Requires = [''platform.osinfo'']"

definition log_at :: "int \<Rightarrow> string \<Rightarrow> sysinfo \<Rightarrow> sysinfo" where
  "log_at level msg m = m\<lparr>smLog := smLog m @ [(level, msg)]\<rparr>"

definition SetConfig :: "(bytes \<Rightarrow> int \<Rightarrow> (string, int) result) \<Rightarrow> bytes \<Rightarrow> sysinfo \<Rightarrow> (string, unit) result \<times> sysinfo" where
  "SetConfig unmarshal doc m =
     (case Load unmarshal doc (smIntervalSeconds m) of
        Inl e \<Rightarrow> (Inl e, m)
      | Inr n \<Rightarrow> (Inr (), m\<lparr>smIntervalSeconds := n\<rparr>))"

text \<open>The policy document decodes over a zero value; the key may be absent from it.\<close>

definition applyPolicy :: "(bytes \<Rightarrow> int \<Rightarrow> (string, int) result) \<Rightarrow> policy_document \<Rightarrow> sysinfo \<Rightarrow> sysinfo" where
  "applyPolicy unmarshal doc m =
     (if pdData doc = [] then m
      else case unmarshal (pdData doc) 0 of
             Inl e \<Rightarrow> log_at 4 ''ignoring malformed policy'' m
           | Inr n \<Rightarrow> if n > 0 then log_at 0 ''policy applied'' (m\<lparr>smInterval := seconds n\<rparr>) else m)"

definition inventory_surface :: surface where
  "inventory_surface = \<lparr>sfID = ''inventory'', sfTitle = ''Host inventory'', sfKind = ''card'', sfData = []\<rparr>"

text \<open>
  \<open>Init\<close>: the documents of the watch arrive later, through \<open>applyPolicy\<close>; the context of the
  watch exists whether or not the watch opens.
\<close>

definition sysinfo_Init ::
    "(bytes \<Rightarrow> int \<Rightarrow> (string, int) result) \<Rightarrow> 'st services \<Rightarrow> string \<Rightarrow> string list \<Rightarrow> sysinfo \<Rightarrow> 'st host \<Rightarrow> host_client
      \<Rightarrow> ((string, unit) result \<times> host_client) \<times> sysinfo \<times> 'st host" where
  "sysinfo_Init unmarshal svc token allow m h hc =
     (let m1 = m\<lparr>smInterval := seconds (smIntervalSeconds m)\<rparr>
      in case policyClient_Get svc token allow sysinfo_ID h of
           (r, h') \<Rightarrow>
             let m2 = (case r of Inl _ \<Rightarrow> m1 | Inr doc \<Rightarrow> applyPolicy unmarshal doc m1)
             in (Declare [inventory_surface] hc, m2\<lparr>smStopWatch := True\<rparr>, h'))"

definition sysinfo_Stop :: "sysinfo \<Rightarrow> sysinfo" where
  "sysinfo_Stop m = (if smStopWatch m then m\<lparr>smStopWatch := False\<rparr> else m)"

definition currentInterval :: "sysinfo \<Rightarrow> duration" where
  "currentInterval m = smInterval m"

text \<open>The one job; the interval it reads in its \<open>n\<close>-th cycle is the one of the module then.\<close>

definition Jobs :: "(nat \<Rightarrow> sysinfo) \<Rightarrow> job list" where
  "Jobs ms = [\<lparr>jbName = ''collect'', jbEvery = 0, jbEveryFunc = Some (\<lambda>n. currentInterval (ms n))\<rparr>]"

datatype sdk_health = HealthUnknown | HealthHealthy | HealthDegraded | HealthUnhealthy

definition sysinfo_Health :: "(time \<Rightarrow> string) \<Rightarrow> time \<Rightarrow> sysinfo \<Rightarrow> sdk_health \<times> string" where
  "sysinfo_Health format now m =
     (case smLastCollected m of
        None \<Rightarrow> (HealthHealthy, ''no collection yet'')
      | Some t \<Rightarrow>
          (case smLastErr m of
             Some e \<Rightarrow> (HealthDegraded, e)
           | None \<Rightarrow>
               if Since now t > wrap64 (2 * smInterval m)
               then (HealthDegraded, ''inventory stale since '' @ format t)
               else (HealthHealthy, [])))"

definition log_failure :: "string \<Rightarrow> ('e, 'a) result \<Rightarrow> sysinfo \<Rightarrow> sysinfo" where
  "log_failure msg r m = (case r of Inl _ \<Rightarrow> log_at 4 msg m | Inr _ \<Rightarrow> m)"

definition collectAndReport ::
    "inventory_os \<Rightarrow> (inventory \<Rightarrow> (string, bytes) result) \<Rightarrow> 'st services \<Rightarrow> string \<Rightarrow> string list \<Rightarrow> time
      \<Rightarrow> sysinfo \<Rightarrow> 'st host \<Rightarrow> sysinfo \<times> 'st host" where
  "collectAndReport io marshal svc token allow now m h =
     (let r = Collect io now;
          m1 = m\<lparr>smLastCollected := Some now, smLastErr := (case r of Inl e \<Rightarrow> Some e | Inr _ \<Rightarrow> None)\<rparr>
      in case r of
           Inl _ \<Rightarrow> (log_at 4 ''collection failed'' m1, h)
         | Inr iv \<Rightarrow>
             (case marshal iv of
                Inl _ \<Rightarrow> (log_at 8 ''marshalling inventory'' m1, h)
              | Inr data \<Rightarrow>
                  (case storeClient_Put svc token allow [] sysinfo_ID ''last-inventory'' data h of (put, h1) \<Rightarrow>
                   case eventsClient_Publish svc token allow sysinfo_ID ''inventory'' data now h1 of (pub, h2) \<Rightarrow>
                   case transportClient_Send svc token allow sysinfo_ID PEER_GATEWEAVE ''heartbeat'' data True h2 of (sent, h3) \<Rightarrow>
                     let m2 = log_failure ''publishing inventory'' pub (log_failure ''storing inventory'' put m1)
                     in (case sent of
                           Inl _ \<Rightarrow> log_at 4 ''heartbeat failed'' m2
                         | Inr delivered \<Rightarrow> if delivered then m2 else log_at (- 4) ''heartbeat queued: no peer connected'' m2,
                         h3))))"

definition sysinfo_code :: "(nat \<Rightarrow> sysinfo) \<Rightarrow> module_code" where
  "sysinfo_code ms = \<lparr>mdID = sysinfo_ID, mdRequires = sysinfo_Requires, mdConfigReceiver = True, mdScheduled = Some (Jobs ms)\<rparr>"


text \<open>
  The life of the module after \<open>Init\<close>: documents of the watch and cycles of the job, in any order.
\<close>

datatype sysinfo_event = WatchDoc policy_document | Cycle inventory_os time

fun sysinfo_step where
  "sysinfo_step unmarshal marshal svc token allow (WatchDoc doc) (m, h) = (applyPolicy unmarshal doc m, h)"
| "sysinfo_step unmarshal marshal svc token allow (Cycle io now) (m, h) =
     collectAndReport io marshal svc token allow now m h"

fun sysinfo_run where
  "sysinfo_run unmarshal marshal svc token allow [] s = s"
| "sysinfo_run unmarshal marshal svc token allow (ev # evs) s =
     sysinfo_run unmarshal marshal svc token allow evs (sysinfo_step unmarshal marshal svc token allow ev s)"


section \<open>The interval\<close>

lemma wrap64_eq: "wrap64 n = signed_take_bit 63 n"
  by (simp add: wrap64_def sint_sbintrunc')

lemma wrap64_id: "- (2 ^ 63) \<le> n \<Longrightarrow> n < 2 ^ 63 \<Longrightarrow> wrap64 n = n"
  by (simp add: wrap64_eq signed_take_bit_int_eq_self)

definition maxSeconds :: int where "maxSeconds = 9223372036"

lemma seconds_positive: "0 < n \<Longrightarrow> n \<le> maxSeconds \<Longrightarrow> seconds n = n * 10 ^ 9"
  by (simp add: seconds_def maxSeconds_def wrap64_id)

text \<open>A document whose seconds, if it has any, can be counted in nanoseconds.\<close>

definition countable_doc :: "(bytes \<Rightarrow> int \<Rightarrow> (string, int) result) \<Rightarrow> policy_document \<Rightarrow> bool" where
  "countable_doc unmarshal doc = (case unmarshal (pdData doc) 0 of Inl _ \<Rightarrow> True | Inr n \<Rightarrow> n \<le> maxSeconds)"

lemma log_at_simps [simp]:
  "smInterval (log_at l t m) = smInterval m" "smLastErr (log_at l t m) = smLastErr m"
  "smLastCollected (log_at l t m) = smLastCollected m" "smIntervalSeconds (log_at l t m) = smIntervalSeconds m"
  by (simp_all add: log_at_def)

lemma log_failure_simps [simp]:
  "smInterval (log_failure t r m) = smInterval m" "smLastErr (log_failure t r m) = smLastErr m"
  "smLastCollected (log_failure t r m) = smLastCollected m"
  by (simp_all add: log_failure_def split: sum.splits)

lemma applyPolicy_positive:
  "countable_doc unmarshal doc \<Longrightarrow> 0 < smInterval m \<Longrightarrow> 0 < smInterval (applyPolicy unmarshal doc m)"
  by (auto simp: applyPolicy_def countable_doc_def seconds_positive split: sum.splits)

lemma applyPolicy_other [simp]:
  "smLastErr (applyPolicy unmarshal doc m) = smLastErr m"
  "smLastCollected (applyPolicy unmarshal doc m) = smLastCollected m"
  by (auto simp: applyPolicy_def split: sum.splits)

lemma policies_positive:
  "list_all (countable_doc unmarshal) docs \<Longrightarrow> 0 < smInterval m \<Longrightarrow> 0 < smInterval (fold (applyPolicy unmarshal) docs m)"
  by (induction docs arbitrary: m) (auto simp: applyPolicy_positive)

lemma Init_positive:
  assumes "0 < smIntervalSeconds m" "smIntervalSeconds m \<le> maxSeconds"
    and "\<And>doc. fst (policyClient_Get svc token allow sysinfo_ID h) = Inr doc \<Longrightarrow> countable_doc unmarshal doc"
    and "sysinfo_Init unmarshal svc token allow m h hc = (r, m', h')"
  shows "0 < smInterval m'"
  using assms seconds_positive [OF assms(1,2)]
  by (auto simp: sysinfo_Init_def Let_def intro!: applyPolicy_positive split: prod.splits sum.splits)

lemma job_loop_never_ends: "(\<And>n. 0 < job_next j n) \<Longrightarrow> snd (job_loop j n evs) \<noteq> JobEnded"
  by (induction evs arbitrary: n) (simp_all add: split_beta leD not_le)

text \<open>
  The collection does not end by itself: when the configuration and the policies give seconds that
  a duration can count, the job collects until it is cancelled, whatever documents arrive between
  its cycles.
\<close>

theorem collection_goes_on:
  assumes "0 < smIntervalSeconds m" "smIntervalSeconds m \<le> maxSeconds"
    and "\<And>doc. fst (policyClient_Get svc token allow sysinfo_ID h) = Inr doc \<Longrightarrow> countable_doc unmarshal doc"
    and "sysinfo_Init unmarshal svc token allow m h hc = (r, m0, h')"
    and "\<And>n. list_all (countable_doc unmarshal) (docs n)"
  shows "snd (launchJob (hd (Jobs (\<lambda>n. fold (applyPolicy unmarshal) (docs n) m0))) evs) \<noteq> JobEnded"
proof -
  let ?j = "hd (Jobs (\<lambda>n. fold (applyPolicy unmarshal) (docs n) m0))"
  have "0 < smInterval (fold (applyPolicy unmarshal) (docs n) m0)" for n
    by (rule policies_positive [OF assms(5) Init_positive [OF assms(1-4)]])
  then have "snd (job_loop ?j 0 evs) \<noteq> JobEnded"
    by (intro job_loop_never_ends) (simp add: Jobs_def job_next_def currentInterval_def)
  then show ?thesis by (simp add: launchJob_def split_beta)
qed

text \<open>
  A policy of one second more makes the interval negative, and the module never collects again after
  its first run.
\<close>

theorem interval_overflow:
  assumes "unmarshal (pdData doc) 0 = Inr (maxSeconds + 1)" "pdData doc \<noteq> []"
  shows "launchJob (hd (Jobs (\<lambda>n. applyPolicy unmarshal doc m))) evs = (1, JobEnded)"
proof -
  have "seconds (maxSeconds + 1) < 0" by code_simp
  with assms have "smInterval (applyPolicy unmarshal doc m) < 0" by (simp add: applyPolicy_def maxSeconds_def)
  then show ?thesis
    by (cases evs) (simp_all add: launchJob_def Jobs_def job_next_def currentInterval_def)
qed

text \<open>Applied to a default module, no policy at first, and one of ten seconds from the second cycle on.\<close>

definition ex_unmarshal :: "bytes \<Rightarrow> int \<Rightarrow> (string, int) result" where
  "ex_unmarshal b n = (case ParseUint 16 b of None \<Rightarrow> Inl ''not a number'' | Some k \<Rightarrow> Inr (int k))"

lemma ex_countable: "countable_doc ex_unmarshal doc"
  using ParseUint_bound [of 16 "pdData doc"]
  by (fastforce simp: countable_doc_def ex_unmarshal_def maxSeconds_def split: option.splits sum.splits)

definition ex_docs :: "nat \<Rightarrow> policy_document list" where
  "ex_docs n = (if n = 0 then [] else [\<lparr>pdRevision = 1, pdData = ''10'', pdSchemaVersion = 0, pdContentType = []\<rparr>])"

theorem collection_goes_on_witness:
  "snd (launchJob (hd (Jobs (\<lambda>n. fold (applyPolicy ex_unmarshal) (ex_docs n)
     (fst (snd (sysinfo_Init ex_unmarshal ex_services ''t'' [] New_sysinfo ex_host new_hostClient)))))) [True, True]) \<noteq> JobEnded"
proof (rule collection_goes_on [OF _ _ ex_countable])
  let ?i = "sysinfo_Init ex_unmarshal ex_services ''t'' [] New_sysinfo ex_host new_hostClient"
  show "?i = (fst ?i, fst (snd ?i), snd (snd ?i))" by simp
qed (simp_all add: New_sysinfo_def maxSeconds_def ex_countable list_all_iff)

theorem interval_overflow_witness:
  "launchJob (hd (Jobs (\<lambda>n. applyPolicy (\<lambda>_ _. Inr (maxSeconds + 1))
     \<lparr>pdRevision = 1, pdData = ''{}'', pdSchemaVersion = 0, pdContentType = []\<rparr> New_sysinfo))) [True, True] = (1, JobEnded)"
  by (rule interval_overflow) simp_all

section \<open>The report\<close>

lemma transport_frame:
  assumes "store_backend be ok view" "mxBackend (svMux svc) = be" "ok (hsStore h)"
    and "transportServer_Send svc m peer kind data queueOffline h = (r, h')"
  shows "ok (hsStore h') \<and> hsBus h' = hsBus h \<and> (\<forall>n. n \<noteq> queueNamespace \<longrightarrow> view (hsStore h') n = view (hsStore h) n)"
proof -
  let ?msg = "\<lparr>qmModule = m, qmPeer = peer, qmKind = kind, qmData = data\<rparr>"
  from store_backend.queue_frame_mux_Send [OF assms(1,2), of "(hsMux h)\<lparr>mxQueue := Some (hsStore h)\<rparr>" ?msg queueOffline]
    assms(3,4)
  show ?thesis
    by (auto simp: transportServer_Send_def store_backend.queue_frame_def [OF assms(1)] split: prod.splits)
qed

lemma publish_call:
  "eventsClient_Publish svc token allow m topic data now h = (Inr (), eventsServer_Publish m topic data now h)"
  by (simp add: eventsClient_Publish_def invoke_def serve_def token_ok_def handle_request_def)

lemma send_call:
  "transportClient_Send svc token allow m peer kind data q h =
     (case transportServer_Send svc m peer kind data q h of
        (Inl st, h') \<Rightarrow> (Inl (the (sentinelErr (Some (StatusError st)))), h') | (Inr resp, h') \<Rightarrow> (Inr (resp = Delivered True), h'))"
  by (simp add: transportClient_Send_def invoke_def serve_def token_ok_def handle_request_def split: prod.splits sum.splits)

lemma put_call:
  assumes "bePut (svStore svc) m k v (hsStore h) = (Inr u, st)"
  shows "storeClient_Put svc token allow [] m k v h = (Inr (), h\<lparr>hsStore := st\<rparr>)"
  using assms by (simp add: storeClient_Put_def invoke_def serve_def token_ok_def handle_request_def storeServer_Put_def ns_prefix_def)

text \<open>The message of a cycle.\<close>

definition heartbeat :: "bytes \<Rightarrow> queued_message" where
  "heartbeat data = \<lparr>qmModule = sysinfo_ID, qmPeer = PEER_GATEWEAVE, qmKind = ''heartbeat'', qmData = data\<rparr>"

text \<open>
  C40: A cycle of the module reaches core, as long as the calls of the store succeed. When the inventory is marshalled, the
  snapshot is what the module's namespace holds afterwards and the event is published under the module's topic. The heartbeat
  is on the wire when the peer is connected and takes it, and otherwise it is the last entry of the queue, within its cap, and the
  module logs just that. Every namespace but the module's own and the one of the transport queue is as it was. (The keys of
  the queue are ones it made, and its numbers have not reached the end of 64 bits.)
\<close>

theorem report_reaches_core:
  assumes "reliable_backend be ok view" "svStore svc = be" "mxBackend (svMux svc) = be" "ok (hsStore h)"
    and "queue_ok (view (hsStore h) queueNamespace) (hsMux h)" "numbers_left (view (hsStore h) queueNamespace) (hsMux h)"
    and "Collect io now = Inr iv" "marshal iv = Inr data" "encodeQueued (mxCodec (svMux svc)) (heartbeat data) = Some raw"
    and "collectAndReport io marshal svc token allow now m h = (m', h')"
  shows "ok (hsStore h') \<and> view (hsStore h') sysinfo_ID ''last-inventory'' = Some data
    \<and> (\<forall>n. n \<notin> {sysinfo_ID, queueNamespace} \<longrightarrow> view (hsStore h') n = view (hsStore h) n)
    \<and> hsBus h' = Publish sysinfo_ID ''inventory'' data now (hsBus h)
    \<and> smLastCollected m' = Some now \<and> smLastErr m' = None
    \<and> (if mxGateWeave (hsMux h) \<and> mxUp (svMux svc) (mxAttempts (hsMux h))
       then prefix (mxWire (hsMux h) @ [heartbeat data]) (mxWire (hsMux h')) \<and> smLog m' = smLog m
       else mxWire (hsMux h') = mxWire (hsMux h) \<and> smLog m' = smLog m @ [(- 4, ''heartbeat queued: no peer connected'')]
         \<and> (\<exists>key. queue_list (view (hsStore h') queueNamespace)
              = drop (Suc (length (queue_list (view (hsStore h) queueNamespace))) - nat (maxQueued (hsMux h)))
                  (queue_list (view (hsStore h) queueNamespace) @ [(key, raw)])))"
proof -
  have be: "store_backend be ok view" by (rule reliable_backend.axioms [OF assms(1)])
  obtain st where st: "bePut be sysinfo_ID ''last-inventory'' data (hsStore h) = (Inr (), st)"
    using reliable_backend.put_total [OF assms(1,4)] by blast
  have stored: "ok st" "view st = (view (hsStore h))(sysinfo_ID := (view (hsStore h) sysinfo_ID)(''last-inventory'' := Some data))"
    using store_backend.put_ok [OF be assms(4) st] by blast+
  have own: "sysinfo_ID \<noteq> queueNamespace" by (simp add: sysinfo_ID_def queueNamespace_def)
  let ?h1 = "h\<lparr>hsStore := st\<rparr>" and ?mx = "(hsMux h)\<lparr>mxQueue := Some st\<rparr>"
  let ?h2 = "eventsServer_Publish sysinfo_ID ''inventory'' data now ?h1"
  have h2: "hsStore ?h2 = st" "hsMux ?h2 = hsMux h" "hsBus ?h2 = Publish sysinfo_ID ''inventory'' data now (hsBus h)"
    by (simp_all add: eventsServer_Publish_def)
  obtain r h3 where send: "transportServer_Send svc sysinfo_ID PEER_GATEWEAVE ''heartbeat'' data True ?h2 = (r, h3)"
    by fastforce
  obtain r' mx' where mux: "mux_Send (svMux svc) (heartbeat data) True ?mx = (r', mx')" by fastforce
  have put: "storeClient_Put svc token allow [] sysinfo_ID ''last-inventory'' data h = (Inr (), ?h1)"
    by (rule put_call) (use assms(2) st in simp)
  have mx: "maxQueued ?mx = maxQueued (hsMux h)" "queue_ok f ?mx = queue_ok f (hsMux h)"
      "numbers_left f ?mx = numbers_left f (hsMux h)" "peerFor PEER_GATEWEAVE ?mx = mxGateWeave (hsMux h)"
      "qmPeer (heartbeat data) = PEER_GATEWEAVE" for f
    by (simp_all add: maxQueued_def queue_ok_def numbers_left_def peerFor_def heartbeat_def PEER_GATEWEAVE_def PEER_HYPERVISOR_def)
  have queue: "view st queueNamespace = view (hsStore h) queueNamespace" using own by (simp add: stored(2))
  note sent = reliable_backend.queued_send [OF assms(1,3) _ stored(1) _ _ assms(9) mux, unfolded mx queue, simplified, OF assms(5,6)]
  let ?up = "mxGateWeave (hsMux h) \<and> mxUp (svMux svc) (mxAttempts (hsMux h))"
  have "r' = Inr ?up" using sent by (auto split: if_splits)
  then have r: "r = Inr (Delivered ?up)" and h3: "hsMux h3 = mx'" "hsStore h3 = (case mxQueue mx' of None \<Rightarrow> st | Some q \<Rightarrow> q)"
    using send mux unfolding transportServer_Send_def h2 heartbeat_def [symmetric] by auto
  have run: "h' = h3" "smLastCollected m' = Some now" "smLastErr m' = None"
    "smLog m' = smLog m @ (if ?up then [] else [(- 4, ''heartbeat queued: no peer connected'')])"
    using assms(10)
    by (auto simp: collectAndReport_def Let_def assms(7,8) put publish_call send_call send r log_failure_def log_at_def)
  from transport_frame [OF be assms(3) _ send] stored own h2
  have "ok (hsStore h') \<and> view (hsStore h') sysinfo_ID ''last-inventory'' = Some data
    \<and> (\<forall>n. n \<notin> {sysinfo_ID, queueNamespace} \<longrightarrow> view (hsStore h') n = view (hsStore h) n)
    \<and> hsBus h' = Publish sysinfo_ID ''inventory'' data now (hsBus h)" by (auto simp: run)
  with sent run(2-4) show ?thesis by (auto simp: run(1) h3 split: if_splits)
qed

definition ex_io :: inventory_os where
  "ex_io = \<lparr>ioHost = ex_guest, ioNumCPU = 4, ioSysinfo = Some (1024, 4096, 60), ioMemsize = None, ioUptime = None,
     ioIoreg = None, ioTotalPhys = None, ioWMI = None\<rparr>"

lemma ex_io_memory: "(case Collect ex_io 7 of Inl _ \<Rightarrow> [] | Inr iv \<Rightarrow> dec (unat (ivMemoryBytes iv))) = ''4194304''"
  by code_simp

text \<open>Applied to the in-memory store and a host that is offline: the heartbeat is what the queue then holds.\<close>

definition ex_reporting :: "mem_store services" where
  "ex_reporting = ex_services\<lparr>svMux := ex_mux_env\<lparr>mxCodec := \<lparr>encodeQueued = (\<lambda>qm. Some (qmData qm)), decodeQueued = Some \<circ> heartbeat\<rparr>\<rparr>\<rparr>"

definition ex_reported :: "mem_store host" where
  "ex_reported = snd (collectAndReport ex_io (\<lambda>iv. Inr (dec (unat (ivMemoryBytes iv)))) ex_reporting ''t'' [] 7 New_sysinfo ex_host)"

theorem report_reaches_core_witness:
  "mem_view (hsStore ex_reported) ''sysinfo'' ''last-inventory'' = Some ''4194304''
   \<and> (\<exists>key. queue_list (mem_view (hsStore ex_reported) queueNamespace) = [(key, ''4194304'')])"
proof -
  let ?marshal = "\<lambda>iv. Inr (dec (unat (ivMemoryBytes iv))) :: (string, bytes) result"
  obtain iv where iv: "Collect ex_io 7 = Inr iv" by (simp add: Collect_def Let_def)
  with ex_io_memory have mem: "?marshal iv = Inr ''4194304''" by simp
  have svc: "svStore ex_reporting = MemStore" "mxBackend (svMux ex_reporting) = MemStore" "mem_inv (hsStore ex_host)"
      "encodeQueued (mxCodec (svMux ex_reporting)) (heartbeat ''4194304'') = Some ''4194304''"
    by (simp_all add: ex_reporting_def ex_services_def ex_host_def mem_inv_def heartbeat_def)
  have queue: "mem_view (hsStore ex_host) queueNamespace = Map.empty"
    by (auto simp: ex_host_def mem_view_def queueNamespace_def)
  have mux: "queue_ok Map.empty (hsMux ex_host)" "numbers_left Map.empty (hsMux ex_host)" "\<not> mxGateWeave (hsMux ex_host)"
      "0 < nat (maxQueued (hsMux ex_host))"
    by (simp_all add: queue_ok_def numbers_left_def ex_host_def maxQueued_def ex_mux_def)
  have none: "queue_list Map.empty = []" by (simp add: queue_list_def)
  obtain m' h' where run: "collectAndReport ex_io ?marshal ex_reporting ''t'' [] 7 New_sysinfo ex_host = (m', h')" by fastforce
  from report_reaches_core [where marshal = ?marshal, OF memr.reliable_backend_axioms svc(1-3) _ _ iv mem svc(4) run]
  have "mem_view (hsStore h') sysinfo_ID ''last-inventory'' = Some ''4194304''
      \<and> (\<exists>key. queue_list (mem_view (hsStore h') queueNamespace) = [(key, ''4194304'')])"
    unfolding queue none using mux by simp
  then show ?thesis by (simp add: ex_reported_def run sysinfo_ID_def)
qed


section \<open>Health\<close>

lemma collectAndReport_state [simp]:
  "smInterval (fst (collectAndReport io marshal svc token allow now m h)) = smInterval m"
  "smLastCollected (fst (collectAndReport io marshal svc token allow now m h)) = Some now"
  "smLastErr (fst (collectAndReport io marshal svc token allow now m h)) = None"
  by (auto simp: collectAndReport_def Let_def Collect_def split: sum.splits prod.splits)

lemma sysinfo_run_no_error:
  "smLastErr (fst s) = None \<Longrightarrow> smLastErr (fst (sysinfo_run unmarshal marshal svc token allow evs s)) = None"
proof (induction evs arbitrary: s)
  case (Cons ev evs)
  have "smLastErr (fst (sysinfo_step unmarshal marshal svc token allow ev s)) = None"
    using Cons.prems by (cases s; cases ev) simp_all
  from Cons.IH [OF this] show ?case by simp
qed simp

text \<open>
  In every life of the module the health it reports is healthy or degraded, never such that the
  supervisor restarts it. It is degraded exactly when the last collection is more than twice the
  interval ago, as long as twice the interval can be counted; the branch for a collection that
  failed is never taken.
\<close>

theorem sysinfo_health_iff:
  assumes "sysinfo_run unmarshal marshal svc token allow evs (m, h) = (m', h')" "smLastErr m = None"
    and "0 \<le> smInterval m'" "smInterval m' < 2 ^ 62" "\<And>t. smLastCollected m' = Some t \<Longrightarrow> t \<le> now \<and> now - t < 2 ^ 63"
  shows "fst (sysinfo_Health format now m') =
    (if \<exists>t. smLastCollected m' = Some t \<and> now - t > 2 * smInterval m' then HealthDegraded else HealthHealthy)"
proof -
  have "smLastErr m' = None"
    using sysinfo_run_no_error [of "(m, h)" unmarshal marshal svc token allow evs] assms(1,2) by simp
  moreover have "wrap64 (2 * smInterval m') = 2 * smInterval m'" by (rule wrap64_id) (use assms(3,4) in simp_all)
  ultimately show ?thesis
    using assms(5) by (cases "smLastCollected m'") (auto simp: sysinfo_Health_def Since_def)
qed

text \<open>Applied to a module whose only collection is half an hour and a nanosecond old.\<close>

theorem sysinfo_health_iff_witness:
  "fst (sysinfo_Health (\<lambda>_. []) (7 + 1800 * 10 ^ 9 + 1)
     (fst (sysinfo_run ex_unmarshal (\<lambda>_. Inr []) ex_services ''t'' [] [Cycle ex_io 7] (New_sysinfo\<lparr>smInterval := 900 * 10 ^ 9\<rparr>, ex_host))))
   = HealthDegraded"
proof -
  let ?s = "(New_sysinfo\<lparr>smInterval := 900 * 10 ^ 9\<rparr>, ex_host)"
  let ?r = "sysinfo_run ex_unmarshal (\<lambda>_. Inr []) ex_services ''t'' [] [Cycle ex_io 7] ?s"
  have r: "smInterval (fst ?r) = 900 * 10 ^ 9" "smLastCollected (fst ?r) = Some 7" by simp_all
  have "smLastErr (fst ?s) = None" by (simp add: New_sysinfo_def)
  from sysinfo_health_iff [of ex_unmarshal "\<lambda>_. Inr []" ex_services "''t''" "[]" "[Cycle ex_io 7]" "fst ?s" ex_host "fst ?r" "snd ?r"
      "7 + 1800 * 10 ^ 9 + 1" "\<lambda>_. []"] this
  show ?thesis unfolding r by simp
qed


section \<open>Requirements and the serial number\<close>

text \<open>The module's requirements are met on every host.\<close>

theorem sysinfo_requirements_met: "Has (Probe os) (mdRequires (sysinfo_code ms)) = []"
  by (simp add: sysinfo_code_def sysinfo_Requires_def osinfo_present)

lemma drop_marker: "drop (length xs + length m) (xs @ m @ r) = r"
  by simp

lemma Index_prefix: "prefix sub s \<Longrightarrow> Index s sub = Some 0"
  by (cases s) auto

lemma Index_skip:
  assumes "CHR ''<'' \<notin> set v"
  shows "Index (v @ s) (CHR ''<'' # sub) = map_option ((+) (length v)) (Index s (CHR ''<'' # sub))"
  using assms
proof (induction v)
  case Nil
  show ?case by (cases "Index s (CHR ''<'' # sub)") simp_all
next
  case (Cons c v)
  then show ?case by (cases "Index s (CHR ''<'' # sub)") auto
qed

text \<open>
  The serial number is found when the key is followed by its string, with white space between the
  tags, and its first occurrence is as a key.
\<close>

theorem extractPlistKey_found:
  assumes "Index plist (''<key>'' @ key @ ''</key>'') = Some (length pre)"
    and "plist = pre @ ''<key>'' @ key @ ''</key>'' @ ws @ ''<string>'' @ v @ ''</string>'' @ post"
    and "CHR ''<'' \<notin> set ws" "CHR ''<'' \<notin> set v"
  shows "extractPlistKey plist key = TrimSpace v"
proof -
  let ?rest = "ws @ ''<string>'' @ v @ ''</string>'' @ post"
  have rest: "drop (length pre + length (''<key>'' @ key @ ''</key>'')) plist = ?rest"
    using drop_marker [of pre "''<key>'' @ key @ ''</key>''" ?rest] by (simp only: assms(2) append_assoc)
  have open_tag: "Index ?rest ''<string>'' = Some (length ws)"
    using Index_skip [OF assms(3), of "''<string>'' @ v @ ''</string>'' @ post" "''string>''"]
    by (simp add: Index_prefix)
  have "Index (v @ ''</string>'' @ post) ''</string>'' = Some (length v)"
    using Index_skip [OF assms(4), of "''</string>'' @ post" "''/string>''"] by (simp add: Index_prefix)
  then have close_tag: "Index ?rest ''</string>'' = Some (length ws + 8 + length v)"
    using Index_skip [OF assms(3), of "''<string>'' @ v @ ''</string>'' @ post" "''/string>''"] by simp
  show ?thesis
    unfolding extractPlistKey_def Let_def assms(1) option.case rest open_tag close_tag prod.case
    by (simp add: eval_nat_numeral)
qed

text \<open>Applied to two lines of a property list.\<close>

theorem extractPlistKey_found_witness:
  "extractPlistKey (''<key>A</key><string>x</string>'' @ ''<key>IOPlatformSerialNumber</key> <string> C02 </string>'') ''IOPlatformSerialNumber'' = ''C02''"
proof -
  have "extractPlistKey (''<key>A</key><string>x</string>'' @ ''<key>IOPlatformSerialNumber</key> <string> C02 </string>'')
      ''IOPlatformSerialNumber'' = TrimSpace '' C02 ''"
    by (rule extractPlistKey_found [of _ _ "''<key>A</key><string>x</string>''" "'' ''" _ "[]"]) code_simp+
  also have "\<dots> = ''C02''" by code_simp
  finally show ?thesis .
qed

text \<open>A key whose value is not a string gets the string of a later key.\<close>

theorem extractPlistKey_wrong_key:
  "extractPlistKey ''<key>IOPlatformSerialNumber</key><data/><key>model</key><string>Mac</string>'' ''IOPlatformSerialNumber'' = ''Mac''"
  by code_simp

end
