(* ===== verification/Testkit.thy ===== *)
theory Testkit
  imports Hostclient Host_Facts
begin

text \<open>
  The test kit modules are tested with (\<open>src/sdk/modulesdk/testkit\<close>): the in-memory host data, the
  stub host services over it, and the stub of core that launches a module and drives its
  lifecycle. The lemmas say how far the stub stands in for core: which calls a module cannot tell
  apart, that the verdict on a handshake is the one of core's launch, that no policy is lost to a
  watch stream, and that a launch that fails leaves nothing behind.
\<close>

section \<open>Host data\<close>

record published_event =
  peTopic :: string
  peData :: bytes
  peAt :: time

record sent_message =
  smPeer :: int
  smKind :: string
  smData :: bytes
  smQueueOffline :: bool

text \<open>A subscriber: its topics and the events in its channel, which holds 64.\<close>

record subscriber =
  sbTopics :: "string list"
  sbCh :: "published_event list"

text \<open>
  \<open>HostData\<close>. A watcher of the policy is a channel that holds one signal; \<open>hdWatchers\<close> says
  of each whether it does.
\<close>

record host_data =
  hdStore :: "(string \<times> bytes) list"
  hdPolicyRevision :: uint64
  hdPolicyData :: bytes
  hdWatchers :: "bool list"
  hdEvents :: "published_event list"
  hdSubscribers :: "subscriber list"
  hdSends :: "sent_message list"
  hdDevice :: "string \<times> bool \<times> string"

definition NewHostData :: host_data where
  "NewHostData = \<lparr>hdStore = [], hdPolicyRevision = 0, hdPolicyData = [], hdWatchers = [], hdEvents = [],
     hdSubscribers = [], hdSends = [], hdDevice = (''test-device'', False, ''test'')\<rparr>"

definition hd_StoreGet :: "string \<Rightarrow> host_data \<Rightarrow> bytes option" where
  "hd_StoreGet k d = map_of (hdStore d) k"

definition hd_StorePut :: "string \<Rightarrow> bytes \<Rightarrow> host_data \<Rightarrow> host_data" where
  "hd_StorePut k v d = d\<lparr>hdStore := (k, v) # filter (\<lambda>(q, _). q \<noteq> k) (hdStore d)\<rparr>"

definition hd_StoreDelete :: "string \<Rightarrow> host_data \<Rightarrow> host_data" where
  "hd_StoreDelete k d = d\<lparr>hdStore := filter (\<lambda>(q, _). q \<noteq> k) (hdStore d)\<rparr>"

text \<open>The keys come in the order of the map, which is unspecified.\<close>

definition hd_StoreKeys :: "string \<Rightarrow> host_data \<Rightarrow> string list" where
  "hd_StoreKeys p d = filter (\<lambda>k. length p \<le> length k \<and> take (length p) k = p) (map fst (hdStore d))"

definition SetPolicy :: "bytes \<Rightarrow> host_data \<Rightarrow> host_data" where
  "SetPolicy data d = d\<lparr>hdPolicyRevision := hdPolicyRevision d + 1, hdPolicyData := data, hdWatchers := map (\<lambda>_. True) (hdWatchers d)\<rparr>"

definition hd_Policy :: "host_data \<Rightarrow> uint64 \<times> bytes" where
  "hd_Policy d = (hdPolicyRevision d, hdPolicyData d)"

definition addPolicyWatcher :: "host_data \<Rightarrow> host_data" where
  "addPolicyWatcher d = d\<lparr>hdWatchers := hdWatchers d @ [False]\<rparr>"

definition pattern_matches :: "string \<Rightarrow> string \<Rightarrow> bool" where
  "pattern_matches p topic =
     (p = topic \<or> (let n = length p in n > 1 \<and> p ! (n - 1) = CHR ''*'' \<and> length topic \<ge> n - 1 \<and> take (n - 1) topic = take (n - 1) p))"

definition topicMatches :: "string list \<Rightarrow> string \<Rightarrow> bool" where
  "topicMatches patterns topic = list_ex (\<lambda>p. pattern_matches p topic) patterns"

definition offer_event :: "published_event \<Rightarrow> subscriber \<Rightarrow> subscriber" where
  "offer_event ev s =
     (if topicMatches (sbTopics s) (peTopic ev) \<and> length (sbCh s) < 64 then s\<lparr>sbCh := sbCh s @ [ev]\<rparr> else s)"

definition hd_Publish :: "string \<Rightarrow> bytes \<Rightarrow> time \<Rightarrow> host_data \<Rightarrow> host_data" where
  "hd_Publish topic data now d =
     (let ev = \<lparr>peTopic = topic, peData = data, peAt = now\<rparr>
      in d\<lparr>hdEvents := hdEvents d @ [ev], hdSubscribers := map (offer_event ev) (hdSubscribers d)\<rparr>)"

definition hd_subscribe :: "string list \<Rightarrow> host_data \<Rightarrow> host_data" where
  "hd_subscribe topics d = d\<lparr>hdSubscribers := hdSubscribers d @ [\<lparr>sbTopics = topics, sbCh = []\<rparr>]\<rparr>"

definition RecordSend :: "sent_message \<Rightarrow> host_data \<Rightarrow> host_data" where
  "RecordSend msg d = d\<lparr>hdSends := hdSends d @ [msg]\<rparr>"


section \<open>Stub host services\<close>

text \<open>
  The services of the stub on the requests of \<open>Hostserv\<close>. The log and watchdog services are not
  registered, so gRPC answers those calls.
\<close>

definition stub_handle :: "string \<Rightarrow> request \<Rightarrow> host_data \<Rightarrow> (status, response) result \<times> host_data" where
  "stub_handle m req d =
     (case req of
        StoreGet k \<Rightarrow> (Inr (case hd_StoreGet k d of None \<Rightarrow> StoreValue [] False | Some v \<Rightarrow> StoreValue v True), d)
      | StorePut k v \<Rightarrow> (Inr StoreDone, hd_StorePut k v d)
      | StoreDelete k \<Rightarrow> (Inr StoreDone, hd_StoreDelete k d)
      | StoreList p \<Rightarrow> (Inr (StoreKeys (hd_StoreKeys p d)), d)
      | PolicyGet \<Rightarrow> (Inr (case hd_Policy d of (revision, data) \<Rightarrow> PolicyDocument revision data), d)
      | EventPublish topic data now \<Rightarrow> (Inr EventDone, hd_Publish (m @ ''.'' @ topic) data now d)
      | EventSubscribe topics \<Rightarrow> (Inr (EventFeed (length (hdSubscribers d))), hd_subscribe topics d)
      | IdentityWhoAmI \<Rightarrow> (Inr (case hdDevice d of (dev, eph, tenant) \<Rightarrow> Device dev eph tenant), d)
      | IdentityCredential scopes \<Rightarrow> (Inr (CredentialToken (''test-credential-'' @ m) 4102444800 scopes), d)
      | TransportSend peer kind data queueOffline \<Rightarrow>
          (Inr (Delivered True), RecordSend \<lparr>smPeer = peer, smKind = kind, smData = data, smQueueOffline = queueOffline\<rparr> d)
      | LogWrite recs eof \<Rightarrow> (Inl (Unimplemented, ''unknown service''), d)
      | WatchdogNotify pings eof \<Rightarrow> (Inl (Unimplemented, ''unknown service''), d))"

definition stub_serve ::
    "string \<Rightarrow> string \<Rightarrow> string list \<times> request \<Rightarrow> host_data \<Rightarrow> (status, response) result \<times> host_data" where
  "stub_serve m token call d =
     (case call of (vals, req) \<Rightarrow>
        if token_ok token vals then stub_handle m req d
        else (Inl (Unauthenticated, ''missing or wrong handshake token''), d))"

fun stub_serve_all ::
    "string \<Rightarrow> string \<Rightarrow> (string list \<times> request) list \<Rightarrow> host_data \<Rightarrow> (status, response) result list \<times> host_data" where
  "stub_serve_all m token [] d = ([], d)"
| "stub_serve_all m token (call # session) d =
     (case stub_serve m token call d of (r, d') \<Rightarrow>
        case stub_serve_all m token session d' of (rs, d'') \<Rightarrow> (r # rs, d''))"


section \<open>The stub of core\<close>

record stub_core =
  scWindow :: window
  scModuleID :: string
  scConfig :: bytes
  scCapabilities :: "string list"

datatype stub_first = StdoutRead bytes | StdoutEnded int | StubTimeout | StubCancelled

record stub_io =
  siWindows :: bool
  siNonce :: "bytes option"
  siTempDir :: "(string, string) result"
  siListen :: "string option"
  siStdoutPipe :: "string option"
  siStderrPipe :: "string option"
  siStart :: "string option"
  siFirst :: stub_first
  siDial :: "string option"

definition stub_window :: "stub_core \<Rightarrow> window" where
  "stub_window c = (if winMin (scWindow c) = 0 \<and> winMax (scWindow c) = 0 then \<lparr>winMin = 1, winMax = 1\<rparr> else scWindow c)"

definition stub_hostAddr :: "stub_io \<Rightarrow> string \<Rightarrow> string \<Rightarrow> string" where
  "stub_hostAddr io token sockDir =
     (if siWindows io then [CHR 0x5C, CHR 0x5C, CHR ''.'', CHR 0x5C] @ ''pipe'' @ [CHR 0x5C] @ ''weave-stubhost-'' @ token
      else sockDir @ ''/host.sock'')"

text \<open>What is added to the environment of the test process.\<close>

definition stub_env :: "stub_core \<Rightarrow> stub_io \<Rightarrow> string \<Rightarrow> string \<Rightarrow> string list" where
  "stub_env c io token sockDir =
     window_env (stub_window c) @ [EnvToken @ ''='' @ token, EnvHostAddr @ ''='' @ stub_hostAddr io token sockDir,
       EnvSocketDir @ ''='' @ sockDir]"

definition stub_check :: "stub_core \<Rightarrow> string \<Rightarrow> (launch_error, line) result" where
  "stub_check c raw =
     (case Parse_line raw of
        Inl e \<Rightarrow> Inl (BadHandshake e)
      | Inr l \<Rightarrow> if \<not> Contains (stub_window c) (lineProtocol l) then Inl (OutsideWindow (lineProtocol l)) else Inr l)"

text \<open>
  The \<open>select\<close> after the start. Reading gives a line only when the scanner finds one, so
  \<open>StdoutRead\<close> carries what has been read until then.
\<close>

definition stub_await :: "stub_core \<Rightarrow> stub_io \<Rightarrow> line traced" where
  "stub_await c io =
     (case siFirst io of
        StdoutEnded code \<Rightarrow>
          (Inl (if code = ExitProtocolUnsupported then ProtocolUnsupported else ExitedBeforeHandshake code), [ProcExited])
      | StubTimeout \<Rightarrow> (Inl TimedOut, [KillProc])
      | StubCancelled \<Rightarrow> (Inl Cancelled, [KillProc])
      | StdoutRead b \<Rightarrow>
          on_fail [KillProc]
            (then_do (stub_check c (hd (scan_lines b)), []) (\<lambda>l.
               then_do (attempt [Dialed (lineNetwork l) (lineAddr l)] DialFailed (siDial io)) (\<lambda>_. (Inr l, [])))))"

definition stub_Launch :: "stub_core \<Rightarrow> stub_io \<Rightarrow> path \<Rightarrow> line traced" where
  "stub_Launch c io bin =
     (case siNonce io of
        None \<Rightarrow> (Inl NonceFailed, [])
      | Some nonce \<Rightarrow>
          (case siTempDir io of
             Inl e \<Rightarrow> (Inl (SockDirFailed e), [])
           | Inr sockDir \<Rightarrow>
               then_do (attempt [HostUp (scModuleID c) (hex_encode nonce) []] ListenFailed (siListen io)) (\<lambda>_.
                 on_fail [HostStop]
                   (then_do (attempt [] ExecFailed (siStdoutPipe io)) (\<lambda>_.
                    then_do (attempt [] ExecFailed (siStderrPipe io)) (\<lambda>_.
                    then_do (attempt [Spawn bin (stub_env c io (hex_encode nonce) sockDir) None] ExecFailed (siStart io)) (\<lambda>_.
                      stub_await c io)))))))"

definition stub_Init :: "stub_core \<Rightarrow> line \<Rightarrow> init_request" where
  "stub_Init c l =
     \<lparr>irProtocol = lineProtocol l, irModuleID = scModuleID c, irCapabilities = map (\<lambda>n. (n, [])) (scCapabilities c),
      irConfig = scConfig c, irPrivilege = LevelService, irWatchdogSeconds = 0\<rparr>"

text \<open>\<open>WaitExit\<close>: whether the process ends before the context does.\<close>

definition WaitExit :: "bool \<Rightarrow> action list" where
  "WaitExit exits = (if exits then [ProcExited] else [KillProc, ProcExited]) @ [CloseConn, HostStop]"

definition stub_Shutdown :: "string option \<Rightarrow> bool \<Rightarrow> action list" where
  "stub_Shutdown err exits = ShutdownCall # (case err of Some e \<Rightarrow> [] | None \<Rightarrow> WaitExit exits)"

definition stub_Kill :: "action list" where
  "stub_Kill = [KillProc, ProcExited, CloseConn, HostStop]"

section \<open>The policy watch of the stub\<close>

text \<open>
  One stream of \<open>Watch\<close> beside any number of \<open>SetPolicy\<close> calls, whose signals are sent after the
  lock is released: \<open>swInFlight\<close> counts those still to come. The stream reads the document, sends
  it if its revision is new, and waits.
\<close>

datatype stub_phase = StubReading | StubSending uint64 bytes | StubBlocked

record stub_watch =
  swRevision :: uint64
  swData :: bytes
  swInFlight :: nat
  swSignal :: bool
  swPhase :: stub_phase
  swSentMark :: uint64
  swOut :: "(uint64 \<times> bytes) list"

definition stub_watch_init :: "host_data \<Rightarrow> stub_watch" where
  "stub_watch_init d = \<lparr>swRevision = hdPolicyRevision d, swData = hdPolicyData d, swInFlight = 0, swSignal = False,
     swPhase = StubReading, swSentMark = 0, swOut = []\<rparr>"

text \<open>The revisions are counted, with room for two more before the counter wraps.\<close>

inductive stub_watch_step :: "stub_watch \<Rightarrow> stub_watch \<Rightarrow> bool" where
  Set: "unat (swRevision s) + 2 < 2 ^ 64 \<Longrightarrow>
    stub_watch_step s (s\<lparr>swRevision := swRevision s + 1, swData := data, swInFlight := Suc (swInFlight s)\<rparr>)"
| Signal: "swInFlight s = Suc n \<Longrightarrow> stub_watch_step s (s\<lparr>swInFlight := n, swSignal := True\<rparr>)"
| Read_new: "swPhase s = StubReading \<Longrightarrow> swSentMark s \<le> swRevision s \<Longrightarrow>
    stub_watch_step s (s\<lparr>swPhase := StubSending (swRevision s) (swData s)\<rparr>)"
| Read_old: "swPhase s = StubReading \<Longrightarrow> \<not> swSentMark s \<le> swRevision s \<Longrightarrow> stub_watch_step s (s\<lparr>swPhase := StubBlocked\<rparr>)"
| Send: "swPhase s = StubSending r d \<Longrightarrow>
    stub_watch_step s (s\<lparr>swPhase := StubBlocked, swSentMark := r + 1, swOut := swOut s @ [(r, d)]\<rparr>)"
| Wake: "swPhase s = StubBlocked \<Longrightarrow> swSignal s \<Longrightarrow> stub_watch_step s (s\<lparr>swPhase := StubReading, swSignal := False\<rparr>)"

inductive stub_watch_reach :: "host_data \<Rightarrow> stub_watch \<Rightarrow> bool" for d where
  init: "stub_watch_reach d (stub_watch_init d)"
| step: "stub_watch_reach d s \<Longrightarrow> stub_watch_step s s' \<Longrightarrow> stub_watch_reach d s'"

definition stub_due :: "stub_watch \<Rightarrow> bool" where
  "stub_due s = (swSignal s \<or> 0 < swInFlight s)"

definition stub_watch_ok :: "stub_watch \<Rightarrow> bool" where
  "stub_watch_ok s =
     (unat (swRevision s) + 1 < 2 ^ 64
      \<and> (if swOut s = [] then swSentMark s = 0
         else unat (swSentMark s) = Suc (unat (fst (last (swOut s)))) \<and> unat (fst (last (swOut s))) \<le> unat (swRevision s)
           \<and> (fst (last (swOut s)) = swRevision s \<longrightarrow> snd (last (swOut s)) = swData s))
      \<and> sorted_wrt (<) (map (\<lambda>(r, _). unat r) (swOut s))
      \<and> (\<forall>r d. swPhase s = StubSending r d \<longrightarrow> unat (swSentMark s) \<le> unat r \<and> unat r \<le> unat (swRevision s)
           \<and> (r = swRevision s \<longrightarrow> d = swData s) \<and> (r = swRevision s \<or> stub_due s))
      \<and> (swPhase s = StubBlocked \<longrightarrow> swOut s \<noteq> [] \<and> (fst (last (swOut s)) = swRevision s \<or> stub_due s)))"

lemma next_revision: "unat r + 1 < 2 ^ 64 \<Longrightarrow> unat (r + 1 :: uint64) = Suc (unat r)"
  by (simp add: unat_word_ariths)

lemma sorted_last_bound:
  "sorted_wrt (<) (map (\<lambda>(r, _). unat r) xs) \<Longrightarrow> xs \<noteq> [] \<Longrightarrow> (r, d) \<in> set xs \<Longrightarrow> unat r \<le> unat (fst (last xs))"
  by (cases xs rule: rev_cases) (force simp: sorted_wrt_append)+

lemma stub_watch_ok_step:
  assumes "stub_watch_ok s" "stub_watch_step s s'"
  shows "stub_watch_ok s'"
  using assms(2)
proof cases
  case (Set data)
  then have "unat (swRevision s') = Suc (unat (swRevision s))" by (simp add: next_revision)
  moreover have "r \<noteq> swRevision s'" if "unat r \<le> unat (swRevision s)" for r using that calculation by auto
  ultimately show ?thesis using assms(1) Set by (auto simp: stub_watch_ok_def stub_due_def split: if_splits)
next
  case (Send r d)
  then have "unat (r + 1) = Suc (unat r)" using assms(1) by (intro next_revision) (auto simp: stub_watch_ok_def)
  moreover have "unat q < unat r" if "(q, e) \<in> set (swOut s)" for q e
    using sorted_last_bound [of "swOut s" q e] that assms(1) Send(2) by (fastforce simp: stub_watch_ok_def split: if_splits)
  ultimately show ?thesis
    using assms(1) Send by (auto simp: stub_watch_ok_def stub_due_def sorted_wrt_append)
next
  case Read_old
  then have "swOut s \<noteq> []" "unat (swRevision s) < unat (swSentMark s)"
    using assms(1) by (auto simp: stub_watch_ok_def word_le_nat_alt)
  with assms(1) Read_old show ?thesis by (auto simp: stub_watch_ok_def stub_due_def word_unat_eq_iff)
qed (use assms(1) in \<open>auto simp: stub_watch_ok_def stub_due_def word_le_nat_alt split: if_splits\<close>)

lemma stub_watch_ok_reach:
  "stub_watch_reach d s \<Longrightarrow> unat (hdPolicyRevision d) + 1 < 2 ^ 64 \<Longrightarrow> stub_watch_ok s"
proof (induction rule: stub_watch_reach.induct)
  case init
  then show ?case by (simp add: stub_watch_ok_def stub_watch_init_def)
qed (blast intro: stub_watch_ok_step)

text \<open>
  The watch of the stub loses no policy: a stream that waits with no signal due has sent, last, the
  document the host data holds, and the revisions it has sent are strictly increasing.
\<close>

theorem stub_watch_no_lost_update:
  assumes "stub_watch_reach d s" "unat (hdPolicyRevision d) + 1 < 2 ^ 64" "swPhase s = StubBlocked" "\<not> stub_due s"
  shows "swOut s \<noteq> [] \<and> last (swOut s) = (swRevision s, swData s) \<and> sorted_wrt (<) (map (\<lambda>(r, _). unat r) (swOut s))"
  using stub_watch_ok_reach [OF assms(1,2)] assms(3,4) by (auto simp: stub_watch_ok_def prod_eq_iff)

text \<open>Applied to a stream that has sent the first document and then the one set meanwhile.\<close>

theorem stub_watch_no_lost_update_witness:
  "\<exists>s. stub_watch_reach NewHostData s \<and> last (swOut s) = (1, ''p'')"
proof -
  define s where "s = \<lparr>swRevision = 1, swData = ''p'', swInFlight = 0, swSignal = False, swPhase = StubBlocked,
    swSentMark = 2, swOut = [(0, []), (1, ''p'')]\<rparr>"
  let ?r = "stub_watch_reach NewHostData" and ?i = "stub_watch_init NewHostData"
  note upd = stub_watch_init_def NewHostData_def
  have "?r (?i\<lparr>swPhase := StubSending 0 []\<rparr>)"
    using stub_watch_reach.step [OF stub_watch_reach.init stub_watch_step.Read_new [of ?i]] by (simp add: upd)
  from stub_watch_reach.step [OF this stub_watch_step.Set [where data = "''p''"]]
  have "?r (?i\<lparr>swPhase := StubSending 0 [], swRevision := 1, swData := ''p'', swInFlight := 1\<rparr>)" by (simp add: upd)
  from stub_watch_reach.step [OF this stub_watch_step.Send]
  have "?r (?i\<lparr>swPhase := StubBlocked, swRevision := 1, swData := ''p'', swInFlight := 1, swSentMark := 1, swOut := [(0, [])]\<rparr>)"
    by (simp add: upd)
  from stub_watch_reach.step [OF this stub_watch_step.Signal]
  have "?r (?i\<lparr>swPhase := StubBlocked, swRevision := 1, swData := ''p'', swSignal := True, swSentMark := 1, swOut := [(0, [])]\<rparr>)"
    by (simp add: upd)
  from stub_watch_reach.step [OF this stub_watch_step.Wake]
  have "?r (?i\<lparr>swRevision := 1, swData := ''p'', swSentMark := 1, swOut := [(0, [])]\<rparr>)" by (simp add: upd)
  from stub_watch_reach.step [OF this stub_watch_step.Read_new]
  have "?r (?i\<lparr>swPhase := StubSending 1 ''p'', swRevision := 1, swData := ''p'', swSentMark := 1, swOut := [(0, [])]\<rparr>)"
    by (simp add: upd)
  from stub_watch_reach.step [OF this stub_watch_step.Send] have "?r s" by (simp add: upd s_def)
  then show ?thesis
    using stub_watch_no_lost_update [of NewHostData s] by (auto simp: s_def stub_due_def NewHostData_def)
qed


section \<open>The stub stands in for core\<close>

text \<open>The calls both sides implement, and replies that a module cannot tell apart: lists in any order.\<close>

fun stand_in :: "request \<Rightarrow> bool" where
  "stand_in (EventSubscribe _) = False"
| "stand_in (IdentityCredential _) = False"
| "stand_in (TransportSend _ _ _ _) = False"
| "stand_in (LogWrite _ _) = False"
| "stand_in (WatchdogNotify _ _) = False"
| "stand_in _ = True"

fun reply_agrees :: "(status, response) result \<Rightarrow> (status, response) result \<Rightarrow> bool" where
  "reply_agrees (Inr (StoreKeys ks)) (Inr (StoreKeys ks')) = (set ks = set ks' \<and> distinct ks \<and> distinct ks')"
| "reply_agrees r r' = (r = r')"

lemma reply_agrees_refl: "(\<And>ks. r = Inr (StoreKeys ks) \<Longrightarrow> distinct ks) \<Longrightarrow> reply_agrees r r"
  by (cases "(r, r)" rule: reply_agrees.cases) auto

definition stub_sim ::
    "('st \<Rightarrow> bool) \<Rightarrow> ('st \<Rightarrow> string \<Rightarrow> string \<Rightarrow> bytes option) \<Rightarrow> 'st services \<Rightarrow> string \<Rightarrow> 'st host \<Rightarrow> host_data \<Rightarrow> bool" where
  "stub_sim ok view svc m h d =
     (ok (hsStore h) \<and> view (hsStore h) m = map_of (hdStore d) \<and> distinct (map fst (hdStore d))
      \<and> policy_Get m (hsPolicy h) = hd_Policy d \<and> svWhoAmI svc = hdDevice d)"

lemma hd_StoreKeys_set: "set (hd_StoreKeys p d) = {k. map_of (hdStore d) k \<noteq> None \<and> prefix p k}"
proof -
  have "length p \<le> length k \<and> take (length p) k = p \<longleftrightarrow> prefix p k" for k
    by (metis append_eq_conv_conj append_take_drop_id prefix_def prefix_length_le)
  then show ?thesis by (auto simp: hd_StoreKeys_def map_of_eq_None_iff)
qed

context reliable_backend
begin

lemma stub_sim_step:
  assumes "svStore svc = be" "stub_sim inv view svc m h d" "stand_in req"
    and "handle_request svc m allow req h = (r, h')" "stub_handle m req d = (r', d')"
  shows "reply_agrees r r' \<and> stub_sim inv view svc m h' d'"
proof -
  have sim: "inv (hsStore h)" "view (hsStore h) m = map_of (hdStore d)" "distinct (map fst (hdStore d))"
    "policy_Get m (hsPolicy h) = hd_Policy d" "svWhoAmI svc = hdDevice d"
    using assms(2) by (auto simp: stub_sim_def)
  show ?thesis
  proof (cases req)
    case (StoreGet k)
    with assms sim get_eq [OF sim(1), of m k] show ?thesis
      by (cases "map_of (hdStore d) k")
        (auto simp: handle_request_def storeServer_Get_def stub_handle_def hd_StoreGet_def intro!: reply_agrees_refl)
  next
    case (StorePut k v)
    obtain st where st: "bePut be m k v (hsStore h) = (Inr (), st)" using put_total [OF sim(1)] by blast
    with put_ok [OF sim(1) st] assms sim StorePut show ?thesis
      by (auto simp: handle_request_def storeServer_Put_def stub_handle_def hd_StorePut_def stub_sim_def
          map_of_filter_neq distinct_filter_fst hd_Policy_def fun_eq_iff)
  next
    case (StoreDelete k)
    obtain st where st: "beDelete be m k (hsStore h) = (Inr (), st)" using delete_total [OF sim(1)] by blast
    with delete_ok [OF sim(1) st] assms sim StoreDelete show ?thesis
      by (auto simp: handle_request_def storeServer_Delete_def stub_handle_def hd_StoreDelete_def stub_sim_def
          map_of_filter_neq distinct_filter_fst hd_Policy_def)
  next
    case (StoreList p)
    obtain ks where "beList be m p (hsStore h) = Inr ks" "distinct ks" "set ks = {k. view (hsStore h) m k \<noteq> None \<and> prefix p k}"
      using listed [OF sim(1)] by blast
    with assms sim StoreList hd_StoreKeys_set [of p d] show ?thesis
      by (auto simp: handle_request_def storeServer_List_def stub_handle_def hd_StoreKeys_def)
  qed (use assms sim in \<open>auto simp: handle_request_def stub_handle_def policyServer_Get_def eventsServer_Publish_def
      identityServer_WhoAmI_def hd_Publish_def Let_def stub_sim_def hd_Policy_def intro!: reply_agrees_refl split: prod.splits\<close>)
qed

lemma stub_sim_session:
  assumes "svStore svc = be" "stub_sim inv view svc m h d" "list_all (\<lambda>(_, req). stand_in req) session"
  shows "list_all2 reply_agrees (fst (serve_all svc m token allow session h)) (fst (stub_serve_all m token session d))"
  using assms(2,3)
proof (induction session arbitrary: h d)
  case (Cons call session)
  obtain vals req where call: "call = (vals, req)" by fastforce
  obtain r h' where r: "serve svc m token allow call h = (r, h')" by fastforce
  obtain r' d' where r': "stub_serve m token call d = (r', d')" by fastforce
  have "reply_agrees r r' \<and> stub_sim inv view svc m h' d'"
  proof (cases "token_ok token vals")
    case True
    with r r' Cons.prems show ?thesis
      by (intro stub_sim_step [OF assms(1)]) (auto simp: call serve_def stub_serve_def)
  next
    case False
    with r r' Cons.prems show ?thesis by (auto simp: call serve_def stub_serve_def)
  qed
  with Cons.IH [of h' d'] Cons.prems show ?case by (simp add: r r' split_beta)
qed simp

end

text \<open>
  A module cannot tell the stub from core by its store, its policy, the identity of the device or
  its publications: started from the same content, on a store that does not fail, every session of
  such calls gets the same replies, the keys of a listing in some order.
\<close>

theorem stub_stands_in:
  assumes "reliable_backend be ok view" "svStore svc = be" "stub_sim ok view svc m h d"
    and "list_all (\<lambda>(_, req). stand_in req) session"
  shows "list_all2 reply_agrees (fst (serve_all svc m token allow session h)) (fst (stub_serve_all m token session d))"
  using assms by (rule reliable_backend.stub_sim_session)

text \<open>Applied to a put, a get, a listing and a call without the token.\<close>

definition ex_stub_data :: host_data where
  "ex_stub_data = NewHostData\<lparr>hdDevice := (''dev'', True, [])\<rparr>"

definition ex_stub_session :: "(string list \<times> request) list" where
  "ex_stub_session = [([''t''], StorePut ''k'' ''v''), ([''t''], StoreGet ''k''), ([], StoreDelete ''k''), ([''t''], StoreList [])]"

theorem stub_stands_in_witness:
  "list_all2 reply_agrees (fst (serve_all ex_services ''m'' ''t'' [] ex_stub_session ex_host))
     (fst (stub_serve_all ''m'' ''t'' ex_stub_session ex_stub_data))"
proof (rule stub_stands_in [OF memr.reliable_backend_axioms])
  show "stub_sim mem_inv mem_view ex_services ''m'' ex_host ex_stub_data"
    by (simp add: stub_sim_def ex_host_def ex_stub_data_def ex_services_def NewHostData_def mem_inv_def mem_view_def
        policy_Get_def hd_Policy_def new_manager_def doc_of_def fun_eq_iff)
qed (simp_all add: ex_services_def ex_stub_session_def)

text \<open>
  The topics of the stub match as core's do, but for the pattern that is only a star: core takes it
  for every topic, the stub for none but itself.
\<close>

lemma pattern_matches_covers: "pattern_matches p t \<longleftrightarrow> (if p = ''*'' then t = ''*'' else covers p t)"
proof (cases p rule: rev_cases)
  case (snoc q c)
  show ?thesis
    by (cases "q = []") (auto simp: snoc pattern_matches_def covers_iff Let_def prefix_def nth_append,
      (metis append_eq_conv_conj append_take_drop_id le_add1 length_append)+)
qed (auto simp: pattern_matches_def covers_iff)

theorem topicMatches_eq_core:
  assumes "''*'' \<notin> set patterns"
  shows "topicMatches patterns topic = matches patterns topic"
  using assms by (induction patterns) (auto simp: topicMatches_def matches_def pattern_matches_covers)

theorem topicMatches_star: "matches [''*''] ''sysinfo.up'' \<and> topicMatches [''*''] ''sysinfo.up'' = False"
  by code_simp

theorem topicMatches_eq_core_witness: "topicMatches [''sysinfo.*''] ''sysinfo.up'' = matches [''sysinfo.*''] ''sysinfo.up''"
  by (rule topicMatches_eq_core) simp

section \<open>The launch of the stub\<close>

text \<open>What the first event of the stub is to core.\<close>

fun core_event :: "stub_first \<Rightarrow> first_event" where
  "core_event (StdoutRead b) = FirstLine (hd (scan_lines b))"
| "core_event (StdoutEnded code) = ExitedEarly code"
| "core_event StubTimeout = HandshakeTimeout"
| "core_event StubCancelled = LaunchCancelled"

text \<open>Nothing fails before the process runs, and the module answers the dial.\<close>

definition stub_starts :: "stub_io \<Rightarrow> bool" where
  "stub_starts io =
     (siNonce io \<noteq> None \<and> is_ok (siTempDir io) \<and> siListen io = None \<and> siStdoutPipe io = None \<and> siStderrPipe io = None
      \<and> siStart io = None \<and> siDial io = None)"

lemma stub_check_eq: "stub_window c = stWindow st \<Longrightarrow> stub_check c raw = check_line st raw"
  by (simp add: stub_check_def check_line_def split: sum.splits)

lemma fst_then_do: "fst (then_do p f) = (case fst p of Inl e \<Rightarrow> Inl e | Inr a \<Rightarrow> fst (f a))"
  by (auto simp: then_do_def split: prod.splits sum.splits)

lemma fst_attempt: "fst (attempt tr f err) = (case err of None \<Rightarrow> Inr () | Some e \<Rightarrow> Inl (f e))"
  by (simp add: attempt_def split: option.splits)

lemma stub_Launch_verdict:
  assumes "stub_starts io" "stub_window c = stWindow st"
  shows "fst (stub_Launch c io bin) =
    (case siFirst io of
       StdoutRead b \<Rightarrow> check_line st (hd (scan_lines b))
     | StdoutEnded code \<Rightarrow> Inl (if code = ExitProtocolUnsupported then ProtocolUnsupported else ExitedBeforeHandshake code)
     | StubTimeout \<Rightarrow> Inl TimedOut
     | StubCancelled \<Rightarrow> Inl Cancelled)"
proof -
  obtain nonce dir where "siNonce io = Some nonce" "siTempDir io = Inr dir"
    using assms(1) by (auto simp: stub_starts_def is_ok_iff)
  with assms show ?thesis
    by (auto simp: stub_Launch_def stub_await_def stub_starts_def fst_then_do fst_attempt stub_check_eq [OF assms(2)]
        split: stub_first.splits sum.splits)
qed

text \<open>
  The stub gives core's verdict on a handshake: with the same window and the same behaviour of the
  process, the stub accepts a line exactly when core goes on to dial, initialise and start the
  module with it, and otherwise both fail, for the same reason.
\<close>

theorem stub_verdict_agrees:
  assumes "stub_starts io" "stub_window c = stWindow st" "ioFirst lio = core_event (siFirst io)"
  shows "case fst (stub_Launch c io bin) of
      Inl e \<Rightarrow> fst (await_handshake st sp lio) = Inl e
    | Inr l \<Rightarrow> await_handshake st sp lio = on_fail [KillProc, CloseJob] (init_and_start st sp lio l)"
  unfolding stub_Launch_verdict [OF assms(1,2)]
  using assms(3)
  by (auto simp: await_handshake_def fst_then_do then_do_def on_fail_def split: stub_first.splits sum.splits prod.splits)

text \<open>A launch of the stub that fails leaves no server, process or connection; so do \<open>Kill\<close> and \<open>WaitExit\<close>.\<close>

lemma leaves_stub_await: "leaves {RHost, RProcess} {RHost, RProcess, RConn} {RHost} (stub_await c io)"
proof (cases "siFirst io")
  case (StdoutRead b)
  have "leaves {RHost, RProcess} {RHost, RProcess, RConn} {RHost, RProcess}
      (then_do (stub_check c (hd (scan_lines b)), []) (\<lambda>l.
         then_do (attempt [Dialed (lineNetwork l) (lineAddr l)] DialFailed (siDial io)) (\<lambda>_. (Inr l, []))))"
    by (rule leaves_then_do [OF leaves_pure])
      (auto simp: leaves_def then_do_def attempt_def replay_def split: option.splits)
  then show ?thesis
    by (simp add: stub_await_def StdoutRead) (rule leaves_on_fail, assumption, auto simp: replay_def)
qed (auto simp: stub_await_def leaves_def replay_def)

lemma leaves_stub_Launch: "leaves {} {RHost, RProcess, RConn} {} (stub_Launch c io bin)"
proof -
  have spawn: "leaves {RHost} {RHost, RProcess, RConn} {RHost}
      (then_do (attempt [Spawn bin env None] ExecFailed (siStart io)) (\<lambda>_. stub_await c io))" for env
    by (rule leaves_then_do [OF leaves_attempt leaves_stub_await]) (auto simp: replay_def)
  have pipe: "leaves {RHost} {RHost} {RHost} (attempt [] ExecFailed err)" for err
    by (rule leaves_attempt) (simp add: replay_def)
  have up: "leaves {} {RHost, RProcess, RConn} {} (then_do (attempt [HostUp m t []] ListenFailed (siListen io))
      (\<lambda>_. on_fail [HostStop] (then_do (attempt [] ExecFailed (siStdoutPipe io)) (\<lambda>_.
         then_do (attempt [] ExecFailed (siStderrPipe io)) (\<lambda>_.
         then_do (attempt [Spawn bin env None] ExecFailed (siStart io)) (\<lambda>_. stub_await c io))))))" for m t env
    by (rule leaves_then_do [OF leaves_attempt leaves_on_fail [OF leaves_then_do [OF pipe leaves_then_do [OF pipe spawn]]]])
      (simp_all add: replay_def)
  then show ?thesis
    by (auto simp: stub_Launch_def leaves_def [of _ _ _ "(_, _)"] replay_def split: option.splits sum.splits)
qed

theorem stub_leaves_nothing:
  "replay (snd (stub_Launch c io bin)) {} = (if is_ok (fst (stub_Launch c io bin)) then {RHost, RProcess, RConn} else {})
   \<and> replay stub_Kill {RHost, RProcess, RConn} = {} \<and> replay (WaitExit exits) {RHost, RProcess, RConn} = {}"
  using leaves_stub_Launch [of c io bin]
  by (auto simp: leaves_def replay_def stub_Kill_def WaitExit_def split: prod.splits sum.splits)

text \<open>Applied to a module that answers on the first line and logs on the second.\<close>

definition ex_stub :: stub_core where
  "ex_stub = \<lparr>scWindow = \<lparr>winMin = 1, winMax = 2\<rparr>, scModuleID = ''m'', scConfig = [], scCapabilities = []\<rparr>"

definition ex_stub_io :: stub_io where
  "ex_stub_io = \<lparr>siWindows = False, siNonce = Some ''n'', siTempDir = Inr ''/tmp/s'', siListen = None, siStdoutPipe = None, siStderrPipe = None,
     siStart = None, siFirst = StdoutRead (''WEAVE|1|1|unix|/tmp/s/m.sock'' @ [CHR 0x0A] @ ''log''), siDial = None\<rparr>"

theorem stub_verdict_agrees_witness:
  "await_handshake ex_settings ex_spec (ex_launch_io\<lparr>ioFirst := core_event (siFirst ex_stub_io)\<rparr>)
     = on_fail [KillProc, CloseJob] (init_and_start ex_settings ex_spec (ex_launch_io\<lparr>ioFirst := core_event (siFirst ex_stub_io)\<rparr>)
         \<lparr>lineProtocol = 1, lineNetwork = ''unix'', lineAddr = ''/tmp/s/m.sock''\<rparr>)"
proof -
  have "stub_starts ex_stub_io" "stub_window ex_stub = stWindow ex_settings" by code_simp+
  moreover have "fst (stub_Launch ex_stub ex_stub_io []) = Inr \<lparr>lineProtocol = 1, lineNetwork = ''unix'', lineAddr = ''/tmp/s/m.sock''\<rparr>"
    by code_simp
  ultimately show ?thesis
    using stub_verdict_agrees [of ex_stub_io ex_stub ex_settings "ex_launch_io\<lparr>ioFirst := core_event (siFirst ex_stub_io)\<rparr>" ex_spec "[]"]
    by simp
qed

end
