(* ===== verification/Aptrepo.thy ===== *)
theory Aptrepo
  imports Launch
begin

text \<open>
  The builder of the apt repository (\<open>src/packaging/apt/aptrepo/main.go\<close>): the control file out of
  a \<open>.deb\<close>, the stanzas of \<open>Packages\<close>, the digests of \<open>Release\<close>, signing, and the check of a
  repository that is there. Directories are flat, so a file is known by its directory and its
  name. The hash functions, gzip, tar and gpg are parameters. The lemmas show that what
  \<open>build\<close> writes passes \<open>verifyRepo\<close>, that a package changed afterwards does not, and what
  the signature does not cover.
\<close>

section \<open>Files and tools\<close>

type_synonym files = "((string \<times> string) \<times> bytes) list"

datatype tar_entry = TarEntry string "(string, bytes) result" | TarError string

text \<open>
  A read or a write of a file may fail. \<open>aeTar\<close> and \<open>aeTarGz\<close> give what iterating over an archive
  gives, \<open>aeSign\<close> what the three calls of gpg write, and \<open>aeVerify\<close> the verdict of gpg on an
  inline signature.
\<close>

record apt_env =
  aeReadFault :: "string \<times> string \<Rightarrow> string option"
  aeWriteFault :: "string \<times> string \<Rightarrow> string option"
  aeMkdir :: "string \<Rightarrow> string option"
  aeMD5 :: "bytes \<Rightarrow> bytes"
  aeSHA1 :: "bytes \<Rightarrow> bytes"
  aeSHA256 :: "bytes \<Rightarrow> bytes"
  aeGzip :: "bytes \<Rightarrow> (string, bytes) result"
  aeTar :: "bytes \<Rightarrow> tar_entry list"
  aeTarGz :: "bytes \<Rightarrow> (string, tar_entry list) result"
  aeDate :: string
  aeClearsign :: "string \<Rightarrow> bytes \<Rightarrow> (string, bytes) result"
  aeDetach :: "string \<Rightarrow> bytes \<Rightarrow> (string, bytes) result"
  aeExport :: "string \<Rightarrow> (string, bytes) result"
  aeVerify :: "bytes \<Rightarrow> bool"

definition read_file :: "apt_env \<Rightarrow> string \<times> string \<Rightarrow> files \<Rightarrow> (string, bytes) result" where
  "read_file e p fs =
     (case aeReadFault e p of
        Some err \<Rightarrow> Inl err
      | None \<Rightarrow> (case map_of fs p of None \<Rightarrow> Inl ''no such file'' | Some b \<Rightarrow> Inr b))"

definition set_file :: "string \<times> string \<Rightarrow> bytes \<Rightarrow> files \<Rightarrow> files" where
  "set_file p b fs = (p, b) # filter (\<lambda>(q, _). q \<noteq> p) fs"

definition write_file :: "apt_env \<Rightarrow> string \<times> string \<Rightarrow> bytes \<Rightarrow> files \<Rightarrow> (string, unit) result \<times> files" where
  "write_file e p b fs = (case aeWriteFault e p of Some err \<Rightarrow> (Inl err, fs) | None \<Rightarrow> (Inr (), set_file p b fs))"

text \<open>Steps on the files, the first error ends them.\<close>

definition then_files ::
    "(string, 'a) result \<times> files \<Rightarrow> ('a \<Rightarrow> files \<Rightarrow> (string, 'b) result \<times> files) \<Rightarrow> (string, 'b) result \<times> files" where
  "then_files p f = (case p of (Inl e, fs) \<Rightarrow> (Inl e, fs) | (Inr a, fs) \<Rightarrow> f a fs)"


section \<open>The control file\<close>

definition TrimRight :: "char \<Rightarrow> string \<Rightarrow> string" where
  "TrimRight c s = rev (dropWhile (\<lambda>x. x = c) (rev s))"

text \<open>\<open>filepath.Ext\<close>: from the last dot of the last element.\<close>

definition Ext :: "string \<Rightarrow> string" where
  "Ext s =
     (let t = takeWhile (\<lambda>c. c \<noteq> CHR ''.'' \<and> c \<noteq> CHR ''/'') (rev s)
      in case drop (length t) (rev s) of
           [] \<Rightarrow> []
         | c # _ \<Rightarrow> if c = CHR ''.'' then c # rev t else [])"

fun controlFromPlainTar :: "tar_entry list \<Rightarrow> (string, string) result" where
  "controlFromPlainTar [] = Inl ''no ./control in control archive''"
| "controlFromPlainTar (TarError err # es) = Inl err"
| "controlFromPlainTar (TarEntry name body # es) =
     (if TrimPrefix name ''./'' \<noteq> ''control'' then controlFromPlainTar es
      else case body of Inl err \<Rightarrow> Inl err | Inr b \<Rightarrow> Inr (take (2 ^ 20) b))"

definition controlFromTar :: "apt_env \<Rightarrow> string \<Rightarrow> bytes \<Rightarrow> (string, string) result" where
  "controlFromTar e name r =
     (if Ext name = ''.gz'' then bind_result (aeTarGz e r) controlFromPlainTar
      else if Ext name = ''.tar'' \<or> Ext name = [] then controlFromPlainTar (aeTar e r)
      else Inl ''control member uses an unsupported compression'')"

text \<open>
  The members of the archive after its magic. The size of a member is signed; a limited reader of a
  size that is not positive is empty, and a copy of such a size copies nothing and succeeds. The
  remainder has the sign of the size.
\<close>

definition padded :: "int \<Rightarrow> int" where
  "padded n = (if n \<ge> 0 then n + n mod 2 else n - (- n) mod 2)"

function ar_members :: "apt_env \<Rightarrow> bytes \<Rightarrow> (string, string) result" where
  "ar_members e b =
     (if b = [] then Inl ''no control member in .deb''
      else if length b < 60 then Inl ''unexpected EOF''
      else
        let name = TrimRight CHR ''/'' (TrimSpace (take 16 b)); rest = drop 60 b
        in case Atoi (TrimSpace (take 10 (drop 48 b))) of
             None \<Rightarrow> Inl ''bad ar member size''
           | Some n \<Rightarrow>
               if HasPrefix name ''control.tar'' then controlFromTar e name (take (nat n) rest)
               else if padded n > int (length rest) then Inl ''EOF''
               else ar_members e (drop (nat (padded n)) rest))"
  by auto
termination
  by (relation "measure (\<lambda>(e, b). length b)") auto

declare ar_members.simps [simp del]

definition readControl :: "apt_env \<Rightarrow> bytes \<Rightarrow> (string, string) result" where
  "readControl e b =
     (if length b < 8 then Inl (if b = [] then ''EOF'' else ''unexpected EOF'')
      else if take 8 b \<noteq> ''!<arch>'' @ [CHR 0x0A] then Inl ''not an ar archive''
      else ar_members e (drop 8 b))"


section \<open>The indexes\<close>

record digest =
  dgMD5 :: string
  dgSHA1 :: string
  dgSHA256 :: string

definition digests :: "apt_env \<Rightarrow> string \<times> string \<Rightarrow> files \<Rightarrow> (string, digest) result" where
  "digests e p fs =
     bind_result (read_file e p fs) (\<lambda>b.
       Inr \<lparr>dgMD5 = hex_encode (aeMD5 e b), dgSHA1 = hex_encode (aeSHA1 e b), dgSHA256 = hex_encode (aeSHA256 e b)\<rparr>)"

definition nl :: string where "nl = [CHR 0x0A]"

definition unlines :: "string list \<Rightarrow> string" where
  "unlines ls = concat (map (\<lambda>l. l @ nl) ls)"

definition packageStanza :: "apt_env \<Rightarrow> string \<times> string \<Rightarrow> files \<Rightarrow> (string, string) result" where
  "packageStanza e p fs =
     bind_result (bind_result (read_file e p fs) (readControl e)) (\<lambda>control.
     bind_result (read_file e p fs) (\<lambda>b.
     bind_result (digests e p fs) (\<lambda>sums.
       Inr (unlines [TrimRight CHR 0x0A control, ''Filename: ./'' @ snd p, ''Size: '' @ dec (length b),
              ''MD5sum: '' @ dgMD5 sums, ''SHA1: '' @ dgSHA1 sums, ''SHA256: '' @ dgSHA256 sums]))))"

definition index_line :: "(digest \<Rightarrow> string) \<Rightarrow> apt_env \<Rightarrow> string \<Rightarrow> files \<Rightarrow> string \<Rightarrow> (string, string) result" where
  "index_line field e dir fs name =
     bind_result (read_file e (dir, name) fs) (\<lambda>b.
     bind_result (digests e (dir, name) fs) (\<lambda>sums.
       Inr ('' '' @ field sums @ '' '' @ dec (length b) @ '' '' @ name)))"

definition releaseFile :: "apt_env \<Rightarrow> string \<Rightarrow> string \<Rightarrow> files \<Rightarrow> (string, string) result" where
  "releaseFile e dir origin fs =
     bind_result (index_line dgMD5 e dir fs ''Packages'') (\<lambda>m1.
     bind_result (index_line dgMD5 e dir fs ''Packages.gz'') (\<lambda>m2.
     bind_result (index_line dgSHA1 e dir fs ''Packages'') (\<lambda>s1.
     bind_result (index_line dgSHA1 e dir fs ''Packages.gz'') (\<lambda>s2.
     bind_result (index_line dgSHA256 e dir fs ''Packages'') (\<lambda>h1.
     bind_result (index_line dgSHA256 e dir fs ''Packages.gz'') (\<lambda>h2.
       Inr (unlines [''Origin: '' @ origin, ''Label: '' @ origin, ''Suite: stable'', ''Codename: stable'',
              ''Date: '' @ aeDate e, ''Acquire-By-Hash: no'', ''MD5Sum:'', m1, m2, ''SHA1:'', s1, s2, ''SHA256:'', h1, h2])))))))"


section \<open>Building\<close>

definition apt_copyFile :: "apt_env \<Rightarrow> string \<times> string \<Rightarrow> string \<times> string \<Rightarrow> files \<Rightarrow> (string, unit) result \<times> files" where
  "apt_copyFile e src dst fs =
     (if src = dst then (Inr (), fs)
      else case read_file e src fs of Inl err \<Rightarrow> (Inl err, fs) | Inr data \<Rightarrow> write_file e dst data fs)"

definition writeGzip :: "apt_env \<Rightarrow> string \<times> string \<Rightarrow> bytes \<Rightarrow> files \<Rightarrow> (string, unit) result \<times> files" where
  "writeGzip e p data fs = (case aeGzip e data of Inl err \<Rightarrow> (Inl err, fs) | Inr z \<Rightarrow> write_file e p z fs)"

text \<open>\<open>Glob\<close> and the sort: the names with the suffix, in order.\<close>

definition deb_names :: "string \<Rightarrow> files \<Rightarrow> string list" where
  "deb_names dir fs = sort (remdups (map (\<lambda>((_, n), _). n) (filter (\<lambda>((d, n), _). d = dir \<and> HasSuffix n ''.deb'') fs)))"

fun add_debs :: "apt_env \<Rightarrow> string \<Rightarrow> string \<Rightarrow> string list \<Rightarrow> string \<Rightarrow> files \<Rightarrow> (string, string) result \<times> files" where
  "add_debs e inp out [] packages fs = (Inr packages, fs)"
| "add_debs e inp out (n # ns) packages fs =
     (case packageStanza e (inp, n) fs of
        Inl err \<Rightarrow> (Inl (n @ '': '' @ err), fs)
      | Inr stanza \<Rightarrow>
          then_files (apt_copyFile e (inp, n) (out, n) fs) (\<lambda>_ fs.
            add_debs e inp out ns (packages @ stanza @ nl) fs))"

definition gpg_step :: "apt_env \<Rightarrow> string \<times> string \<Rightarrow> (string, bytes) result \<Rightarrow> files \<Rightarrow> (string, unit) result \<times> files" where
  "gpg_step e p r fs = (case r of Inl err \<Rightarrow> (Inl (''gpg: '' @ err), fs) | Inr b \<Rightarrow> (Inr (), set_file p b fs))"

definition sign :: "apt_env \<Rightarrow> string \<Rightarrow> string \<Rightarrow> files \<Rightarrow> (string, unit) result \<times> files" where
  "sign e dir key fs =
     (let release = (case map_of fs (dir, ''Release'') of None \<Rightarrow> [] | Some b \<Rightarrow> b)
      in then_files (gpg_step e (dir, ''InRelease'') (aeClearsign e key release) fs) (\<lambda>_ fs.
         then_files (gpg_step e (dir, ''Release.gpg'') (aeDetach e key release) fs) (\<lambda>_ fs.
           gpg_step e (dir, ''weave-archive-keyring.asc'') (aeExport e key) fs)))"

definition build :: "apt_env \<Rightarrow> string \<Rightarrow> string \<Rightarrow> string \<Rightarrow> string \<Rightarrow> files \<Rightarrow> (string, unit) result \<times> files" where
  "build e inp out key origin fs =
     (let debs = deb_names inp fs
      in if debs = [] then (Inl (''no .deb files in '' @ inp), fs)
         else case aeMkdir e out of
           Some err \<Rightarrow> (Inl err, fs)
         | None \<Rightarrow>
             then_files (add_debs e inp out debs [] fs) (\<lambda>packages fs.
             then_files (write_file e (out, ''Packages'') packages fs) (\<lambda>_ fs.
             then_files (writeGzip e (out, ''Packages.gz'') packages fs) (\<lambda>_ fs.
               case releaseFile e out origin fs of
                 Inl err \<Rightarrow> (Inl err, fs)
               | Inr release \<Rightarrow>
                   then_files (write_file e (out, ''Release'') release fs) (\<lambda>_ fs.
                     if key = [] then (Inr (), fs) else sign e out key fs)))))"


section \<open>Verifying\<close>

text \<open>\<open>strings.Fields\<close>: the parts between runs of white space.\<close>

definition flush_field :: "string \<Rightarrow> string list" where
  "flush_field acc = (if acc = [] then [] else [acc])"

lemma find_rune_nonempty: "find (\<lambda>r. prefix r s) space_runes = Some r \<Longrightarrow> r \<noteq> []"
  using space_runes_nonempty by (auto simp: find_Some_iff)

function fields_from :: "string \<Rightarrow> string \<Rightarrow> string list" where
  "fields_from acc [] = flush_field acc"
| "fields_from acc (c # s) =
     (case find (\<lambda>r. prefix r (c # s)) space_runes of
        Some r \<Rightarrow> flush_field acc @ fields_from [] (drop (length r) (c # s))
      | None \<Rightarrow> fields_from (acc @ [c]) s)"
  by pat_completeness auto
termination
  by (relation "measure (\<lambda>(acc, s). length s)") (auto dest: find_rune_nonempty)

definition Fields :: "string \<Rightarrow> string list" where
  "Fields s = fields_from [] s"

text \<open>The parts of a text between blank lines.\<close>

fun split_blank :: "string \<Rightarrow> string \<Rightarrow> string list" where
  "split_blank acc (a # b # s) =
     (if a = CHR 0x0A \<and> b = CHR 0x0A then acc # split_blank [] s else split_blank (acc @ [a]) (b # s))"
| "split_blank acc s = [acc @ s]"

text \<open>A line of \<open>Release\<close> that names a SHA256 digest, with the file it is of.\<close>

definition release_entry :: "string \<Rightarrow> (string \<times> string \<times> string) option" where
  "release_entry l =
     (if \<not> HasPrefix l '' '' then None
      else case Fields l of
             [a, b, c] \<Rightarrow> if length a \<noteq> 64 then None else Some (a, c, c)
           | _ \<Rightarrow> None)"

definition Base :: "string \<Rightarrow> string" where
  "Base s = (let t = TrimRight CHR ''/'' s in if s = [] then ''.'' else if t = [] then ''/'' else last (Split t CHR ''/''))"

definition stanza_line :: "string \<Rightarrow> string \<times> string \<Rightarrow> string \<times> string" where
  "stanza_line l p =
     (case p of (name, want) \<Rightarrow>
        if HasPrefix l ''Filename: '' then (TrimPrefix l ''Filename: '', want)
        else if HasPrefix l ''SHA256: '' then (name, TrimPrefix l ''SHA256: '')
        else (name, want))"

definition stanza_entry :: "string \<Rightarrow> (string \<times> string \<times> string) option" where
  "stanza_entry stanza =
     (case fold stanza_line (Split stanza CHR 0x0A) ([], []) of
        (name, want) \<Rightarrow> if name = [] \<or> want = [] then None else Some (want, name, Base name))"

text \<open>The loops over the entries: the number checked, or the first error.\<close>

fun check_entries :: "apt_env \<Rightarrow> string \<Rightarrow> string \<Rightarrow> files \<Rightarrow> (string \<times> string \<times> string) list \<Rightarrow> (string, nat) result" where
  "check_entries e index dir fs [] = Inr 0"
| "check_entries e index dir fs ((want, shown, name) # es) =
     (case digests e (dir, name) fs of
        Inl err \<Rightarrow> Inl err
      | Inr sums \<Rightarrow>
          if dgSHA256 sums \<noteq> want then Inl (shown @ '': SHA256 in '' @ index @ '' does not match the file'')
          else bind_result (check_entries e index dir fs es) (\<lambda>n. Inr (Suc n)))"

definition release_entries :: "bytes \<Rightarrow> (string \<times> string \<times> string) list" where
  "release_entries release = List.map_filter release_entry (Split release CHR 0x0A)"

definition package_entries :: "bytes \<Rightarrow> (string \<times> string \<times> string) list" where
  "package_entries packages = List.map_filter stanza_entry (split_blank [] packages)"

definition verifyRepo :: "apt_env \<Rightarrow> string \<Rightarrow> files \<Rightarrow> (string, unit) result" where
  "verifyRepo e dir fs =
     bind_result (case map_of fs (dir, ''InRelease'') of
        Some s \<Rightarrow> guard_result (aeVerify e s) ''InRelease signature''
      | None \<Rightarrow> Inr ()) (\<lambda>_.
     bind_result (read_file e (dir, ''Release'') fs) (\<lambda>release.
     bind_result (check_entries e ''Release'' dir fs (release_entries release)) (\<lambda>checked.
     bind_result (guard_result (checked \<noteq> 0) ''Release lists no SHA256 digests'') (\<lambda>_.
     bind_result (read_file e (dir, ''Packages'') fs) (\<lambda>packages.
     bind_result (check_entries e ''Packages'' dir fs (package_entries packages)) (\<lambda>pkgs.
       guard_result (pkgs \<noteq> 0) ''Packages lists no packages''))))))"

text \<open>\<open>main\<close>: the exit code.\<close>

definition aptrepo_main :: "apt_env \<Rightarrow> string \<Rightarrow> string \<Rightarrow> string \<Rightarrow> string \<Rightarrow> string \<Rightarrow> files \<Rightarrow> int \<times> files" where
  "aptrepo_main e inp out key origin verify fs =
     (if verify \<noteq> [] then (if is_ok (verifyRepo e verify fs) then 0 else 1, fs)
      else if out = [] then (2, fs)
      else case build e inp out key origin fs of (r, fs') \<Rightarrow> (if is_ok r then 0 else 1, fs'))"

section \<open>Lines and fields\<close>

lemma join_with_Cons: "ls \<noteq> [] \<Longrightarrow> join_with c (l # ls) = l @ c # join_with c ls"
  by (cases ls) auto

lemma Split_join:
  "ls \<noteq> [] \<Longrightarrow> list_all (\<lambda>l. c \<notin> set l) ls \<Longrightarrow> Split (join_with c ls) c = ls"
proof (induction ls)
  case (Cons l ls)
  then show ?case by (cases "ls = []") (simp_all add: join_with_Cons Split_append Split_none)
qed simp

lemma join_with_append:
  "ls \<noteq> [] \<Longrightarrow> ms \<noteq> [] \<Longrightarrow> join_with c (ls @ ms) = join_with c ls @ c # join_with c ms"
proof (induction ls)
  case (Cons l ls)
  then show ?case by (cases "ls = []") (simp_all add: join_with_Cons)
qed simp

lemma unlines_Cons: "unlines (l # ls) = l @ CHR 0x0A # unlines ls"
  by (simp add: unlines_def nl_def)

lemma unlines_join: "ls \<noteq> [] \<Longrightarrow> unlines ls = join_with (CHR 0x0A) ls @ [CHR 0x0A]"
proof (induction ls)
  case (Cons l ls)
  then show ?case by (cases "ls = []") (simp_all add: unlines_Cons join_with_Cons, simp add: unlines_def)
qed simp

lemma Split_unlines: "list_all (\<lambda>l. CHR 0x0A \<notin> set l) ls \<Longrightarrow> Split (unlines ls) (CHR 0x0A) = ls @ [[]]"
  by (induction ls) (simp_all add: unlines_Cons Split_append, simp add: unlines_def)

lemma split_blank_plain: "CHR 0x0A \<notin> set l \<Longrightarrow> split_blank acc (l @ s) = split_blank (acc @ l) s"
proof (induction l arbitrary: acc)
  case (Cons a l)
  show ?case
  proof (cases "l @ s")
    case Nil
    then show ?thesis using Cons by simp
  next
    case (Cons b t)
    then have "split_blank acc ((a # l) @ s) = split_blank (acc @ [a]) (l @ s)" using Cons.prems by auto
    with Cons.IH Cons.prems show ?thesis by simp
  qed
qed simp

text \<open>A paragraph: lines, of which only the first may be empty.\<close>

definition para :: "string list \<Rightarrow> bool" where
  "para ls = (ls \<noteq> [] \<and> list_all (\<lambda>l. CHR 0x0A \<notin> set l) ls \<and> list_all (\<lambda>l. l \<noteq> []) (tl ls))"

lemma split_blank_paragraph:
  assumes "para ls"
  shows "split_blank acc (join_with (CHR 0x0A) ls @ CHR 0x0A # CHR 0x0A # s)
    = (acc @ join_with (CHR 0x0A) ls) # split_blank [] s"
  using assms
proof (induction ls arbitrary: acc)
  case (Cons l ls)
  show ?case
  proof (cases ls)
    case Nil
    then show ?thesis using Cons.prems by (simp add: para_def split_blank_plain)
  next
    case (Cons m ms)
    then obtain c m' where m: "m = c # m'" "c \<noteq> CHR 0x0A" using Cons.prems by (cases m) (auto simp: para_def)
    let ?t = "join_with (CHR 0x0A) ls @ CHR 0x0A # CHR 0x0A # s"
    obtain t where t: "?t = c # t" by (cases ms) (auto simp: Cons m)
    have "split_blank acc (join_with (CHR 0x0A) (l # ls) @ CHR 0x0A # CHR 0x0A # s) = split_blank (acc @ l) (CHR 0x0A # ?t)"
      using Cons.prems Cons by (simp add: join_with_Cons para_def split_blank_plain)
    also have "\<dots> = split_blank (acc @ l @ [CHR 0x0A]) ?t" unfolding t using m by simp
    also have "\<dots> = (acc @ l @ CHR 0x0A # join_with (CHR 0x0A) ls) # split_blank [] s"
      using Cons.IH [of "acc @ l @ [CHR 0x0A]"] Cons.prems Cons by (simp add: para_def)
    finally show ?thesis using Cons by simp
  qed
qed (simp add: para_def)

lemma split_blank_paragraphs:
  "list_all para ps \<Longrightarrow>
     split_blank [] (concat (map (\<lambda>ls. join_with (CHR 0x0A) ls @ [CHR 0x0A, CHR 0x0A]) ps)) = map (join_with (CHR 0x0A)) ps @ [[]]"
  by (induction ps) (simp_all add: split_blank_paragraph)

lemma fields_plain:
  assumes "list_all no_space w"
  shows "fields_from acc (w @ s) = fields_from (acc @ w) s"
  using assms
proof (induction w arbitrary: acc)
  case (Cons c w)
  have "find (\<lambda>r. prefix r (c # w @ s)) space_runes = None"
  proof -
    have "\<not> prefix r (c # w @ s)" if "r \<in> set space_runes" for r
    proof
      assume "prefix r (c # w @ s)"
      then have "c \<in> set r" using space_runes_nonempty [OF that] by (cases r) auto
      then show False using that Cons.prems by (auto simp: no_space_def)
    qed
    then show ?thesis by (auto simp: find_None_iff)
  qed
  with Cons show ?case by simp
qed simp

lemma fields_space: "fields_from acc (CHR '' '' # s) = flush_field acc @ fields_from [] s"
  by (simp add: space_runes_def)

lemma Fields_three:
  assumes "list_all no_space a" "list_all no_space b" "list_all no_space c" "a \<noteq> []" "b \<noteq> []" "c \<noteq> []"
  shows "Fields ('' '' @ a @ '' '' @ b @ '' '' @ c) = [a, b, c]"
  using assms fields_plain [of c "[]" "[]"]
  by (simp add: Fields_def fields_space fields_plain flush_field_def del: fields_from.simps(2))

section \<open>What the indexes say\<close>

text \<open>The lengths of the hash functions.\<close>

definition hash_laws :: "apt_env \<Rightarrow> bool" where
  "hash_laws e = (\<forall>b. length (aeMD5 e b) = 16 \<and> length (aeSHA1 e b) = 20 \<and> length (aeSHA256 e b) = 32)"

lemma dec_plain: "list_all no_space (dec n)" "CHR 0x0A \<notin> set (dec n)"
proof -
  have digit: "no_space (digit_char d) \<and> digit_char d \<noteq> CHR 0x0A" if "d < 10" for d
  proof -
    have "list_all (\<lambda>d. no_space (digit_char d) \<and> digit_char d \<noteq> CHR 0x0A) [0, 1, 2, 3, 4, 5, 6, 7, 8, 9]" by code_simp
    moreover have "d \<in> set [0, 1, 2, 3, 4, 5, 6, 7, 8, 9]" using that by auto
    ultimately show ?thesis by (auto simp only: list_all_iff)
  qed
  with set_dec show "list_all no_space (dec n)" "CHR 0x0A \<notin> set (dec n)" by (fastforce simp: list_all_iff)+
qed

definition sum256 :: "apt_env \<Rightarrow> bytes \<Rightarrow> string" where
  "sum256 e b = hex_encode (aeSHA256 e b)"

text \<open>The line of an index file in \<open>Release\<close> is read back for SHA256 and skipped for the other hashes.\<close>

definition index_text :: "bytes \<Rightarrow> nat \<Rightarrow> string \<Rightarrow> string" where
  "index_text h n name = '' '' @ hex_encode h @ '' '' @ dec n @ '' '' @ name"

lemma release_entry_line:
  assumes "list_all no_space name" "name \<noteq> []" "h \<noteq> []"
  shows "release_entry (index_text h n name) = (if length h = 32 then Some (hex_encode h, name, name) else None)"
proof -
  have "hex_encode h \<noteq> []" using assms(3) length_hex_encode [of h] by auto
  then have fields: "Fields (index_text h n name) = [hex_encode h, dec n, name]"
    unfolding index_text_def by (intro Fields_three hex_plain dec_plain assms) auto
  moreover have "HasPrefix (index_text h n name) '' ''" by (simp add: HasPrefix_def index_text_def)
  ultimately show ?thesis unfolding release_entry_def by (simp add: length_hex_encode)
qed

lemma release_entry_none: "\<not> HasPrefix l '' '' \<Longrightarrow> release_entry l = None"
  by (simp add: release_entry_def)

text \<open>A stanza as a paragraph, and what is read back from it.\<close>

definition stanza_lines :: "apt_env \<Rightarrow> string \<Rightarrow> bytes \<Rightarrow> string \<Rightarrow> string list" where
  "stanza_lines e n b control =
     Split (TrimRight CHR 0x0A control) CHR 0x0A @
     [''Filename: ./'' @ n, ''Size: '' @ dec (length b), ''MD5sum: '' @ hex_encode (aeMD5 e b),
      ''SHA1: '' @ hex_encode (aeSHA1 e b), ''SHA256: '' @ sum256 e b]"

definition no_blank_line :: "string \<Rightarrow> bool" where
  "no_blank_line control = list_all (\<lambda>l. l \<noteq> []) (tl (Split (TrimRight CHR 0x0A control) CHR 0x0A))"

definition deb_name :: "string \<Rightarrow> bool" where
  "deb_name n = (CHR 0x0A \<notin> set n \<and> CHR ''/'' \<notin> set n \<and> n \<noteq> [])"

lemma stanza_para:
  assumes "no_blank_line control" "deb_name n"
  shows "para (stanza_lines e n b control)"
  using assms Split_parts_no_sep [of _ "TrimRight CHR 0x0A control" "CHR 0x0A"]
  by (auto simp: para_def stanza_lines_def no_blank_line_def deb_name_def list_all_iff hex_plain dec_plain sum256_def tl_append
      split: list.splits)

lemma stanza_text:
  "unlines [TrimRight CHR 0x0A control, ''Filename: ./'' @ n, ''Size: '' @ dec (length b), ''MD5sum: '' @ hex_encode (aeMD5 e b),
     ''SHA1: '' @ hex_encode (aeSHA1 e b), ''SHA256: '' @ sum256 e b] @ nl
   = join_with (CHR 0x0A) (stanza_lines e n b control) @ [CHR 0x0A, CHR 0x0A]"
  by (simp add: unlines_join stanza_lines_def join_with_append join_with_Split nl_def)

lemma Base_plain:
  assumes "deb_name n"
  shows "Base (''./'' @ n) = n"
proof -
  obtain m c where n: "n = m @ [c]" "c \<noteq> CHR ''/''" "CHR ''/'' \<notin> set n"
    using assms by (cases n rule: rev_cases) (auto simp: deb_name_def)
  have "TrimRight CHR ''/'' (''./'' @ n) = ''./'' @ n" using n by (simp add: TrimRight_def)
  moreover have "Split (''./'' @ n) CHR ''/'' = [''.'', n]"
    using Split_append [of "CHR ''/''" "''.''" n] Split_none [OF n(3)] by simp
  ultimately show ?thesis by (simp add: Base_def)
qed

lemma stanza_entry_lines:
  assumes "no_blank_line control" "deb_name n" "hash_laws e"
  shows "stanza_entry (join_with (CHR 0x0A) (stanza_lines e n b control)) = Some (sum256 e b, ''./'' @ n, n)"
proof -
  have "para (stanza_lines e n b control)" by (rule stanza_para) fact+
  then have split: "Split (join_with (CHR 0x0A) (stanza_lines e n b control)) (CHR 0x0A) = stanza_lines e n b control"
    by (intro Split_join) (auto simp: para_def)
  obtain n0 w0 where "fold stanza_line (Split (TrimRight CHR 0x0A control) CHR 0x0A) ([], []) = (n0, w0)" by fastforce
  then have "fold stanza_line (stanza_lines e n b control) ([], []) = (''./'' @ n, sum256 e b)"
    by (simp add: stanza_lines_def stanza_line_def HasPrefix_def TrimPrefix_def CutPrefix_def)
  moreover have "sum256 e b \<noteq> []"
    using assms(3) length_hex_encode [of "aeSHA256 e b"] by (auto simp: sum256_def hash_laws_def)
  ultimately show ?thesis using Base_plain [OF assms(2)] by (simp add: stanza_entry_def split)
qed

lemma stanza_entry_Nil: "stanza_entry [] = None"
  by (simp add: stanza_entry_def stanza_line_def HasPrefix_def)

text \<open>The stanzas of a list of packages, each a name, a file and its control text.\<close>

definition packages_text :: "apt_env \<Rightarrow> (string \<times> bytes \<times> string) list \<Rightarrow> string" where
  "packages_text e ps = concat (map (\<lambda>(n, b, c). join_with (CHR 0x0A) (stanza_lines e n b c) @ [CHR 0x0A, CHR 0x0A]) ps)"

definition package_ok :: "string \<times> bytes \<times> string \<Rightarrow> bool" where
  "package_ok p = (case p of (n, b, c) \<Rightarrow> deb_name n \<and> no_blank_line c)"

lemma package_entries_text:
  assumes "list_all package_ok ps" "hash_laws e"
  shows "package_entries (packages_text e ps) = map (\<lambda>(n, b, c). (sum256 e b, ''./'' @ n, n)) ps"
proof -
  let ?ls = "map (\<lambda>(n, b, c). stanza_lines e n b c) ps"
  have "packages_text e ps = concat (map (\<lambda>ls. join_with (CHR 0x0A) ls @ [CHR 0x0A, CHR 0x0A]) ?ls)"
    by (simp add: packages_text_def comp_def case_prod_unfold)
  moreover have "list_all para ?ls"
    using assms(1) by (auto simp: list_all_iff package_ok_def intro: stanza_para)
  ultimately have "split_blank [] (packages_text e ps) = map (join_with (CHR 0x0A)) ?ls @ [[]]"
    by (simp only: split_blank_paragraphs)
  then have "package_entries (packages_text e ps) = List.map_filter stanza_entry (map (join_with (CHR 0x0A)) ?ls)"
    by (simp add: package_entries_def map_filter_def stanza_entry_Nil)
  also have "\<dots> = map (\<lambda>(n, b, c). (sum256 e b, ''./'' @ n, n)) ps"
    using assms by (induction ps) (auto simp: map_filter_simps package_ok_def stanza_entry_lines)
  finally show ?thesis .
qed

section \<open>What the builder writes\<close>

text \<open>Reads of files that are there do not fail.\<close>

definition readable :: "apt_env \<Rightarrow> bool" where
  "readable e = (\<forall>p. aeReadFault e p = None)"

lemma read_file_Inr: "read_file e p fs = Inr b \<Longrightarrow> map_of fs p = Some b"
  by (auto simp: read_file_def split: option.splits)

lemma read_file_readable: "readable e \<Longrightarrow> map_of fs p = Some b \<Longrightarrow> read_file e p fs = Inr b"
  by (cases p) (simp add: read_file_def readable_def)

lemma set_file_lookup [simp]: "map_of (set_file p b fs) q = (if q = p then Some b else map_of fs q)"
  unfolding set_file_def by (induction fs) auto

lemma digests_readable: "readable e \<Longrightarrow> map_of fs p = Some b \<Longrightarrow> \<exists>sums. digests e p fs = Inr sums \<and> dgSHA256 sums = sum256 e b"
  by (simp add: digests_def read_file_readable sum256_def)

lemma check_entries_iff:
  assumes "readable e" "list_all (\<lambda>(want, shown, name). map_of fs (dir, name) \<noteq> None) es"
  shows "check_entries e index dir fs es = Inr k \<longleftrightarrow>
    k = length es \<and> list_all (\<lambda>(want, shown, name). sum256 e (the (map_of fs (dir, name))) = want) es"
  using assms(2)
proof (induction es arbitrary: k)
  case (Cons x es)
  obtain want shown name where x: "x = (want, shown, name)" by (cases x)
  then obtain b where b: "map_of fs (dir, name) = Some b" using Cons.prems by auto
  from digests_readable [OF assms(1) b] obtain sums where "digests e (dir, name) fs = Inr sums" "dgSHA256 sums = sum256 e b"
    by blast
  with Cons b show ?case by (auto simp: x bind_result_Inr_iff)
qed auto

lemma packageStanza_Inr:
  assumes "packageStanza e (d, n) fs = Inr stanza"
  obtains b c where "map_of fs (d, n) = Some b" "readControl e b = Inr c"
    "stanza @ nl = join_with (CHR 0x0A) (stanza_lines e n b c) @ [CHR 0x0A, CHR 0x0A]"
proof -
  obtain b c where b: "read_file e (d, n) fs = Inr b" and c: "readControl e b = Inr c"
    using assms by (auto simp: packageStanza_def bind_result_Inr_iff)
  have "stanza = unlines [TrimRight CHR 0x0A c, ''Filename: ./'' @ n, ''Size: '' @ dec (length b), ''MD5sum: '' @ hex_encode (aeMD5 e b),
     ''SHA1: '' @ hex_encode (aeSHA1 e b), ''SHA256: '' @ sum256 e b]"
    using assms by (simp add: packageStanza_def b c digests_def sum256_def)
  then show ?thesis using that [OF read_file_Inr [OF b] c] stanza_text [of c n b e] by simp
qed

lemma apt_copyFile_Inr:
  assumes "apt_copyFile e (inp, n) (out, n) fs = (Inr u, fs')"
  shows "map_of fs' (out, n) = map_of fs (inp, n) \<and> (\<forall>q. q \<noteq> (out, n) \<longrightarrow> map_of fs' q = map_of fs q)"
  using assms
  by (auto simp: apt_copyFile_def write_file_def dest: read_file_Inr split: if_splits sum.splits option.splits)

lemma then_files_Inr:
  "then_files p f = (Inr b, fs') \<Longrightarrow> \<exists>a fs1. p = (Inr a, fs1) \<and> f a fs1 = (Inr b, fs')"
  by (auto simp: then_files_def split: prod.splits sum.splits)

lemma add_debs_Inr:
  assumes "add_debs e inp out ns packages fs = (Inr text, fs')" "distinct ns"
  shows "\<exists>ps. map fst ps = ns \<and> text = packages @ packages_text e ps
    \<and> list_all (\<lambda>(n, b, c). map_of fs (inp, n) = Some b \<and> readControl e b = Inr c \<and> map_of fs' (out, n) = Some b) ps
    \<and> (\<forall>q. snd q \<notin> set ns \<or> fst q \<noteq> out \<longrightarrow> map_of fs' q = map_of fs q)"
  using assms
proof (induction ns arbitrary: packages fs)
  case Nil
  then show ?case by (auto simp: packages_text_def)
next
  case (Cons n ns)
  from Cons.prems(1) obtain stanza where stanza: "packageStanza e (inp, n) fs = Inr stanza"
    by (auto split: sum.splits)
  from packageStanza_Inr [OF this] obtain b c where b: "map_of fs (inp, n) = Some b" "readControl e b = Inr c"
    "stanza @ nl = join_with (CHR 0x0A) (stanza_lines e n b c) @ [CHR 0x0A, CHR 0x0A]" by blast
  obtain u fs1 where copy: "apt_copyFile e (inp, n) (out, n) fs = (Inr u, fs1)"
    and rest: "add_debs e inp out ns (packages @ stanza @ nl) fs1 = (Inr text, fs')"
    using Cons.prems(1) stanza by (auto dest: then_files_Inr)
  note fs1 = apt_copyFile_Inr [OF copy]
  from Cons.IH [OF rest] Cons.prems(2) obtain ps where ps: "map fst ps = ns" "text = (packages @ stanza @ nl) @ packages_text e ps"
    "list_all (\<lambda>(n, b, c). map_of fs1 (inp, n) = Some b \<and> readControl e b = Inr c \<and> map_of fs' (out, n) = Some b) ps"
    "\<forall>q. snd q \<notin> set ns \<or> fst q \<noteq> out \<longrightarrow> map_of fs' q = map_of fs1 q" by auto
  have same: "map_of fs1 (inp, k) = map_of fs (inp, k)" for k
    using fs1 by (cases "(inp, k) = (out, n)") auto
  have "map_of fs' (out, n) = Some b" using ps(4) Cons.prems(2) fs1 b(1) by simp
  then show ?case
    using ps b fs1 by (intro exI [of _ "(n, b, c) # ps"]) (auto simp: same packages_text_def)
qed

lemma index_line_Inr:
  assumes "map_of fs (dir, name) = Some b"
  shows "index_line dgMD5 e dir fs name = Inr l \<Longrightarrow> l = index_text (aeMD5 e b) (length b) name"
    "index_line dgSHA1 e dir fs name = Inr l \<Longrightarrow> l = index_text (aeSHA1 e b) (length b) name"
    "index_line dgSHA256 e dir fs name = Inr l \<Longrightarrow> l = index_text (aeSHA256 e b) (length b) name"
  using assms by (auto simp: index_line_def index_text_def digests_def read_file_def bind_result_Inr_iff split: option.splits)

text \<open>The hashes in \<open>Release\<close> are told apart by their length.\<close>

lemma index_entries:
  assumes "hash_laws e" "name \<in> {''Packages'', ''Packages.gz''}"
  shows "release_entry (index_text (aeMD5 e b) n name) = None" "release_entry (index_text (aeSHA1 e b) n name) = None"
    "release_entry (index_text (aeSHA256 e b) n name) = Some (sum256 e b, name, name)"
proof -
  have names: "list_all no_space ''Packages''" "list_all no_space ''Packages.gz''" by code_simp+
  have lens: "length (aeMD5 e b) = 16" "length (aeSHA1 e b) = 20" "length (aeSHA256 e b) = 32"
    using assms(1) by (auto simp: hash_laws_def)
  then have ne: "aeMD5 e b \<noteq> []" "aeSHA1 e b \<noteq> []" "aeSHA256 e b \<noteq> []" by auto
  have "list_all no_space name" "name \<noteq> []" using assms(2) names by auto
  note line = release_entry_line [OF this]
  show "release_entry (index_text (aeMD5 e b) n name) = None" "release_entry (index_text (aeSHA1 e b) n name) = None"
    "release_entry (index_text (aeSHA256 e b) n name) = Some (sum256 e b, name, name)"
    by (simp_all add: line ne lens sum256_def)
qed

lemma index_text_line: "CHR 0x0A \<notin> set name \<Longrightarrow> CHR 0x0A \<notin> set (index_text h n name)"
  by (simp add: index_text_def hex_plain dec_plain)

lemma release_entries_file:
  assumes "releaseFile e dir origin fs = Inr release" "hash_laws e" "CHR 0x0A \<notin> set origin" "CHR 0x0A \<notin> set (aeDate e)"
    and p: "map_of fs (dir, ''Packages'') = Some p" and z: "map_of fs (dir, ''Packages.gz'') = Some z"
  shows "release_entries release = [(sum256 e p, ''Packages'', ''Packages''), (sum256 e z, ''Packages.gz'', ''Packages.gz'')]"
proof -
  let ?ls = "[''Origin: '' @ origin, ''Label: '' @ origin, ''Suite: stable'', ''Codename: stable'', ''Date: '' @ aeDate e,
    ''Acquire-By-Hash: no'', ''MD5Sum:'', index_text (aeMD5 e p) (length p) ''Packages'', index_text (aeMD5 e z) (length z) ''Packages.gz'',
    ''SHA1:'', index_text (aeSHA1 e p) (length p) ''Packages'', index_text (aeSHA1 e z) (length z) ''Packages.gz'',
    ''SHA256:'', index_text (aeSHA256 e p) (length p) ''Packages'', index_text (aeSHA256 e z) (length z) ''Packages.gz'']"
  have release: "release = unlines ?ls"
  proof -
    obtain m1 m2 s1 s2 h1 h2 where
      lines: "index_line dgMD5 e dir fs ''Packages'' = Inr m1" "index_line dgMD5 e dir fs ''Packages.gz'' = Inr m2"
        "index_line dgSHA1 e dir fs ''Packages'' = Inr s1" "index_line dgSHA1 e dir fs ''Packages.gz'' = Inr s2"
        "index_line dgSHA256 e dir fs ''Packages'' = Inr h1" "index_line dgSHA256 e dir fs ''Packages.gz'' = Inr h2"
      using assms(1) by (auto simp only: releaseFile_def bind_result_Inr_iff)
    note texts = index_line_Inr(1) [OF p lines(1)] index_line_Inr(1) [OF z lines(2)] index_line_Inr(2) [OF p lines(3)]
      index_line_Inr(2) [OF z lines(4)] index_line_Inr(3) [OF p lines(5)] index_line_Inr(3) [OF z lines(6)]
    show ?thesis using assms(1) by (simp only: releaseFile_def lines bind_result_simps sum.inject texts)
  qed
  have "list_all (\<lambda>l. CHR 0x0A \<notin> set l) ?ls" using assms(3,4) by (simp add: index_text_line)
  then have split: "Split release (CHR 0x0A) = ?ls @ [[]]" unfolding release by (rule Split_unlines)
  show ?thesis
    unfolding release_entries_def split
    by (simp add: map_filter_simps release_entry_none HasPrefix_def index_entries [OF assms(2)])
qed

lemma write_file_Inr: "write_file e p b fs = (Inr u, fs') \<Longrightarrow> fs' = set_file p b fs"
  by (auto simp: write_file_def split: option.splits)

lemma gpg_step_Inr: "gpg_step e p r fs = (Inr u, fs') \<Longrightarrow> \<exists>b. r = Inr b \<and> fs' = set_file p b fs"
  by (auto simp: gpg_step_def split: sum.splits)

lemma sign_Inr:
  assumes "sign e dir key fs = (Inr u, fs')" "map_of fs (dir, ''Release'') = Some release"
  shows "\<exists>s. aeClearsign e key release = Inr s \<and> map_of fs' (dir, ''InRelease'') = Some s
    \<and> (\<forall>q. snd q \<notin> {''InRelease'', ''Release.gpg'', ''weave-archive-keyring.asc''} \<longrightarrow> map_of fs' q = map_of fs q)"
  using assms by (fastforce simp: sign_def Let_def dest!: then_files_Inr gpg_step_Inr)

lemma deb_names_suffix: "n \<in> set (deb_names dir fs) \<Longrightarrow> HasSuffix n ''.deb''"
  by (auto simp: deb_names_def)

definition index_names :: "string set" where
  "index_names = {''Packages'', ''Packages.gz'', ''Release'', ''InRelease'', ''Release.gpg'', ''weave-archive-keyring.asc''}"

lemma deb_not_index: "HasSuffix n ''.deb'' \<Longrightarrow> n \<notin> index_names"
proof -
  have "\<not> HasSuffix k ''.deb''" if "k \<in> index_names" for k
    using that by (auto simp: index_names_def HasSuffix_def suffix_def)
  then show "HasSuffix n ''.deb'' \<Longrightarrow> n \<notin> index_names" by blast
qed

text \<open>The repository that a build leaves: the packages with their stanzas, and the indexes over them.\<close>

lemma build_Inr:
  assumes "build e inp out key origin fs = (Inr u, fs')"
  obtains ps z release fs3 where "map fst ps = deb_names inp fs" "ps \<noteq> []"
    "list_all (\<lambda>(n, b, c). map_of fs (inp, n) = Some b \<and> readControl e b = Inr c \<and> map_of fs' (out, n) = Some b) ps"
    "map_of fs' (out, ''Packages'') = Some (packages_text e ps)" "map_of fs' (out, ''Packages.gz'') = Some z"
    "map_of fs' (out, ''Release'') = Some release" "releaseFile e out origin fs3 = Inr release"
    "map_of fs3 (out, ''Packages'') = Some (packages_text e ps)" "map_of fs3 (out, ''Packages.gz'') = Some z"
    "if key = [] then map_of fs' (out, ''InRelease'') = map_of fs (out, ''InRelease'')
     else \<exists>s. aeClearsign e key release = Inr s \<and> map_of fs' (out, ''InRelease'') = Some s"
proof -
  let ?ns = "deb_names inp fs"
  have ne: "?ns \<noteq> []" "aeMkdir e out = None" using assms by (auto simp: build_def Let_def split: if_splits option.splits)
  obtain packages fs1 fs2 fs3 where steps: "add_debs e inp out ?ns [] fs = (Inr packages, fs1)"
      "write_file e (out, ''Packages'') packages fs1 = (Inr (), fs2)" "writeGzip e (out, ''Packages.gz'') packages fs2 = (Inr (), fs3)"
    and rest: "(case releaseFile e out origin fs3 of Inl err \<Rightarrow> (Inl err, fs3)
      | Inr release \<Rightarrow> then_files (write_file e (out, ''Release'') release fs3) (\<lambda>_ fs.
          if key = [] then (Inr (), fs) else sign e out key fs)) = (Inr u, fs')"
    using assms ne by (auto simp: build_def Let_def dest!: then_files_Inr)
  obtain release fs4 where release: "releaseFile e out origin fs3 = Inr release" "write_file e (out, ''Release'') release fs3 = (Inr (), fs4)"
    and last: "(if key = [] then (Inr (), fs4) else sign e out key fs4) = (Inr u, fs')"
    using rest by (auto dest!: then_files_Inr split: sum.splits)
  have "distinct ?ns" by (simp add: deb_names_def)
  from add_debs_Inr [OF steps(1) this] obtain ps where ps: "map fst ps = ?ns" "packages = packages_text e ps"
    "list_all (\<lambda>(n, b, c). map_of fs (inp, n) = Some b \<and> readControl e b = Inr c \<and> map_of fs1 (out, n) = Some b) ps"
    "\<forall>q. snd q \<notin> set ?ns \<or> fst q \<noteq> out \<longrightarrow> map_of fs1 q = map_of fs q" by auto
  obtain z where z: "fs3 = set_file (out, ''Packages.gz'') z fs2"
    using steps(3) by (auto simp: writeGzip_def dest: write_file_Inr split: sum.splits)
  note fs = write_file_Inr [OF steps(2)] z write_file_Inr [OF release(2)]
  have look: "map_of fs4 q = (if q = (out, ''Release'') then Some release else if q = (out, ''Packages.gz'') then Some z
      else if q = (out, ''Packages'') then Some packages else map_of fs1 q)" for q
    by (simp add: fs)
  have deb: "n \<notin> index_names" if "n \<in> set ?ns" for n using deb_not_index deb_names_suffix that by blast
  have sig: "map_of fs4 (out, ''Release'') = Some release" by (simp add: look)
  have signed: "map_of fs' q = map_of fs4 q" if "snd q \<notin> {''InRelease'', ''Release.gpg'', ''weave-archive-keyring.asc''}" for q
  proof (cases "key = []")
    case True
    then show ?thesis using last by simp
  next
    case False
    then have "sign e out key fs4 = (Inr u, fs')" using last by simp
    from sign_Inr [OF this sig] that show ?thesis by blast
  qed
  have "map_of fs' (out, n) = map_of fs1 (out, n)" if "n \<in> set ?ns" for n
    using deb [OF that] signed [of "(out, n)"] by (simp add: look index_names_def)
  then have debs: "list_all (\<lambda>(n, b, c). map_of fs (inp, n) = Some b \<and> readControl e b = Inr c \<and> map_of fs' (out, n) = Some b) ps"
    using ps(3) ps(1) [symmetric] by (fastforce simp: list_all_iff)
  have inrelease: "if key = [] then map_of fs' (out, ''InRelease'') = map_of fs (out, ''InRelease'')
     else \<exists>s. aeClearsign e key release = Inr s \<and> map_of fs' (out, ''InRelease'') = Some s"
  proof (cases "key = []")
    case True
    have "map_of fs4 (out, ''InRelease'') = map_of fs (out, ''InRelease'')"
      using ps(4) deb [of "''InRelease''"] by (auto simp: look index_names_def)
    then show ?thesis using last True by simp
  next
    case False
    then have "sign e out key fs4 = (Inr u, fs')" using last by simp
    from sign_Inr [OF this sig] False show ?thesis by auto
  qed
  show ?thesis
    using signed [of "(out, ''Packages'')"] signed [of "(out, ''Packages.gz'')"] signed [of "(out, ''Release'')"] ne(1) ps(1)
    by (intro that [OF ps(1) _ debs _ _ _ release(1) _ _ inrelease]) (auto simp: look fs ps(2))
qed


section \<open>Properties\<close>

lemma verifyRepo_iff:
  assumes "readable e" "map_of fs (dir, ''Release'') = Some release" "map_of fs (dir, ''Packages'') = Some packages"
    and "list_all (\<lambda>(want, shown, name). map_of fs (dir, name) \<noteq> None) (release_entries release @ package_entries packages)"
  shows "verifyRepo e dir fs = Inr () \<longleftrightarrow>
    (\<forall>s. map_of fs (dir, ''InRelease'') = Some s \<longrightarrow> aeVerify e s) \<and> release_entries release \<noteq> [] \<and> package_entries packages \<noteq> []
    \<and> list_all (\<lambda>(want, shown, name). sum256 e (the (map_of fs (dir, name))) = want) (release_entries release @ package_entries packages)"
proof -
  note read = read_file_readable [OF assms(1,2)] read_file_readable [OF assms(1,3)]
  have some: "list_all (\<lambda>(want, shown, name). map_of fs (dir, name) \<noteq> None) (release_entries release)"
    "list_all (\<lambda>(want, shown, name). map_of fs (dir, name) \<noteq> None) (package_entries packages)"
    using assms(4) by simp_all
  show ?thesis
    by (auto simp: verifyRepo_def bind_result_Inr_iff read check_entries_iff [OF assms(1) some(1)] check_entries_iff [OF assms(1) some(2)]
        split: option.splits)
qed

lemma built_repo:
  assumes "hash_laws e" "CHR 0x0A \<notin> set origin" "CHR 0x0A \<notin> set (aeDate e)"
    and names: "list_all deb_name (deb_names inp fs)"
    and controls: "\<And>n b c. n \<in> set (deb_names inp fs) \<Longrightarrow> map_of fs (inp, n) = Some b \<Longrightarrow> readControl e b = Inr c \<Longrightarrow> no_blank_line c"
    and build: "build e inp out key origin fs = (Inr u, fs')"
  obtains ps z release where "map fst ps = deb_names inp fs" "ps \<noteq> []"
    "list_all (\<lambda>(n, b, c). map_of fs (inp, n) = Some b \<and> map_of fs' (out, n) = Some b) ps"
    "map_of fs' (out, ''Packages'') = Some (packages_text e ps)" "map_of fs' (out, ''Packages.gz'') = Some z"
    "map_of fs' (out, ''Release'') = Some release"
    "release_entries release = [(sum256 e (packages_text e ps), ''Packages'', ''Packages''), (sum256 e z, ''Packages.gz'', ''Packages.gz'')]"
    "package_entries (packages_text e ps) = map (\<lambda>(n, b, c). (sum256 e b, ''./'' @ n, n)) ps"
    "if key = [] then map_of fs' (out, ''InRelease'') = map_of fs (out, ''InRelease'')
     else \<exists>s. aeClearsign e key release = Inr s \<and> map_of fs' (out, ''InRelease'') = Some s"
proof -
  obtain ps z release fs3 where b: "map fst ps = deb_names inp fs" "ps \<noteq> []"
    "list_all (\<lambda>(n, b, c). map_of fs (inp, n) = Some b \<and> readControl e b = Inr c \<and> map_of fs' (out, n) = Some b) ps"
    and idx: "map_of fs' (out, ''Packages'') = Some (packages_text e ps)" "map_of fs' (out, ''Packages.gz'') = Some z"
    "map_of fs' (out, ''Release'') = Some release"
    and rel: "releaseFile e out origin fs3 = Inr release"
      "map_of fs3 (out, ''Packages'') = Some (packages_text e ps)" "map_of fs3 (out, ''Packages.gz'') = Some z"
    and sig: "if key = [] then map_of fs' (out, ''InRelease'') = map_of fs (out, ''InRelease'')
     else \<exists>s. aeClearsign e key release = Inr s \<and> map_of fs' (out, ''InRelease'') = Some s"
    by (rule build_Inr [OF build])
  have "set ps \<subseteq> {(n, b, c). n \<in> set (deb_names inp fs)}" using b(1) [symmetric] by force
  then have "list_all package_ok ps"
    using b(3) names controls by (fastforce simp: list_all_iff package_ok_def)
  note pkgs = package_entries_text [OF this assms(1)]
  note rels = release_entries_file [OF rel(1) assms(1,2,3) rel(2,3)]
  show ?thesis
    by (rule that [OF b(1,2) _ idx rels pkgs sig]) (use b(3) in \<open>auto simp: list_all_iff\<close>)
qed

text \<open>
  A repository the tool has built passes its own check, signed or not, whatever was in the
  directory before, given that the names hold no newline, that no control file holds a blank line
  within and that gpg accepts what it has signed.
\<close>

theorem build_verifies:
  assumes "hash_laws e" "CHR 0x0A \<notin> set origin" "CHR 0x0A \<notin> set (aeDate e)" "list_all deb_name (deb_names inp fs)"
    and "\<And>n b c. n \<in> set (deb_names inp fs) \<Longrightarrow> map_of fs (inp, n) = Some b \<Longrightarrow> readControl e b = Inr c \<Longrightarrow> no_blank_line c"
    and "build e inp out key origin fs = (Inr u, fs')" "readable e"
    and gpg: "\<And>r s. aeClearsign e key r = Inr s \<Longrightarrow> aeVerify e s"
    and stale: "\<And>s. key = [] \<Longrightarrow> map_of fs (out, ''InRelease'') = Some s \<Longrightarrow> aeVerify e s"
  shows "verifyRepo e out fs' = Inr ()"
proof (rule built_repo [OF assms(1-6)], assumption)
  fix ps z release
  assume b: "ps \<noteq> []" "list_all (\<lambda>(n, b, c). map_of fs (inp, n) = Some b \<and> map_of fs' (out, n) = Some b) ps"
    and idx: "map_of fs' (out, ''Packages'') = Some (packages_text e ps)" "map_of fs' (out, ''Packages.gz'') = Some z"
      "map_of fs' (out, ''Release'') = Some release"
    and entries: "release_entries release = [(sum256 e (packages_text e ps), ''Packages'', ''Packages''), (sum256 e z, ''Packages.gz'', ''Packages.gz'')]"
      "package_entries (packages_text e ps) = map (\<lambda>(n, b, c). (sum256 e b, ''./'' @ n, n)) ps"
    and sig: "if key = [] then map_of fs' (out, ''InRelease'') = map_of fs (out, ''InRelease'')
     else \<exists>s. aeClearsign e key release = Inr s \<and> map_of fs' (out, ''InRelease'') = Some s"
  have "\<forall>s. map_of fs' (out, ''InRelease'') = Some s \<longrightarrow> aeVerify e s"
    using sig gpg stale by (auto split: if_splits)
  with b show ?thesis
    by (subst verifyRepo_iff [OF assms(7) idx(3,1)]) (auto simp: entries idx list_all_iff)
qed

text \<open>
  A package changed after the build does not pass: when the hash of the new content differs, the
  check refuses the repository, whoever has signed it.
\<close>

theorem tampered_package_refused:
  assumes "hash_laws e" "CHR 0x0A \<notin> set origin" "CHR 0x0A \<notin> set (aeDate e)" "list_all deb_name (deb_names inp fs)"
    and "\<And>n b c. n \<in> set (deb_names inp fs) \<Longrightarrow> map_of fs (inp, n) = Some b \<Longrightarrow> readControl e b = Inr c \<Longrightarrow> no_blank_line c"
    and "build e inp out key origin fs = (Inr u, fs')" "readable e"
    and n: "n \<in> set (deb_names inp fs)" "aeSHA256 e b' \<noteq> aeSHA256 e (the (map_of fs (inp, n)))"
  shows "verifyRepo e out (set_file (out, n) b' fs') \<noteq> Inr ()"
proof (rule built_repo [OF assms(1-6)], assumption)
  fix ps z release
  let ?fs = "set_file (out, n) b' fs'"
  assume ps: "map fst ps = deb_names inp fs"
    and b: "list_all (\<lambda>(n, b, c). map_of fs (inp, n) = Some b \<and> map_of fs' (out, n) = Some b) ps"
    and idx: "map_of fs' (out, ''Packages'') = Some (packages_text e ps)" "map_of fs' (out, ''Packages.gz'') = Some z"
      "map_of fs' (out, ''Release'') = Some release"
    and entries: "release_entries release = [(sum256 e (packages_text e ps), ''Packages'', ''Packages''), (sum256 e z, ''Packages.gz'', ''Packages.gz'')]"
      "package_entries (packages_text e ps) = map (\<lambda>(n, b, c). (sum256 e b, ''./'' @ n, n)) ps"
  have "n \<notin> index_names" using deb_not_index deb_names_suffix n(1) by blast
  then have idx': "map_of ?fs (out, ''Packages'') = Some (packages_text e ps)" "map_of ?fs (out, ''Packages.gz'') = Some z"
      "map_of ?fs (out, ''Release'') = Some release"
    using idx by (auto simp: index_names_def)
  obtain b0 c0 where p: "(n, b0, c0) \<in> set ps" using n(1) unfolding ps [symmetric] by auto
  then have "map_of fs (inp, n) = Some b0" using b by (auto simp: list_all_iff)
  then have ne: "sum256 e b' \<noteq> sum256 e b0" using n(2) hex_encode_inj by (auto simp: sum256_def)
  let ?es = "release_entries release @ package_entries (packages_text e ps)"
  have "map_of ?fs (out, name) \<noteq> None" if "(want, shown, name) \<in> set ?es" for want shown name
  proof (cases "(want, shown, name) \<in> set (release_entries release)")
    case True
    then show ?thesis using idx' by (auto simp: entries(1))
  next
    case False
    then have "(want, shown, name) \<in> set (package_entries (packages_text e ps))" using that by simp
    then obtain b c where "(name, b, c) \<in> set ps" unfolding entries(2) by auto
    then show ?thesis using b by (auto simp: list_all_iff)
  qed
  then have there: "list_all (\<lambda>(want, shown, name). map_of ?fs (out, name) \<noteq> None) ?es" unfolding list_all_iff by fast
  have "(sum256 e b0, ''./'' @ n, n) \<in> set ?es" using p by (force simp: entries(2))
  with ne have "\<not> list_all (\<lambda>(want, shown, name). sum256 e (the (map_of ?fs (out, name))) = want) ?es"
    unfolding list_all_iff by (intro notI) (drule (1) bspec, simp)
  with verifyRepo_iff [OF assms(7) idx'(3,1) there] show ?thesis by blast
qed

text \<open>
  The signature is not bound to the digests: the check reads them from \<open>Release\<close>, and gpg has
  looked at \<open>InRelease\<close>. So any repository that passes the check without a signature passes as well
  with an inline signature over something else.
\<close>

theorem signature_not_bound:
  assumes "verifyRepo e dir fs = Inr ()" "aeVerify e s"
    and "''InRelease'' \<notin> snd ` snd ` set (release_entries (the (map_of fs (dir, ''Release''))) @ package_entries (the (map_of fs (dir, ''Packages''))))"
  shows "verifyRepo e dir (set_file (dir, ''InRelease'') s fs) = Inr ()"
proof -
  have same: "read_file e (dir, n) (set_file (dir, ''InRelease'') s fs) = read_file e (dir, n) fs" if "n \<noteq> ''InRelease''" for n
    using that by (simp add: read_file_def split: option.splits)
  have check: "check_entries e index dir (set_file (dir, ''InRelease'') s fs) es = check_entries e index dir fs es"
    if "''InRelease'' \<notin> snd ` snd ` set es" for index es
    using that
  proof (induction es)
    case (Cons x es)
    obtain want shown name where x: "x = (want, shown, name)" by (cases x)
    with Cons.prems have "name \<noteq> ''InRelease''" "''InRelease'' \<notin> snd ` snd ` set es" by auto
    with Cons.IH show ?case by (simp add: x digests_def same split: sum.splits)
  qed simp
  obtain release packages where "read_file e (dir, ''Release'') fs = Inr release" "read_file e (dir, ''Packages'') fs = Inr packages"
    using assms(1) by (auto simp: verifyRepo_def bind_result_Inr_iff)
  note read = this
  have "''InRelease'' \<notin> snd ` snd ` set (release_entries release)" "''InRelease'' \<notin> snd ` snd ` set (package_entries packages)"
    using assms(3) read_file_Inr [OF read(1)] read_file_Inr [OF read(2)] by (auto simp: image_Un)
  note checks = check [OF this(1)] check [OF this(2)]
  show ?thesis
    using assms(1) by (auto simp: verifyRepo_def bind_result_Inr_iff same read checks assms(2))
qed

text \<open>Applied to a directory with one package, whose control archive is not compressed.\<close>

definition ex_deb :: bytes where
  "ex_deb = ''!<arch>'' @ nl @ ''control.tar     '' @ replicate 32 CHR ''0'' @ ''1         '' @ ''`'' @ nl @ ''x''"

definition ex_apt :: apt_env where
  "ex_apt = \<lparr>aeReadFault = (\<lambda>_. None), aeWriteFault = (\<lambda>_. None), aeMkdir = (\<lambda>_. None),
     aeMD5 = (\<lambda>b. take 16 (b @ replicate 16 CHR ''0'')), aeSHA1 = (\<lambda>b. take 20 (b @ replicate 20 CHR ''0'')),
     aeSHA256 = (\<lambda>b. take 32 (b @ replicate 32 CHR ''0'')), aeGzip = Inr, aeTar = (\<lambda>_. [TarEntry ''./control'' (Inr (''Package: p'' @ nl))]),
     aeTarGz = (\<lambda>_. Inl ''gzip''), aeDate = ''today'', aeClearsign = (\<lambda>k r. Inr (k @ r)), aeDetach = (\<lambda>k r. Inr k),
     aeExport = Inr, aeVerify = (\<lambda>s. HasPrefix s ''key'')\<rparr>"

definition ex_in :: files where
  "ex_in = [((''dist'', ''p.deb''), ex_deb), ((''dist'', ''notes''), ''x'')]"

lemma ex_apt_laws: "hash_laws ex_apt" "readable ex_apt" "CHR 0x0A \<notin> set (aeDate ex_apt)" "list_all deb_name (deb_names ''dist'' ex_in)"
proof -
  show "hash_laws ex_apt" "readable ex_apt" by (auto simp: hash_laws_def readable_def ex_apt_def min_def)
  show "CHR 0x0A \<notin> set (aeDate ex_apt)" "list_all deb_name (deb_names ''dist'' ex_in)" by code_simp+
qed

lemma ex_control:
  assumes "n \<in> set (deb_names ''dist'' ex_in)" "map_of ex_in (''dist'', n) = Some b" "readControl ex_apt b = Inr c"
  shows "no_blank_line c"
proof -
  have "deb_names ''dist'' ex_in = [''p.deb'']" by code_simp
  then have "n = ''p.deb''" using assms(1) by simp
  then have "b = ex_deb" using assms(2) by (simp add: ex_in_def)
  moreover have "readControl ex_apt ex_deb = Inr (''Package: p'' @ nl)" by code_simp
  ultimately have "c = ''Package: p'' @ nl" using assms(3) by simp
  moreover have "no_blank_line (''Package: p'' @ nl)" by code_simp
  ultimately show ?thesis by simp
qed

lemma ex_build: "build ex_apt ''dist'' ''apt'' ''key'' ''weave'' ex_in = (Inr (), snd (build ex_apt ''dist'' ''apt'' ''key'' ''weave'' ex_in))"
proof -
  have "is_ok (fst (build ex_apt ''dist'' ''apt'' ''key'' ''weave'' ex_in))" by code_simp
  then show ?thesis by (simp add: is_ok_iff prod_eq_iff)
qed

theorem build_verifies_witness: "verifyRepo ex_apt ''apt'' (snd (build ex_apt ''dist'' ''apt'' ''key'' ''weave'' ex_in)) = Inr ()"
  by (rule build_verifies [OF ex_apt_laws(1) _ ex_apt_laws(3,4) ex_control ex_build ex_apt_laws(2)])
    (auto simp: ex_apt_def HasPrefix_def)

theorem tampered_package_refused_witness:
  "is_ok (verifyRepo ex_apt ''apt'' (set_file (''apt'', ''p.deb'') ''evil'' (snd (build ex_apt ''dist'' ''apt'' ''key'' ''weave'' ex_in)))) = False"
proof -
  have plain: "CHR 0x0A \<notin> set ''weave''" by simp
  have changed: "''p.deb'' \<in> set (deb_names ''dist'' ex_in)"
    "aeSHA256 ex_apt ''evil'' \<noteq> aeSHA256 ex_apt (the (map_of ex_in (''dist'', ''p.deb'')))" by code_simp+
  have "verifyRepo ex_apt ''apt'' (set_file (''apt'', ''p.deb'') ''evil'' (snd (build ex_apt ''dist'' ''apt'' ''key'' ''weave'' ex_in))) \<noteq> Inr ()"
    by (rule tampered_package_refused [OF ex_apt_laws(1) plain ex_apt_laws(3,4) ex_control ex_build ex_apt_laws(2) changed])
  then show ?thesis by (auto simp: is_ok_iff)
qed

lemma names_differ: "list_all (\<lambda>x. snd (snd x) \<noteq> y) xs \<Longrightarrow> y \<notin> snd ` snd ` set xs"
  by (auto simp: list_all_iff)

definition ex_packages :: bytes where
  "ex_packages = unlines [''Filename: ./p.deb'', ''SHA256: '' @ sum256 ex_apt ex_deb]"

definition ex_repo :: files where
  "ex_repo = [((''apt'', ''p.deb''), ex_deb), ((''apt'', ''Packages''), ex_packages),
     ((''apt'', ''Release''), unlines ['' '' @ sum256 ex_apt ex_packages @ '' 1 Packages''])]"

theorem signature_not_bound_witness:
  "verifyRepo ex_apt ''apt'' (set_file (''apt'', ''InRelease'') ''key of another release'' ex_repo) = Inr ()"
proof (rule signature_not_bound)
  show "verifyRepo ex_apt ''apt'' ex_repo = Inr ()" "aeVerify ex_apt ''key of another release''" by code_simp+
  have "list_all (\<lambda>x. snd (snd x) \<noteq> ''InRelease'')
      (release_entries (the (map_of ex_repo (''apt'', ''Release''))) @ package_entries (the (map_of ex_repo (''apt'', ''Packages''))))"
    by code_simp
  then show "''InRelease'' \<notin> snd ` snd `
      set (release_entries (the (map_of ex_repo (''apt'', ''Release''))) @ package_entries (the (map_of ex_repo (''apt'', ''Packages''))))"
    by (rule names_differ)
qed

end
