(* ===== verification/Verify.thy ===== *)
theory Verify
  imports Manifest_Verify Launch
begin

text \<open>
  The verifiers of module binaries (\<open>src/internal/verify\<close>): the one anchored to a signed channel
  manifest, and those of release builds on Linux (ownership and write permission), macOS (codesign)
  and Windows (Authenticode). What the operating system and the signing tools answer, SHA-256 and
  the certificate store are parameters.
\<close>

section \<open>The channel verifier\<close>

datatype refusal =
    NoManifestFor path | NotSigned string | WrongVersion string string
  | WrongPrivilege string string | WrongSession string string | WrongProtocol uint32 uint32
  | UngrantedCapability string | NoSignedArtifact string
  | CannotRead io_error | WrongDigest string string

type_synonym verifier = "fs \<Rightarrow> path \<Rightarrow> manifest option \<Rightarrow> refusal option"

definition notGranted :: "string list \<Rightarrow> string list \<Rightarrow> string" where
  "notGranted want granted = (case find (\<lambda>w. w \<notin> set granted) want of None \<Rightarrow> [] | Some w \<Rightarrow> w)"

definition matchesSignedGrants :: "manifest \<Rightarrow> channel_module \<Rightarrow> refusal option" where
  "matchesSignedGrants onDisk entry =
     (if mfPrivilege onDisk \<noteq> cmPrivilege entry then Some (WrongPrivilege (mfPrivilege onDisk) (cmPrivilege entry))
      else if mfSession onDisk \<noteq> cmSession entry then Some (WrongSession (mfSession onDisk) (cmSession entry))
      else if mfProtocol onDisk \<noteq> cmProtocol entry then Some (WrongProtocol (mfProtocol onDisk) (cmProtocol entry))
      else let extra = notGranted (mfCapabilities onDisk) (cmCapabilities entry)
        in if extra \<noteq> [] then Some (UngrantedCapability extra) else None)"

definition artifactFor :: "channel_module \<Rightarrow> string \<Rightarrow> string \<Rightarrow> channel_artifact option" where
  "artifactFor entry goos goarch = find (\<lambda>a. caOS a = goos \<and> caArch a = goarch) (cmArtifacts entry)"

definition digestMatches :: "(bytes \<Rightarrow> bytes) \<Rightarrow> fs \<Rightarrow> path \<Rightarrow> string \<Rightarrow> refusal option" where
  "digestMatches sha t p want =
     (case read_tree p t of
        Inl err \<Rightarrow> Some (CannotRead err)
      | Inr b \<Rightarrow>
          let got = ''sha256:'' @ hex_encode (sha b)
          in if got \<noteq> want then Some (WrongDigest got want) else None)"

text \<open>The map \<open>signed\<close>: of two entries with one id the later one counts.\<close>

definition signed_entry :: "channel_manifest \<Rightarrow> string \<Rightarrow> channel_module option" where
  "signed_entry ch m = map_of (rev (map (\<lambda>cm. (cmID cm, cm)) (chModules ch))) m"

record verify_host =
  hostOS :: string
  hostArch :: string
  hostSHA256 :: "bytes \<Rightarrow> bytes"

definition channel_check :: "verify_host \<Rightarrow> channel_manifest \<Rightarrow> verifier" where
  "channel_check h ch t p onDisk =
     (case onDisk of
        None \<Rightarrow> Some (NoManifestFor p)
      | Some m \<Rightarrow>
          (case signed_entry ch (mfID m) of
             None \<Rightarrow> Some (NotSigned (mfID m))
           | Some entry \<Rightarrow>
               if cmVersion entry \<noteq> mfVersion m then Some (WrongVersion (mfVersion m) (cmVersion entry))
               else case matchesSignedGrants m entry of
                 Some err \<Rightarrow> Some err
               | None \<Rightarrow>
                   (case artifactFor entry (hostOS h) (hostArch h) of
                      None \<Rightarrow> Some (NoSignedArtifact (mfID m))
                    | Some a \<Rightarrow> digestMatches (hostSHA256 h) t p (caDigest a))))"

definition NewChannel :: "verify_host \<Rightarrow> crypto \<Rightarrow> bytes \<Rightarrow> signed_bundle \<Rightarrow> (verify_error, verifier) result" where
  "NewChannel h cr rootPub b =
     (case Verify_bundle cr rootPub b of Inl err \<Rightarrow> Inl err | Inr ch \<Rightarrow> Inr (channel_check h ch))"

definition channelManifestFile :: string where "channelManifestFile = ''channel.json''"
definition channelSigFile :: string where "channelSigFile = ''channel.json.sig''"
definition signingKeyFile :: string where "signingKeyFile = ''signing.pub''"
definition signingKeySigFile :: string where "signingKeySigFile = ''signing.pub.sig''"

datatype anchor_error = NoRootKey | RootUnreadable io_error | RootInvalid key_error | NotTheRoot string
  | BundleUnreadable io_error | ChannelRefused verify_error

definition read_bundle :: "path \<Rightarrow> ('x disk_scheme, (io_error, signed_bundle) result) state" where
  "read_bundle dir =
     then_ok (ReadFile (Join dir channelManifestFile)) (\<lambda>m.
     then_ok (ReadFile (Join dir channelSigFile)) (\<lambda>ms.
     then_ok (ReadFile (Join dir signingKeyFile)) (\<lambda>k.
     then_ok (ReadFile (Join dir signingKeySigFile)) (\<lambda>ks.
       ret (Inr \<lparr>bManifest = m, bManifestSig = ms, bSigningKey = k, bSigningKeySig = ks\<rparr>)))))"

definition NewChannelFromDir :: "verify_host \<Rightarrow> crypto \<Rightarrow> path option \<Rightarrow> path \<Rightarrow> ('x disk_scheme, (anchor_error, verifier) result) state" where
  "NewChannelFromDir h cr rootPubPath dir =
     (case rootPubPath of
        None \<Rightarrow> ret (Inl NoRootKey)
      | Some p \<Rightarrow>
          then_ok (wrap_err RootUnreadable (ReadFile p)) (\<lambda>rootBytes.
            case ParsePublicKey cr rootBytes of
              Inl err \<Rightarrow> ret (Inl (RootInvalid err))
            | Inr (rootKey, rootRaw) \<Rightarrow>
                if pkKeyID rootKey \<noteq> ''root'' then ret (Inl (NotTheRoot (pkKeyID rootKey)))
                else then_ok (wrap_err BundleUnreadable (read_bundle dir)) (\<lambda>b.
                  ret (map_error ChannelRefused (NewChannel h cr rootRaw b)))))"


section \<open>Linux: ownership and permissions\<close>

record file_info =
  fiUid :: uint32
  fiMode :: uint32

datatype owner_refusal = StatFailed path | NotRootOwned path uint32 | WritableByOthers path uint32

definition rootOwnedAndUnwritable :: "(path \<Rightarrow> file_info option) \<Rightarrow> path \<Rightarrow> owner_refusal option" where
  "rootOwnedAndUnwritable stat p =
     (case stat p of
        None \<Rightarrow> Some (StatFailed p)
      | Some info \<Rightarrow>
          if fiUid info \<noteq> 0 then Some (NotRootOwned p (fiUid info))
          else if and (fiMode info) 18 \<noteq> 0 then Some (WritableByOthers p (fiMode info))
          else None)"

definition linux_verify :: "(path \<Rightarrow> file_info option) \<Rightarrow> path \<Rightarrow> owner_refusal option" where
  "linux_verify stat p =
     (case rootOwnedAndUnwritable stat p of
        Some err \<Rightarrow> Some err
      | None \<Rightarrow> rootOwnedAndUnwritable stat (Dir p))"


section \<open>macOS: codesign\<close>

definition team_char :: "char \<Rightarrow> bool" where
  "team_char c = (is_upper c \<or> is_digit c)"

definition teamIDRe :: "string \<Rightarrow> bool" where
  "teamIDRe s = (length s = 10 \<and> list_all team_char s)"

datatype team_error = TeamNotSet | NoTeamLine

fun team_in_lines :: "string list \<Rightarrow> (team_error, string) result" where
  "team_in_lines [] = Inl NoTeamLine"
| "team_in_lines (l # ls) =
     (case CutPrefix (TrimSpace l) ''TeamIdentifier='' of
        Some v \<Rightarrow>
          let v' = TrimSpace v
          in if v' = [] \<or> v' = ''not set'' then Inl TeamNotSet else Inr v'
      | None \<Rightarrow> team_in_lines ls)"

definition parseTeamIdentifier :: "string \<Rightarrow> (team_error, string) result" where
  "parseTeamIdentifier out = team_in_lines (Split out newlineChar)"

definition requirement :: "string \<Rightarrow> string" where
  "requirement team = ''anchor apple generic and certificate leaf[subject.OU] = '' @ [CHR 0x22] @ team @ [CHR 0x22]"

text \<open>The two runs of \<open>/usr/bin/codesign\<close>: whether a requirement is met, and the details it prints.\<close>

record codesign =
  csVerify :: "string \<Rightarrow> path \<Rightarrow> bool"
  csDisplay :: "path \<Rightarrow> string option"

datatype codesign_refusal = NoTeamPinned string | MalformedTeam string | Rejected path | DisplayFailed path
  | BadTeam team_error | OtherTeam string string

definition codesignVerify :: "codesign \<Rightarrow> path \<Rightarrow> manifest \<Rightarrow> codesign_refusal option" where
  "codesignVerify cs p m =
     (case mfSigning m of
        None \<Rightarrow> Some (NoTeamPinned (mfID m))
      | Some sg \<Rightarrow>
          if AppleTeamID sg = [] then Some (NoTeamPinned (mfID m))
          else if \<not> teamIDRe (AppleTeamID sg) then Some (MalformedTeam (AppleTeamID sg))
          else if \<not> csVerify cs (requirement (AppleTeamID sg)) p then Some (Rejected p)
          else case csDisplay cs p of
            None \<Rightarrow> Some (DisplayFailed p)
          | Some out \<Rightarrow>
              (case parseTeamIdentifier out of
                 Inl err \<Rightarrow> Some (BadTeam err)
               | Inr team \<Rightarrow> if team \<noteq> AppleTeamID sg then Some (OtherTeam team (AppleTeamID sg)) else None))"



section \<open>Windows: Authenticode\<close>

text \<open>
  What the trust provider answers: the status of the chain validation, whether it has provider data
  and a signer, and the leaf certificate with the SHA-1 hash and the display name the system reads
  from it (a name of at most one unit is no name).
\<close>

record certificate =
  certSHA1 :: "bytes option"
  certName :: "string option"

record trust =
  trStatus :: "path \<Rightarrow> uint32"
  trProvider :: "path \<Rightarrow> bool"
  trSigner :: "path \<Rightarrow> bool"
  trLeaf :: "path \<Rightarrow> certificate option"

datatype authenticode_refusal = NoSubjectPinned string | ChainRejected uint32 | NoProviderData | NoSigner | NoLeaf
  | ThumbprintUnreadable | OtherThumbprint string string | NoSubject | OtherSubject string string

definition upper_char :: "char \<Rightarrow> char" where
  "upper_char c = (if is_lower c then char_of (of_char c - 32 :: nat) else c)"

definition certThumbprint :: "certificate \<Rightarrow> string option" where
  "certThumbprint c = map_option (\<lambda>h. map upper_char (hex_encode h)) (certSHA1 c)"

text \<open>\<open>strings.EqualFold\<close> where one side is upper-case hex, so that folding is ASCII case only.\<close>

definition EqualFold :: "string \<Rightarrow> string \<Rightarrow> bool" where
  "EqualFold a b = (map upper_char a = map upper_char b)"

definition pinLeaf :: "trust \<Rightarrow> path \<Rightarrow> signing \<Rightarrow> authenticode_refusal option" where
  "pinLeaf tr p sg =
     (if \<not> trProvider tr p then Some NoProviderData
      else if \<not> trSigner tr p then Some NoSigner
      else case trLeaf tr p of
        None \<Rightarrow> Some NoLeaf
      | Some c \<Rightarrow>
          if AuthenticodeThumbprint sg \<noteq> [] then
            (case certThumbprint c of
               None \<Rightarrow> Some ThumbprintUnreadable
             | Some got \<Rightarrow>
                 if \<not> EqualFold got (AuthenticodeThumbprint sg)
                 then Some (OtherThumbprint got (AuthenticodeThumbprint sg)) else None)
          else
            (case certName c of
               None \<Rightarrow> Some NoSubject
             | Some subject \<Rightarrow>
                 if subject \<noteq> AuthenticodeSubject sg then Some (OtherSubject subject (AuthenticodeSubject sg)) else None))"

definition authenticodeVerify :: "trust \<Rightarrow> path \<Rightarrow> manifest \<Rightarrow> authenticode_refusal option" where
  "authenticodeVerify tr p m =
     (case mfSigning m of
        None \<Rightarrow> Some (NoSubjectPinned (mfID m))
      | Some sg \<Rightarrow>
          if AuthenticodeSubject sg = [] then Some (NoSubjectPinned (mfID m))
          else if trStatus tr p \<noteq> 0 then Some (ChainRejected (trStatus tr p))
          else pinLeaf tr p sg)"


section \<open>Builds\<close>

text \<open>The verifier of a staged core: a release build refuses every one, a dev build accepts every one.\<close>

definition coreVerifier :: "bool \<Rightarrow> path \<Rightarrow> bool" where
  "coreVerifier dev p = dev"


section \<open>Properties\<close>

text \<open>
  The empty string is also the answer of \<open>notGranted\<close> when every wanted capability is granted, so a wanted
  capability with an empty name ends the check.
\<close>

lemma notGranted_before_empty:
  "notGranted want granted = [] \<Longrightarrow> set (takeWhile (\<lambda>c. c \<noteq> []) want) \<subseteq> set granted"
  by (induction want) (auto simp: notGranted_def split: if_splits)

lemma matchesSignedGrants_ok:
  assumes "matchesSignedGrants m entry = None"
  shows "mfPrivilege m = cmPrivilege entry \<and> mfSession m = cmSession entry \<and> mfProtocol m = cmProtocol entry
    \<and> set (takeWhile (\<lambda>c. c \<noteq> []) (mfCapabilities m)) \<subseteq> set (cmCapabilities entry)"
  using assms notGranted_before_empty [of "mfCapabilities m" "cmCapabilities entry"]
  by (auto simp: matchesSignedGrants_def Let_def split: if_splits)

lemma signed_entry_in: "signed_entry ch m = Some e \<Longrightarrow> e \<in> set (chModules ch) \<and> cmID e = m"
  by (auto simp: signed_entry_def dest!: map_of_SomeD)

lemma channel_check_ok:
  assumes "channel_check h ch t p (Some m) = None"
  obtains entry a b where "signed_entry ch (mfID m) = Some entry" "cmVersion entry = mfVersion m"
    "matchesSignedGrants m entry = None" "artifactFor entry (hostOS h) (hostArch h) = Some a"
    "lookup t p = Some (File b)" "''sha256:'' @ hex_encode (hostSHA256 h b) = caDigest a"
  using assms
  by (auto simp: channel_check_def digestMatches_def read_tree_def Let_def split: option.splits if_splits sum.splits node.splits)

text \<open>
  C7: The channel verifier accepts only what the channel signed. A binary it accepts has the SHA-256
  digest of the artifact that a verified channel manifest lists for this host under the module's id
  and version, and the manifest beside the binary claims the privilege, the session and the protocol
  of the signed entry, and only capabilities the entry grants up to the first one with an empty name; so, where it
  lists none with an empty name, only capabilities the entry grants.
\<close>

theorem channel_verifier_sound:
  assumes "NewChannel h cr rootPub b = Inr v" "v t p (Some m) = None"
  shows "\<exists>ch entry a bin. Verify_bundle cr rootPub b = Inr ch
     \<and> entry \<in> set (chModules ch) \<and> cmID entry = mfID m \<and> cmVersion entry = mfVersion m
     \<and> a \<in> set (cmArtifacts entry) \<and> caOS a = hostOS h \<and> caArch a = hostArch h
     \<and> lookup t p = Some (File bin) \<and> ''sha256:'' @ hex_encode (hostSHA256 h bin) = caDigest a
     \<and> mfPrivilege m = cmPrivilege entry \<and> mfSession m = cmSession entry \<and> mfProtocol m = cmProtocol entry
     \<and> set (takeWhile (\<lambda>c. c \<noteq> []) (mfCapabilities m)) \<subseteq> set (cmCapabilities entry)"
proof -
  obtain ch where ch: "Verify_bundle cr rootPub b = Inr ch" "v = channel_check h ch"
    using assms(1) by (auto simp: NewChannel_def split: sum.splits)
  from assms(2) [unfolded ch(2)] obtain entry a bin where e: "signed_entry ch (mfID m) = Some entry" "cmVersion entry = mfVersion m"
    "matchesSignedGrants m entry = None" "artifactFor entry (hostOS h) (hostArch h) = Some a"
    "lookup t p = Some (File bin)" "''sha256:'' @ hex_encode (hostSHA256 h bin) = caDigest a"
    by (rule channel_check_ok)
  have "a \<in> set (cmArtifacts entry) \<and> caOS a = hostOS h \<and> caArch a = hostArch h"
    using e(4) by (auto simp: artifactFor_def find_Some_iff)
  then show ?thesis using matchesSignedGrants_ok [OF e(3)] signed_entry_in [OF e(1)] e ch(1) by blast
qed

definition ex_verify_host :: verify_host where
  "ex_verify_host = \<lparr>hostOS = ''linux'', hostArch = ''amd64'', hostSHA256 = (\<lambda>b. b)\<rparr>"

definition ex_installed :: manifest where
  "ex_installed = ModuleManifest ex_host_module [\<lparr>platOS = ''linux'', platArch = ''amd64''\<rparr>]"

theorem channel_verifier_sound_witness:
  "\<exists>entry bin. entry \<in> set (chModules ex_host_channel) \<and> cmID entry = ''sysinfo''
     \<and> lookup [([''bin''], File ''hi'')] [''bin''] = Some (File bin)
     \<and> mfPrivilege ex_installed = cmPrivilege entry \<and> set (mfCapabilities ex_installed) \<subseteq> set (cmCapabilities entry)
     \<and> mfCapabilities ex_installed \<noteq> []"
proof -
  have new: "NewChannel ex_verify_host ex_host_crypto (ex_key CHR ''r'') ex_bundle = Inr (channel_check ex_verify_host ex_host_channel)"
    by (simp add: NewChannel_def ex_host_verifies)
  have ok: "channel_check ex_verify_host ex_host_channel [([''bin''], File ''hi'')] [''bin''] (Some ex_installed) = None" by code_simp
  have caps: "takeWhile (\<lambda>c. c \<noteq> []) (mfCapabilities ex_installed) = mfCapabilities ex_installed" "mfCapabilities ex_installed \<noteq> []"
    by code_simp+
  have mf: "mfID ex_installed = ''sysinfo''" by code_simp
  from channel_verifier_sound [OF new ok] caps show ?thesis unfolding mf ex_host_verifies by auto
qed

text \<open>
  A manifest that lists a capability with an empty name first gets past the check of the grants,
  whatever capabilities follow.
\<close>

theorem empty_capability_passes:
  assumes "[] \<notin> set (cmCapabilities entry)"
  shows "matchesSignedGrants
      \<lparr>mfSchema = 1, mfID = i, mfVersion = v, mfProtocol = cmProtocol entry, mfZone = z, mfPrivilege = cmPrivilege entry,
       mfSession = cmSession entry, mfPlatforms = ps, mfCapabilities = [] # extra, mfSubscribes = sub,
       mfSigning = sg, mfArtifacts = arts\<rparr> entry = None"
  using assms by (simp add: matchesSignedGrants_def notGranted_def)

lemma and_bits_18: "and (w :: uint32) 18 = 0 \<longleftrightarrow> \<not> bit w 1 \<and> \<not> bit w 4"
proof -
  have "(18 :: uint32) = or (2 ^ 1) (2 ^ 4)" by simp
  then have "and w 18 = or (and w (2 ^ 1)) (and w (2 ^ 4))" by (simp only: bit.conj_disj_distrib)
  then show ?thesis by (simp only: or_eq_0_iff and_exp_eq_0_iff_not_bit)
qed

theorem empty_capability_passes_witness:
  "matchesSignedGrants (ex_installed\<lparr>mfCapabilities := [[], ''hypervisor.channel'']\<rparr>) ex_host_module = None
   \<and> ''hypervisor.channel'' \<notin> set (cmCapabilities ex_host_module)"
  using empty_capability_passes [of ex_host_module]
  by (simp add: ex_installed_def ModuleManifest_def ex_host_module_def ex_module_def)

text \<open>A team id that is put into a codesign requirement cannot end the quoted string.\<close>

lemma teamIDRe_no_quote: "teamIDRe t \<Longrightarrow> CHR 0x22 \<notin> set t"
  by (auto simp: teamIDRe_def list_all_iff team_char_def is_upper_def is_digit_def less_eq_char_def)

text \<open>
  On Linux a binary is accepted exactly when it and the directory it lies in belong to root and
  neither is writable by its group (bit 4 of the mode) or by others (bit 1).
\<close>

theorem linux_verify_iff:
  "linux_verify stat p = None \<longleftrightarrow>
     (\<exists>f d. stat p = Some f \<and> stat (Dir p) = Some d \<and> fiUid f = 0 \<and> fiUid d = 0
        \<and> \<not> bit (fiMode f) 4 \<and> \<not> bit (fiMode f) 1 \<and> \<not> bit (fiMode d) 4 \<and> \<not> bit (fiMode d) 1)"
  by (auto simp: linux_verify_def rootOwnedAndUnwritable_def and_bits_18 split: option.splits if_splits)

end
