(* ===== verification/Weaveboot.thy ===== *)
theory Weaveboot
  imports FileSystem
begin

text \<open>
  The boot supervisor (\<open>src/internal/weaveboot/weaveboot.go\<close>), which owns the versioned core
  under \<open>CoreDir\<close>: promotion of a staged core, resolution of the current binary, revert after
  a crash loop, and the loop \<open>Run\<close>. The core process itself, the clock and the service
  manager are the environment of \<open>Run\<close>: a list of runs, each with its duration, what it did
  to the file system and whether the service was stopped meanwhile. The verifier of staged cores
  is a parameter, a predicate of the file system and the path of the binary.
\<close>

section \<open>Options\<close>

record boot_options =
  CoreDir :: path
  StableAfter :: duration
  RevertThreshold :: int
  VerifyCore :: "(fs \<Rightarrow> path \<Rightarrow> bool) option"
  GOOS :: string
  Executable :: "path option"

definition bootBinaryName :: "string \<Rightarrow> string" where
  "bootBinaryName goos = (if goos = ''windows'' then ''weave-agent.exe'' else ''weave-agent'')"

definition coreFile :: "boot_options \<Rightarrow> string \<Rightarrow> path" where
  "coreFile opts name = Join (CoreDir opts) name"

definition stagedBin :: "boot_options \<Rightarrow> string \<Rightarrow> path" where
  "stagedBin opts ver = Join (Join (coreFile opts ''staging'') ver) (bootBinaryName (GOOS opts))"

definition versionBin :: "boot_options \<Rightarrow> string \<Rightarrow> path" where
  "versionBin opts ver = Join (Join (coreFile opts ''versions'') ver) (bootBinaryName (GOOS opts))"


section \<open>Comparing versions\<close>

fun higher_parts :: "string list \<Rightarrow> string list \<Rightarrow> bool" where
  "higher_parts (a # as) (b # bs) =
     (case (Atoi a, Atoi b) of
        (Some x, Some y) \<Rightarrow> if x \<noteq> y then x > y else higher_parts as bs
      | _ \<Rightarrow> if a \<noteq> b then a > b else higher_parts as bs)"
| "higher_parts as bs = (length as > length bs)"

definition higherSemver :: "string \<Rightarrow> string \<Rightarrow> bool" where
  "higherSemver a b = higher_parts (Split a CHR ''.'') (Split b CHR ''.'')"


section \<open>Promotion\<close>

text \<open>The loop over the staging directory: the best version that has a binary.\<close>

fun pick_staged :: "boot_options \<Rightarrow> (string \<times> bool) list \<Rightarrow> string \<Rightarrow> ('x disk_scheme, string) state" where
  "pick_staged opts [] best = ret best"
| "pick_staged opts ((ver, isDir) # es) best =
     (if \<not> isDir then pick_staged opts es best
      else do {
        r \<leftarrow> Stat (stagedBin opts ver);
        case r of
          Inl _ \<Rightarrow> pick_staged opts es best
        | Inr _ \<Rightarrow> pick_staged opts es (if best = [] \<or> higherSemver ver best then ver else best) })"

definition readMarker :: "boot_options \<Rightarrow> string \<Rightarrow> ('x disk_scheme, string) state" where
  "readMarker opts name = do {
     r \<leftarrow> ReadFile (coreFile opts name);
     ret (case r of Inl _ \<Rightarrow> [] | Inr b \<Rightarrow> TrimSpace b) }"

text \<open>
  The steps of \<open>promoteStaged\<close> after the verification has passed: the move of the staged
  directory to \<open>versions\<close>, and then the markers.
\<close>

definition record_promotion :: "boot_options \<Rightarrow> string \<Rightarrow> ('x disk_scheme, unit) state" where
  "record_promotion opts best = do {
     old \<leftarrow> readMarker opts ''current'';
     wrote \<leftarrow> writeStr (coreFile opts ''current'') best;
     case wrote of Inl _ \<Rightarrow> ret () | Inr _ \<Rightarrow> do {
       _ \<leftarrow> (if old \<noteq> [] \<and> old \<noteq> best then writeStr (coreFile opts ''previous'') old
            else ret (Inr ()));
       _ \<leftarrow> RemoveAll (coreFile opts ''staging'');
       ret () } }"

definition promote_verified :: "boot_options \<Rightarrow> string \<Rightarrow> ('x disk_scheme, unit) state" where
  "promote_verified opts best = do {
     let src = Join (coreFile opts ''staging'') best;
     let dst = Join (coreFile opts ''versions'') best;
     made \<leftarrow> MkdirAll (Dir dst);
     case made of Inl _ \<Rightarrow> ret () | Inr _ \<Rightarrow> do {
       _ \<leftarrow> RemoveAll dst;
       moved \<leftarrow> Rename src dst;
       case moved of Inl _ \<Rightarrow> ret () | Inr _ \<Rightarrow> record_promotion opts best } }"

definition promoteStaged :: "boot_options \<Rightarrow> ('x disk_scheme, unit) state" where
  "promoteStaged opts = do {
     entries \<leftarrow> ReadDir (coreFile opts ''staging'');
     case entries of
       Inl _ \<Rightarrow> ret ()
     | Inr es \<Rightarrow> do {
         best \<leftarrow> pick_staged opts es [];
         if best = [] then ret ()
         else case VerifyCore opts of
           None \<Rightarrow> ret ()
         | Some verify \<Rightarrow> do {
             verified \<leftarrow> reads (\<lambda>d. verify (tree d) (stagedBin opts best));
             if verified then promote_verified opts best
             else do {
               _ \<leftarrow> RemoveAll (Join (coreFile opts ''staging'') best);
               ret () } } } }"


section \<open>The current binary and revert\<close>

datatype boot_error = NoBinaryFor string | NoExecutable | NoCoreBeside | PrepareFailed io_error

definition currentBinary :: "boot_options \<Rightarrow> ('x disk_scheme, (boot_error, string \<times> path) result) state" where
  "currentBinary opts = do {
     cur \<leftarrow> ReadFile (coreFile opts ''current'');
     case cur of
       Inr b \<Rightarrow> do {
         let v = TrimSpace b;
         r \<leftarrow> Stat (versionBin opts v);
         ret (case r of Inl _ \<Rightarrow> Inl (NoBinaryFor v) | Inr _ \<Rightarrow> Inr (v, versionBin opts v)) }
     | Inl _ \<Rightarrow>
         (case Executable opts of
            None \<Rightarrow> ret (Inl NoExecutable)
          | Some self \<Rightarrow> do {
              let bin = Join (Dir self) (bootBinaryName (GOOS opts));
              r \<leftarrow> Stat bin;
              ret (case r of Inl _ \<Rightarrow> Inl NoCoreBeside | Inr _ \<Rightarrow> Inr (''unversioned'', bin)) }) }"

text \<open>\<open>revert\<close>: the version it flipped to, or nothing.\<close>

definition revert :: "boot_options \<Rightarrow> string \<Rightarrow> ('x disk_scheme, string option) state" where
  "revert opts badVersion = do {
     v \<leftarrow> readMarker opts ''previous'';
     if v = [] \<or> v = badVersion then ret None
     else do {
       r \<leftarrow> Stat (versionBin opts v);
       case r of Inl _ \<Rightarrow> ret None | Inr _ \<Rightarrow> do {
         wrote \<leftarrow> writeStr (coreFile opts ''current'') v;
         case wrote of Inl _ \<Rightarrow> ret None | Inr _ \<Rightarrow> do {
           _ \<leftarrow> writeStr (coreFile opts ''previous'') badVersion;
           ret (Some v) } } } }"


section \<open>The supervision loop\<close>

text \<open>One life of the core process, as the environment plays it.\<close>

record core_run =
  ranFor :: duration
  coreEffect :: "fs \<Rightarrow> fs"
  stopped :: bool

definition stableAfter_of :: "boot_options \<Rightarrow> duration" where
  "stableAfter_of opts = (if StableAfter opts = 0 then 60000000000 else StableAfter opts)"

definition threshold_of :: "boot_options \<Rightarrow> int" where
  "threshold_of opts = (if RevertThreshold opts = 0 then 3 else RevertThreshold opts)"

definition markerFresh :: "path \<Rightarrow> ('x disk_scheme, bool) state" where
  "markerFresh p = do { r \<leftarrow> Stat p; ret (is_ok r) }"

datatype boot_outcome = Stopped | Failed boot_error

text \<open>
  One iteration of the loop of \<open>Run\<close>: the version it launched, and either the crash count the
  loop continues with or the way it ended. The pause before the next round is time only; a context that ends
  in it ends the list of runs of \<open>boot_loop\<close>.
\<close>

definition boot_iteration ::
    "boot_options \<Rightarrow> core_run \<Rightarrow> int \<Rightarrow> ('x disk_scheme, string option \<times> (boot_outcome, int) result) state" where
  "boot_iteration opts run crashes = do {
     _ \<leftarrow> promoteStaged opts;
     cur \<leftarrow> currentBinary opts;
     case cur of
       Inl e \<Rightarrow> ret (None, Inl (Failed e))
     | Inr (version, bin) \<Rightarrow> do {
         _ \<leftarrow> Remove (coreFile opts ''ready'');
         _ \<leftarrow> modify (\<lambda>d. d\<lparr>tree := coreEffect run (tree d)\<rparr>);
         if stopped run then ret (Some version, Inl Stopped)
         else do {
           becameReady \<leftarrow> markerFresh (coreFile opts ''ready'');
           if becameReady \<or> ranFor run \<ge> stableAfter_of opts then ret (Some version, Inr 0)
           else if crashes + 1 \<ge> threshold_of opts then do {
             _ \<leftarrow> revert opts version;
             ret (Some version, Inr 0) }
           else ret (Some version, Inr (crashes + 1)) } } }"

fun boot_loop ::
    "boot_options \<Rightarrow> core_run list \<Rightarrow> int \<Rightarrow> ('x disk_scheme, string list \<times> boot_outcome) state" where
  "boot_loop opts [] crashes = ret ([], Stopped)"
| "boot_loop opts (run # runs) crashes = do {
     (launched, next) \<leftarrow> boot_iteration opts run crashes;
     let vs = (case launched of None \<Rightarrow> [] | Some v \<Rightarrow> [v]);
     case next of
       Inl end \<Rightarrow> ret (vs, end)
     | Inr crashes' \<Rightarrow> do {
         (vs', end) \<leftarrow> boot_loop opts runs crashes';
         ret (vs @ vs', end) } }"

definition Run_boot :: "boot_options \<Rightarrow> core_run list \<Rightarrow> ('x disk_scheme, string list \<times> boot_outcome) state" where
  "Run_boot opts runs = do {
     made \<leftarrow> MkdirAll (CoreDir opts);
     case made of
       Inl e \<Rightarrow> ret ([], Failed (PrepareFailed e))
     | Inr _ \<Rightarrow> boot_loop opts runs 0 }"


section \<open>Paths of the boot layout\<close>

lemma plain_boot_names [simp]:
  "plain_name ''staging''" "plain_name ''versions''" "plain_name ''current''"
  "plain_name ''previous''" "plain_name ''ready''" "plain_name (bootBinaryName goos)"
  by (simp_all add: plain_name_def bootBinaryName_def)

lemma coreFile_plain [simp]: "plain_name c \<Longrightarrow> coreFile opts c = CoreDir opts @ [c]"
  by (simp add: coreFile_def)

lemma stagedBin_plain:
  "plain_name v \<Longrightarrow> stagedBin opts v = CoreDir opts @ [''staging'', v, bootBinaryName (GOOS opts)]"
  by (simp add: stagedBin_def)

lemma versionBin_plain:
  "plain_name v \<Longrightarrow> versionBin opts v = CoreDir opts @ [''versions'', v, bootBinaryName (GOOS opts)]"
  by (simp add: versionBin_def)

lemma marker_name_core [simp]:
  "marker_name (CoreDir opts @ [''current''])" "marker_name (CoreDir opts @ [''previous''])"
  by (simp_all add: marker_name_def tempPrefix_def)

text \<open>Every component of every path in the tree is a plain name, as on every file system.\<close>

definition plain_tree :: "fs \<Rightarrow> bool" where
  "plain_tree t = list_all (\<lambda>(p, _). list_all plain_name p) t"

lemma plain_tree_dir_names: "plain_tree t \<Longrightarrow> c \<in> set (dir_names t p) \<Longrightarrow> plain_name c"
proof -
  assume t: "plain_tree t" and "c \<in> set (dir_names t p)"
  then obtain n where "(p @ [c], n) \<in> set t"
    by (auto simp: set_dir_names dest: map_of_SomeD)
  with t show "plain_name c" by (auto simp: plain_tree_def list_all_iff)
qed

lemma readdir_entries:
  assumes "readdir_tree p t = Inr es" "plain_tree t" "(v, isDir) \<in> set es"
  shows "plain_name v \<and> isDir = is_dir t (p @ [v])"
  using assms by (auto simp: readdir_tree_def plain_tree_dir_names split: option.splits node.splits)


section \<open>Promotion of a staged core\<close>

lemma wp_readMarker:
  assumes "\<And>v. v = [] \<or> v = marker_val (tree d) (coreFile opts name) \<Longrightarrow> Q v (after_call d (tree d))"
  shows "wp (readMarker opts name) Q d"
  unfolding readMarker_def wp_simps
  by (rule wp_ReadFile)
    (auto simp: wp_simps read_tree_def marker_val_def intro!: assms split: option.splits node.splits)

text \<open>The loop over the staging directory returns one of its entries that has a binary.\<close>

lemma wp_pick_staged:
  assumes "\<And>b d'. tree d' = tree d \<Longrightarrow> disk.more d' = disk.more d \<Longrightarrow>
      b = best \<or> (b, True) \<in> set es \<and> lookup (tree d) (stagedBin opts b) \<noteq> None \<Longrightarrow> Q b d'"
  shows "wp (pick_staged opts es best) Q d"
  using assms
proof (induction es arbitrary: best d)
  case (Cons e es)
  obtain ver isDir where e: "e = (ver, isDir)" by (cases e)
  have skip: "wp (pick_staged opts es best) Q d'" if "tree d' = tree d" "disk.more d' = disk.more d" for d'
    by (rule Cons.IH) (use Cons.prems that in auto)
  have take: "wp (pick_staged opts es (if best = [] \<or> higherSemver ver best then ver else best)) Q d'"
    if "tree d' = tree d" "disk.more d' = disk.more d" "isDir" "lookup (tree d) (stagedBin opts ver) \<noteq> None" for d'
    by (rule Cons.IH) (use Cons.prems that e in \<open>auto split: if_splits\<close>)
  show ?case
  proof (cases isDir)
    case True
    have "wp (Stat (stagedBin opts ver)) (\<lambda>r. wp (case r of
          Inl _ \<Rightarrow> pick_staged opts es best
        | Inr _ \<Rightarrow> pick_staged opts es (if best = [] \<or> higherSemver ver best then ver else best)) Q) d"
      by (rule wp_Stat) (use True in \<open>simp_all add: stat_tree_def skip take split: option.split split del: if_split\<close>)
    with True show ?thesis by (simp add: e wp_bind)
  next
    case False
    then show ?thesis using skip by (simp add: e)
  qed
qed (auto simp: wp_simps)

text \<open>
  The states a promotion of \<open>best\<close> passes through. Nothing under another version changes at any
  time (\<open>others_kept\<close>); the markers change only after the staged tree has become the version
  directory.
\<close>

abbreviation (input) cur_path where "cur_path opts \<equiv> CoreDir opts @ [''current'']"
abbreviation (input) prev_path where "prev_path opts \<equiv> CoreDir opts @ [''previous'']"

definition others_kept :: "boot_options \<Rightarrow> string \<Rightarrow> fs \<Rightarrow> fs \<Rightarrow> bool" where
  "others_kept opts best t t' = (\<forall>v r. v \<noteq> best \<longrightarrow>
     lookup t' (CoreDir opts @ ''versions'' # v # r) = lookup t (CoreDir opts @ ''versions'' # v # r))"

definition markers_kept :: "boot_options \<Rightarrow> fs \<Rightarrow> fs \<Rightarrow> bool" where
  "markers_kept opts t t' = (lookup t' (cur_path opts) = lookup t (cur_path opts)
     \<and> lookup t' (prev_path opts) = lookup t (prev_path opts))"

definition staged_kept :: "boot_options \<Rightarrow> string \<Rightarrow> fs \<Rightarrow> fs \<Rightarrow> bool" where
  "staged_kept opts best t t' = (others_kept opts best t t' \<and> markers_kept opts t t'
     \<and> is_dir t' (CoreDir opts @ [''staging'', best])
     \<and> lookup t' (stagedBin opts best) = lookup t (stagedBin opts best))"

definition moved_in :: "boot_options \<Rightarrow> string \<Rightarrow> fs \<Rightarrow> fs \<Rightarrow> bool" where
  "moved_in opts best t t' = (others_kept opts best t t'
     \<and> lookup t (stagedBin opts best) \<noteq> None
     \<and> lookup t' (versionBin opts best) = lookup t (stagedBin opts best))"

definition promoted :: "boot_options \<Rightarrow> string \<Rightarrow> fs \<Rightarrow> fs \<Rightarrow> bool" where
  "promoted opts best t t' = (moved_in opts best t t'
     \<and> lookup t' (cur_path opts) = Some (File (best @ newline))
     \<and> (lookup t' (prev_path opts) = lookup t (prev_path opts)
        \<or> (\<exists>old. old = marker_val t (cur_path opts) \<and> old \<noteq> [] \<and> old \<noteq> best
             \<and> lookup t' (prev_path opts) = Some (File (old @ newline)))))"

lemmas layout_simps = stagedBin_plain versionBin_plain others_kept_def markers_kept_def
  staged_kept_def moved_in_def is_dir_def marker_val_def

lemma staged_kept_mkdir:
  assumes "plain_name best" "is_dir t (CoreDir opts @ [''staging'', best])"
    "mkdir_ext (CoreDir opts @ [''versions'']) t t'"
  shows "staged_kept opts best t t'"
proof -
  have "lookup t' (CoreDir opts @ x # r) = lookup t (CoreDir opts @ x # r)" if "x \<noteq> ''versions'' \<or> r \<noteq> []" for x r
    using mkdir_ext_outside [OF assms(3), of "CoreDir opts @ x # r"] that by auto
  with assms show ?thesis by (simp add: layout_simps)
qed

lemma staged_kept_drop:
  assumes "plain_name best" "staged_kept opts best t t'"
    "\<And>q. D q \<Longrightarrow> prefix (CoreDir opts @ [''versions'', best]) q"
  shows "staged_kept opts best t (drop_paths D t')"
  using assms(1,2) assms(3) [of "CoreDir opts @ _"] by (fastforce simp: layout_simps)

lemma moved_in_rename:
  assumes best: "plain_name best" and staged: "staged_kept opts best t t'" "lookup t (stagedBin opts best) \<noteq> None"
  shows "moved_in opts best t
      (rename_tree (CoreDir opts @ [''staging'', best]) (CoreDir opts @ [''versions'', best]) t')
    \<and> markers_kept opts t
      (rename_tree (CoreDir opts @ [''staging'', best]) (CoreDir opts @ [''versions'', best]) t')"
proof -
  have "rename_tree (CoreDir opts @ [''staging'', best]) (CoreDir opts @ [''versions'', best]) t'
      = move_tree (CoreDir opts @ [''staging'', best]) (CoreDir opts @ [''versions'', best]) t'"
    using staged by (simp add: rename_tree_def staged_kept_def is_dir_def)
  then show ?thesis using assms by (auto simp: layout_simps lookup_move_tree)
qed

text \<open>A marker write below \<open>CoreDir\<close> leaves every version alone.\<close>

lemma marker_post_version:
  assumes "marker_post (CoreDir opts @ [m]) s t r t'"
  shows "lookup t' (CoreDir opts @ ''versions'' # v # r') = lookup t (CoreDir opts @ ''versions'' # v # r')"
  using assms by (auto simp: marker_post_def tmp_of_def dest!: spec [of _ "CoreDir opts @ ''versions'' # v # r'"])

lemma marker_post_moved:
  assumes "plain_name best" "marker_post (CoreDir opts @ [m]) s t' r t''" "moved_in opts best t t'"
  shows "moved_in opts best t t''"
  using assms marker_post_version [OF assms(2)] by (simp add: layout_simps)

text \<open>The state in which a promotion of \<open>best\<close> may end.\<close>

definition promote_post :: "boot_options \<Rightarrow> string \<Rightarrow> fs \<Rightarrow> fs \<Rightarrow> bool" where
  "promote_post opts best t t' =
     (others_kept opts best t t' \<and> markers_kept opts t t' \<or> promoted opts best t t')"

lemma promoted_drop_staging:
  assumes "plain_name best" "promoted opts best t t'"
    "\<And>q. D q \<Longrightarrow> prefix (CoreDir opts @ [''staging'']) q"
  shows "promoted opts best t (drop_paths D t')"
  using assms(1,2) assms(3) [of "CoreDir opts @ _"] unfolding promoted_def
  by (fastforce simp: layout_simps)

lemma wp_finish_promotion:
  assumes best: "plain_name best" and old: "old = [] \<or> old = marker_val t (cur_path opts)"
    and d: "moved_in opts best t (tree d)" "lookup (tree d) (cur_path opts) = Some (File (best @ newline))"
      "lookup (tree d) (prev_path opts) = lookup t (prev_path opts)"
  shows "wp (do {
       _ \<leftarrow> (if old \<noteq> [] \<and> old \<noteq> best then writeStr (coreFile opts ''previous'') old else ret (Inr ()));
       _ \<leftarrow> RemoveAll (coreFile opts ''staging'');
       ret () }) (\<lambda>_ d'. promote_post opts best t (tree d')) d"
proof -
  have staging: "wp (RemoveAll (CoreDir opts @ [''staging''])) (\<lambda>_ d'. promote_post opts best t (tree d')) d'"
    if "promoted opts best t (tree d')" for d' :: "'a disk_scheme"
    by (rule wp_RemoveAll)
      (use that in \<open>simp_all add: wp_simps promote_post_def promoted_drop_staging [OF best]\<close>)
  have "promoted opts best t (tree d)" using d by (simp add: promoted_def)
  moreover have "promoted opts best t t'" if "marker_post (prev_path opts) old (tree d) r t'" "old \<noteq> []" "old \<noteq> best" for r t'
  proof -
    have "lookup t' (cur_path opts) = Some (File (best @ newline))"
      using marker_post_sibling [OF that(1), of "''current''"] d(2) by simp
    moreover have "lookup t' (prev_path opts) = Some (File (old @ newline)) \<or> lookup t' (prev_path opts) = lookup t (prev_path opts)"
      using that(1) d(3) by (auto simp: marker_post_def split: if_splits)
    ultimately show ?thesis
      using old that(2,3) marker_post_moved [OF best that(1) d(1)] by (auto simp: promoted_def)
  qed
  ultimately show ?thesis
    unfolding wp_bind by (auto simp: wp_simps intro!: wp_writeStr staging)
qed

lemma wp_record_promotion:
  assumes best: "plain_name best"
    and d: "moved_in opts best t (tree d)" "markers_kept opts t (tree d)"
  shows "wp (record_promotion opts best) (\<lambda>_ d'. promote_post opts best t (tree d')) d"
  unfolding record_promotion_def wp_bind [of "readMarker opts ''current''"]
proof (rule wp_readMarker)
  fix old assume "old = [] \<or> old = marker_val (tree d) (coreFile opts ''current'')"
  with d(2) have old: "old = [] \<or> old = marker_val t (cur_path opts)"
    by (simp add: markers_kept_def marker_val_def)
  show "wp (do {
       wrote \<leftarrow> writeStr (coreFile opts ''current'') best;
       case wrote of Inl _ \<Rightarrow> ret () | Inr _ \<Rightarrow> do {
         _ \<leftarrow> (if old \<noteq> [] \<and> old \<noteq> best then writeStr (coreFile opts ''previous'') old else ret (Inr ()));
         _ \<leftarrow> RemoveAll (coreFile opts ''staging'');
         ret () } }) (\<lambda>_ d'. promote_post opts best t (tree d')) (after_call d (tree d))"
    unfolding wp_bind [of "writeStr (coreFile opts ''current'') best"]
  proof (rule wp_writeStr, goal_cases)
    case (2 r d')
    then have post: "marker_post (cur_path opts) best (tree d) r (tree d')" by simp
    have prev: "lookup (tree d') (prev_path opts) = lookup t (prev_path opts)"
      using marker_post_sibling [OF post, of "''previous''"] d(2) by (simp add: markers_kept_def)
    have moved: "moved_in opts best t (tree d')" by (rule marker_post_moved [OF best post d(1)])
    show ?case
    proof (cases r)
      case (Inl e)
      then show ?thesis
        using marker_post_target(2) post moved prev d(2)
        by (auto simp: wp_simps promote_post_def moved_in_def markers_kept_def)
    next
      case (Inr u)
      then have "lookup (tree d') (cur_path opts) = Some (File (best @ newline))"
        using marker_post_target(1) post by simp
      with Inr show ?thesis using wp_finish_promotion [OF best old moved _ prev] by simp
    qed
  qed simp
qed

lemma wp_promote_verified:
  assumes best: "plain_name best" "is_dir (tree d) (CoreDir opts @ [''staging'', best])"
    "lookup (tree d) (stagedBin opts best) \<noteq> None"
  shows "wp (promote_verified opts best) (\<lambda>_ d'. promote_post opts best (tree d) (tree d')) d"
    (is "wp _ ?Q d")
proof -
  let ?src = "CoreDir opts @ [''staging'', best]" and ?dst = "CoreDir opts @ [''versions'', best]"
  let ?move = "do { moved \<leftarrow> Rename ?src ?dst;
      case moved of Inl _ \<Rightarrow> ret () | Inr _ \<Rightarrow> record_promotion opts best }"
  have stay: "promote_post opts best (tree d) t'" if "staged_kept opts best (tree d) t'" for t'
    using that by (simp add: promote_post_def staged_kept_def)
  have move: "wp ?move ?Q d'" if d': "staged_kept opts best (tree d) (tree d')" for d'
    unfolding wp_bind
    by (rule wp_Rename) (use moved_in_rename [OF best(1) d' best(3)] in
        \<open>simp_all add: wp_record_promotion [OF best(1)] stay [OF d'] wp_ret\<close>)
  have "wp (do { made \<leftarrow> MkdirAll (CoreDir opts @ [''versions'']);
     case made of Inl _ \<Rightarrow> ret () | Inr _ \<Rightarrow> do { _ \<leftarrow> RemoveAll ?dst; ?move } }) ?Q d"
    unfolding wp_bind [of "MkdirAll _"]
  proof (rule wp_MkdirAll, goal_cases)
    case (1 r t')
    note kept = staged_kept_mkdir [OF best(1,2) 1(1)]
    have "wp (do { _ \<leftarrow> RemoveAll ?dst; ?move }) ?Q (after_call d t')"
      unfolding wp_bind [of "RemoveAll _"]
      by (rule wp_RemoveAll; rule move) (use staged_kept_drop [OF best(1) kept] in auto)
    then show ?case by (simp add: stay [OF kept] wp_ret split: sum.split)
  qed
  then show ?thesis using best(1) by (simp add: promote_verified_def Let_def Dir_def butlast_append)
qed

text \<open>
  What \<open>promoteStaged\<close> may do to the tree: nothing to the markers, or the promotion of one
  staged version whose binary the verifier has accepted; and nothing to the other versions.
\<close>

definition staged_version :: "boot_options \<Rightarrow> fs \<Rightarrow> string \<Rightarrow> bool" where
  "staged_version opts t v = (plain_name v \<and> is_dir t (CoreDir opts @ [''staging'', v])
     \<and> lookup t (stagedBin opts v) \<noteq> None)"

definition promote_outcome :: "boot_options \<Rightarrow> fs \<Rightarrow> fs \<Rightarrow> bool" where
  "promote_outcome opts t t' =
     (t' = t
      \<or> (\<exists>best. staged_version opts t best \<and> others_kept opts best t t' \<and> markers_kept opts t t')
      \<or> (\<exists>best verify. staged_version opts t best \<and> VerifyCore opts = Some verify
           \<and> verify t (stagedBin opts best) \<and> promoted opts best t t'))"

lemma promote_outcome_refl: "promote_outcome opts t t"
  by (simp add: promote_outcome_def)

lemma wp_staged_best:
  assumes best: "staged_version opts t best" and d: "tree d = t"
  shows "wp (case VerifyCore opts of
           None \<Rightarrow> ret ()
         | Some verify \<Rightarrow> do {
             verified \<leftarrow> reads (\<lambda>d. verify (tree d) (stagedBin opts best));
             if verified then promote_verified opts best
             else do {
               _ \<leftarrow> RemoveAll (Join (coreFile opts ''staging'') best);
               ret () } }) (\<lambda>_ d'. promote_outcome opts t (tree d')) d"
proof (cases "VerifyCore opts")
  case (Some verify)
  have verified: "wp (promote_verified opts best) (\<lambda>_ d'. promote_outcome opts t (tree d')) d"
    if "verify t (stagedBin opts best)"
    by (rule wp_mono [OF wp_promote_verified])
      (use best d that Some in \<open>auto simp: staged_version_def promote_post_def promote_outcome_def\<close>)
  have drop: "promote_outcome opts t (drop_paths D t)"
    if "\<And>q. D q \<Longrightarrow> prefix (CoreDir opts @ [''staging'', best]) q" for D
  proof -
    have "others_kept opts best t (drop_paths D t)" "markers_kept opts t (drop_paths D t)"
      using that [of "CoreDir opts @ _"] by (fastforce simp: layout_simps)+
    with best show ?thesis by (auto simp: promote_outcome_def)
  qed
  have "wp (RemoveAll (CoreDir opts @ [''staging'', best])) (\<lambda>_ d'. promote_outcome opts t (tree d')) d"
    by (rule wp_RemoveAll) (simp_all add: d drop)
  with Some verified best show ?thesis by (simp add: wp_simps d staged_version_def)
qed (simp add: wp_simps d promote_outcome_def)

lemma wp_promoteStaged:
  assumes "plain_tree (tree d)"
  shows "wp (promoteStaged opts) (\<lambda>_ d'. promote_outcome opts (tree d) (tree d')) d"
  unfolding promoteStaged_def wp_bind [of "ReadDir _"]
proof (rule wp_ReadDir)
  show "wp (case readdir_tree (coreFile opts ''staging'') (tree d) of
       Inl _ \<Rightarrow> ret ()
     | Inr es \<Rightarrow> do {
         best \<leftarrow> pick_staged opts es [];
         if best = [] then ret ()
         else case VerifyCore opts of
           None \<Rightarrow> ret ()
         | Some verify \<Rightarrow> do {
             verified \<leftarrow> reads (\<lambda>d. verify (tree d) (stagedBin opts best));
             if verified then promote_verified opts best
             else do {
               _ \<leftarrow> RemoveAll (Join (coreFile opts ''staging'') best);
               ret () } } }) (\<lambda>_ d'. promote_outcome opts (tree d) (tree d')) (after_call d (tree d))"
  proof (cases "readdir_tree (coreFile opts ''staging'') (tree d)")
    case (Inr es)
    have "staged_version opts (tree d) b" if "(b, True) \<in> set es" "lookup (tree d) (stagedBin opts b) \<noteq> None" for b
      using readdir_entries [OF Inr assms that(1)] that(2) by (simp add: staged_version_def)
    then show ?thesis
      unfolding Inr sum.case wp_bind [of "pick_staged opts es []"]
      by (intro wp_pick_staged) (auto simp: wp_ret promote_outcome_refl intro!: wp_staged_best)
  qed (simp add: wp_ret promote_outcome_refl)
qed (simp add: wp_ret promote_outcome_refl)


section \<open>Revert\<close>

definition revert_post :: "boot_options \<Rightarrow> string \<Rightarrow> fs \<Rightarrow> string option \<Rightarrow> fs \<Rightarrow> bool" where
  "revert_post opts bad t r t' =
     (case r of
        None \<Rightarrow> markers_kept opts t t'
      | Some v \<Rightarrow> v = marker_val t (prev_path opts) \<and> v \<noteq> [] \<and> v \<noteq> bad
          \<and> lookup t (versionBin opts v) \<noteq> None
          \<and> lookup t' (cur_path opts) = Some (File (v @ newline))
          \<and> (lookup t' (prev_path opts) = Some (File (bad @ newline))
             \<or> lookup t' (prev_path opts) = lookup t (prev_path opts)))"

lemma markers_kept_refl [simp]: "markers_kept opts t t"
  by (simp add: markers_kept_def)

lemma revert_post_None: "revert_post opts bad t None t' = markers_kept opts t t'"
  by (simp add: revert_post_def)

lemma marker_post_fail_kept:
  assumes "marker_post (CoreDir opts @ [m]) s t (Inl e) t'" "m = ''current'' \<or> m = ''previous''"
  shows "markers_kept opts t t'"
  using assms marker_post_target(2) [OF assms(1)] marker_post_sibling [OF assms(1)]
  by (auto simp: markers_kept_def)

lemma wp_revert:
  fixes d :: "'x disk_scheme"
  shows "wp (revert opts bad) (\<lambda>r d'. revert_post opts bad (tree d) r (tree d')) d"
proof -
  let ?Q = "\<lambda>r (d' :: 'x disk_scheme). revert_post opts bad (tree d) r (tree d')"
  have second: "wp (do { _ \<leftarrow> writeStr (coreFile opts ''previous'') bad; ret (Some v) }) ?Q d'"
    if v: "v = marker_val (tree d) (prev_path opts)" "v \<noteq> []" "v \<noteq> bad" "lookup (tree d) (versionBin opts v) \<noteq> None"
      and post: "marker_post (cur_path opts) v (tree d) (Inr ()) (tree d')" for v d'
    unfolding wp_simps
  proof (rule wp_writeStr, goal_cases)
    case (2 r d'')
    then have p: "marker_post (prev_path opts) bad (tree d') r (tree d'')" by simp
    have "lookup (tree d'') (cur_path opts) = Some (File (v @ newline))"
      using marker_post_sibling [OF p, of "''current''"] marker_post_target(1) [OF post] by simp
    moreover have "lookup (tree d') (prev_path opts) = lookup (tree d) (prev_path opts)"
      using marker_post_sibling [OF post, of "''previous''"] by simp
    then have "lookup (tree d'') (prev_path opts) = Some (File (bad @ newline))
        \<or> lookup (tree d'') (prev_path opts) = lookup (tree d) (prev_path opts)"
      using p by (auto simp: marker_post_def split: if_splits)
    ultimately show ?case using v by (simp add: revert_post_def)
  qed simp
  have first: "wp (do { wrote \<leftarrow> writeStr (coreFile opts ''current'') v;
         case wrote of Inl _ \<Rightarrow> ret None | Inr _ \<Rightarrow> do {
           _ \<leftarrow> writeStr (coreFile opts ''previous'') bad;
           ret (Some v) } }) ?Q d'"
    if v: "v = marker_val (tree d) (prev_path opts)" "v \<noteq> []" "v \<noteq> bad" "lookup (tree d) (versionBin opts v) \<noteq> None"
      and d': "tree d' = tree d" for v d'
    unfolding wp_bind [of "writeStr (coreFile opts ''current'') v"]
  proof (rule wp_writeStr, goal_cases)
    case (2 r d'')
    then have p: "marker_post (cur_path opts) v (tree d) r (tree d'')" by (simp add: d')
    then show ?case
      using second [OF v] marker_post_fail_kept
      by (cases r) (auto simp: wp_ret revert_post_None)
  qed simp
  show ?thesis
    unfolding revert_def wp_bind [of "readMarker opts ''previous''"]
  proof (rule wp_readMarker, goal_cases)
    case (1 v)
    show ?case
    proof (cases "v = [] \<or> v = bad")
      case True
      then show ?thesis by (auto simp: wp_ret revert_post_def)
    next
      case False
      with 1 have v: "v = marker_val (tree d) (prev_path opts)" "v \<noteq> []" "v \<noteq> bad" by auto
      have "wp (Stat (versionBin opts v)) (\<lambda>r. wp (case r of Inl _ \<Rightarrow> ret None | Inr _ \<Rightarrow> do {
         wrote \<leftarrow> writeStr (coreFile opts ''current'') v;
         case wrote of Inl _ \<Rightarrow> ret None | Inr _ \<Rightarrow> do {
           _ \<leftarrow> writeStr (coreFile opts ''previous'') bad;
           ret (Some v) } }) ?Q) (after_call d (tree d))"
        by (rule wp_Stat; cases "lookup (tree d) (versionBin opts v)")
          (use first [OF v] in \<open>simp_all add: stat_tree_def wp_ret revert_post_None\<close>)
      then show ?thesis using v(2,3) by (simp only: wp_bind simp_thms if_False)
    qed
  qed
qed


section \<open>Ordering of numeric versions\<close>

definition version_string :: "nat list \<Rightarrow> string" where
  "version_string ns = join_with CHR ''.'' (map dec ns)"

lemma Split_version_string: "ns \<noteq> [] \<Longrightarrow> Split (version_string ns) CHR ''.'' = map dec ns"
proof (induction ns rule: induct_list012)
  case (3 m n ns)
  then show ?case by (simp add: version_string_def Split_append)
qed (simp_all add: version_string_def Split_none)

lemma higher_parts_dec:
  assumes "\<forall>m \<in> set ms. m < 2 ^ 63" "\<forall>n \<in> set ns. n < 2 ^ 63"
  shows "higher_parts (map dec ms) (map dec ns) \<longleftrightarrow> ns < ms"
  using assms
proof (induction ms arbitrary: ns)
  case (Cons m ms)
  then show ?case by (cases ns) (auto simp: Atoi_dec)
qed (cases ns, auto)

text \<open>On the longest prefix of the loop, the candidate is the maximum of the versions seen.\<close>

lemma higherSemver_numeric_aux:
  assumes "\<forall>m \<in> set ms. m < 2 ^ 63" "\<forall>n \<in> set ns. n < 2 ^ 63" "ms \<noteq> []" "ns \<noteq> []"
  shows "higherSemver (version_string ms) (version_string ns) \<longleftrightarrow> ns < ms"
  using assms by (simp add: higherSemver_def Split_version_string higher_parts_dec)

lemma version_string_not_Nil: "ns \<noteq> [] \<Longrightarrow> version_string ns \<noteq> []"
  by (induction ns rule: induct_list012) (simp_all add: version_string_def)

definition small_version :: "nat list \<Rightarrow> bool" where
  "small_version ns = (ns \<noteq> [] \<and> (\<forall>n \<in> set ns. n < 2 ^ 63))"

lemma wp_pick_staged_max:
  assumes "quiet d" "\<forall>v \<in> set vs. small_version v \<and> lookup (tree d) (stagedBin opts (version_string v)) \<noteq> None"
    and "best = [] \<and> seen = [] \<or> seen \<noteq> [] \<and> small_version (Max (set seen)) \<and> best = version_string (Max (set seen))"
    and "vs \<noteq> [] \<or> seen \<noteq> []"
  shows "wp (pick_staged opts (map (\<lambda>v. (version_string v, True)) vs) best)
    (\<lambda>b d'. b = version_string (Max (set (seen @ vs)))) d"
  using assms
proof (induction vs arbitrary: best seen d)
  case (Cons v vs)
  let ?best = "if best = [] \<or> higherSemver (version_string v) best then version_string v else best"
  have v: "small_version v" "lookup (tree d) (stagedBin opts (version_string v)) \<noteq> None"
    using Cons.prems(2) by auto
  have "?best = version_string (Max (set (v # seen))) \<and> small_version (Max (set (v # seen)))"
  proof (cases "seen = []")
    case False
    with Cons.prems(3) have best: "small_version (Max (set seen))" "best = version_string (Max (set seen))"
      by auto
    then have "best \<noteq> []" "higherSemver (version_string v) best \<longleftrightarrow> Max (set seen) < v"
      using v(1) by (auto simp: small_version_def version_string_not_Nil higherSemver_numeric_aux)
    moreover have "Max (set (v # seen)) = max v (Max (set seen))" using False by simp
    ultimately show ?thesis using best v(1) by (simp add: max_def not_le [symmetric])
  qed (use Cons.prems(3) v in auto)
  then have "wp (pick_staged opts (map (\<lambda>v. (version_string v, True)) vs) ?best)
    (\<lambda>b d'. b = version_string (Max (set ((v # seen) @ vs)))) (after_call d (tree d))"
    by (intro Cons.IH) (use Cons.prems in auto)
  moreover have "set ((v # seen) @ vs) = set (seen @ v # vs)" by auto
  ultimately show ?case
    using v Cons.prems(1) by (auto simp: wp_simps wp_quiet_read stat_tree_def split del: if_split)
qed (auto simp: wp_simps)

section \<open>Crash loops\<close>

text \<open>
  An installation on which version \<open>v\<close> is current and \<open>p\<close> is retained, nothing is staged and
  the running core has not signalled readiness.
\<close>

definition steady :: "boot_options \<Rightarrow> string \<Rightarrow> string \<Rightarrow> fs \<Rightarrow> bool" where
  "steady opts v p t =
     (dirs_exist t (CoreDir opts) \<and> lookup t (coreFile opts ''staging'') = None
      \<and> lookup t (coreFile opts ''ready'') = None
      \<and> lookup t (coreFile opts ''current'') = Some (File (v @ newline))
      \<and> lookup t (coreFile opts ''previous'') = Some (File (p @ newline))
      \<and> trimmed v \<and> trimmed p \<and> p \<noteq> v
      \<and> lookup t (versionBin opts v) \<noteq> None \<and> lookup t (versionBin opts p) \<noteq> None)"

text \<open>A run that ends early, without readiness, and leaves the installation as it is.\<close>

definition failing_run :: "boot_options \<Rightarrow> string \<Rightarrow> string \<Rightarrow> core_run \<Rightarrow> bool" where
  "failing_run opts v p run = (\<not> stopped run \<and> ranFor run < stableAfter_of opts
     \<and> (\<forall>t. steady opts v p t \<longrightarrow> steady opts v p (coreEffect run t)))"

lemma wp_quiet_writeStr_post:
  assumes "quiet d" "marker_name p" "dirs_exist (tree d) (Dir p)" "lookup (tree d) p \<noteq> Some Directory"
  shows "wp (writeStr p s) (\<lambda>r d'. r = Inr () \<and> quiet d' \<and> marker_post p s (tree d) (Inr ()) (tree d')) d"
  using wp_conj [OF wp_quiet_writeStr [OF assms, of s] wp_writeStr_post [OF assms(2), of s d]]
  by (rule wp_mono) auto

lemma wp_quiet_revert:
  assumes q: "quiet d" and st: "steady opts v p (tree d)"
  shows "wp (revert opts v) (\<lambda>r d'. lookup (tree d') (cur_path opts) = Some (File (p @ newline))
     \<and> lookup (tree d') (prev_path opts) = Some (File (v @ newline))) d"
proof -
  let ?Q = "\<lambda>(r :: string option) d'. lookup (tree d') (cur_path opts) = Some (File (p @ newline))
     \<and> lookup (tree d') (prev_path opts) = Some (File (v @ newline))"
  let ?d = "after_call (after_call d (tree d)) (tree d)"
  have first: "wp (writeStr (cur_path opts) p) (\<lambda>r d'. r = Inr () \<and> quiet d'
      \<and> marker_post (cur_path opts) p (tree d) (Inr ()) (tree d')) ?d"
    using wp_quiet_writeStr_post [of ?d "cur_path opts" p] q st by (simp add: steady_def)
  have second: "wp (writeStr (prev_path opts) v) (\<lambda>r. wp (ret (Some p)) ?Q) d'"
    if d': "quiet d'" "marker_post (cur_path opts) p (tree d) (Inr ()) (tree d')" for d'
  proof -
    have dirs: "dirs_exist (tree d') (CoreDir opts)"
    proof -
      have "lookup (tree d') q = Some Directory" if "prefix q (CoreDir opts)" for q
      proof -
        have "q \<noteq> cur_path opts" using that by auto
        with st marker_post_kept [OF d'(2), of q Directory] that show ?thesis
          by (auto simp: steady_def dirs_exist_def is_dir_def)
      qed
      then show ?thesis by (simp add: dirs_exist_def is_dir_def)
    qed
    have prev: "lookup (tree d') (prev_path opts) = Some (File (p @ newline))"
      using marker_post_sibling [OF d'(2), of "''previous''"] st by (simp add: steady_def)
    have cur: "lookup (tree d') (cur_path opts) = Some (File (p @ newline))"
      by (rule marker_post_target(1) [OF d'(2)])
    have w: "wp (writeStr (prev_path opts) v) (\<lambda>r d''. r = Inr () \<and> quiet d''
        \<and> marker_post (prev_path opts) v (tree d') (Inr ()) (tree d'')) d'"
      by (rule wp_quiet_writeStr_post) (use d' dirs prev in simp_all)
    show ?thesis
      by (rule wp_mono [OF w])
        (use cur in \<open>auto simp: wp_ret marker_post_target marker_post_sibling [of "CoreDir opts" "''previous''" _ _ _ _ "''current''"]\<close>)
  qed
  have "wp (writeStr (cur_path opts) p) (\<lambda>wrote. wp (case wrote of Inl _ \<Rightarrow> ret None
      | Inr _ \<Rightarrow> do { _ \<leftarrow> writeStr (prev_path opts) v; ret (Some p) }) ?Q) ?d"
    by (rule wp_mono [OF first]) (auto simp: wp_bind second)
  then show ?thesis
    using q st
    by (auto simp: revert_def readMarker_def wp_simps wp_quiet_read read_tree_def stat_tree_def
        steady_def newline_def trimmed_def [of "[]"])
qed

lemma wp_failing_iteration:
  assumes q: "quiet d" and st: "steady opts v p (tree d)" and run: "failing_run opts v p run"
  shows "wp (boot_iteration opts run crashes) (\<lambda>(launched, next) d'. launched = Some v \<and>
     (if crashes + 1 \<ge> threshold_of opts
      then next = Inr 0 \<and> lookup (tree d') (cur_path opts) = Some (File (p @ newline))
        \<and> lookup (tree d') (prev_path opts) = Some (File (v @ newline))
      else next = Inr (crashes + 1) \<and> quiet d' \<and> steady opts v p (tree d'))) d"
proof -
  have promote: "wp (promoteStaged opts) Q d = Q () (after_call d (tree d))" for Q
    using q st by (simp add: promoteStaged_def wp_simps wp_quiet_read readdir_tree_def steady_def)
  have current: "wp (currentBinary opts) Q (after_call d (tree d))
      = Q (Inr (v, versionBin opts v)) (after_call (after_call (after_call d (tree d)) (tree d)) (tree d))" for Q
    using q st by (auto simp: currentBinary_def wp_simps wp_quiet_read read_tree_def stat_tree_def
        steady_def newline_def Let_def)
  have remove: "wp (Remove (CoreDir opts @ [''ready''])) Q d' = Q (Inl (missing (tree d') (CoreDir opts @ [''ready'']))) (after_call d' (tree d'))"
    if "quiet d'" "tree d' = tree d" for Q d'
    using that st by (simp add: Remove_def wp_syscall steady_def)
  have st': "steady opts v p (coreEffect run (tree d))" "\<not> stopped run" "\<not> ranFor run \<ge> stableAfter_of opts"
    using run st by (auto simp: failing_run_def)
  have quiet_eff: "quiet (d'\<lparr>tree := t\<rparr>) = quiet d'" for d' :: "'a disk_scheme" and t
    by (simp add: quiet_def)
  have fresh: "wp (markerFresh (CoreDir opts @ [''ready''])) Q d' = Q False (after_call d' (tree d'))"
    if "quiet d'" "steady opts v p (tree d')" for Q d'
    using that by (simp add: markerFresh_def wp_simps wp_quiet_read stat_tree_def steady_def)
  show ?thesis
    unfolding boot_iteration_def wp_bind
    using q st'
    by (simp add: promote current remove wp_simps fresh quiet_eff wp_quiet_revert)
qed

lemma wp_crash_loop:
  assumes "quiet d" "steady opts v p (tree d)" "\<forall>run \<in> set runs. failing_run opts v p run"
    "runs \<noteq> []" "crashes + int (length runs) = threshold_of opts"
  shows "wp (boot_loop opts runs crashes) (\<lambda>(launched, out) d'.
      launched = replicate (length runs) v \<and> out = Stopped
      \<and> lookup (tree d') (cur_path opts) = Some (File (p @ newline))
      \<and> lookup (tree d') (prev_path opts) = Some (File (v @ newline))) d"
  using assms
proof (induction runs arbitrary: crashes d)
  case (Cons run runs)
  have it: "wp (boot_iteration opts run crashes) (\<lambda>(launched, next) d'. launched = Some v \<and>
     (if crashes + 1 \<ge> threshold_of opts
      then next = Inr 0 \<and> lookup (tree d') (cur_path opts) = Some (File (p @ newline))
        \<and> lookup (tree d') (prev_path opts) = Some (File (v @ newline))
      else next = Inr (crashes + 1) \<and> quiet d' \<and> steady opts v p (tree d'))) d"
    by (rule wp_failing_iteration) (use Cons.prems in auto)
  show ?case
    unfolding boot_loop.simps wp_bind
  proof (rule wp_mono [OF it], goal_cases)
    case (1 a d')
    obtain launched nxt where a: "a = (launched, nxt)" by (cases a)
    show ?case
    proof (cases "runs = []")
      case True
      then show ?thesis using 1 Cons.prems(5) by (auto simp: a wp_simps Let_def)
    next
      case False
      then have "\<not> crashes + 1 \<ge> threshold_of opts" using Cons.prems(5) by (cases runs) auto
      with 1 have d': "launched = Some v" "nxt = Inr (crashes + 1)" "quiet d'" "steady opts v p (tree d')"
        by (auto simp: a)
      have "wp (boot_loop opts runs (crashes + 1)) (\<lambda>(launched, out) d'.
          launched = replicate (length runs) v \<and> out = Stopped
          \<and> lookup (tree d') (cur_path opts) = Some (File (p @ newline))
          \<and> lookup (tree d') (prev_path opts) = Some (File (v @ newline))) d'"
        by (rule Cons.IH) (use Cons.prems d' False in auto)
      then show ?thesis
        by (auto simp: a d' wp_simps Let_def elim!: wp_mono)
    qed
  qed
qed simp


section \<open>A concrete installation\<close>

text \<open>Core \<open>1.0.0\<close> installed, \<open>0.9.0\<close> retained, and two staged versions, one of them lower.\<close>

definition ex_tree :: fs where
  "ex_tree = [
     ([], Directory), ([''c''], Directory),
     ([''c'', ''current''], File (''1.0.0'' @ newline)),
     ([''c'', ''previous''], File (''0.9.0'' @ newline)),
     ([''c'', ''versions''], Directory),
     ([''c'', ''versions'', ''0.9.0''], Directory),
     ([''c'', ''versions'', ''0.9.0'', ''weave-agent''], File ''a''),
     ([''c'', ''versions'', ''1.0.0''], Directory),
     ([''c'', ''versions'', ''1.0.0'', ''weave-agent''], File ''b''),
     ([''c'', ''staging''], Directory),
     ([''c'', ''staging'', ''10.0.0''], Directory),
     ([''c'', ''staging'', ''10.0.0'', ''weave-agent''], File ''d''),
     ([''c'', ''staging'', ''9.0.0''], Directory),
     ([''c'', ''staging'', ''9.0.0'', ''weave-agent''], File ''e'')]"

definition ex_disk :: disk where
  "ex_disk = \<lparr>tree = ex_tree, calls = 0, fault = (\<lambda>_. None)\<rparr>"

definition ex_opts :: boot_options where
  "ex_opts = \<lparr>CoreDir = [''c''], StableAfter = 0, RevertThreshold = 0,
     VerifyCore = Some (\<lambda>t p. map_of t p = Some (File ''d'')), GOOS = ''linux'', Executable = None\<rparr>"

definition ex_promoted :: disk where
  "ex_promoted = snd (run_state (promoteStaged ex_opts) ex_disk)"

definition ex_reverted :: disk where
  "ex_reverted = snd (run_state (revert ex_opts ''1.0.0'') ex_disk)"


section \<open>Properties\<close>

text \<open>
  \<open>higherSemver\<close> compares dotted numeric versions numerically, component by component, with
  the longer one higher when one is a prefix of the other: on versions whose components fit in an
  \<open>int\<close> it is the lexicographic order, so \<open>10.0.0\<close> is above \<open>9.0.0\<close>.
\<close>

theorem higherSemver_numeric:
  assumes "small_version ms" "small_version ns"
  shows "higherSemver (version_string ms) (version_string ns) \<longleftrightarrow> ns < ms"
  using assms by (simp add: small_version_def higherSemver_numeric_aux)

theorem higherSemver_numeric_witness: "higherSemver ''10.0.0'' ''9.0.0''"
proof -
  have "version_string [10, 0, 0] = ''10.0.0''" "version_string [9, 0, 0] = ''9.0.0''"
    by code_simp+
  moreover have "higherSemver (version_string [10, 0, 0]) (version_string [9, 0, 0]) \<longleftrightarrow> [9, 0, 0] < [10, 0, 0 :: nat]"
    by (rule higherSemver_numeric) (simp_all add: small_version_def)
  ultimately show ?thesis by simp
qed

text \<open>
  When no call of the operating system fails, the loop of \<open>promoteStaged\<close> over any order of
  staged numeric versions that have a binary picks the highest of them.
\<close>

theorem pick_staged_highest:
  assumes "quiet d" "vs \<noteq> []"
    and "\<forall>v \<in> set vs. small_version v \<and> lookup (tree d) (stagedBin opts (version_string v)) \<noteq> None"
  shows "fst (run_state (pick_staged opts (map (\<lambda>v. (version_string v, True)) vs) []) d)
    = version_string (Max (set vs))"
  using wp_pick_staged_max [of d vs opts "[]" "[]"] assms
  by (simp add: wp_def split: prod.splits)

theorem pick_staged_highest_witness:
  "fst (run_state (pick_staged ex_opts (map (\<lambda>v. (version_string v, True)) [[10, 0, 0], [9, 0, 0]]) []) ex_disk)
    = version_string (Max (set [[10, 0, 0], [9, 0, 0]]))"
proof (rule pick_staged_highest)
  have "lookup (tree ex_disk) (stagedBin ex_opts (version_string [10, 0, 0])) \<noteq> None"
    "lookup (tree ex_disk) (stagedBin ex_opts (version_string [9, 0, 0])) \<noteq> None"
    by code_simp+
  then show "\<forall>v \<in> set [[10, 0, 0], [9, 0, 0]]. small_version v
      \<and> lookup (tree ex_disk) (stagedBin ex_opts (version_string v)) \<noteq> None"
    by (simp add: small_version_def)
qed (simp_all add: quiet_def ex_disk_def)

text \<open>
  C33: whatever calls of the operating system fail, \<open>promoteStaged\<close> changes the \<open>current\<close> marker
  only to a staged version whose binary the configured verifier accepted, and then that very
  binary is the one under \<open>versions\<close>; without a verifier the marker never changes.
\<close>

theorem promoteStaged_verified:
  assumes "plain_tree (tree d)" "run_state (promoteStaged opts) d = (u, d')"
    and "lookup (tree d') (coreFile opts ''current'') \<noteq> lookup (tree d) (coreFile opts ''current'')"
  shows "\<exists>best verify. VerifyCore opts = Some verify \<and> verify (tree d) (stagedBin opts best)
    \<and> lookup (tree d') (coreFile opts ''current'') = Some (File (best @ newline))
    \<and> lookup (tree d') (versionBin opts best) = lookup (tree d) (stagedBin opts best)"
  using wpD [OF wp_promoteStaged [OF assms(1)] assms(2)] assms(3)
  by (auto simp: promote_outcome_def markers_kept_def promoted_def moved_in_def)

theorem promoteStaged_verified_witness:
  "\<exists>best verify. VerifyCore ex_opts = Some verify \<and> verify (tree ex_disk) (stagedBin ex_opts best)
    \<and> lookup (tree ex_promoted) (coreFile ex_opts ''current'') = Some (File (best @ newline))
    \<and> lookup (tree ex_promoted) (versionBin ex_opts best) = lookup (tree ex_disk) (stagedBin ex_opts best)"
proof (rule promoteStaged_verified)
  show "plain_tree (tree ex_disk)" by code_simp
  show "run_state (promoteStaged ex_opts) ex_disk = (fst (run_state (promoteStaged ex_opts) ex_disk), ex_promoted)"
    unfolding ex_promoted_def by (rule prod.collapse [symmetric])
  show "lookup (tree ex_promoted) (coreFile ex_opts ''current'')
      \<noteq> lookup (tree ex_disk) (coreFile ex_opts ''current'')"
    by code_simp
qed

text \<open>
  A crash or a failed call at any point of \<open>promoteStaged\<close> leaves a \<open>current\<close> marker that
  resolves to a binary, when it resolved before and the current version is not itself staged.
\<close>

theorem promoteStaged_current_resolves:
  assumes "plain_tree (tree d)" "run_state (promoteStaged opts) d = (u, d')"
    and "plain_name v" "marker_val (tree d) (coreFile opts ''current'') = v"
    and "lookup (tree d) (versionBin opts v) \<noteq> None" "\<not> staged_version opts (tree d) v"
    and "\<And>b. staged_version opts (tree d) b \<Longrightarrow> trimmed b"
  shows "lookup (tree d') (versionBin opts (marker_val (tree d') (coreFile opts ''current''))) \<noteq> None"
proof -
  have kept: ?thesis if "others_kept opts b (tree d) (tree d')" "markers_kept opts (tree d) (tree d')"
      "staged_version opts (tree d) b" for b
  proof -
    have "v \<noteq> b" using that(3) assms(6) by auto
    then have "lookup (tree d') (versionBin opts v) = lookup (tree d) (versionBin opts v)"
      using that(1) assms(3) by (simp add: others_kept_def versionBin_plain)
    moreover have "marker_val (tree d') (coreFile opts ''current'') = v"
      using that(2) assms(4) by (simp add: markers_kept_def marker_val_def)
    ultimately show ?thesis using assms(5) by simp
  qed
  have prom: ?thesis if "promoted opts b (tree d) (tree d')" "staged_version opts (tree d) b" for b
  proof -
    have "marker_val (tree d') (coreFile opts ''current'') = b"
      using that assms(7) by (simp add: promoted_def marker_val_def newline_def)
    with that(1) show ?thesis by (simp add: promoted_def moved_in_def)
  qed
  from wpD [OF wp_promoteStaged [OF assms(1)] assms(2)] show ?thesis
    using kept prom assms(4,5) by (auto simp: promote_outcome_def)
qed

theorem promoteStaged_current_resolves_witness:
  "lookup (tree ex_promoted) (versionBin ex_opts (marker_val (tree ex_promoted) (coreFile ex_opts ''current''))) \<noteq> None"
proof (rule promoteStaged_current_resolves [of ex_disk ex_opts _ ex_promoted "''1.0.0''"])
  show "plain_tree (tree ex_disk)" by code_simp
  show "run_state (promoteStaged ex_opts) ex_disk = (fst (run_state (promoteStaged ex_opts) ex_disk), ex_promoted)"
    unfolding ex_promoted_def by (rule prod.collapse [symmetric])
  show "marker_val (tree ex_disk) (coreFile ex_opts ''current'') = ''1.0.0''" by code_simp
  show "lookup (tree ex_disk) (versionBin ex_opts ''1.0.0'') \<noteq> None" by code_simp
  show "\<not> staged_version ex_opts (tree ex_disk) ''1.0.0''" by code_simp
  show "trimmed b" if "staged_version ex_opts (tree ex_disk) b" for b
  proof -
    have "b = ''10.0.0'' \<or> b = ''9.0.0''"
      using that by (auto simp: staged_version_def ex_disk_def ex_tree_def ex_opts_def is_dir_def split: if_splits)
    then show ?thesis by (auto simp: trimmed_def no_space_def space_runes_def)
  qed
qed (simp add: plain_name_def)

text \<open>
  \<open>revert\<close> flips to the retained previous version only when that version differs from the bad
  one and has a binary, and records the bad version as the new previous (or leaves that marker
  alone when its write fails); when it does not flip, both markers are as before.
\<close>

theorem revert_correct:
  assumes "run_state (revert opts bad) d = (r, d')"
  shows "case r of
      None \<Rightarrow> lookup (tree d') (coreFile opts ''current'') = lookup (tree d) (coreFile opts ''current'')
        \<and> lookup (tree d') (coreFile opts ''previous'') = lookup (tree d) (coreFile opts ''previous'')
    | Some v \<Rightarrow> v = marker_val (tree d) (coreFile opts ''previous'') \<and> v \<noteq> bad
        \<and> lookup (tree d) (versionBin opts v) \<noteq> None
        \<and> lookup (tree d') (coreFile opts ''current'') = Some (File (v @ newline))
        \<and> lookup (tree d') (coreFile opts ''previous'')
            \<in> {Some (File (bad @ newline)), lookup (tree d) (coreFile opts ''previous'')}"
  using wpD [OF wp_revert assms] by (cases r) (auto simp: revert_post_def markers_kept_def)

theorem revert_correct_witness:
  "case Some ''0.9.0'' of
      None \<Rightarrow> lookup (tree ex_reverted) (coreFile ex_opts ''current'') = lookup (tree ex_disk) (coreFile ex_opts ''current'')
        \<and> lookup (tree ex_reverted) (coreFile ex_opts ''previous'') = lookup (tree ex_disk) (coreFile ex_opts ''previous'')
    | Some v \<Rightarrow> v = marker_val (tree ex_disk) (coreFile ex_opts ''previous'') \<and> v \<noteq> ''1.0.0''
        \<and> lookup (tree ex_disk) (versionBin ex_opts v) \<noteq> None
        \<and> lookup (tree ex_reverted) (coreFile ex_opts ''current'') = Some (File (v @ newline))
        \<and> lookup (tree ex_reverted) (coreFile ex_opts ''previous'')
            \<in> {Some (File (''1.0.0'' @ newline)), lookup (tree ex_disk) (coreFile ex_opts ''previous'')}"
proof (rule revert_correct)
  have "fst (run_state (revert ex_opts ''1.0.0'') ex_disk) = Some ''0.9.0''" by code_simp
  then show "run_state (revert ex_opts ''1.0.0'') ex_disk = (Some ''0.9.0'', ex_reverted)"
    by (simp add: ex_reverted_def prod_eq_iff)
qed


text \<open>
  C34: a core that exits early and unready as often as the threshold allows is reverted: when no
  call fails, \<open>Run\<close> launches the current version exactly that many times and then has the
  retained version as \<open>current\<close> and the bad one as \<open>previous\<close>.
\<close>

theorem crash_loop_reverts:
  assumes "quiet d" "steady opts v p (tree d)" "\<forall>run \<in> set runs. failing_run opts v p run"
    and "runs \<noteq> []" "threshold_of opts = int (length runs)"
  shows "\<exists>d'. run_state (boot_loop opts runs 0) d = ((replicate (length runs) v, Stopped), d')
    \<and> lookup (tree d') (coreFile opts ''current'') = Some (File (p @ newline))
    \<and> lookup (tree d') (coreFile opts ''previous'') = Some (File (v @ newline))"
  using wp_crash_loop [of d opts v p runs 0] assms by (auto simp: wp_def split: prod.splits)

definition ex_crashing :: "core_run list" where
  "ex_crashing = replicate 3 \<lparr>ranFor = 1, coreEffect = id, stopped = False\<rparr>"

definition ex_unstaged :: disk where
  "ex_unstaged = ex_disk\<lparr>tree := drop_paths (prefix [''c'', ''staging'']) ex_tree\<rparr>"

theorem crash_loop_reverts_witness:
  "\<exists>d'. run_state (boot_loop ex_opts ex_crashing 0) ex_unstaged
      = ((replicate (length ex_crashing) ''1.0.0'', Stopped), d')
    \<and> lookup (tree d') (coreFile ex_opts ''current'') = Some (File (''0.9.0'' @ newline))
    \<and> lookup (tree d') (coreFile ex_opts ''previous'') = Some (File (''1.0.0'' @ newline))"
proof (rule crash_loop_reverts)
  show "quiet ex_unstaged" by (simp add: quiet_def ex_unstaged_def ex_disk_def)
  show "steady ex_opts ''1.0.0'' ''0.9.0'' (tree ex_unstaged)" by code_simp
  show "\<forall>run \<in> set ex_crashing. failing_run ex_opts ''1.0.0'' ''0.9.0'' run"
    by (simp add: ex_crashing_def failing_run_def stableAfter_of_def ex_opts_def)
qed (simp_all add: ex_crashing_def threshold_of_def ex_opts_def)


section \<open>A core that becomes ready and fails\<close>

text \<open>The version \<open>v\<close> is current, and nothing is staged.\<close>

definition boot_installed :: "boot_options \<Rightarrow> string \<Rightarrow> fs \<Rightarrow> bool" where
  "boot_installed opts v t =
     (lookup t (coreFile opts ''staging'') = None \<and> trimmed v
      \<and> lookup t (coreFile opts ''current'') = Some (File (v @ newline)) \<and> lookup t (versionBin opts v) \<noteq> None)"

text \<open>A run that has its readiness marker written, however short it is, and leaves the installation as it is.\<close>

definition ready_run :: "boot_options \<Rightarrow> string \<Rightarrow> core_run \<Rightarrow> bool" where
  "ready_run opts v run = (\<not> stopped run
     \<and> (\<forall>t. boot_installed opts v t \<longrightarrow> boot_installed opts v (coreEffect run t) \<and> lookup (coreEffect run t) (coreFile opts ''ready'') \<noteq> None))"

lemma boot_installed_drop_ready:
  assumes "plain_name v" "boot_installed opts v t"
  shows "boot_installed opts v (drop_paths (\<lambda>q. q = CoreDir opts @ [''ready'']) t)"
  using assms by (simp add: boot_installed_def versionBin_plain)

lemma wp_ready_iteration:
  fixes d :: "'a disk_scheme"
  assumes "quiet d" "plain_name v" "boot_installed opts v (tree d)" "ready_run opts v run"
  shows "wp (boot_iteration opts run crashes) (\<lambda>(launched, next) d'. launched = Some v \<and> next = Inr 0 \<and> quiet d' \<and> boot_installed opts v (tree d')) d"
proof -
  have promote: "wp (promoteStaged opts) Q d = Q () (after_call d (tree d))" for Q
    using assms(1,3) by (simp add: promoteStaged_def wp_simps wp_quiet_read readdir_tree_def boot_installed_def)
  have current: "wp (currentBinary opts) Q (after_call d (tree d))
      = Q (Inr (v, versionBin opts v)) (after_call (after_call (after_call d (tree d)) (tree d)) (tree d))" for Q
    using assms(1,3) by (auto simp: currentBinary_def wp_simps wp_quiet_read read_tree_def stat_tree_def
        boot_installed_def newline_def Let_def)
  have rest: "wp (do { becameReady \<leftarrow> markerFresh (CoreDir opts @ [''ready'']);
        if becameReady \<or> ranFor run \<ge> stableAfter_of opts then ret (Some v, Inr 0 :: (boot_outcome, int) result)
        else if crashes + 1 \<ge> threshold_of opts then do { _ \<leftarrow> revert opts v; ret (Some v, Inr 0) }
        else ret (Some v, Inr (crashes + 1)) })
      (\<lambda>(launched, next) d'. launched = Some v \<and> next = Inr 0 \<and> quiet d' \<and> boot_installed opts v (tree d'))
      (d'\<lparr>tree := coreEffect run t\<rparr>)"
    if qt: "quiet d'" "boot_installed opts v t" for d' :: "'a disk_scheme" and t
  proof -
    obtain n where "boot_installed opts v (coreEffect run t)" "lookup (coreEffect run t) (CoreDir opts @ [''ready'']) = Some n"
      using assms(4) qt(2) by (auto simp: ready_run_def)
    with qt(1) show ?thesis by (simp add: markerFresh_def wp_simps wp_quiet_read stat_tree_def quiet_def)
  qed
  have "wp (Remove (CoreDir opts @ [''ready''])) (\<lambda>_ d'. quiet d' \<and> boot_installed opts v (tree d')) d'"
    if "quiet d'" "boot_installed opts v (tree d')" for d' :: "'a disk_scheme"
    by (rule wp_Remove) (use that assms(2) boot_installed_drop_ready in auto)
  note remove = wp_mono [OF this]
  have "\<not> stopped run" using assms(4) by (simp add: ready_run_def)
  then show ?thesis
    using assms(1,3) rest unfolding boot_iteration_def wp_bind [of "promoteStaged _"] wp_bind [of "currentBinary _"] promote current
    by (simp add: wp_bind [of "Remove _"] wp_bind [of "modify _"] wp_modify split del: if_split)
      (rule remove, simp_all add: wp_modify split del: if_split)
qed


text \<open>
  A core that becomes ready is never reverted, however fast it fails after that: whatever the number of runs, \<open>Run\<close> launches the same
  version every time and keeps it current.
\<close>

theorem ready_core_never_reverted:
  assumes "quiet d" "plain_name v" "boot_installed opts v (tree d)" "\<forall>run \<in> set runs. ready_run opts v run"
  shows "\<exists>d'. run_state (boot_loop opts runs crashes) d = ((replicate (length runs) v, Stopped), d')
    \<and> lookup (tree d') (coreFile opts ''current'') = Some (File (v @ newline))"
proof -
  have "wp (boot_loop opts runs crashes) (\<lambda>(launched, out) d'. launched = replicate (length runs) v \<and> out = Stopped \<and> boot_installed opts v (tree d')) d"
    using assms(1,3,4)
  proof (induction runs arbitrary: crashes d)
    case (Cons run runs)
    have it: "wp (boot_iteration opts run crashes) (\<lambda>(launched, next) d'. launched = Some v \<and> next = Inr 0 \<and> quiet d' \<and> boot_installed opts v (tree d')) d"
      by (rule wp_ready_iteration) (use Cons.prems assms(2) in auto)
    show ?case unfolding boot_loop.simps wp_bind
      by (rule wp_mono [OF it]) (use Cons in \<open>auto simp: wp_simps Let_def elim!: wp_mono split: prod.splits\<close>)
  qed (simp add: wp_ret)
  then show ?thesis by (auto simp: wp_def boot_installed_def split: prod.splits)
qed

definition ex_ready_run :: core_run where
  "ex_ready_run = \<lparr>ranFor = 1, coreEffect = set_node [''c'', ''ready''] (File []), stopped = False\<rparr>"

text \<open>Applied to ten runs of a nanosecond each.\<close>

theorem ready_core_never_reverted_witness:
  "\<exists>d'. run_state (boot_loop ex_opts (replicate 10 ex_ready_run) 0) ex_unstaged = ((replicate 10 ''1.0.0'', Stopped), d')
    \<and> lookup (tree d') (coreFile ex_opts ''current'') = Some (File (''1.0.0'' @ newline))"
proof -
  have "plain_name ''1.0.0''" by (simp add: plain_name_def)
  moreover have "quiet ex_unstaged" by (simp add: quiet_def ex_unstaged_def ex_disk_def)
  moreover have "boot_installed ex_opts ''1.0.0'' (tree ex_unstaged)" by code_simp
  moreover have "ready_run ex_opts ''1.0.0'' ex_ready_run"
    using \<open>plain_name ''1.0.0''\<close> by (simp add: ready_run_def ex_ready_run_def boot_installed_def versionBin_plain ex_opts_def)
  ultimately show ?thesis using ready_core_never_reverted [of ex_unstaged "''1.0.0''" ex_opts "replicate 10 ex_ready_run" 0] by simp
qed

end
