(* ===== verification/Core.thy ===== *)
theory Core
  imports Lifecycle Verify Weaveboot
begin

text \<open>
  The assembly of the agent (\<open>src/internal/core/core.go\<close>): the directory layout
  (\<open>src/internal/layout/layout.go\<close>, \<open>src/sdk/platform\<close>), the discovery of installed modules and
  their registration with the supervisor, the choice of the manifest root key, and the readiness
  marker that weaveboot waits for. Paths are lists of components; on Windows the first component is
  the volume.
\<close>

section \<open>Layout\<close>

record path_set =
  psStateDir :: path
  psLogDir :: path
  psRunDir :: path
  psStagingDir :: path

record layout =
  StateDir :: path
  LogDir :: path
  RunDir :: path
  StagingDir :: path
  ModulesDir :: path

text \<open>The contract of each platform; \<open>programData\<close> is the variable of that name, absent if empty.\<close>

definition Paths_linux :: path_set where
  "Paths_linux = \<lparr>psStateDir = [''var'', ''lib'', ''weave''], psLogDir = [''var'', ''log'', ''weave''],
     psRunDir = [''run'', ''weave''], psStagingDir = [''var'', ''lib'', ''weave'', ''staging'']\<rparr>"

definition Paths_darwin :: path_set where
  "Paths_darwin = \<lparr>psStateDir = [''Library'', ''Application Support'', ''Weave''], psLogDir = [''Library'', ''Logs'', ''Weave''],
     psRunDir = [''var'', ''run'', ''weave''], psStagingDir = [''Library'', ''Application Support'', ''Weave'', ''staging'']\<rparr>"

definition Paths_windows :: "path option \<Rightarrow> path_set" where
  "Paths_windows programData =
     (let root = Join (case programData of None \<Rightarrow> [''C:'', ''ProgramData''] | Some p \<Rightarrow> p) ''Weave''
      in \<lparr>psStateDir = root, psLogDir = Join root ''logs'', psRunDir = Join root ''run'', psStagingDir = Join root ''staging''\<rparr>)"

definition Resolve :: "path option \<Rightarrow> path option \<Rightarrow> path_set \<Rightarrow> layout" where
  "Resolve override env p =
     (case (case override of None \<Rightarrow> env | Some d \<Rightarrow> Some d) of
        Some d \<Rightarrow>
          \<lparr>StateDir = d, LogDir = Join d ''logs'', RunDir = Join d ''run'', StagingDir = Join d ''staging'',
           ModulesDir = Join d ''modules''\<rparr>
      | None \<Rightarrow>
          \<lparr>StateDir = psStateDir p, LogDir = psLogDir p, RunDir = psRunDir p, StagingDir = psStagingDir p,
           ModulesDir = Join (psStateDir p) ''modules''\<rparr>)"

text \<open>\<open>tightenDir\<close> is a \<open>Chmod\<close> on unix and nothing on Windows.\<close>

definition tightenDir :: "string \<Rightarrow> path \<Rightarrow> ('x disk_scheme, (io_error, unit) result) state" where
  "tightenDir goos d = (if goos = ''windows'' then ret (Inr ()) else FileCall d)"

fun ensure_dirs :: "string \<Rightarrow> path list \<Rightarrow> ('x disk_scheme, (io_error, unit) result) state" where
  "ensure_dirs goos [] = ret (Inr ())"
| "ensure_dirs goos (d # ds) =
     then_ok (MkdirAll d) (\<lambda>_. then_ok (tightenDir goos d) (\<lambda>_. ensure_dirs goos ds))"

definition Ensure :: "string \<Rightarrow> layout \<Rightarrow> ('x disk_scheme, (io_error, unit) result) state" where
  "Ensure goos l = ensure_dirs goos [StateDir l, LogDir l, RunDir l, StagingDir l, ModulesDir l]"

definition ControlSocket :: "string \<Rightarrow> layout \<Rightarrow> path" where
  "ControlSocket goos l =
     (if goos = ''windows'' then [[CHR 0x5C, CHR 0x5C, CHR ''.'', CHR 0x5C] @ ''pipe'' @ [CHR 0x5C] @ ''weave-control'']
      else Join (RunDir l) ''control.sock'')"


section \<open>Installed modules\<close>

datatype core_error = DiscoverIO io_error | BadModule string manifest_error | NoBinaryPresent string path
  | EnsureFailed io_error | RootKeyUnreadable io_error | RootKeyInvalid key_error

definition binaryCandidates :: "string \<Rightarrow> string \<Rightarrow> string list" where
  "binaryCandidates goos m = (if goos = ''windows'' then [m @ ''.exe'', ''module.exe''] else [m, ''module''])"

text \<open>The error of \<open>manifest.Load\<close> that \<open>os.IsNotExist\<close> recognises.\<close>

fun no_manifest :: "manifest_error \<Rightarrow> bool" where
  "no_manifest (ManifestIO err) = IsNotExist err"
| "no_manifest _ = False"

text \<open>One entry of the modules directory: a specification, nothing, or an error.\<close>

definition discover_one ::
    "string \<Rightarrow> (bytes \<Rightarrow> (string, manifest) result) \<Rightarrow> path \<Rightarrow> string \<Rightarrow> ('x disk_scheme, (core_error, spec option) result) state" where
  "discover_one goos decode dir name = do {
     cur \<leftarrow> ReadFile (Join (Join dir name) ''current'');
     let mdir = (case cur of Inl _ \<Rightarrow> Join dir name | Inr b \<Rightarrow> Join (Join (Join dir name) ''versions'') (TrimSpace b));
     loaded \<leftarrow> Load_manifest decode (Join mdir manifestFile);
     case loaded of
       Inl err \<Rightarrow> ret (if no_manifest err then Inr None else Inl (BadModule name err))
     | Inr m \<Rightarrow> do {
         bin \<leftarrow> findBinary_in mdir (binaryCandidates goos (mfID m));
         case bin of
           None \<Rightarrow> ret (Inl (NoBinaryPresent (mfID m) mdir))
         | Some p \<Rightarrow> do {
             cfg \<leftarrow> ReadFile (Join mdir ''config.json'');
             ret (Inr (Some \<lparr>spManifest = m, spBinPath = p, spConfig = (case cfg of Inl _ \<Rightarrow> [] | Inr b \<Rightarrow> b)\<rparr>)) } } }"

fun discover_entries ::
    "string \<Rightarrow> (bytes \<Rightarrow> (string, manifest) result) \<Rightarrow> path \<Rightarrow> (string \<times> bool) list \<Rightarrow> ('x disk_scheme, (core_error, spec list) result) state" where
  "discover_entries goos decode dir [] = ret (Inr [])"
| "discover_entries goos decode dir ((name, isDir) # es) =
     (if \<not> isDir then discover_entries goos decode dir es
      else then_ok (discover_one goos decode dir name) (\<lambda>sp.
        then_ok (discover_entries goos decode dir es) (\<lambda>specs.
          ret (Inr (case sp of None \<Rightarrow> specs | Some s \<Rightarrow> s # specs)))))"

definition discoverModules ::
    "string \<Rightarrow> (bytes \<Rightarrow> (string, manifest) result) \<Rightarrow> path \<Rightarrow> ('x disk_scheme, (core_error, spec list) result) state" where
  "discoverModules goos decode dir = do {
     entries \<leftarrow> ReadDir dir;
     case entries of
       Inl err \<Rightarrow> ret (if IsNotExist err then Inr [] else Inl (DiscoverIO err))
     | Inr es \<Rightarrow> discover_entries goos decode dir es }"

text \<open>The loop of \<open>Run\<close> that registers them; an error of \<open>Add\<close> is logged and passed over.\<close>

fun register_specs :: "sup_settings \<Rightarrow> string \<Rightarrow> string \<Rightarrow> time \<Rightarrow> spec list \<Rightarrow> registry \<Rightarrow> registry" where
  "register_specs ss goos goarch now [] g = g"
| "register_specs ss goos goarch now (sp # sps) g =
     register_specs ss goos goarch now sps
       (if SupportsHost (spManifest sp) goos goarch then snd (Add ss sp now g) else g)"


section \<open>Start-up\<close>

text \<open>
  The trust anchor of channel installs: the embedded key, or the file of the override where the
  build allows it; white space alone is no key.
\<close>

definition choose_root_key :: "bool \<Rightarrow> bytes \<Rightarrow> path option \<Rightarrow> ('x disk_scheme, (io_error, bytes) result) state" where
  "choose_root_key allowOverride embedded override =
     (case override of
        None \<Rightarrow> ret (Inr embedded)
      | Some p \<Rightarrow> if allowOverride then ReadFile p else ret (Inr embedded))"

definition load_root_key :: "crypto \<Rightarrow> bool \<Rightarrow> bytes \<Rightarrow> path option \<Rightarrow> ('x disk_scheme, (core_error, bytes option) result) state" where
  "load_root_key cr allowOverride embedded override =
     then_ok (wrap_err RootKeyUnreadable (choose_root_key allowOverride embedded override)) (\<lambda>k.
       ret (if TrimSpace k = [] then Inr None
            else case ParsePublicKey cr k of
              Inl err \<Rightarrow> Inl (RootKeyInvalid err)
            | Inr (_, raw) \<Rightarrow> Inr (Some raw)))"

definition endpoint :: "string \<Rightarrow> string \<Rightarrow> string" where
  "endpoint url p =
     (let base = TrimSuffix url ''/'' in if base = [] then [] else base @ p)"

text \<open>The verifier that stands in when none is configured refuses everything.\<close>

definition verifier_or_refuse :: "(fs \<Rightarrow> path \<Rightarrow> manifest \<Rightarrow> string option) option \<Rightarrow> fs \<Rightarrow> path \<Rightarrow> manifest \<Rightarrow> string option" where
  "verifier_or_refuse v = (case v of Some f \<Rightarrow> f | None \<Rightarrow> (\<lambda>_ _ _. Some ''no verifier configured''))"

definition envReadyFile :: string where "envReadyFile = ''WEAVE_READY_FILE''"

definition tmp_name :: "path \<Rightarrow> path" where
  "tmp_name p = butlast p @ [last p @ ''.tmp'']"

definition signalReady :: "path option \<Rightarrow> string \<Rightarrow> ('x disk_scheme, unit) state" where
  "signalReady ready version =
     (case ready of
        None \<Rightarrow> ret ()
      | Some p \<Rightarrow> do {
          wrote \<leftarrow> WriteFile (tmp_name p) (version @ newline);
          case wrote of
            Inl _ \<Rightarrow> ret ()
          | Inr _ \<Rightarrow> do {
              moved \<leftarrow> Rename (tmp_name p) p;
              case moved of
                Inl _ \<Rightarrow> do { _ \<leftarrow> Remove (tmp_name p); ret () }
              | Inr _ \<Rightarrow> ret () } })"

text \<open>
  The part of \<open>Run\<close> that changes the disk and the registry, from the layout to the readiness marker:
  the directories, the sweep of old sockets, the modules, the root key, the marker.
\<close>

record core_options =
  coLayout :: layout
  coModulesDir :: "path option"
  coRootPub :: "path option"
  coReady :: "path option"
  coVersion :: string
  coAllowOverride :: bool
  coEmbedded :: bytes

definition core_modules :: "'st lc_env \<Rightarrow> core_options \<Rightarrow> time \<Rightarrow> ('st lc_world, (core_error, bytes option) result) state" where
  "core_modules e opts now = do {
     _ \<leftarrow> modify (\<lambda>w. w\<lparr>lwRegistry := SetBaseContext (lwRegistry w)\<rparr>);
     _ \<leftarrow> SweepOrphans (RunDir (coLayout opts));
     then_ok (discoverModules (leGOOS e) (leDecode e)
         (case coModulesDir opts of None \<Rightarrow> ModulesDir (coLayout opts) | Some d \<Rightarrow> d)) (\<lambda>specs. do {
       _ \<leftarrow> modify (\<lambda>w. w\<lparr>lwRegistry := register_specs (leSup e) (leGOOS e) (leGOARCH e) now specs (lwRegistry w)\<rparr>);
       then_ok (load_root_key (leCrypto e) (coAllowOverride opts) (coEmbedded opts) (coRootPub opts)) (\<lambda>root. do {
         _ \<leftarrow> signalReady (coReady opts) (coVersion opts);
         ret (Inr root) }) }) }"


section \<open>Properties of the layout\<close>

text \<open>
  Where installs stage and where modules live never lie inside one another, on any platform and under
  any override, which is what the theorems on installs assume of them.
\<close>

theorem Resolve_apart:
  assumes "p = Paths_linux \<or> p = Paths_darwin \<or> p = Paths_windows pd"
  shows "unrelated (ModulesDir (Resolve override env p)) (StagingDir (Resolve override env p))"
proof -
  have plain: "plain_name ''modules''" "plain_name ''staging''" "plain_name ''Weave''" by (simp_all add: plain_name_def)
  have "unrelated (d @ [''modules'']) (d @ [''staging''])" for d by (simp add: unrelated_def)
  with plain assms show ?thesis
    by (auto simp: Resolve_def Paths_linux_def Paths_darwin_def Paths_windows_def Let_def unrelated_def split: option.splits)
qed


section \<open>Discovery\<close>

text \<open>Discovery only reads.\<close>

lemma keeps_read_calls:
  "keeps (\<lambda>d. tree d = t \<and> quiet d) (ReadFile p)" "keeps (\<lambda>d. tree d = t \<and> quiet d) (Stat p)"
  "keeps (\<lambda>d. tree d = t \<and> quiet d) (ReadDir p)"
  by (auto intro!: keepsI wp_ReadFile wp_Stat wp_ReadDir)

lemma keeps_findBinary_in:
  "keeps (\<lambda>d. tree d = t \<and> quiet d) (findBinary_in dir cs :: ('x disk_scheme, path option) state)"
proof (induction cs)
  case (Cons c cs)
  have "keeps (\<lambda>d. tree d = t \<and> quiet d) (case r of Inr (File _) \<Rightarrow> ret (Some (Join dir c))
      | _ \<Rightarrow> (findBinary_in dir cs :: ('x disk_scheme, path option) state))" for r :: "(io_error, node) result"
    using Cons by (auto intro: keeps_ret split: sum.splits node.splits)
  then show ?case by (auto intro!: keeps_bind keeps_read_calls)
qed (simp add: keeps_ret)

lemma keeps_discover_one: "keeps (\<lambda>d. tree d = t \<and> quiet d) (discover_one goos decode dir name)"
  unfolding discover_one_def Let_def Load_manifest_def
  by (intro keeps_bind keeps_read_calls keeps_ret keeps_case_sum keeps_case_option keeps_findBinary_in)

lemma keeps_discover_entries: "keeps (\<lambda>d. tree d = t \<and> quiet d) (discover_entries goos decode dir es)"
proof (induction es)
  case (Cons x es)
  then show ?case
    by (cases x) (auto intro!: keeps_then_ok keeps_discover_one keeps_ret)
qed (simp add: keeps_ret)

lemma keeps_discoverModules: "keeps (\<lambda>d. tree d = t \<and> quiet d) (discoverModules goos decode dir)"
  unfolding discoverModules_def
  by (intro keeps_bind keeps_read_calls keeps_ret keeps_case_sum keeps_discover_entries)

lemma discover_entries_complete:
  assumes one: "\<And>d. tree d = t \<Longrightarrow> quiet d \<Longrightarrow> wp (discover_one goos decode dir name) (\<lambda>r _. r = Inr (Some sp)) (d :: 'x disk_scheme)"
    and "(name, True) \<in> set es" "tree d = t" "quiet d"
  shows "wp (discover_entries goos decode dir es) (\<lambda>r _. case r of Inl _ \<Rightarrow> True | Inr specs \<Rightarrow> sp \<in> set specs) (d :: 'x disk_scheme)"
  using assms(2-4)
proof (induction es arbitrary: d)
  case (Cons x es)
  obtain n isDir where x: "x = (n, isDir)" by (cases x)
  let ?P = "\<lambda>r _. case r of Inl _ \<Rightarrow> True | Inr specs \<Rightarrow> sp \<in> set specs"
  have keep: "wp (discover_one goos decode dir n) (\<lambda>_ d'. tree d' = t \<and> quiet d') d"
    by (rule keeps_wp [OF keeps_discover_one]) (use Cons.prems in simp)
  show ?case
  proof (cases "isDir \<and> n = name")
    case True
    have "wp (discover_one goos decode dir n) (\<lambda>r. case r of Inl e \<Rightarrow> ?P (Inl e) | Inr sp' \<Rightarrow>
        wp (then_ok (discover_entries goos decode dir es) (\<lambda>specs. ret (Inr (case sp' of None \<Rightarrow> specs | Some s \<Rightarrow> s # specs)))) ?P) d"
      using one [OF Cons.prems(2,3)] unfolding True [THEN conjunct2]
      by (rule wp_mono) (auto simp: wp_then_ok wp_ret split: sum.splits intro!: wpI)
    then show ?thesis using True x by (simp add: wp_then_ok [of "discover_one _ _ _ _"])
  next
    case False
    then have "(name, True) \<in> set es" using Cons.prems(1) x by auto
    note IH = Cons.IH [OF this]
    have "wp (discover_one goos decode dir n) (\<lambda>r. case r of Inl e \<Rightarrow> ?P (Inl e) | Inr sp' \<Rightarrow>
        wp (then_ok (discover_entries goos decode dir es) (\<lambda>specs. ret (Inr (case sp' of None \<Rightarrow> specs | Some s \<Rightarrow> s # specs)))) ?P) d"
      using keep
    proof (rule wp_mono)
      fix r :: "(core_error, spec option) result" and d' :: "'x disk_scheme" assume d': "tree d' = t \<and> quiet d'"
      show "(case r of Inl e \<Rightarrow> ?P (Inl e) | Inr sp' \<Rightarrow>
        wp (then_ok (discover_entries goos decode dir es) (\<lambda>specs. ret (Inr (case sp' of None \<Rightarrow> specs | Some s \<Rightarrow> s # specs)))) ?P) d'"
        using IH [of d'] d' by (cases r) (auto simp: wp_then_ok wp_ret elim!: wp_mono split: sum.splits option.splits)
    qed
    then show ?thesis using x IH [OF Cons.prems(2,3)] by (simp add: wp_then_ok [of "discover_one _ _ _ _"])
  qed
qed simp

lemma discover_one_current:
  assumes t: "tree d = t" "quiet d"
    and names: "plain_name name" "plain_name v" "plain_name c" "binaryCandidates goos (mfID m) = c # cs"
    and files: "lookup t (dir @ [name, ''current'']) = Some (File b)" "TrimSpace b = v"
      "lookup t (dir @ [name, ''versions'', v, manifestFile]) = Some (File raw)" "Parse_manifest decode raw = Inr m"
      "lookup t (dir @ [name, ''versions'', v, c]) = Some (File bin)"
  shows "wp (discover_one goos decode dir name)
    (\<lambda>r _. r = Inr (Some \<lparr>spManifest = m, spBinPath = dir @ [name, ''versions'', v, c],
       spConfig = (case read_tree (dir @ [name, ''versions'', v, ''config.json'']) t of Inl _ \<Rightarrow> [] | Inr cfg \<Rightarrow> cfg)\<rparr>)) d"
  using assms
  by (simp add: discover_one_def Load_manifest_def wp_simps wp_quiet_read read_tree_def stat_tree_def Let_def split: option.splits node.splits)


lemma discoverModules_current:
  assumes t: "quiet d" "is_dir (tree d) dir" "is_dir (tree d) (dir @ [name])"
    and names: "plain_name name" "plain_name v" "plain_name c" "binaryCandidates goos (mfID m) = c # cs"
    and files: "lookup (tree d) (dir @ [name, ''current'']) = Some (File b)" "TrimSpace b = v"
      "lookup (tree d) (dir @ [name, ''versions'', v, manifestFile]) = Some (File raw)" "Parse_manifest decode raw = Inr m"
      "lookup (tree d) (dir @ [name, ''versions'', v, c]) = Some (File bin)"
    and run: "run_state (discoverModules goos decode dir) d = (Inr specs, d')"
  shows "\<exists>sp \<in> set specs. spManifest sp = m \<and> spBinPath sp = dir @ [name, ''versions'', v, c]"
proof -
  let ?sp = "\<lparr>spManifest = m, spBinPath = dir @ [name, ''versions'', v, c],
       spConfig = (case read_tree (dir @ [name, ''versions'', v, ''config.json'']) (tree d) of Inl _ \<Rightarrow> [] | Inr cfg \<Rightarrow> cfg)\<rparr>"
  obtain es where es: "readdir_tree dir (tree d) = Inr es" "(name, True) \<in> set es"
    using t(2,3) set_dir_names [of name "tree d" dir] by (auto simp: readdir_tree_def is_dir_def)
  have one: "wp (discover_one goos decode dir name) (\<lambda>r _. r = Inr (Some ?sp)) d1" if "tree d1 = tree d" "quiet d1" for d1
    by (rule discover_one_current [OF that names files])
  have "wp (discoverModules goos decode dir) (\<lambda>r _. case r of Inl _ \<Rightarrow> True | Inr specs \<Rightarrow> ?sp \<in> set specs) d"
    unfolding discoverModules_def wp_bind using t(1) es
    by (simp add: wp_quiet_read discover_entries_complete [OF one es(2)])
  from wpD [OF this run] show ?thesis by force
qed


section \<open>Registration\<close>

lemma Add_new:
  "rgBase g \<Longrightarrow> map_of (rgRunners g) (mfID (spManifest sp)) = None \<Longrightarrow>
     map fst (rgRunners (snd (Add ss sp now g))) = map fst (rgRunners g) @ [mfID (spManifest sp)] \<and> rgBase (snd (Add ss sp now g))"
  by (simp add: Add_def Let_def)

text \<open>
  Every discovered module that supports the host is registered, exactly once and in order, and
  no other: on a registry with a base context and no runners of theirs, the modules that support the
  host are what registration adds.
\<close>

theorem register_specs_registers:
  assumes "rgBase g" "distinct (map (mfID \<circ> spManifest) specs)"
    and "list_all (\<lambda>sp. map_of (rgRunners g) (mfID (spManifest sp)) = None) specs"
  shows "map fst (rgRunners (register_specs ss goos goarch now specs g))
    = map fst (rgRunners g) @ map (mfID \<circ> spManifest) (filter (\<lambda>sp. SupportsHost (spManifest sp) goos goarch) specs)"
  using assms
proof (induction specs arbitrary: g)
  case (Cons sp specs)
  show ?case
  proof (cases "SupportsHost (spManifest sp) goos goarch")
    case True
    let ?g = "snd (Add ss sp now g)"
    have g: "map fst (rgRunners ?g) = map fst (rgRunners g) @ [mfID (spManifest sp)]" "rgBase ?g"
      using Add_new [of g sp ss now] Cons.prems by auto
    have "map_of (rgRunners ?g) (mfID (spManifest sp')) = None" if "sp' \<in> set specs" for sp'
    proof -
      have "mfID (spManifest sp') \<notin> set (map fst (rgRunners ?g))"
        unfolding g(1) using Cons.prems that by (auto simp: list_all_iff map_of_eq_None_iff image_iff)
      then show ?thesis by (simp add: map_of_eq_None_iff)
    qed
    then have "list_all (\<lambda>sp. map_of (rgRunners ?g) (mfID (spManifest sp)) = None) specs" by (simp add: list_all_iff)
    with Cons.IH [OF g(2)] Cons.prems(2) True g(1) show ?thesis by simp
  qed (use Cons in simp)
qed simp


section \<open>The readiness marker\<close>

lemma tmp_name_neq: "p \<noteq> [] \<Longrightarrow> tmp_name p \<noteq> p"
  by (metis append_butlast_last_id append_is_Nil_conv append_self_conv last_snoc list.distinct(1) tmp_name_def)

lemma wp_signalReady:
  assumes p: "p \<noteq> []"
  shows "wp (signalReady (Some p) v)
    (\<lambda>_ d'. (lookup (tree d') p = lookup (tree d) p \<or> lookup (tree d') p = Some (File (v @ newline)))
       \<and> (\<forall>q. q \<noteq> p \<longrightarrow> q \<noteq> tmp_name p \<longrightarrow> lookup (tree d') q = lookup (tree d) q)) d"
proof -
  note ne = tmp_name_neq [OF p]
  let ?ok = "\<lambda>d'. \<forall>q. q \<noteq> tmp_name p \<longrightarrow> lookup (tree d') q = lookup (tree d) q"
  let ?Q = "\<lambda>_ d'. (lookup (tree d') p = lookup (tree d) p \<or> lookup (tree d') p = Some (File (v @ newline)))
       \<and> (\<forall>q. q \<noteq> p \<longrightarrow> q \<noteq> tmp_name p \<longrightarrow> lookup (tree d') q = lookup (tree d) q)"
  have fail: "?Q () d'" if "?ok d'" for d' using that ne by auto
  have rename: "wp (Rename (tmp_name p) p) (\<lambda>r. wp (case r of
        Inl _ \<Rightarrow> do { _ \<leftarrow> Remove (tmp_name p); ret () } | Inr _ \<Rightarrow> ret ()) ?Q) d'"
    if d': "?ok d'" "lookup (tree d') (tmp_name p) = Some (File (v @ newline))" for d'
    by (rule wp_Rename; simp only: sum.case wp_bind wp_ret)
      (use d' ne in \<open>auto simp: rename_tree_def intro!: wp_Remove\<close>)
  show ?thesis unfolding signalReady_def option.case wp_bind [of "WriteFile _ _"]
    by (rule wp_WriteFile; simp only: sum.case wp_ret wp_bind [of "Rename _ _"])
      (use ne in \<open>auto intro!: rename\<close>)
qed

text \<open>
  The readiness marker is written whole or not at all, and weaveboot sees it. Whatever calls
  fail, after \<open>signalReady\<close> the marker holds what it held before or core's version, and no other file
  but the temporary one has changed; when none fails and the directory of the marker is there, the
  check of weaveboot that the core became ready succeeds.
\<close>

theorem ready_marker:
  assumes "p \<noteq> []" "run_state (signalReady (Some p) v) d = (u, d')"
  shows "(lookup (tree d') p = lookup (tree d) p \<or> lookup (tree d') p = Some (File (v @ newline)))
     \<and> (\<forall>q. q \<noteq> p \<longrightarrow> q \<noteq> tmp_name p \<longrightarrow> lookup (tree d') q = lookup (tree d) q)
     \<and> (quiet d \<longrightarrow> is_dir (tree d) (Dir p) \<longrightarrow> lookup (tree d) p \<noteq> Some Directory \<longrightarrow> lookup (tree d) (tmp_name p) \<noteq> Some Directory
          \<longrightarrow> fst (run_state (markerFresh p) d'))"
proof -
  have "fst (run_state (markerFresh p) d')"
    if q: "quiet d" "is_dir (tree d) (Dir p)" "lookup (tree d) p \<noteq> Some Directory" "lookup (tree d) (tmp_name p) \<noteq> Some Directory"
  proof -
    note ne = tmp_name_neq [OF assms(1)]
    have dir: "Dir (tmp_name p) = Dir p" "tmp_name p \<noteq> []" "tmp_name p \<noteq> Dir p"
      by (simp_all add: tmp_name_def Dir_def)
    have np: "\<not> prefix p (tmp_name p)" "\<not> prefix (tmp_name p) p"
    proof -
      have len: "length (tmp_name p) = length p" using assms(1) by (simp add: tmp_name_def)
      have "xs = ys" if "prefix xs ys" "length xs = length ys" for xs ys :: path using that by (auto simp: prefix_def)
      with len ne show "\<not> prefix p (tmp_name p)" "\<not> prefix (tmp_name p) p" by metis+
    qed
    let ?t = "set_node (tmp_name p) (File (v @ newline)) (tree d)"
    have "write_error (tmp_name p) (tree d) = None" using q dir by (simp add: write_error_def)
    moreover have "rename_error (tmp_name p) p ?t = None"
      using q dir ne np by (simp add: rename_error_def is_dir_def)
    ultimately have "wp (signalReady (Some p) v) (\<lambda>_ d'. wp (markerFresh p) (\<lambda>r _. r) d') d"
      using q(1) ne by (simp add: signalReady_def markerFresh_def wp_simps WriteFile_def wp_syscall wp_quiet_change wp_quiet_read stat_tree_def rename_tree_def)
    from wpD [OF this assms(2)] show ?thesis by (simp add: wp_def split: prod.splits)
  qed
  with wpD [OF wp_signalReady [OF assms(1)] assms(2)] show ?thesis by blast
qed

theorem ready_marker_witness:
  "fst (run_state (markerFresh [''core'', ''ready''])
     (snd (run_state (signalReady (Some [''core'', ''ready'']) ''1.0.0'') \<lparr>tree = [([''core''], Directory)], calls = 0, fault = (\<lambda>_. None)\<rparr>)))"
proof -
  let ?d = "\<lparr>tree = [([''core''], Directory)], calls = 0, fault = (\<lambda>_. None)\<rparr> :: disk"
  have "run_state (signalReady (Some [''core'', ''ready'']) ''1.0.0'') ?d = ((), snd (run_state (signalReady (Some [''core'', ''ready'']) ''1.0.0'') ?d))"
    by (simp add: prod_eq_iff)
  from ready_marker [OF _ this] show ?thesis by (simp add: quiet_def is_dir_def Dir_def tmp_name_def)
qed
end
