(* ===== verification/Keyprotect.thy ===== *)
theory Keyprotect
  imports Store
begin

text \<open>
  The protection of the master key of the store (\<open>src/internal/store/keyprotect\<close>): the interface
  \<open>Protector\<close>, the one of unix that keeps the key as it is, the one of Windows over DPAPI with an entropy made
  of the GUID of the machine; and the opening of the store with it (\<open>Open\<close> of
  \<open>src/internal/store/store.go\<close>). DPAPI, the registry, the cipher and the database are parameters.
\<close>

section \<open>Protectors\<close>

text \<open>The interface: what was sealed is unsealed. The keys of the store have 32 bytes.\<close>

definition masterKeySize :: nat where "masterKeySize = 32"

locale protector =
  fixes Seal :: "bytes \<Rightarrow> bytes option" and Unseal :: "bytes \<Rightarrow> bytes option"
  assumes unseal_seal: "length key = masterKeySize \<Longrightarrow> Seal key = Some sealed \<Longrightarrow> Unseal sealed = Some key"

definition file_Seal :: "bytes \<Rightarrow> bytes option" where "file_Seal key = Some key"
definition file_Unseal :: "bytes \<Rightarrow> bytes option" where "file_Unseal sealed = Some sealed"

text \<open>
  What Windows answers: the string values of a registry key, and the two calls of DPAPI on data and
  entropy, with the flags the code passes.
\<close>

record windows_crypt =
  wcRegistry :: "string \<Rightarrow> (string \<Rightarrow> string option) option"
  wcProtectData :: "bytes \<Rightarrow> bytes \<Rightarrow> bytes option"
  wcUnprotectData :: "bytes \<Rightarrow> bytes \<Rightarrow> bytes option"

definition cryptographyKey :: string where "cryptographyKey = ''SOFTWARE'' @ [CHR 0x5C] @ ''Microsoft'' @ [CHR 0x5C] @ ''Cryptography''"

datatype protect_error = OpenKeyFailed | ReadGuidFailed | EmptyInput | DPAPIFailed

definition machineEntropy :: "windows_crypt \<Rightarrow> (protect_error, bytes) result" where
  "machineEntropy w =
     (case wcRegistry w cryptographyKey of
        None \<Rightarrow> Inl OpenKeyFailed
      | Some k \<Rightarrow>
          (case k ''MachineGuid'' of
             None \<Rightarrow> Inl ReadGuidFailed
           | Some guid \<Rightarrow> Inr (''weave-store-v1:'' @ guid)))"

text \<open>A blob of DPAPI has its length in 32 bits.\<close>

definition integer_blob :: "bytes \<Rightarrow> bytes" where
  "integer_blob b = take (unat (of_nat (length b) :: uint32)) b"

definition dpapi :: "bytes \<Rightarrow> bytes \<Rightarrow> (bytes \<Rightarrow> bytes \<Rightarrow> bytes option) \<Rightarrow> (protect_error, bytes) result" where
  "dpapi d entropy op =
     (if length d = 0 then Inl EmptyInput
      else case op (integer_blob d) (integer_blob entropy) of
        None \<Rightarrow> Inl DPAPIFailed
      | Some out \<Rightarrow> Inr out)"

definition dpapi_Seal :: "windows_crypt \<Rightarrow> bytes \<Rightarrow> (protect_error, bytes) result" where
  "dpapi_Seal w key = bind_result (machineEntropy w) (\<lambda>ent. dpapi key ent (wcProtectData w))"

definition dpapi_Unseal :: "windows_crypt \<Rightarrow> bytes \<Rightarrow> (protect_error, bytes) result" where
  "dpapi_Unseal w sealed = bind_result (machineEntropy w) (\<lambda>ent. dpapi sealed ent (wcUnprotectData w))"

definition value_of :: "('e, 'a) result \<Rightarrow> 'a option" where
  "value_of r = (case r of Inl _ \<Rightarrow> None | Inr a \<Rightarrow> Some a)"

text \<open>The documented behaviour of DPAPI: what was protected comes back with the same entropy only.\<close>

definition dpapi_laws :: "windows_crypt \<Rightarrow> bool" where
  "dpapi_laws w = (\<forall>d ent b. wcProtectData w d ent = Some b \<longrightarrow>
     b \<noteq> [] \<and> length b < 2 ^ 32 \<and> wcUnprotectData w b ent = Some d
     \<and> (\<forall>ent'. ent' \<noteq> ent \<longrightarrow> wcUnprotectData w b ent' = None))"

lemma integer_blob_short: "length b < 2 ^ 32 \<Longrightarrow> integer_blob b = b"
  by (simp add: integer_blob_def unat_of_nat take_bit_nat_eq_self)

lemma value_of_Some [simp]: "value_of r = Some a \<longleftrightarrow> r = Inr a"
  by (cases r) (simp_all add: value_of_def)

lemma dpapi_sealed:
  assumes "dpapi_laws w" "length key = masterKeySize" "dpapi_Seal w key = Inr sealed"
  obtains ent where "machineEntropy w = Inr ent" "wcProtectData w key (integer_blob ent) = Some sealed"
    "sealed \<noteq> []" "integer_blob sealed = sealed"
proof -
  have key: "key \<noteq> []" "integer_blob key = key"
    using assms(2) by (auto simp: masterKeySize_def integer_blob_short)
  from assms(3) obtain ent where ent: "machineEntropy w = Inr ent" "dpapi key ent (wcProtectData w) = Inr sealed"
    by (auto simp: dpapi_Seal_def bind_result_Inr_iff)
  then have prot: "wcProtectData w key (integer_blob ent) = Some sealed"
    using key by (auto simp: dpapi_def split: if_splits option.splits)
  with assms(1) have "sealed \<noteq> []" "length sealed < 2 ^ 32" unfolding dpapi_laws_def by blast+
  with ent(1) prot show thesis by (auto intro: that simp: integer_blob_short)
qed

lemma dpapi_unseal_seal:
  assumes "dpapi_laws w" "length key = masterKeySize" "dpapi_Seal w key = Inr sealed"
  shows "dpapi_Unseal w sealed = Inr key"
proof -
  obtain ent where e: "machineEntropy w = Inr ent" "wcProtectData w key (integer_blob ent) = Some sealed"
    "sealed \<noteq> []" "integer_blob sealed = sealed" by (rule dpapi_sealed [OF assms])
  have "wcUnprotectData w sealed (integer_blob ent) = Some key" using assms(1) e(2) unfolding dpapi_laws_def by blast
  with e show ?thesis by (simp add: dpapi_Unseal_def dpapi_def)
qed

interpretation fileProtector: protector file_Seal file_Unseal
  by unfold_locales (simp add: file_Seal_def file_Unseal_def)

lemma dpapiProtector:
  "dpapi_laws w \<Longrightarrow> protector (\<lambda>key. value_of (dpapi_Seal w key)) (\<lambda>sealed. value_of (dpapi_Unseal w sealed))"
  by unfold_locales (simp add: dpapi_unseal_seal)


section \<open>Opening the store\<close>

text \<open>
  What \<open>Open\<close> gets from outside: the protector, the key that \<open>crypto/rand\<close> would give at this start, the
  cipher of a key, the database file with its lock, and the nonces that will be drawn.
\<close>

record 'db open_env =
  oeSeal :: "bytes \<Rightarrow> bytes option"
  oeUnseal :: "bytes \<Rightarrow> bytes option"
  oeRandomKey :: "bytes option"
  oeNewGCM :: "bytes \<Rightarrow> aead option"
  oeBolt :: "'db bolt"
  oeNonces :: "nat \<Rightarrow> bytes option"

datatype db_failure = DBTimeout | DBError string
datatype open_error = OpenKey key_failure | OpenCipher | OpenLocked | OpenDB string

definition key_params :: "'db open_env \<Rightarrow> key_env" where
  "key_params e = \<lparr>protSeal = oeSeal e, protUnseal = oeUnseal e, keyRandom = oeRandomKey e\<rparr>"

definition open_db :: "'db open_env \<Rightarrow> (db_failure, 'db) result \<Rightarrow> bytes \<Rightarrow> (open_error, 'db store_env \<times> 'db store) result" where
  "open_db e db key =
     (case oeNewGCM e key of
        None \<Rightarrow> Inl OpenCipher
      | Some a \<Rightarrow>
          (case db of
             Inl DBTimeout \<Rightarrow> Inl OpenLocked
           | Inl (DBError err) \<Rightarrow> Inl (OpenDB err)
           | Inr s \<Rightarrow> Inr (\<lparr>envBolt = oeBolt e, envAEAD = a, envCancelled = False\<rparr>,
                           \<lparr>storeDB = s, storeDraws = 0, storeRandom = oeNonces e\<rparr>)))"

definition Open_store :: "'db open_env \<Rightarrow> (db_failure, 'db) result \<Rightarrow> path
    \<Rightarrow> ('x disk_scheme, (open_error, 'db store_env \<times> 'db store) result) state" where
  "Open_store e db dir =
     then_ok (wrap_err OpenKey (loadOrCreateKey (key_params e) (dir @ [''store.key''])))
       (\<lambda>key. ret (open_db e db key))"

text \<open>Keys that are loaded or created have their size.\<close>

lemma loadOrCreateKey_length:
  assumes "\<And>key. keyRandom e = Some key \<Longrightarrow> length key = masterKeySize"
  shows "wp (loadOrCreateKey e p) (\<lambda>r _. \<forall>key. r = Inr key \<longrightarrow> length key = masterKeySize) d"
proof -
  have create: "wp (createKey e p) (\<lambda>r _. \<forall>key. r = Inr key \<longrightarrow> length key = masterKeySize) d" for d
    using assms by (auto simp: createKey_def wp_simps split: option.splits sum.splits intro!: wpI)
  show ?thesis
    unfolding loadOrCreateKey_def wp_bind
    by (rule wpI) (auto simp: wp_simps create [unfolded masterKeySize_def] masterKeySize_def split: sum.splits option.splits)
qed

text \<open>
  A start after the one that loaded or created the key: on the same machine it reads the same key, and
  where the key file does not unseal it reads none.
\<close>

context protector
begin

lemma key_file_after:
  assumes "\<And>new. keyRandom e = Some new \<Longrightarrow> length new = masterKeySize" "protSeal e = Seal" "protUnseal e = Unseal"
    and "run_state (loadOrCreateKey e (dir @ [''store.key''])) d = (Inr key, d')"
  obtains sealed where "lookup (tree d') (dir @ [''store.key'']) = Some (File sealed)" "Unseal sealed = Some key"
proof -
  have "wp (loadOrCreateKey e (dir @ [''store.key''])) (\<lambda>r d'. key_file_ok e (dir @ [''store.key'']) (tree d) r (tree d')) d"
    by (rule wp_loadOrCreateKey) (use assms unseal_seal in auto)
  from wpD [OF this assms(4)] show thesis using that assms(3) by (auto simp: key_file_ok_def)
qed

end

lemma loadOrCreateKey_reads:
  assumes "quiet d" "lookup (tree d) p = Some (File sealed)"
  shows "fst (run_state (loadOrCreateKey e p) d) = (case protUnseal e sealed of
      None \<Rightarrow> Inl UnsealFailed
    | Some key \<Rightarrow> if length key \<noteq> 32 then Inl WrongLength else Inr key)"
proof -
  have "wp (loadOrCreateKey e p) (\<lambda>r _. r = (case protUnseal e sealed of
      None \<Rightarrow> Inl UnsealFailed
    | Some key \<Rightarrow> if length key \<noteq> 32 then Inl WrongLength else Inr key)) d"
    by (simp add: loadOrCreateKey_def wp_simps wp_quiet_read [OF assms(1)] read_tree_def assms(2))
  from wpD [OF this prod.collapse [symmetric]] show ?thesis by simp
qed

lemma Open_store_Inr:
  assumes "run_state (Open_store e db dir) d = (Inr (env, s), d')"
  obtains key where "run_state (loadOrCreateKey (key_params e) (dir @ [''store.key''])) d = (Inr key, d')"
    "open_db e db key = Inr (env, s)"
  using assms by (auto simp: Open_store_def run_state_then_ok map_error_def split: sum.splits prod.splits)

lemma Open_store_from_key:
  assumes "fst (run_state (loadOrCreateKey (key_params e) (dir @ [''store.key''])) d) = r"
  shows "fst (run_state (Open_store e db dir) d) = (case r of Inl err \<Rightarrow> Inl (OpenKey err) | Inr key \<Rightarrow> open_db e db key)"
  using assms by (auto simp: Open_store_def run_state_then_ok map_error_def split: sum.splits prod.splits)


section \<open>Properties\<close>

text \<open>The store on a machine with DPAPI: the protector is the one of \<open>New\<close> on Windows.\<close>

definition windows_store :: "windows_crypt \<Rightarrow> 'db open_env \<Rightarrow> 'db open_env" where
  "windows_store w e = e\<lparr>oeSeal := \<lambda>key. value_of (dpapi_Seal w key), oeUnseal := \<lambda>sealed. value_of (dpapi_Unseal w sealed)\<rparr>"

definition unix_store :: "'db open_env \<Rightarrow> 'db open_env" where
  "unix_store e = e\<lparr>oeSeal := file_Seal, oeUnseal := file_Unseal\<rparr>"

lemma Store_Put_Get:
  assumes "bolt_laws (envBolt env)" "aead_laws (envAEAD env)" "store_inv env s" "Store_Put env m k v s = (Inr (), s')"
  shows "Store_Get env m k s' = Inr (Some v)"
proof -
  have "store_view env s' m k = Some v"
    using store_backend.put_ok [OF Store_backend [OF assms(1,2)] assms(3)] assms(4) by (simp add: Store_def)
  moreover have "\<not> envCancelled env" using assms(4) by (auto simp: Store_Put_def)
  ultimately show ?thesis by (simp add: Store_Get_def store_view_def split: option.splits sum.splits)
qed

text \<open>The random bytes of a later start: a key and nonces of their own.\<close>

definition new_draws :: "bytes option \<Rightarrow> (nat \<Rightarrow> bytes option) \<Rightarrow> 'db open_env \<Rightarrow> 'db open_env" where
  "new_draws rk ns e = e\<lparr>oeRandomKey := rk, oeNonces := ns\<rparr>"

text \<open>A store that was opened is opened again with the same key, whatever key would be drawn now.\<close>

lemma store_reopens:
  assumes prot: "protector (oeSeal e) (oeUnseal e)"
    and rand: "\<And>key. oeRandomKey e = Some key \<Longrightarrow> length key = masterKeySize"
    and first: "run_state (Open_store e db dir) d = (Inr (env, s), d')"
    and later: "quiet d2" "lookup (tree d2) (dir @ [''store.key'']) = lookup (tree d') (dir @ [''store.key''])"
  obtains key sealed where "open_db e db key = Inr (env, s)" "lookup (tree d') (dir @ [''store.key'']) = Some (File sealed)"
    "fst (run_state (Open_store (new_draws rk ns e) db2 dir) d2) = open_db (new_draws rk ns e) db2 key"
proof -
  obtain key where key: "run_state (loadOrCreateKey (key_params e) (dir @ [''store.key''])) d = (Inr key, d')"
    "open_db e db key = Inr (env, s)" by (rule Open_store_Inr [OF first])
  obtain sealed where stored: "lookup (tree d') (dir @ [''store.key'']) = Some (File sealed)" "oeUnseal e sealed = Some key"
    by (rule protector.key_file_after [OF prot _ _ _ key(1)]) (simp_all add: key_params_def rand)
  have len: "length key = 32"
    using wpD [OF loadOrCreateKey_length key(1)] rand by (auto simp: key_params_def masterKeySize_def)
  have "fst (run_state (loadOrCreateKey (key_params (new_draws rk ns e)) (dir @ [''store.key''])) d2) = Inr key"
    using loadOrCreateKey_reads [OF later(1), of "dir @ [''store.key'']" sealed "key_params (new_draws rk ns e)"] later(2) stored len
    by (simp add: key_params_def new_draws_def)
  from that [OF key(2) stored(1)] Open_store_from_key [OF this] show thesis by simp
qed

text \<open>The stores of all platforms under one condition: their protector keeps its law.\<close>

lemma protected_store_restarts:
  assumes prot: "protector (oeSeal e) (oeUnseal e)"
    and rand: "\<And>key. oeRandomKey e = Some key \<Longrightarrow> length key = masterKeySize"
    and laws: "bolt_laws (oeBolt e)" "\<And>key a. oeNewGCM e key = Some a \<Longrightarrow> aead_laws a"
    and first: "run_state (Open_store e (Inr db) dir) d = (Inr (env, s), d')" "store_inv env s"
    and put: "Store_Put env m k v s = (Inr (), s')"
    and later: "quiet d2" "lookup (tree d2) (dir @ [''store.key'']) = lookup (tree d') (dir @ [''store.key''])"
  shows "\<exists>env2 s2. fst (run_state (Open_store (new_draws rk ns e) (Inr (storeDB s')) dir) d2) = Inr (env2, s2)
    \<and> Store_Get env2 m k s2 = Inr (Some v)"
proof -
  obtain key where key: "open_db e (Inr db) key = Inr (env, s)"
      "fst (run_state (Open_store (new_draws rk ns e) (Inr (storeDB s')) dir) d2) = open_db (new_draws rk ns e) (Inr (storeDB s')) key"
    by (rule store_reopens [OF prot rand first(1) later])
  from key(1) obtain a where a: "oeNewGCM e key = Some a" "env = \<lparr>envBolt = oeBolt e, envAEAD = a, envCancelled = False\<rparr>"
    by (auto simp: open_db_def split: option.splits)
  have "Store_Get env m k s' = Inr (Some v)"
    by (rule Store_Put_Get [OF _ _ first(2) put]) (use laws a in auto)
  then show ?thesis using key(2) a by (auto simp: open_db_def new_draws_def Store_Get_def)
qed

text \<open>
  C32: the store survives a restart, on every platform. A value put into a store that was opened with the
  protector of unix, or with the one of Windows on a machine whose DPAPI keeps its promise, is there when the
  store is opened again over the same database and the same key file, whatever random key and nonces the later
  start would draw, also when the first \<open>Open\<close> had to create the key on a disk that fails at any call it likes.
\<close>

theorem store_survives_restart:
  assumes platform: "e = unix_store e0 \<or> (\<exists>w. dpapi_laws w \<and> e = windows_store w e0)"
    and rand: "\<And>key. oeRandomKey e0 = Some key \<Longrightarrow> length key = masterKeySize"
    and laws: "bolt_laws (oeBolt e0)" "\<And>key a. oeNewGCM e0 key = Some a \<Longrightarrow> aead_laws a"
    and first: "run_state (Open_store e (Inr db) dir) d = (Inr (env, s), d')" "store_inv env s"
    and put: "Store_Put env m k v s = (Inr (), s')"
    and later: "quiet d2" "lookup (tree d2) (dir @ [''store.key'']) = lookup (tree d') (dir @ [''store.key''])"
  shows "\<exists>env2 s2. fst (run_state (Open_store (new_draws rk ns e) (Inr (storeDB s')) dir) d2) = Inr (env2, s2)
    \<and> Store_Get env2 m k s2 = Inr (Some v)"
proof (rule protected_store_restarts [OF _ _ _ _ first put later])
  show "protector (oeSeal e) (oeUnseal e)"
    using platform dpapiProtector fileProtector.protector_axioms
    by (auto simp: unix_store_def windows_store_def)
qed (use platform rand laws in \<open>auto simp: unix_store_def windows_store_def\<close>)

text \<open>
  A stolen store does not open elsewhere. When a store was opened on one machine with Windows, then on
  a machine with another GUID, even one whose DPAPI has the same keys, opening it over the same key file fails
  at the key, whatever the database; so does it where the GUID cannot be read.
\<close>

theorem store_bound_to_machine:
  assumes "dpapi_laws w" "\<And>key. oeRandomKey e0 = Some key \<Longrightarrow> length key = masterKeySize"
    and first: "run_state (Open_store (windows_store w e0) db dir) d = (Inr (env, s), d')"
    and fresh: "lookup (tree d) (dir @ [''store.key'']) = None"
    and other: "machineEntropy w2 \<noteq> machineEntropy w" "wcUnprotectData w2 = wcUnprotectData w"
      "\<And>ent. machineEntropy w2 = Inr ent \<Longrightarrow> length ent < 2 ^ 32" "\<And>ent. machineEntropy w = Inr ent \<Longrightarrow> length ent < 2 ^ 32"
    and later: "quiet d2" "lookup (tree d2) (dir @ [''store.key'']) = lookup (tree d') (dir @ [''store.key''])"
  shows "fst (run_state (Open_store (windows_store w2 e0) db2 dir) d2) = Inl (OpenKey UnsealFailed)"
proof -
  let ?p = "dir @ [''store.key'']" and ?e = "key_params (windows_store w e0)"
  obtain key where key: "run_state (loadOrCreateKey ?e ?p) d = (Inr key, d')"
    by (rule Open_store_Inr [OF first])
  have prot: "protector (protSeal ?e) (protUnseal ?e)"
    using dpapiProtector [OF assms(1)] by (simp add: key_params_def windows_store_def)
  have "wp (loadOrCreateKey ?e ?p) (\<lambda>r d'. key_file_ok ?e ?p (tree d) r (tree d')) d"
    by (rule wp_loadOrCreateKey) (use assms(2) protector.unseal_seal [OF prot] in \<open>auto simp: key_params_def windows_store_def\<close>)
  from wpD [OF this key] fresh obtain k sealed where stored: "lookup (tree d') ?p = Some (File sealed)"
      "dpapi_Seal w k = Inr sealed" "dpapi_Unseal w sealed = Inr key"
    by (auto simp: key_file_ok_def key_params_def windows_store_def)
  obtain ent b where ent: "machineEntropy w = Inr ent" "wcProtectData w b ent = Some sealed"
    using stored(2) other(4) by (auto simp: dpapi_Seal_def bind_result_Inr_iff dpapi_def integer_blob_short split: if_splits option.splits)
  then have short: "length sealed < 2 ^ 32" and none: "\<And>ent'. ent' \<noteq> ent \<Longrightarrow> wcUnprotectData w sealed ent' = None"
    using assms(1) unfolding dpapi_laws_def by blast+
  have "value_of (dpapi_Unseal w2 sealed) = None"
  proof (cases "machineEntropy w2")
    case (Inr ent')
    with other ent(1) have "ent' \<noteq> ent" "integer_blob ent' = ent'" by (auto simp: integer_blob_short)
    with none Inr show ?thesis
      by (simp add: dpapi_Unseal_def dpapi_def integer_blob_short [OF short] other(2) value_of_def)
  qed (simp add: dpapi_Unseal_def value_of_def)
  then have "fst (run_state (loadOrCreateKey (key_params (windows_store w2 e0)) ?p) d2) = Inl UnsealFailed"
    using loadOrCreateKey_reads [OF later(1), of ?p sealed "key_params (windows_store w2 e0)"] later(2) stored(1)
    by (simp add: key_params_def windows_store_def)
  from Open_store_from_key [OF this] show ?thesis by simp
qed

text \<open>DPAPI that writes the entropy before the data, on machines named by their GUID.\<close>

definition ex_dpapi :: "string \<Rightarrow> windows_crypt" where
  "ex_dpapi guid = \<lparr>wcRegistry = (\<lambda>k. if k = cryptographyKey then Some (\<lambda>n. if n = ''MachineGuid'' then Some guid else None) else None),
     wcProtectData = (\<lambda>d ent. if length (ex_tag ent @ d) < 2 ^ 32 then Some (ex_tag ent @ d) else None),
     wcUnprotectData = (\<lambda>b ent. if prefix (ex_tag ent) b then Some (drop (length (ex_tag ent)) b) else None)\<rparr>"

lemma ex_dpapi_laws: "dpapi_laws (ex_dpapi guid)"
  using ex_tag_inj by (fastforce simp: dpapi_laws_def ex_dpapi_def ex_tag_def split: if_splits)

definition ex_open_env :: "mem_store open_env" where
  "ex_open_env = \<lparr>oeSeal = file_Seal, oeUnseal = file_Unseal, oeRandomKey = Some (replicate 32 CHR ''k''),
     oeNewGCM = (\<lambda>key. if length key = 32 then Some ex_aead else None), oeBolt = ex_bolt,
     oeNonces = (\<lambda>_. Some (replicate 12 CHR ''n''))\<rparr>"

definition ex_open_disk :: disk where
  "ex_open_disk = \<lparr>tree = [([], Directory)], calls = 0, fault = (\<lambda>_. None)\<rparr>"

definition ex_windows_open :: "(open_error, mem_store store_env \<times> mem_store store) result \<times> disk" where
  "ex_windows_open = run_state (Open_store (windows_store (ex_dpapi ''A'') ex_open_env) (Inr []) []) ex_open_disk"

definition ex_later_disk :: disk where
  "ex_later_disk = \<lparr>tree = tree (snd ex_windows_open), calls = 0, fault = (\<lambda>_. None)\<rparr>"

definition ex_opened :: "mem_store store_env \<times> mem_store store" where
  "ex_opened = (case fst ex_windows_open of Inr x \<Rightarrow> x | Inl _ \<Rightarrow> (ex_store_env, ex_store))"

lemma ex_open_ok:
  "run_state (Open_store (windows_store (ex_dpapi ''A'') ex_open_env) (Inr []) []) ex_open_disk
    = (Inr (fst ex_opened, snd ex_opened), snd ex_windows_open)"
proof -
  have "is_ok (fst ex_windows_open)" by code_simp
  then show ?thesis unfolding ex_windows_open_def [symmetric]
    by (simp add: ex_opened_def is_ok_def prod_eq_iff split: sum.splits)
qed

lemma ex_opened_inv: "store_inv (fst ex_opened) (snd ex_opened)"
proof -
  have "open_db (windows_store (ex_dpapi ''A'') ex_open_env) (Inr []) k = Inr (env, s) \<Longrightarrow> store_inv env s" for k env s
    by (auto simp: open_db_def windows_store_def ex_open_env_def store_inv_def aeadNonceSize_def ex_bolt_def mem_view_def
        split: if_splits)
  then show ?thesis using Open_store_Inr [OF ex_open_ok] by (metis)
qed

theorem store_survives_restart_witness:
  "\<exists>env2 s2. fst (run_state (Open_store (new_draws (Some (replicate 32 CHR ''z'')) (\<lambda>_. Some (replicate 12 CHR ''y'')) (windows_store (ex_dpapi ''A'') ex_open_env))
        (Inr (storeDB (snd (Store_Put (fst ex_opened) ''sysinfo'' ''k'' ''v'' (snd ex_opened))))) []) ex_later_disk)
      = Inr (env2, s2) \<and> Store_Get env2 ''sysinfo'' ''k'' s2 = Inr (Some ''v'')"
proof (rule store_survives_restart [OF _ _ _ _ ex_open_ok ex_opened_inv])
  show "windows_store (ex_dpapi ''A'') ex_open_env = unix_store ex_open_env
      \<or> (\<exists>w. dpapi_laws w \<and> windows_store (ex_dpapi ''A'') ex_open_env = windows_store w ex_open_env)"
    using ex_dpapi_laws by blast
  show "Store_Put (fst ex_opened) ''sysinfo'' ''k'' ''v'' (snd ex_opened)
      = (Inr (), snd (Store_Put (fst ex_opened) ''sysinfo'' ''k'' ''v'' (snd ex_opened)))"
  proof -
    have "is_ok (fst (Store_Put (fst ex_opened) ''sysinfo'' ''k'' ''v'' (snd ex_opened)))" by code_simp
    then show ?thesis by (cases "Store_Put (fst ex_opened) ''sysinfo'' ''k'' ''v'' (snd ex_opened)") (auto simp: is_ok_iff)
  qed
  show "quiet ex_later_disk" by (simp add: quiet_def ex_later_disk_def)
qed (auto simp: ex_later_disk_def ex_open_env_def masterKeySize_def aeadNonceSize_def ex_bolt_laws ex_aead_laws split: if_splits)

theorem store_bound_to_machine_witness:
  "fst (run_state (Open_store (windows_store (ex_dpapi ''B'') ex_open_env) (Inr []) []) ex_later_disk)
     = Inl (OpenKey UnsealFailed)"
proof (rule store_bound_to_machine [OF ex_dpapi_laws _ ex_open_ok])
  show "machineEntropy (ex_dpapi ''B'') \<noteq> machineEntropy (ex_dpapi ''A'')" by code_simp
  show "length ent < 2 ^ 32" if "machineEntropy (ex_dpapi ''B'') = Inr ent" for ent
    using that by (auto simp: machineEntropy_def ex_dpapi_def)
  show "length ent < 2 ^ 32" if "machineEntropy (ex_dpapi ''A'') = Inr ent" for ent
    using that by (auto simp: machineEntropy_def ex_dpapi_def)
  show "quiet ex_later_disk" by (simp add: quiet_def ex_later_disk_def)
qed (auto simp: ex_later_disk_def ex_open_env_def masterKeySize_def ex_dpapi_def ex_open_disk_def)

end
