(* ===== verification/Identity.thy ===== *)
theory Identity
  imports Policy
begin

text \<open>
  The identity of the device (\<open>src/internal/identity/identity.go\<close>): loading or creating the key,
  the enrolment handshake with the checks on its transport and on the assignment the server signs,
  and the queries the host services answer from it. ed25519, base64, JSON, \<open>url.Parse\<close> and the
  HTTP replies are parameters.
\<close>

section \<open>State\<close>

definition storeNamespace :: string where "storeNamespace = ''core.identity''"
definition stateKey :: string where "stateKey = ''state''"

record enrolmentState =
  esDeviceID :: string
  esTenant :: string
  esPrivateKey :: string

record 'st provider =
  ipStore :: 'st
  ipEnrollURL :: string
  ipServerPub :: bytes
  ipAllowInsecure :: bool
  ipPriv :: bytes
  ipDeviceID :: string
  ipTenant :: string
  ipEphemeral :: string

text \<open>The reply of the enrolment server, and what its signed assignment binds.\<close>

record enrol_reply =
  erDeviceID :: string
  erTenant :: string
  erAssignment :: string
  erAssignmentSig :: string

record 'st identity_env =
  ieBackend :: "'st backend"
  ieEncode64 :: "bytes \<Rightarrow> string"
  ieDecode64 :: "string \<Rightarrow> bytes option"
  ieVerify :: "bytes \<Rightarrow> bytes \<Rightarrow> bytes \<Rightarrow> bool"
  ieSign :: "bytes \<Rightarrow> bytes \<Rightarrow> bytes"
  iePublic :: "bytes \<Rightarrow> bytes"
  ieScheme :: "string \<Rightarrow> string option"
  ieEncodeState :: "enrolmentState \<Rightarrow> bytes option"
  ieDecodeState :: "bytes \<Rightarrow> enrolmentState option"
  ieDecodeNonce :: "bytes \<Rightarrow> string option"
  ieEncodeEnrol :: "string \<Rightarrow> string \<Rightarrow> string \<Rightarrow> bytes option"
  ieDecodeReply :: "bytes \<Rightarrow> enrol_reply option"
  ieDecodeAssignment :: "bytes \<Rightarrow> (string \<times> string) option"

definition ed25519_PrivateKeySize :: nat where "ed25519_PrivateKeySize = 64"
definition ed25519_SignatureSize :: nat where "ed25519_SignatureSize = 64"
definition enrolLimit :: nat where "enrolLimit = 2 ^ 20"

datatype identity_error =
    StoreFailed string | KeyFailed | MarshalFailed
  | BadURL | NotHTTPS string | NoServerKey
  | ChallengeFailed | ChallengeStatus int | MalformedChallenge | NonceInvalid
  | EnrolFailed | EnrolStatus int | EnrolBody | MalformedReply
  | AssignmentNotBase64 | AssignmentSigInvalid | NotSigned | AssignmentUnparseable | AssignmentMismatch
  | NoCredentials


section \<open>Operations\<close>

definition saveLocked :: "'st identity_env \<Rightarrow> 'st provider \<Rightarrow> (identity_error, unit) result \<times> 'st provider" where
  "saveLocked e p =
     (case ieEncodeState e \<lparr>esDeviceID = ipDeviceID p, esTenant = ipTenant p, esPrivateKey = ieEncode64 e (ipPriv p)\<rparr> of
        None \<Rightarrow> (Inl MarshalFailed, p)
      | Some raw \<Rightarrow>
          (case bePut (ieBackend e) storeNamespace stateKey raw (ipStore p) of
             (Inl err, st) \<Rightarrow> (Inl (StoreFailed err), p\<lparr>ipStore := st\<rparr>)
           | (Inr _, st) \<Rightarrow> (Inr (), p\<lparr>ipStore := st\<rparr>)))"

text \<open>What \<open>Init\<close> accepts as prior state: it decodes and the key has its length.\<close>

definition usable_state :: "'st identity_env \<Rightarrow> bytes \<Rightarrow> (enrolmentState \<times> bytes) option" where
  "usable_state e raw =
     (case ieDecodeState e raw of
        None \<Rightarrow> None
      | Some st \<Rightarrow>
          (case ieDecode64 e (esPrivateKey st) of
             None \<Rightarrow> None
           | Some key \<Rightarrow> if length key = ed25519_PrivateKeySize then Some (st, key) else None))"

definition create_identity ::
    "'st identity_env \<Rightarrow> bytes option \<Rightarrow> 'st provider \<Rightarrow> (identity_error, unit) result \<times> 'st provider" where
  "create_identity e newKey p =
     (case newKey of
        None \<Rightarrow> (Inl KeyFailed, p)
      | Some priv \<Rightarrow> saveLocked e (p\<lparr>ipPriv := priv\<rparr>))"

definition Init ::
    "'st identity_env \<Rightarrow> string \<Rightarrow> bytes option \<Rightarrow> 'st provider \<Rightarrow> (identity_error, unit) result \<times> 'st provider" where
  "Init e draw newKey p0 =
     (let p = p0\<lparr>ipEphemeral := ''ephemeral-'' @ draw\<rparr>
      in case beGet (ieBackend e) storeNamespace stateKey (ipStore p) of
           Inl err \<Rightarrow> (Inl (StoreFailed err), p)
         | Inr None \<Rightarrow> create_identity e newKey p
         | Inr (Some raw) \<Rightarrow>
             (case usable_state e raw of
                Some (st, key) \<Rightarrow> (Inr (), p\<lparr>ipPriv := key, ipDeviceID := esDeviceID st, ipTenant := esTenant st\<rparr>)
              | None \<Rightarrow> create_identity e newKey p))"

definition checkEnrolTransport :: "'st identity_env \<Rightarrow> 'st provider \<Rightarrow> (identity_error, unit) result" where
  "checkEnrolTransport e p =
     (case ieScheme e (ipEnrollURL p) of
        None \<Rightarrow> Inl BadURL
      | Some scheme \<Rightarrow>
          if scheme \<noteq> ''https'' \<and> \<not> ipAllowInsecure p then Inl (NotHTTPS scheme)
          else if ipServerPub p = [] \<and> \<not> ipAllowInsecure p then Inl NoServerKey
          else Inr ())"

definition verifyAssignment ::
    "'st identity_env \<Rightarrow> string \<Rightarrow> string \<Rightarrow> string \<Rightarrow> string \<Rightarrow> 'st provider \<Rightarrow> (identity_error, unit) result" where
  "verifyAssignment e deviceID tenant assignmentB64 sigB64 p =
     (if ipServerPub p = [] then (if ipAllowInsecure p then Inr () else Inl NoServerKey)
      else case ieDecode64 e assignmentB64 of
        None \<Rightarrow> Inl AssignmentNotBase64
      | Some assignment \<Rightarrow>
          (case ieDecode64 e sigB64 of
             None \<Rightarrow> Inl AssignmentSigInvalid
           | Some sig \<Rightarrow>
               if length sig \<noteq> ed25519_SignatureSize then Inl AssignmentSigInvalid
               else if \<not> ieVerify e (ipServerPub p) assignment sig then Inl NotSigned
               else (case ieDecodeAssignment e assignment of
                   None \<Rightarrow> Inl AssignmentUnparseable
                 | Some (dev, ten) \<Rightarrow>
                     if dev \<noteq> deviceID \<or> ten \<noteq> tenant then Inl AssignmentMismatch else Inr ())))"

text \<open>The three parts of \<open>Enroll\<close>: the challenge, the request and its reply.\<close>

definition challenge_nonce :: "'st identity_env \<Rightarrow> http_reply \<Rightarrow> (identity_error, string \<times> bytes) result" where
  "challenge_nonce e reply =
     (case reply of
        NoReply \<Rightarrow> Inl ChallengeFailed
      | Reply status body \<Rightarrow>
          if status \<noteq> 200 then Inl (ChallengeStatus status)
          else (case body of
              None \<Rightarrow> Inl MalformedChallenge
            | Some b \<Rightarrow>
                (case ieDecodeNonce e (take enrolLimit b) of
                   None \<Rightarrow> Inl MalformedChallenge
                 | Some nonce \<Rightarrow>
                     if nonce = [] then Inl MalformedChallenge
                     else (case ieDecode64 e nonce of
                         None \<Rightarrow> Inl NonceInvalid
                       | Some nb \<Rightarrow> if length nb < 16 then Inl NonceInvalid else Inr (nonce, nb)))))"

definition enrol_request :: "'st identity_env \<Rightarrow> bytes \<Rightarrow> string \<Rightarrow> bytes \<Rightarrow> bytes option" where
  "enrol_request e priv nonce nonceBytes =
     ieEncodeEnrol e (ieEncode64 e (iePublic e priv)) nonce (ieEncode64 e (ieSign e priv nonceBytes))"

definition enrol_answer :: "'st identity_env \<Rightarrow> http_reply \<Rightarrow> (identity_error, enrol_reply) result" where
  "enrol_answer e reply =
     (case reply of
        NoReply \<Rightarrow> Inl EnrolFailed
      | Reply status body \<Rightarrow>
          if status \<noteq> 200 then Inl (EnrolStatus status)
          else (case body of
              None \<Rightarrow> Inl EnrolBody
            | Some b \<Rightarrow>
                (case ieDecodeReply e (take enrolLimit b) of
                   None \<Rightarrow> Inl MalformedReply
                 | Some out \<Rightarrow> if erDeviceID out = [] then Inl MalformedReply else Inr out)))"

text \<open>The server is a function of the request it gets.\<close>

definition Enroll ::
    "'st identity_env \<Rightarrow> http_reply \<Rightarrow> (bytes \<Rightarrow> http_reply) \<Rightarrow> 'st provider
      \<Rightarrow> (identity_error, unit) result \<times> 'st provider" where
  "Enroll e challenge server p =
     (if ipDeviceID p \<noteq> [] \<or> ipEnrollURL p = [] then (Inr (), p)
      else case checkEnrolTransport e p of
        Inl err \<Rightarrow> (Inl err, p)
      | Inr _ \<Rightarrow>
          (case challenge_nonce e challenge of
             Inl err \<Rightarrow> (Inl err, p)
           | Inr (nonce, nb) \<Rightarrow>
               (case enrol_request e (ipPriv p) nonce nb of
                  None \<Rightarrow> (Inl MarshalFailed, p)
                | Some body \<Rightarrow>
                    (case enrol_answer e (server body) of
                       Inl err \<Rightarrow> (Inl err, p)
                     | Inr out \<Rightarrow>
                         (case verifyAssignment e (erDeviceID out) (erTenant out) (erAssignment out) (erAssignmentSig out) p of
                            Inl err \<Rightarrow> (Inl err, p)
                          | Inr _ \<Rightarrow>
                              saveLocked e (p\<lparr>ipDeviceID := erDeviceID out, ipTenant := erTenant out\<rparr>))))))"

definition WhoAmI :: "'st provider \<Rightarrow> string \<times> bool \<times> string" where
  "WhoAmI p = (if ipDeviceID p \<noteq> [] then (ipDeviceID p, False, ipTenant p) else (ipEphemeral p, True, []))"

definition Credential :: "string \<Rightarrow> string list \<Rightarrow> (identity_error, string \<times> int \<times> string list) result" where
  "Credential m scopes = Inl NoCredentials"

definition Enrolled :: "'st provider \<Rightarrow> bool" where
  "Enrolled p = (ipDeviceID p \<noteq> [])"


section \<open>Properties\<close>

lemma saveLocked_fields:
  "saveLocked e p = (r, p') \<Longrightarrow> p' = p\<lparr>ipStore := ipStore p'\<rparr>"
  by (auto simp: saveLocked_def split: option.splits prod.splits sum.splits)

lemma verifyAssignment_ok:
  assumes "verifyAssignment e dev ten a s p = Inr ()" "ipServerPub p \<noteq> []"
  obtains msg sig where "ieVerify e (ipServerPub p) msg sig" "ieDecodeAssignment e msg = Some (dev, ten)"
  using assms by (auto simp: verifyAssignment_def split: option.splits if_splits)

text \<open>
  C23: a release build enrols only with the pinned server. When the device id changes in \<open>Enroll\<close>, the
  device was not enrolled before, the endpoint is https, and an assignment the holder of the pinned
  key signed binds exactly this device id and this tenant; this holds also when storing the result
  fails afterwards.
\<close>

theorem enrol_authentic:
  assumes "\<And>msg sig. ieVerify e (ipServerPub p) msg sig \<Longrightarrow> msg \<in> issued" "\<not> ipAllowInsecure p"
    and "Enroll e challenge server p = (r, p')" "ipDeviceID p' \<noteq> ipDeviceID p"
  shows "ipDeviceID p = [] \<and> ieScheme e (ipEnrollURL p) = Some ''https''
    \<and> (\<exists>msg \<in> issued. ieDecodeAssignment e msg = Some (ipDeviceID p', ipTenant p'))"
proof -
  from assms(3,4) obtain out :: enrol_reply where new: "ipDeviceID p = []" "checkEnrolTransport e p = Inr ()"
    and ver: "verifyAssignment e (erDeviceID out) (erTenant out) (erAssignment out) (erAssignmentSig out) p = Inr ()"
    and save: "saveLocked e (p\<lparr>ipDeviceID := erDeviceID out, ipTenant := erTenant out\<rparr>) = (r, p')"
    by (auto simp: Enroll_def split: if_splits option.splits sum.splits prod.splits)
  from new(2) assms(2) have https: "ieScheme e (ipEnrollURL p) = Some ''https''" "ipServerPub p \<noteq> []"
    by (auto simp: checkEnrolTransport_def split: option.splits if_splits)
  have "ipDeviceID p' = erDeviceID out" "ipTenant p' = erTenant out"
    by (subst saveLocked_fields [OF save], simp)+
  moreover obtain msg sig where "ieVerify e (ipServerPub p) msg sig"
      "ieDecodeAssignment e msg = Some (erDeviceID out, erTenant out)"
    by (rule verifyAssignment_ok [OF ver https(2)])
  ultimately show ?thesis using new https assms(1) by auto
qed

definition ex_identity_env :: "mem_store identity_env" where
  "ex_identity_env = \<lparr>ieBackend = MemStore, ieEncode64 = (\<lambda>b. b), ieDecode64 = Some,
     ieVerify = (\<lambda>pub msg sig. pub = ''pinned'' \<and> msg = ''assigned''), ieSign = (\<lambda>_ m. m), iePublic = (\<lambda>k. k),
     ieScheme = (\<lambda>_. Some ''https''), ieEncodeState = (\<lambda>st. Some (esPrivateKey st)),
     ieDecodeState = (\<lambda>raw. Some \<lparr>esDeviceID = ''dev'', esTenant = ''t'', esPrivateKey = raw\<rparr>),
     ieDecodeNonce = Some, ieEncodeEnrol = (\<lambda>_ n _. Some n),
     ieDecodeReply = (\<lambda>_. Some \<lparr>erDeviceID = ''dev'', erTenant = ''t'', erAssignment = ''assigned'',
        erAssignmentSig = replicate 64 CHR ''s''\<rparr>),
     ieDecodeAssignment = (\<lambda>_. Some (''dev'', ''t''))\<rparr>"

definition ex_provider :: "mem_store provider" where
  "ex_provider = \<lparr>ipStore = [], ipEnrollURL = ''https://gate'', ipServerPub = ''pinned'', ipAllowInsecure = False,
     ipPriv = replicate 64 CHR ''k'', ipDeviceID = [], ipTenant = [], ipEphemeral = []\<rparr>"

definition ex_enrolled :: "mem_store provider" where
  "ex_enrolled = snd (Enroll ex_identity_env (Reply 200 (Some (replicate 16 CHR ''n''))) (\<lambda>b. Reply 200 (Some b)) ex_provider)"

lemma ex_enrolled_id: "ipDeviceID ex_enrolled = ''dev''" by code_simp

theorem enrol_authentic_witness:
  "ieScheme ex_identity_env (ipEnrollURL ex_provider) = Some ''https''
   \<and> (\<exists>msg \<in> {''assigned''}. ieDecodeAssignment ex_identity_env msg = Some (ipDeviceID ex_enrolled, ipTenant ex_enrolled))"
  by (rule enrol_authentic [OF _ _ prod.collapse [symmetric], of ex_identity_env ex_provider _
        "Reply 200 (Some (replicate 16 CHR ''n''))" "\<lambda>b. Reply 200 (Some b)", folded ex_enrolled_def, THEN conjunct2])
    (simp_all add: ex_enrolled_id, simp_all add: ex_identity_env_def ex_provider_def)

text \<open>
  An identity survives a restart: when an enrolment was stored, a provider that starts on the
  same store has the same key, device id and tenant.
\<close>

theorem identity_survives_restart:
  assumes "store_backend (ieBackend e) ok view" "ok (ipStore p)" "saveLocked e p = (Inr (), p')"
    and "length (ipPriv p) = ed25519_PrivateKeySize" "ieDecode64 e (ieEncode64 e (ipPriv p)) = Some (ipPriv p)"
    and "\<And>st raw. ieEncodeState e st = Some raw \<Longrightarrow> ieDecodeState e raw = Some st"
    and "beGet (ieBackend e) storeNamespace stateKey (ipStore p') = Inr found" "ipStore fresh = ipStore p'"
  shows "\<exists>q. Init e draw newKey fresh = (Inr (), q)
    \<and> ipPriv q = ipPriv p \<and> ipDeviceID q = ipDeviceID p \<and> ipTenant q = ipTenant p"
proof -
  let ?st = "\<lparr>esDeviceID = ipDeviceID p, esTenant = ipTenant p, esPrivateKey = ieEncode64 e (ipPriv p)\<rparr>"
  from assms(3) obtain raw where raw: "ieEncodeState e ?st = Some raw"
      "bePut (ieBackend e) storeNamespace stateKey raw (ipStore p) = (Inr (), ipStore p')"
    by (auto simp: saveLocked_def split: option.splits prod.splits sum.splits)
  have "found = Some raw"
    using store_backend.get_after_put [OF assms(1,2) raw(2) assms(7)] by simp
  with assms(4-8) raw(1) show ?thesis by (simp add: Init_def Let_def usable_state_def)
qed

text \<open>A codec that holds the three fields, separated by their lengths in unary.\<close>

definition ex_field :: "string \<Rightarrow> string" where
  "ex_field s = replicate (length s) CHR ''1'' @ ''0'' @ s"

definition ex_unfield :: "string \<Rightarrow> string \<times> string" where
  "ex_unfield s =
     (let n = length (takeWhile (\<lambda>c. c = CHR ''1'') s); t = drop (Suc n) s in (take n t, drop n t))"

lemma ex_unfield_field: "ex_unfield (ex_field s @ t) = (s, t)"
proof -
  have "takeWhile (\<lambda>c. c = CHR ''1'') (replicate n CHR ''1'' @ CHR ''0'' # u) = replicate n CHR ''1''" for n u
    by (induction n) simp_all
  then show ?thesis by (simp add: ex_unfield_def ex_field_def Let_def)
qed

definition ex_state_env :: "mem_store identity_env" where
  "ex_state_env = ex_identity_env\<lparr>
     ieEncodeState := (\<lambda>st. Some (ex_field (esDeviceID st) @ ex_field (esTenant st) @ ex_field (esPrivateKey st))),
     ieDecodeState := (\<lambda>raw. case ex_unfield raw of (dev, r) \<Rightarrow> case ex_unfield r of (ten, r') \<Rightarrow>
        case ex_unfield r' of (key, _) \<Rightarrow> Some \<lparr>esDeviceID = dev, esTenant = ten, esPrivateKey = key\<rparr>)\<rparr>"

lemma ex_state_codec: "ieEncodeState ex_state_env st = Some raw \<Longrightarrow> ieDecodeState ex_state_env raw = Some st"
  using ex_unfield_field [of _ "[]"] by (auto simp: ex_state_env_def ex_unfield_field)

theorem identity_survives_restart_witness:
  "\<exists>q. Init ex_state_env ''00'' None (ex_provider\<lparr>ipStore := ipStore (snd (saveLocked ex_state_env ex_enrolled))\<rparr>) = (Inr (), q)
    \<and> ipPriv q = ipPriv ex_enrolled \<and> ipDeviceID q = ipDeviceID ex_enrolled \<and> ipTenant q = ipTenant ex_enrolled"
proof (rule identity_survives_restart)
  show "store_backend (ieBackend ex_state_env) mem_inv mem_view"
    using mem.store_backend_axioms by (simp add: ex_state_env_def ex_identity_env_def)
  show "mem_inv (ipStore ex_enrolled)" by code_simp
  show "saveLocked ex_state_env ex_enrolled = (Inr (), snd (saveLocked ex_state_env ex_enrolled))"
    by (simp add: saveLocked_def ex_state_env_def ex_identity_env_def MemStore_def mem_Put_def)
  show "length (ipPriv ex_enrolled) = ed25519_PrivateKeySize" by code_simp
  show "beGet (ieBackend ex_state_env) storeNamespace stateKey (ipStore (snd (saveLocked ex_state_env ex_enrolled)))
      = Inr (map_of (ipStore (snd (saveLocked ex_state_env ex_enrolled))) (storeNamespace, stateKey))"
    by (simp add: ex_state_env_def ex_identity_env_def MemStore_def mem_Get_def)
qed (use ex_state_codec in \<open>simp_all add: ex_state_env_def ex_identity_env_def\<close>)

end
