(* ===== verification/Hvchannel.thy ===== *)
theory Hvchannel
  imports Manifest
begin

text \<open>
  The hypervisor channel: framing and addressing (\<open>src/sdk/hvchannel/hvchannel.go\<close>), the
  challenge-response of \<open>src/sdk/hvchannel/auth.go\<close>, and the guest end of the wire
  (\<open>src/internal/transport/hypervisor.go\<close>, \<open>hypervisor_auth.go\<close>). A stream is the byte
  string that is still to be read before it ends. Ed25519 and JSON are parameters.
\<close>

section \<open>Frames\<close>

definition MaxFrameSize :: nat where "MaxFrameSize = 512 * 2 ^ 20"

definition byte :: "nat \<Rightarrow> char" where "byte n = char_of (n mod 256)"

definition PutUint32 :: "nat \<Rightarrow> bytes" where
  "PutUint32 n = [byte (n div 2 ^ 24), byte (n div 2 ^ 16), byte (n div 2 ^ 8), byte n]"

definition Uint32 :: "bytes \<Rightarrow> nat" where
  "Uint32 hdr = foldl (\<lambda>acc c. 256 * acc + of_char c) 0 hdr"

datatype frame_error = FrameTooLarge nat | EOF | ErrUnexpectedEOF

definition WriteFrame :: "bytes \<Rightarrow> (frame_error, bytes) result" where
  "WriteFrame payload =
     (if length payload > MaxFrameSize then Inl (FrameTooLarge (length payload))
      else Inr (PutUint32 (length payload) @ payload))"

text \<open>
  \<open>io.ReadFull\<close> of \<open>n\<close> bytes: \<open>EOF\<close> when the stream ends before the first byte of a
  non-empty read, \<open>ErrUnexpectedEOF\<close> when it ends later.
\<close>

definition ReadFull :: "nat \<Rightarrow> bytes \<Rightarrow> (frame_error, bytes \<times> bytes) result" where
  "ReadFull n s =
     (if n \<le> length s then Inr (take n s, drop n s)
      else if s = [] then Inl EOF else Inl ErrUnexpectedEOF)"

definition ReadFrame :: "bytes \<Rightarrow> (frame_error, bytes \<times> bytes) result" where
  "ReadFrame s =
     bind_result (ReadFull 4 s) (\<lambda>(hdr, rest).
       let n = Uint32 hdr in
       if n > MaxFrameSize then Inl (FrameTooLarge n) else ReadFull n rest)"

text \<open>Reading frames until the stream ends or fails.\<close>

lemma ReadFrame_shorter: "ReadFrame s = Inr (p, rest) \<Longrightarrow> length rest < length s"
  by (auto simp: ReadFrame_def ReadFull_def bind_result_Inr_iff Let_def split: if_splits)

function read_frames :: "bytes \<Rightarrow> bytes list \<times> frame_error" where
  "read_frames s =
     (case ReadFrame s of
        Inl e \<Rightarrow> ([], e)
      | Inr (p, rest) \<Rightarrow> (case read_frames rest of (ps, e) \<Rightarrow> (p # ps, e)))"
  by pat_completeness auto
termination by (relation "measure length") (auto simp: ReadFrame_shorter)

declare read_frames.simps [simp del]


section \<open>Envelopes\<close>

record envelope =
  envModule :: string
  envKind :: string
  envData :: bytes

text \<open>The errors of the JSON decoder: the two the read loop recognises, and the others.\<close>

datatype json_error = SyntaxError | UnmarshalTypeError | OtherJsonError

record envelope_codec =
  encodeEnvelope :: "envelope \<Rightarrow> bytes"
  decodeEnvelope :: "bytes \<Rightarrow> (json_error, envelope) result"

datatype envelope_error = FrameError frame_error | DecodeError json_error

definition WriteEnvelope :: "envelope_codec \<Rightarrow> envelope \<Rightarrow> (frame_error, bytes) result" where
  "WriteEnvelope codec env = WriteFrame (encodeEnvelope codec env)"

text \<open>What \<open>ReadEnvelope\<close> returns, with the stream that remains when the frame was read.\<close>

definition ReadEnvelope :: "envelope_codec \<Rightarrow> bytes \<Rightarrow> (envelope_error, envelope) result \<times> bytes" where
  "ReadEnvelope codec s =
     (case ReadFrame s of
        Inl e \<Rightarrow> (Inl (FrameError e), s)
      | Inr (payload, rest) \<Rightarrow> (map_error DecodeError (decodeEnvelope codec payload), rest))"

definition isFrameDecodeError :: "envelope_error \<Rightarrow> bool" where
  "isFrameDecodeError e = (e = DecodeError SyntaxError \<or> e = DecodeError UnmarshalTypeError)"


section \<open>Authentication\<close>

definition KindAuthBegin :: string where "KindAuthBegin = ''auth.begin''"
definition KindAuthChallenge :: string where "KindAuthChallenge = ''auth.challenge''"
definition KindAuthResponse :: string where "KindAuthResponse = ''auth.response''"
definition KindAuthResult :: string where "KindAuthResult = ''auth.result''"
definition PreAuthKind :: string where "PreAuthKind = ''guestweave.presence.hello''"

definition AllowedBeforeAuth :: "string \<Rightarrow> bool" where
  "AllowedBeforeAuth kind = HasPrefix kind PreAuthKind"

definition NonceSize :: nat where "NonceSize = 32"

definition authDomain :: bytes where "authDomain = ''weave-hvchannel-auth'' @ [CHR 0x00]"

definition authMessage :: "bytes \<Rightarrow> bytes" where
  "authMessage nonce = authDomain @ nonce"

record auth_response =
  respPublicKey :: bytes
  respSignature :: bytes

record auth_result =
  resOK :: bool
  resReason :: string

text \<open>Ed25519: signing, the public half of a private key, and verification.\<close>

record ed25519 =
  edSign :: "bytes \<Rightarrow> bytes \<Rightarrow> bytes"
  edPublic :: "bytes \<Rightarrow> bytes"
  edCheck :: "bytes \<Rightarrow> bytes \<Rightarrow> bytes \<Rightarrow> bool"

definition PublicKeySize :: nat where "PublicKeySize = 32"
definition PrivateKeySize :: nat where "PrivateKeySize = 64"

definition Sign :: "ed25519 \<Rightarrow> bytes \<Rightarrow> bytes \<Rightarrow> (string, auth_response) result" where
  "Sign ed priv nonce =
     (if length priv \<noteq> PrivateKeySize then Inl ''private key is not ed25519''
      else if length nonce \<noteq> NonceSize then Inl ''challenge nonce is the wrong size''
      else Inr \<lparr>respPublicKey = edPublic ed priv, respSignature = edSign ed priv (authMessage nonce)\<rparr>)"

text \<open>\<open>Verify\<close>: the reason of the refusal, or success.\<close>

definition Verify_response :: "ed25519 \<Rightarrow> bytes \<Rightarrow> bytes \<Rightarrow> auth_response \<Rightarrow> (string, unit) result" where
  "Verify_response ed trusted nonce resp =
     (if length trusted \<noteq> PublicKeySize then Inl ''no trusted key configured''
      else if length nonce \<noteq> NonceSize then Inl ''no outstanding challenge''
      else if respPublicKey resp \<noteq> trusted
        then Inl ''response offers a different public key than this guest trusts''
      else if \<not> edCheck ed trusted (authMessage nonce) (respSignature resp)
        then Inl ''signature does not match the challenge''
      else Inr ())"

record channel_auth =
  authTrusted :: bytes
  authNonce :: bytes
  authOK :: bool

text \<open>
  \<open>loadChannelKey\<close> and \<open>newChannelAuth\<close>: no usable key file gives an empty trusted key, which
  refuses everybody. The base64 decoder is a parameter.
\<close>

definition loadChannelKey ::
    "(string \<Rightarrow> bytes option) \<Rightarrow> path \<Rightarrow> ('x disk_scheme, (string, bytes) result) state" where
  "loadChannelKey b64 p = do {
     r \<leftarrow> ReadFile p;
     ret (case r of
        Inl _ \<Rightarrow> Inl ''unreadable''
      | Inr raw \<Rightarrow>
          (case b64 (TrimSpace raw) of
             None \<Rightarrow> Inl ''not base64''
           | Some key \<Rightarrow> if length key \<noteq> PublicKeySize then Inl ''wrong size'' else Inr key)) }"

definition newChannelAuth ::
    "(string \<Rightarrow> bytes option) \<Rightarrow> path \<Rightarrow> ('x disk_scheme, channel_auth) state" where
  "newChannelAuth b64 p = do {
     r \<leftarrow> loadChannelKey b64 p;
     ret \<lparr>authTrusted = (case r of Inl _ \<Rightarrow> [] | Inr key \<Rightarrow> key), authNonce = [], authOK = False\<rparr> }"

definition allows :: "channel_auth \<Rightarrow> string \<Rightarrow> bool" where
  "allows a kind = (AllowedBeforeAuth kind \<or> authOK a)"

datatype control_reply = NoReply | Challenge bytes | Result auth_result

text \<open>
  \<open>handle\<close>: one control frame. The random source and the decoder of responses are parameters;
  \<open>None\<close> is their failure.
\<close>

definition handle ::
    "ed25519 \<Rightarrow> (bytes \<Rightarrow> auth_response option) \<Rightarrow> bytes option \<Rightarrow> string \<Rightarrow> bytes \<Rightarrow> channel_auth
      \<Rightarrow> control_reply \<times> channel_auth" where
  "handle ed decodeResponse random kind data a =
     (if kind = KindAuthBegin then
        (case random of
           None \<Rightarrow> (Result \<lparr>resOK = False, resReason = ''no challenge available''\<rparr>, a)
         | Some n \<Rightarrow> (Challenge n, a\<lparr>authNonce := n\<rparr>))
      else if kind = KindAuthResponse then
        (case decodeResponse data of
           None \<Rightarrow> (Result \<lparr>resOK = False, resReason = ''malformed response''\<rparr>, a)
         | Some resp \<Rightarrow>
             let a' = a\<lparr>authNonce := []\<rparr> in
             case Verify_response ed (authTrusted a) (authNonce a) resp of
               Inl reason \<Rightarrow> (Result \<lparr>resOK = False, resReason = reason\<rparr>, a')
             | Inr _ \<Rightarrow> (Result \<lparr>resOK = True, resReason = []\<rparr>, a'\<lparr>authOK := True\<rparr>))
      else (NoReply, a))"



section \<open>The guest end of the wire\<close>

text \<open>
  A connection: its authentication state, the envelopes written to the wire and the messages
  handed to modules, oldest first, and the challenges issued on it.
\<close>

record hv_conn =
  hvAuth :: channel_auth
  hvSent :: "envelope list"
  hvDelivered :: "envelope list"
  hvIssued :: "bytes list"

text \<open>What the peer calls: Ed25519 and the codecs of the control payloads.\<close>

record hv_env =
  hvEd :: ed25519
  hvDecodeResponse :: "bytes \<Rightarrow> auth_response option"
  hvEncodeReply :: "control_reply \<Rightarrow> bytes"

definition reply_kind :: "control_reply \<Rightarrow> string" where
  "reply_kind r = (case r of NoReply \<Rightarrow> [] | Challenge _ \<Rightarrow> KindAuthChallenge | Result _ \<Rightarrow> KindAuthResult)"

text \<open>\<open>reply\<close> writes a control frame without the check, \<open>Send\<close> writes a module's frame with it.\<close>

definition hv_write :: "string \<Rightarrow> string \<Rightarrow> bytes \<Rightarrow> hv_conn \<Rightarrow> hv_conn" where
  "hv_write modl kind data c = c\<lparr>hvSent := hvSent c @ [\<lparr>envModule = modl, envKind = kind, envData = data\<rparr>]\<rparr>"

definition hv_reply :: "hv_env \<Rightarrow> control_reply \<Rightarrow> hv_conn \<Rightarrow> hv_conn" where
  "hv_reply e r c = hv_write ControlModule (reply_kind r) (hvEncodeReply e r) c"

definition hv_Send :: "string \<Rightarrow> string \<Rightarrow> bytes \<Rightarrow> hv_conn \<Rightarrow> (string, unit) result \<times> hv_conn" where
  "hv_Send modl kind data c =
     (if \<not> allows (hvAuth c) kind then (Inl kind, c) else (Inr (), hv_write modl kind data c))"

text \<open>The body of \<open>readLoop\<close> for one decoded envelope.\<close>

definition on_envelope :: "hv_env \<Rightarrow> bytes option \<Rightarrow> envelope \<Rightarrow> hv_conn \<Rightarrow> hv_conn" where
  "on_envelope e random env c =
     (if envModule env = ControlModule then
        (case handle (hvEd e) (hvDecodeResponse e) random (envKind env) (envData env) (hvAuth c) of
           (r, a) \<Rightarrow>
             let c' = c\<lparr>hvAuth := a,
                        hvIssued := (case r of Challenge n \<Rightarrow> hvIssued c @ [n] | _ \<Rightarrow> hvIssued c)\<rparr>
             in if reply_kind r \<noteq> [] then hv_reply e r c' else c')
      else if \<not> allows (hvAuth c) (envKind env) then
        hv_reply e (Result \<lparr>resOK = False, resReason = ''channel is not authenticated''\<rparr>) c
      else c\<lparr>hvDelivered := hvDelivered c @ [env]\<rparr>)"

text \<open>
  What happens on a connection: an envelope is read (with what the random source would give), or
  a module sends.
\<close>

datatype hv_event = Inbound envelope "bytes option" | ModuleSend string string bytes

fun hv_event_step :: "hv_env \<Rightarrow> hv_event \<Rightarrow> hv_conn \<Rightarrow> hv_conn" where
  "hv_event_step e (Inbound env random) c = on_envelope e random env c"
| "hv_event_step e (ModuleSend modl kind data) c = snd (hv_Send modl kind data c)"

definition hv_open :: "channel_auth \<Rightarrow> hv_conn" where
  "hv_open a = \<lparr>hvAuth = a, hvSent = [], hvDelivered = [], hvIssued = []\<rparr>"

definition fresh_auth :: "bytes \<Rightarrow> channel_auth" where
  "fresh_auth key = \<lparr>authTrusted = key, authNonce = [], authOK = False\<rparr>"

definition hv_run :: "hv_env \<Rightarrow> bytes \<Rightarrow> hv_event list \<Rightarrow> hv_conn" where
  "hv_run e key evs = foldl (\<lambda>c ev. hv_event_step e ev c) (hv_open (fresh_auth key)) evs"

text \<open>
  \<open>readLoop\<close> on a stream: the connection when the loop ends, and the error that ended it. The
  random source is a function of the number of bytes left to read, which differs at each frame.
\<close>

lemma ReadEnvelope_shorter:
  "ReadEnvelope codec s = (r, rest) \<Longrightarrow> (\<And>fe. r \<noteq> Inl (FrameError fe)) \<Longrightarrow> length rest < length s"
  by (auto simp: ReadEnvelope_def ReadFrame_shorter split: sum.splits prod.splits)

function readLoop ::
    "hv_env \<Rightarrow> envelope_codec \<Rightarrow> (nat \<Rightarrow> bytes option) \<Rightarrow> bytes \<Rightarrow> hv_conn \<Rightarrow> hv_conn \<times> envelope_error" where
  "readLoop e codec random s c =
     (case ReadEnvelope codec s of
        (Inl err, rest) \<Rightarrow>
          if isFrameDecodeError err then readLoop e codec random rest c else (c, err)
      | (Inr env, rest) \<Rightarrow> readLoop e codec random rest (on_envelope e (random (length s)) env c))"
  by pat_completeness auto
termination
  by (relation "measure (\<lambda>(_, _, _, s, _). length s)")
    (auto dest!: ReadEnvelope_shorter [OF sym] simp: isFrameDecodeError_def)

declare readLoop.simps [simp del]


section \<open>Frames are read back\<close>

lemma of_char_byte [simp]: "(of_char (byte n) :: nat) = n mod 256"
  by (simp add: byte_def)

lemma length_PutUint32 [simp]: "length (PutUint32 n) = 4"
  by (simp add: PutUint32_def)

lemma Uint32_PutUint32: "n < 2 ^ 32 \<Longrightarrow> Uint32 (PutUint32 n) = n"
proof -
  assume n: "n < 2 ^ 32"
  define a where "a = n div 256"
  define b where "b = a div 256"
  define c where "c = b div 256"
  have div: "n div 256 = a" "n div 65536 = b" "n div 16777216 = c"
    by (simp_all add: a_def b_def c_def div_mult2_eq [symmetric])
  have "c < 256" using n by (simp add: a_def b_def c_def div_mult2_eq [symmetric] less_mult_imp_div_less)
  then show ?thesis
    using div_mult_mod_eq [of n 256] div_mult_mod_eq [of a 256] div_mult_mod_eq [of b 256]
    by (simp add: Uint32_def PutUint32_def div flip: a_def b_def c_def)
qed

lemma ReadFull_append: "length p = n \<Longrightarrow> ReadFull n (p @ rest) = Inr (p, rest)"
  by (simp add: ReadFull_def)

lemma ReadFrame_WriteFrame:
  assumes "WriteFrame p = Inr f"
  shows "ReadFrame (f @ rest) = Inr (p, rest)"
proof -
  from assms have f: "f = PutUint32 (length p) @ p" and len: "length p \<le> MaxFrameSize"
    by (auto simp: WriteFrame_def split: if_splits)
  from len have "length p < 2 ^ 32" by (simp add: MaxFrameSize_def)
  then show ?thesis using len
    by (simp add: ReadFrame_def f ReadFull_append Uint32_PutUint32)
qed

lemma ReadFrame_Nil [simp]: "ReadFrame [] = Inl EOF"
  by (simp add: ReadFrame_def ReadFull_def)

lemma read_frames_append:
  assumes "WriteFrame p = Inr f"
  shows "read_frames (f @ rest) = (p # fst (read_frames rest), snd (read_frames rest))"
  using ReadFrame_WriteFrame [OF assms]
  by (subst read_frames.simps) (simp split: prod.splits)


section \<open>Invariants of a connection\<close>

lemma handle_ok:
  assumes "handle ed decode random kind data a = (r, a')"
  shows "authOK a' \<longrightarrow> authOK a \<or> (\<exists>resp. kind = KindAuthResponse \<and> decode data = Some resp
      \<and> Verify_response ed (authTrusted a) (authNonce a) resp = Inr ())"
    and "authOK a \<longrightarrow> authOK a'" and "authTrusted a' = authTrusted a"
    and "authNonce a' = [] \<or> authNonce a' = authNonce a \<or> r = Challenge (authNonce a')"
  using assms by (auto simp: handle_def Let_def split: if_splits option.splits sum.splits)

lemma Verify_response_ok:
  "Verify_response ed key n resp = Inr () \<longleftrightarrow>
     length key = PublicKeySize \<and> length n = NonceSize \<and> respPublicKey resp = key
     \<and> edCheck ed key (authMessage n) (respSignature resp)"
  by (simp add: Verify_response_def)

text \<open>
  What holds on every connection: nothing but the pre-authentication kind and the control frames
  has crossed an unauthenticated channel, an authenticated one has verified a signature over a
  challenge it issued, and the outstanding challenge was issued here.
\<close>

definition hv_inv :: "hv_env \<Rightarrow> bytes \<Rightarrow> hv_event list \<Rightarrow> hv_conn \<Rightarrow> bool" where
  "hv_inv e key evs c =
     (authTrusted (hvAuth c) = key
      \<and> (authNonce (hvAuth c) = [] \<or> authNonce (hvAuth c) \<in> set (hvIssued c))
      \<and> (\<not> authOK (hvAuth c) \<longrightarrow>
           (\<forall>env \<in> set (hvDelivered c). AllowedBeforeAuth (envKind env))
           \<and> (\<forall>env \<in> set (hvSent c). envModule env = ControlModule \<or> AllowedBeforeAuth (envKind env)))
      \<and> (authOK (hvAuth c) \<longrightarrow>
           (\<exists>env random resp n. Inbound env random \<in> set evs \<and> hvDecodeResponse e (envData env) = Some resp
              \<and> n \<in> set (hvIssued c) \<and> Verify_response (hvEd e) key n resp = Inr ())))"

lemma hv_write_simps [simp]:
  "hvAuth (hv_write modl kind data c) = hvAuth c"
  "hvIssued (hv_write modl kind data c) = hvIssued c"
  "hvDelivered (hv_write modl kind data c) = hvDelivered c"
  "hvSent (hv_write modl kind data c) = hvSent c @ [\<lparr>envModule = modl, envKind = kind, envData = data\<rparr>]"
  by (simp_all add: hv_write_def)

lemma Verify_response_nonce: "Verify_response ed key n resp = Inr () \<Longrightarrow> n \<noteq> []"
  by (auto simp: Verify_response_ok NonceSize_def)

lemma hv_inv_mono: "hv_inv e key evs c \<Longrightarrow> hv_inv e key (evs @ [ev]) c"
  by (auto simp: hv_inv_def)

lemma hv_inv_control:
  assumes inv: "hv_inv e key evs c" and ctl: "envModule env = ControlModule"
  shows "hv_inv e key (evs @ [Inbound env random]) (on_envelope e random env c)"
proof -
  obtain r a where h: "handle (hvEd e) (hvDecodeResponse e) random (envKind env) (envData env) (hvAuth c) = (r, a)"
    by (cases "handle (hvEd e) (hvDecodeResponse e) random (envKind env) (envData env) (hvAuth c)")
  let ?issued = "case r of Challenge n \<Rightarrow> hvIssued c @ [n] | _ \<Rightarrow> hvIssued c"
  let ?c = "c\<lparr>hvAuth := a, hvIssued := ?issued\<rparr>"
  have sub: "set (hvIssued c) \<subseteq> set ?issued" by (auto split: control_reply.split)
  note hok = handle_ok [OF h]
  have key: "authTrusted (hvAuth c) = key" using inv by (simp add: hv_inv_def)
  have nonce: "authNonce a = [] \<or> authNonce a \<in> set ?issued"
    using hok(4) inv sub by (auto simp: hv_inv_def)
  have auth: "\<exists>env' random' resp n. Inbound env' random' \<in> set (evs @ [Inbound env random])
      \<and> hvDecodeResponse e (envData env') = Some resp \<and> n \<in> set ?issued
      \<and> Verify_response (hvEd e) key n resp = Inr ()" if "authOK a"
  proof (cases "authOK (hvAuth c)")
    case True
    then show ?thesis using inv sub by (fastforce simp: hv_inv_def)
  next
    case False
    with hok(1) that key obtain resp where r: "hvDecodeResponse e (envData env) = Some resp"
        "Verify_response (hvEd e) key (authNonce (hvAuth c)) resp = Inr ()" by blast
    moreover have "authNonce (hvAuth c) \<in> set ?issued"
      using inv Verify_response_nonce [OF r(2)] sub by (auto simp: hv_inv_def)
    ultimately show ?thesis by (metis in_set_conv_decomp)
  qed
  have gate: "(\<forall>env \<in> set (hvDelivered c). AllowedBeforeAuth (envKind env))
      \<and> (\<forall>env \<in> set (hvSent c). envModule env = ControlModule \<or> AllowedBeforeAuth (envKind env))"
    if "\<not> authOK a" using that hok(2) inv by (auto simp: hv_inv_def)
  have "hv_inv e key (evs @ [Inbound env random]) ?c"
    using nonce auth gate hok(3) key unfolding hv_inv_def by simp
  then have "hv_inv e key (evs @ [Inbound env random]) (hv_reply e r ?c)"
    by (auto simp: hv_inv_def hv_reply_def)
  with \<open>hv_inv e key (evs @ [Inbound env random]) ?c\<close> show ?thesis
    by (simp add: on_envelope_def ctl h Let_def)
qed

lemma hv_inv_step:
  assumes inv: "hv_inv e key evs c"
  shows "hv_inv e key (evs @ [ev]) (hv_event_step e ev c)"
proof (cases ev)
  case (Inbound env random)
  show ?thesis
  proof (cases "envModule env = ControlModule")
    case True
    then show ?thesis using hv_inv_control [OF inv] Inbound by simp
  next
    case False
    have "hv_inv e key evs (on_envelope e random env c)"
      using inv False by (auto simp: on_envelope_def hv_inv_def hv_reply_def allows_def)
    then show ?thesis using hv_inv_mono Inbound by simp
  qed
next
  case (ModuleSend modl kind data)
  have "hv_inv e key evs (snd (hv_Send modl kind data c))"
    using inv by (auto simp: hv_Send_def hv_inv_def allows_def)
  then show ?thesis using hv_inv_mono ModuleSend by simp
qed

lemma hv_run_snoc: "hv_run e key (evs @ [ev]) = hv_event_step e ev (hv_run e key evs)"
  by (simp add: hv_run_def)

lemma hv_inv_run: "hv_inv e key evs (hv_run e key evs)"
proof (induction evs rule: rev_induct)
  case Nil
  then show ?case by (simp add: hv_run_def hv_inv_def hv_open_def fresh_auth_def)
next
  case (snoc ev evs)
  then show ?case unfolding hv_run_snoc by (rule hv_inv_step)
qed


section \<open>A concrete connection\<close>

definition ex_ed :: ed25519 where
  "ex_ed = \<lparr>edSign = (\<lambda>k m. m), edPublic = (\<lambda>k. replicate 32 CHR ''k''), edCheck = (\<lambda>k m s. s = m)\<rparr>"

definition ex_hv :: hv_env where
  "ex_hv = \<lparr>hvEd = ex_ed,
     hvDecodeResponse = (\<lambda>d. Some \<lparr>respPublicKey = replicate 32 CHR ''k'', respSignature = d\<rparr>),
     hvEncodeReply = (\<lambda>_. [])\<rparr>"

definition ex_exec :: hv_event where
  "ex_exec = Inbound \<lparr>envModule = ''guest'', envKind = ''exec.run'', envData = []\<rparr> None"

text \<open>An operation that is refused, the handshake, and the operation again.\<close>

definition ex_handshake :: "hv_event list" where
  "ex_handshake = [ex_exec,
     Inbound \<lparr>envModule = ControlModule, envKind = KindAuthBegin, envData = []\<rparr> (Some (replicate 32 CHR ''n'')),
     Inbound \<lparr>envModule = ControlModule, envKind = KindAuthResponse,
       envData = authMessage (replicate 32 CHR ''n'')\<rparr> None,
     ex_exec]"

definition ex_codec :: envelope_codec where
  "ex_codec = \<lparr>encodeEnvelope = envData, decodeEnvelope = (\<lambda>_. Inl SyntaxError)\<rparr>"


section \<open>Properties\<close>

text \<open>
  Frames written one after the other are read back in order, and the stream then ends with a
  clean \<open>EOF\<close>: \<open>ReadFrame\<close> keeps its place in any stream that \<open>WriteFrame\<close> has written.
\<close>

theorem frames_roundtrip:
  assumes "\<forall>p \<in> set ps. length p \<le> MaxFrameSize"
  shows "read_frames (concat (map (\<lambda>p. PutUint32 (length p) @ p) ps)) = (ps, EOF)"
  using assms
proof (induction ps)
  case (Cons p ps)
  then have "WriteFrame p = Inr (PutUint32 (length p) @ p)" by (simp add: WriteFrame_def)
  from read_frames_append [OF this] Cons show ?case by simp
qed (simp add: read_frames.simps)

theorem frames_roundtrip_witness:
  "read_frames (concat (map (\<lambda>p. PutUint32 (length p) @ p) [''hello'', [], ''bye''])) = ([''hello'', [], ''bye''], EOF)"
  by (rule frames_roundtrip) (simp add: MaxFrameSize_def)

text \<open>
  C26: on any connection and after any sequence of frames and sends, as long as the host has not
  authenticated, every message delivered to a module and every frame sent for one is of the
  pre-authentication kind; the rest of the traffic is the channel's own control frames.
\<close>

theorem hv_gate:
  assumes "\<not> authOK (hvAuth (hv_run e key evs))"
  shows "list_all (\<lambda>env. AllowedBeforeAuth (envKind env)) (hvDelivered (hv_run e key evs))
    \<and> list_all (\<lambda>env. envModule env = ControlModule \<or> AllowedBeforeAuth (envKind env)) (hvSent (hv_run e key evs))"
  using hv_inv_run [of e key evs] assms by (auto simp: hv_inv_def list_all_iff)

theorem hv_gate_witness:
  "list_all (\<lambda>env. AllowedBeforeAuth (envKind env)) (hvDelivered (hv_run ex_hv (replicate 32 CHR ''k'') [ex_exec]))
    \<and> list_all (\<lambda>env. envModule env = ControlModule \<or> AllowedBeforeAuth (envKind env))
         (hvSent (hv_run ex_hv (replicate 32 CHR ''k'') [ex_exec]))"
  by (rule hv_gate) code_simp

text \<open>
  C25: a connection is authenticated only by a response that offers the provisioned key, of the
  right length, and verifies over a challenge this connection issued; a guest without a key
  authenticates nobody.
\<close>

theorem hv_authenticated:
  assumes "authOK (hvAuth (hv_run e key evs))"
  shows "length key = PublicKeySize \<and> (\<exists>env random resp n. Inbound env random \<in> set evs
    \<and> hvDecodeResponse e (envData env) = Some resp \<and> n \<in> set (hvIssued (hv_run e key evs))
    \<and> length n = NonceSize \<and> edCheck (hvEd e) key (authMessage n) (respSignature resp))"
  using hv_inv_run [of e key evs] assms by (auto simp: hv_inv_def Verify_response_ok)

theorem hv_authenticated_witness:
  "length (replicate 32 CHR ''k'') = PublicKeySize \<and> (\<exists>env random resp n. Inbound env random \<in> set ex_handshake
    \<and> hvDecodeResponse ex_hv (envData env) = Some resp
    \<and> n \<in> set (hvIssued (hv_run ex_hv (replicate 32 CHR ''k'') ex_handshake))
    \<and> length n = NonceSize \<and> edCheck (hvEd ex_hv) (replicate 32 CHR ''k'') (authMessage n) (respSignature resp))"
  by (rule hv_authenticated) code_simp

text \<open>
  A challenge answers at most one response. After any response that decodes, whatever the
  verdict, a second response without a new challenge is refused and changes nothing.
\<close>

theorem challenge_single_use:
  assumes "decode data = Some resp" "decode data' = Some resp'"
    and "handle ed decode random KindAuthResponse data a = (r, a')"
  shows "\<exists>reason. handle ed decode random' KindAuthResponse data' a' = (Result \<lparr>resOK = False, resReason = reason\<rparr>, a')"
proof -
  have "authNonce a' = []"
    using assms(1,3) by (auto simp: handle_def Let_def KindAuthBegin_def KindAuthResponse_def split: sum.splits)
  then have "\<exists>reason. Verify_response ed (authTrusted a') (authNonce a') resp' = Inl reason"
    by (simp add: Verify_response_def NonceSize_def)
  with assms(2) \<open>authNonce a' = []\<close> show ?thesis
    by (auto simp: handle_def Let_def KindAuthBegin_def KindAuthResponse_def)
qed

theorem challenge_single_use_witness:
  "\<exists>reason. handle ex_ed (hvDecodeResponse ex_hv) None KindAuthResponse ''x''
      (snd (handle ex_ed (hvDecodeResponse ex_hv) None KindAuthResponse ''x'' (fresh_auth (replicate 32 CHR ''k''))))
    = (Result \<lparr>resOK = False, resReason = reason\<rparr>,
       snd (handle ex_ed (hvDecodeResponse ex_hv) None KindAuthResponse ''x'' (fresh_auth (replicate 32 CHR ''k''))))"
proof (rule challenge_single_use)
  show "hvDecodeResponse ex_hv ''x'' = Some \<lparr>respPublicKey = replicate 32 CHR ''k'', respSignature = ''x''\<rparr>"
    "hvDecodeResponse ex_hv ''x'' = Some \<lparr>respPublicKey = replicate 32 CHR ''k'', respSignature = ''x''\<rparr>"
    by (simp_all add: ex_hv_def)
qed (rule prod.collapse [symmetric])

text \<open>
  A frame whose envelope does not decode as JSON costs one message: the loop goes on with the
  rest of the stream and the connection unchanged.
\<close>

theorem undecodable_frame_skipped:
  assumes "length p \<le> MaxFrameSize" "decodeEnvelope codec p = Inl err" "err \<noteq> OtherJsonError"
  shows "readLoop e codec random (PutUint32 (length p) @ p @ rest) c = readLoop e codec random rest c"
proof -
  have "WriteFrame p = Inr (PutUint32 (length p) @ p)" using assms(1) by (simp add: WriteFrame_def)
  from ReadFrame_WriteFrame [OF this, of rest]
  have "ReadEnvelope codec (PutUint32 (length p) @ p @ rest) = (Inl (DecodeError err), rest)"
    by (simp add: ReadEnvelope_def assms(2))
  moreover have "isFrameDecodeError (DecodeError err)"
    using assms(3) by (cases err) (simp_all add: isFrameDecodeError_def)
  ultimately show ?thesis by (subst readLoop.simps) simp
qed

theorem undecodable_frame_skipped_witness:
  "readLoop ex_hv ex_codec (\<lambda>_. None) (PutUint32 (length ''{'') @ ''{'' @ []) (hv_open (fresh_auth []))
    = readLoop ex_hv ex_codec (\<lambda>_. None) [] (hv_open (fresh_auth []))"
  by (rule undecodable_frame_skipped [of _ _ SyntaxError]) (simp_all add: MaxFrameSize_def ex_codec_def)

text \<open>
  A stream that ends right after the length of a non-empty frame is reported as a clean
  \<open>EOF\<close>, although the frame is truncated; one that ends inside the payload is
  \<open>ErrUnexpectedEOF\<close>.
\<close>

theorem ReadFrame_truncated:
  assumes "0 < n" "n \<le> MaxFrameSize" "length part < n"
  shows "ReadFrame (PutUint32 n @ part) = Inl (if part = [] then EOF else ErrUnexpectedEOF)"
proof -
  from assms(2) have "n < 2 ^ 32" by (simp add: MaxFrameSize_def)
  with assms show ?thesis
    by (simp add: ReadFrame_def ReadFull_append Uint32_PutUint32) (simp add: ReadFull_def)
qed

theorem ReadFrame_truncated_witness: "ReadFrame (PutUint32 3 @ []) = Inl (if ([] :: bytes) = [] then EOF else ErrUnexpectedEOF)"
  by (rule ReadFrame_truncated) (simp_all add: MaxFrameSize_def)

end
