(* ===== verification/Core_Run.thy ===== *)
theory Core_Run
  imports Core Keyprotect Identity Hostserv Hvchannel
begin

text \<open>
  The whole of \<open>Run\<close> (\<open>src/internal/core/core.go\<close>): the directories, the store, the cached policy, the
  identity with its enrolment, the mux with the hypervisor device
  (\<open>ConnectHypervisor\<close> of \<open>src/internal/transport/hypervisor.go\<close>, \<open>openDevice\<close> of the two platforms), and then the
  modules and the readiness marker (\<open>Core\<close>). The components share one store: each is run on the state the one
  before left. The goroutines that \<open>Run\<close> starts are the components themselves.
\<close>

section \<open>The hypervisor device\<close>

text \<open>What the operating system answers about device nodes.\<close>

record device_os =
  doOpen :: "string \<Rightarrow> bool"
  doTerminal :: "string \<Rightarrow> bool"
  doMakeRaw :: "string \<Rightarrow> bool"

datatype device_error = NoDevice | OpenFailed | RawModeFailed | NoOpenableDevice "string list"

definition attr :: "(string \<times> string) list \<Rightarrow> string \<Rightarrow> string" where
  "attr attrs k = (case map_of attrs k of None \<Rightarrow> [] | Some v \<Rightarrow> v)"

definition openDevice_unix :: "device_os \<Rightarrow> (string \<times> string) list \<Rightarrow> (device_error, string) result" where
  "openDevice_unix os attrs =
     (let dev = attr attrs ''device'' in
      if dev = [] then Inl NoDevice
      else if \<not> doOpen os dev then Inl OpenFailed
      else if doTerminal os dev \<and> \<not> doMakeRaw os dev then Inl RawModeFailed
      else Inr dev)"

definition windowsHypervisorDevices :: "string list" where
  "windowsHypervisorDevices =
     [[CHR 0x5C, CHR 0x5C, CHR ''.'', CHR 0x5C] @ ''Global'' @ [CHR 0x5C] @ ''org.weave.agent.0'',
      [CHR 0x5C, CHR 0x5C, CHR ''.'', CHR 0x5C] @ ''COM2'']"

definition openDevice_windows :: "device_os \<Rightarrow> (string \<times> string) list \<Rightarrow> (device_error, string) result" where
  "openDevice_windows os attrs =
     (let d = attr attrs ''device'';
          candidates = (if d \<noteq> [] then d # windowsHypervisorDevices else windowsHypervisorDevices)
      in case find (doOpen os) candidates of
           Some dev \<Rightarrow> Inr dev
         | None \<Rightarrow> Inl (NoOpenableDevice candidates))"

definition openDevice :: "string \<Rightarrow> device_os \<Rightarrow> (string \<times> string) list \<Rightarrow> (device_error, string) result" where
  "openDevice goos os attrs = (if goos = ''windows'' then openDevice_windows os attrs else openDevice_unix os attrs)"

definition DefaultChannelKeyPath :: "string \<Rightarrow> string \<Rightarrow> string" where
  "DefaultChannelKeyPath goos programData =
     (if goos = ''windows'' then
        (if programData = [] then ''C:'' @ [CHR 0x5C] @ ''ProgramData'' else programData)
          @ [CHR 0x5C] @ ''weave'' @ [CHR 0x5C] @ ''channel.pub''
      else ''/etc/weave/channel.pub'')"

definition ConnectHypervisor ::
    "string \<Rightarrow> device_os \<Rightarrow> 'st mux_env \<Rightarrow> (string \<times> string) list \<Rightarrow> 'st mux \<Rightarrow> (device_error, unit) result \<times> 'st mux" where
  "ConnectHypervisor goos os e attrs mx =
     (case openDevice goos os attrs of
        Inl err \<Rightarrow> (Inl err, mx)
      | Inr _ \<Rightarrow> (Inr (), Flush e PEER_HYPERVISOR (mx\<lparr>mxHypervisor := True\<rparr>)))"


section \<open>Run\<close>

text \<open>What a run gets from outside, and what it has running afterwards.\<close>

record 'db core_inputs =
  ciOpen :: "'db open_env"
  ciDB :: "(db_failure, 'db) result"
  ciPolicy :: "'db store policy_env"
  ciIdentity :: "'db store identity_env"
  ciMux :: "'db store mux_env"
  ciGateWeaveURL :: string
  ciDraw :: string
  ciNewKey :: "bytes option"
  ciChallenge :: http_reply
  ciServer :: "bytes \<Rightarrow> http_reply"
  ciCaps :: capability_set
  ciDevice :: device_os

record 'db running =
  rnEnv :: "'db store_env"
  rnPolicy :: "'db store manager"
  rnIdentity :: "'db store provider"
  rnEnrol :: "(identity_error, unit) result"
  rnMux :: "'db store mux"
  rnRootPub :: "bytes option"

datatype run_error = RunCore core_error | RunStore open_error | RunIdentity identity_error

definition run_identity_env :: "'db core_inputs \<Rightarrow> 'db store_env \<Rightarrow> 'db store identity_env" where
  "run_identity_env ci env = (ciIdentity ci)\<lparr>ieBackend := Store env\<rparr>"

definition new_provider :: "'db core_inputs \<Rightarrow> core_options \<Rightarrow> 'db store \<Rightarrow> 'db store provider" where
  "new_provider ci opts s =
     \<lparr>ipStore = s, ipEnrollURL = endpoint (ciGateWeaveURL ci) ''/v1/enroll'', ipServerPub = [],
      ipAllowInsecure = coAllowOverride opts, ipPriv = [], ipDeviceID = [], ipTenant = [], ipEphemeral = []\<rparr>"

text \<open>A failed \<open>Init\<close> ends the run, a failed \<open>Enroll\<close> is only logged.\<close>

definition start_identity ::
    "'db core_inputs \<Rightarrow> core_options \<Rightarrow> 'db store_env \<Rightarrow> 'db store
      \<Rightarrow> (identity_error, (identity_error, unit) result) result \<times> 'db store provider" where
  "start_identity ci opts env s =
     (case Init (run_identity_env ci env) (ciDraw ci) (ciNewKey ci) (new_provider ci opts s) of
        (Inl err, p) \<Rightarrow> (Inl err, p)
      | (Inr _, p) \<Rightarrow>
          (case Enroll (run_identity_env ci env) (ciChallenge ci) (ciServer ci) p of (r, p') \<Rightarrow> (Inr r, p')))"

definition start_mux :: "'db core_inputs \<Rightarrow> string \<Rightarrow> 'db store_env \<Rightarrow> 'db store \<Rightarrow> 'db store mux" where
  "start_mux ci goos env s =
     (let mx = \<lparr>mxQueue = Some s, mxMaxQueued = 0, mxNextID = 0, mxSeeded = False, mxDropped = 0,
            mxGateWeave = TrimSuffix (ciGateWeaveURL ci) ''/'' \<noteq> [], mxHypervisor = False, mxAttempts = 0, mxWire = []\<rparr>
      in case map_of (ciCaps ci) ''hypervisor.channel'' of
           None \<Rightarrow> mx
         | Some attrs \<Rightarrow> snd (ConnectHypervisor goos (ciDevice ci) ((ciMux ci)\<lparr>mxBackend := Store env\<rparr>) attrs mx))"

definition store_of :: "'db store mux \<Rightarrow> 'db store \<Rightarrow> 'db store" where
  "store_of mx s = (case mxQueue mx of None \<Rightarrow> s | Some q \<Rightarrow> q)"

text \<open>From the open store on.\<close>

definition run_services ::
    "'db core_inputs \<Rightarrow> 'db store lc_env \<Rightarrow> core_options \<Rightarrow> time \<Rightarrow> 'db store_env \<Rightarrow> 'db store
      \<Rightarrow> ('db store lc_world, (run_error, 'db running) result) state" where
  "run_services ci e opts now env s =
     (let pm = Load_policy ((ciPolicy ci)\<lparr>peBackend := Store env\<rparr>) (new_manager (Some s)) in
      case start_identity ci opts env s of
        (Inl err, p) \<Rightarrow> do { _ \<leftarrow> modify (\<lambda>w. w\<lparr>lwStore := ipStore p\<rparr>); ret (Inl (RunIdentity err)) }
      | (Inr enrolled, p) \<Rightarrow>
          let mx = start_mux ci (leGOOS e) env (ipStore p) in do {
            _ \<leftarrow> modify (\<lambda>w. w\<lparr>lwStore := store_of mx (ipStore p)\<rparr>);
            then_ok (wrap_err RunCore (core_modules (e\<lparr>leSeqStore := Some (Store env)\<rparr>) opts now)) (\<lambda>root.
              ret (Inr \<lparr>rnEnv = env, rnPolicy = pm, rnIdentity = p, rnEnrol = enrolled, rnMux = mx, rnRootPub = root\<rparr>)) })"

definition Run_core ::
    "'db core_inputs \<Rightarrow> 'db store lc_env \<Rightarrow> core_options \<Rightarrow> time
      \<Rightarrow> ('db store lc_world, (run_error, 'db running) result) state" where
  "Run_core ci e opts now =
     then_ok (wrap_err (\<lambda>err. RunCore (EnsureFailed err)) (Ensure (leGOOS e) (coLayout opts))) (\<lambda>_.
     then_ok (wrap_err RunStore (Open_store (ciOpen ci) (ciDB ci) (StateDir (coLayout opts)))) (\<lambda>(env, s).
       run_services ci e opts now env s))"

section \<open>What the modules leave alone\<close>

text \<open>No call of the disk changes the store, and so bringing up the modules does not.\<close>

lemma store_kept_after_call [simp]: "lwStore (after_call w t) = lwStore w"
  by (simp add: after_call_def)

lemma store_kept_syscall: "keeps (\<lambda>w. lwStore w = s) (syscall p act part)"
  by (auto intro!: keepsI simp: wp_syscall split: option.splits)

lemmas store_kept = keeps_bind keeps_then_ok keeps_wrap_err keeps_ret keeps_case_sum keeps_case_option
  keeps_if keeps_for_each

lemma store_kept_calls:
  "keeps (\<lambda>w. lwStore w = s) (ReadFile q)" "keeps (\<lambda>w. lwStore w = s) (Stat q)" "keeps (\<lambda>w. lwStore w = s) (ReadDir q)"
  "keeps (\<lambda>w. lwStore w = s) (RemoveAll q)" "keeps (\<lambda>w. lwStore w = s) (Remove q)"
  "keeps (\<lambda>w. lwStore w = s) (WriteFile q b)" "keeps (\<lambda>w. lwStore w = s) (Rename q q')"
  unfolding ReadFile_def Stat_def ReadDir_def RemoveAll_def Remove_def WriteFile_def Rename_def
  by (rule store_kept_syscall)+

lemma store_kept_sweep: "keeps (\<lambda>w. lwStore w = s) (SweepOrphans d)"
  unfolding SweepOrphans_def
  by (auto intro!: store_kept store_kept_calls split: prod.split)

lemma store_kept_findBinary_in: "keeps (\<lambda>w. lwStore w = s) (findBinary_in dir cs :: ('st lc_world, path option) state)"
proof (induction cs)
  case (Cons c cs)
  have "keeps (\<lambda>w. lwStore w = s) (case r of Inr (File _) \<Rightarrow> ret (Some (Join dir c))
      | _ \<Rightarrow> (findBinary_in dir cs :: ('st lc_world, path option) state))" for r :: "(io_error, node) result"
    using Cons by (auto intro: keeps_ret split: sum.splits node.splits)
  then show ?case by (auto intro!: keeps_bind store_kept_calls)
qed (simp add: keeps_ret)

lemma store_kept_discover_entries:
  "keeps (\<lambda>w. lwStore w = s) (discover_entries goos decode dir es :: ('st lc_world, (core_error, spec list) result) state)"
proof (induction es)
  case (Cons x es)
  have "keeps (\<lambda>w. lwStore w = s) (discover_one goos decode dir name :: ('st lc_world, (core_error, spec option) result) state)" for name
    unfolding discover_one_def Let_def Load_manifest_def
    by (intro store_kept store_kept_calls store_kept_findBinary_in)
  with Cons show ?case by (cases x) (auto intro!: store_kept)
qed (simp add: keeps_ret)

lemma store_kept_modules: "keeps (\<lambda>w. lwStore w = s) (core_modules e opts now)"
proof -
  have reg: "keeps (\<lambda>w. lwStore w = s) (modify (\<lambda>w. w\<lparr>lwRegistry := f w\<rparr>))" for f
    by (auto intro!: keepsI simp: wp_modify)
  show ?thesis
    unfolding core_modules_def discoverModules_def load_root_key_def choose_root_key_def signalReady_def
    by (intro store_kept store_kept_calls store_kept_sweep store_kept_discover_entries reg)
qed

section \<open>The identity in the store\<close>

text \<open>What the store holds of an identity: a state that \<open>Init\<close> accepts, with the key of the provider.\<close>

definition key_stored :: "'st identity_env \<Rightarrow> ('st \<Rightarrow> string \<Rightarrow> string \<Rightarrow> bytes option) \<Rightarrow> enrolmentState \<Rightarrow> 'st provider \<Rightarrow> bool" where
  "key_stored e view st p = (\<exists>raw. view (ipStore p) storeNamespace stateKey = Some raw \<and> usable_state e raw = Some (st, ipPriv p))"

definition identity_codecs :: "'st identity_env \<Rightarrow> bool" where
  "identity_codecs e = ((\<forall>st raw. ieEncodeState e st = Some raw \<longrightarrow> ieDecodeState e raw = Some st)
     \<and> (\<forall>k. ieDecode64 e (ieEncode64 e k) = Some k))"

lemma saveLocked_stored:
  assumes be: "store_backend (ieBackend e) good view" and "good (ipStore p)" "saveLocked e p = (r, p')"
    and "identity_codecs e" "length (ipPriv p) = ed25519_PrivateKeySize"
  shows "good (ipStore p') \<and> ipPriv p' = ipPriv p \<and> ipDeviceID p' = ipDeviceID p \<and> ipTenant p' = ipTenant p
    \<and> (r = Inr () \<longrightarrow> key_stored e view \<lparr>esDeviceID = ipDeviceID p, esTenant = ipTenant p, esPrivateKey = ieEncode64 e (ipPriv p)\<rparr> p')
    \<and> (r \<noteq> Inr () \<longrightarrow> view (ipStore p') = view (ipStore p))"
proof -
  let ?st = "\<lparr>esDeviceID = ipDeviceID p, esTenant = ipTenant p, esPrivateKey = ieEncode64 e (ipPriv p)\<rparr>"
  have usable: "usable_state e raw = Some (?st, ipPriv p)" if "ieEncodeState e ?st = Some raw" for raw
    using that assms(4,5) by (simp add: usable_state_def identity_codecs_def)
  show ?thesis
  proof (cases "ieEncodeState e ?st")
    case (Some raw)
    obtain r1 s1 where put: "bePut (ieBackend e) storeNamespace stateKey raw (ipStore p) = (r1, s1)" by fastforce
    show ?thesis
    proof (cases r1)
      case (Inl err)
      with put store_backend.put_err [OF be assms(2)] assms(3) Some show ?thesis by (auto simp: saveLocked_def)
    next
      case (Inr u)
      with put store_backend.put_ok [OF be assms(2)] assms(3) Some usable [OF Some] show ?thesis
        by (auto simp: saveLocked_def key_stored_def)
    qed
  qed (use assms(2,3) in \<open>auto simp: saveLocked_def\<close>)
qed

lemma Init_stored:
  assumes be: "store_backend (ieBackend e) good view" and ok: "good (ipStore p0)"
    and codecs: "identity_codecs e" and key: "\<And>k. newKey = Some k \<Longrightarrow> length k = ed25519_PrivateKeySize"
    and init: "Init e draw newKey p0 = (Inr (), p)" and fresh: "ipDeviceID p0 = []" "ipTenant p0 = []"
  shows "good (ipStore p) \<and> length (ipPriv p) = ed25519_PrivateKeySize
    \<and> (\<exists>st. key_stored e view st p \<and> esDeviceID st = ipDeviceID p \<and> esTenant st = ipTenant p)"
proof -
  let ?p = "p0\<lparr>ipEphemeral := ''ephemeral-'' @ draw\<rparr>"
  obtain x where got: "beGet (ieBackend e) storeNamespace stateKey (ipStore p0) = Inr x"
    using init by (auto simp: Init_def Let_def split: sum.splits)
  show ?thesis
  proof (cases "\<exists>raw st k. x = Some raw \<and> usable_state e raw = Some (st, k)")
    case True
    then obtain raw st k where x: "x = Some raw" "usable_state e raw = Some (st, k)" by blast
    then have "length k = ed25519_PrivateKeySize" by (auto simp: usable_state_def split: option.splits if_splits)
    moreover have "view (ipStore p0) storeNamespace stateKey = Some raw"
      using store_backend.get_view [OF be ok got] x(1) by simp
    ultimately show ?thesis using init got x ok by (auto simp: Init_def Let_def key_stored_def)
  next
    case False
    then have "create_identity e newKey ?p = (Inr (), p)"
      using init got by (auto simp: Init_def Let_def split: option.splits)
    then obtain priv where priv: "newKey = Some priv" "saveLocked e (?p\<lparr>ipPriv := priv\<rparr>) = (Inr (), p)"
      by (auto simp: create_identity_def split: option.splits)
    from saveLocked_stored [OF be _ priv(2) codecs] key [OF priv(1)] ok fresh show ?thesis by auto
  qed
qed

lemma Enroll_stored:
  assumes be: "store_backend (ieBackend e) good view" and ok: "good (ipStore p)" "length (ipPriv p) = ed25519_PrivateKeySize"
    and codecs: "identity_codecs e" and enrol: "Enroll e challenge server p = (r, p')"
    and stored: "key_stored e view st p" "esDeviceID st = ipDeviceID p" "esTenant st = ipTenant p"
  shows "good (ipStore p') \<and> ipPriv p' = ipPriv p \<and> (\<exists>st'. key_stored e view st' p'
    \<and> (r = Inr () \<longrightarrow> esDeviceID st' = ipDeviceID p' \<and> esTenant st' = ipTenant p'))"
proof (cases "p' = p")
  case True
  with ok stored show ?thesis by auto
next
  case False
  then obtain out :: enrol_reply where save: "saveLocked e (p\<lparr>ipDeviceID := erDeviceID out, ipTenant := erTenant out\<rparr>) = (r, p')"
    using enrol by (auto simp: Enroll_def split: if_splits option.splits sum.splits prod.splits)
  from saveLocked_stored [OF be _ save codecs] ok
  have s: "good (ipStore p')" "ipPriv p' = ipPriv p" "ipDeviceID p' = erDeviceID out" "ipTenant p' = erTenant out"
    "r = Inr () \<Longrightarrow> key_stored e view \<lparr>esDeviceID = erDeviceID out, esTenant = erTenant out, esPrivateKey = ieEncode64 e (ipPriv p)\<rparr> p'"
    "r \<noteq> Inr () \<Longrightarrow> view (ipStore p') = view (ipStore p)" by auto
  show ?thesis
  proof (cases "r = Inr ()")
    case True
    with s show ?thesis by auto
  next
    case False
    with s stored(1) show ?thesis by (auto simp: key_stored_def)
  qed
qed

section \<open>Restarts\<close>

lemma start_mux_frame:
  assumes be: "store_backend (Store env) good view" and ok: "good s"
  shows "good (store_of (start_mux ci goos env s) s)
    \<and> view (store_of (start_mux ci goos env s) s) storeNamespace = view s storeNamespace"
proof -
  let ?e = "(ciMux ci)\<lparr>mxBackend := Store env\<rparr>"
  have flushed: "good (store_of (Flush ?e peer mx) s) \<and> view (store_of (Flush ?e peer mx) s) storeNamespace = view s storeNamespace"
    if "mxQueue mx = Some s" for peer and mx :: "'a store mux"
    using store_backend.queue_frame_flush [OF be, of ?e mx peer] that ok
    by (auto simp: Flush_def store_backend.queue_frame_def [OF be] store_of_def storeNamespace_def queueNamespace_def)
  show ?thesis using ok
    by (auto simp: start_mux_def Let_def ConnectHypervisor_def flushed split: option.splits sum.splits)
      (auto simp: store_of_def)
qed

lemma Ensure_keeps: "keeps (\<lambda>d. lookup (tree d) p = Some n \<and> quiet d) (Ensure goos l)"
proof -
  have mk: "keeps (\<lambda>d. lookup (tree d) p = Some n \<and> quiet d) (MkdirAll q)" for q
    by (auto intro!: keepsI wp_MkdirAll dest: mkdir_ext_lookup)
  have fc: "keeps (\<lambda>d. lookup (tree d) p = Some n \<and> quiet d) (FileCall q)" for q
    by (auto intro!: keepsI wp_FileCall)
  have "keeps (\<lambda>d. lookup (tree d) p = Some n \<and> quiet d) (ensure_dirs goos ds)" for ds
    by (induction ds) (auto intro!: keeps_ret keeps_then_ok mk fc simp: tightenDir_def)
  then show ?thesis unfolding Ensure_def .
qed

lemma run_services_Inr:
  assumes "run_state (run_services ci e opts now env s) wo = (Inr rn, w')"
  shows "start_identity ci opts env s = (Inr (rnEnrol rn), rnIdentity rn)
    \<and> lwStore w' = store_of (start_mux ci (leGOOS e) env (ipStore (rnIdentity rn))) (ipStore (rnIdentity rn))"
proof -
  let ?e = "e\<lparr>leSeqStore := Some (Store env)\<rparr>"
  obtain r p where id: "start_identity ci opts env s = (Inr r, p)"
    using assms by (auto simp: run_services_def Let_def split: prod.splits sum.splits)
  let ?s = "store_of (start_mux ci (leGOOS e) env (ipStore p)) (ipStore p)"
  obtain root where run: "run_state (core_modules ?e opts now) (wo\<lparr>lwStore := ?s\<rparr>) = (Inr root, w')"
    and rn: "rnEnrol rn = r" "rnIdentity rn = p"
    using assms id
    by (auto simp: run_services_def Let_def run_state_then_ok map_error_def split: prod.splits sum.splits)
  from keepsD [OF store_kept_modules run, of ?s] id rn show ?thesis by simp
qed

lemma Run_core_Inr:
  assumes "run_state (Run_core ci e opts now) w = (Inr rn, w')"
  obtains w1 env s wo where "run_state (Ensure (leGOOS e) (coLayout opts)) w = (Inr (), w1)"
    "run_state (Open_store (ciOpen ci) (ciDB ci) (StateDir (coLayout opts))) w1 = (Inr (env, s), wo)"
    "run_state (run_services ci e opts now env s) wo = (Inr rn, w')"
  using assms by (auto simp: Run_core_def run_state_then_ok map_error_def split: prod.splits sum.splits)

lemma Store_Get_view: "store_inv env s \<Longrightarrow> \<not> envCancelled env \<Longrightarrow> Store_Get env m k s = Inr (store_view env s m k)"
  by (fastforce simp: Store_Get_def store_view_def store_inv_def is_ok_iff split: option.splits sum.splits)

text \<open>An identity that is in the store is the one a start finds there.\<close>

lemma start_identity_found:
  assumes "store_inv env s" "\<not> envCancelled env" "store_view env s storeNamespace stateKey = Some raw"
    and usable: "usable_state (run_identity_env ci env) raw = Some (st, k)"
    and start: "start_identity ci opts env s = (Inr r, p)"
  shows "ipPriv p = k \<and> (esDeviceID st \<noteq> [] \<longrightarrow> ipDeviceID p = esDeviceID st \<and> ipTenant p = esTenant st)"
proof -
  let ?e = "run_identity_env ci env"
  have "beGet (ieBackend ?e) storeNamespace stateKey s = Inr (Some raw)"
    using Store_Get_view [OF assms(1,2)] assms(3) by (simp add: run_identity_env_def Store_def)
  then obtain q where q: "Init ?e (ciDraw ci) (ciNewKey ci) (new_provider ci opts s) = (Inr (), q)"
      "ipPriv q = k" "ipDeviceID q = esDeviceID st" "ipTenant q = esTenant st"
    using usable by (auto simp: Init_def Let_def new_provider_def)
  then have en: "Enroll ?e (ciChallenge ci) (ciServer ci) q = (r, p)"
    using start by (auto simp: start_identity_def split: prod.splits)
  have save: "ipPriv p = ipPriv q'" if "saveLocked ?e q' = (r, p)" for q'
    by (subst saveLocked_fields [OF that]) simp
  show ?thesis
  proof (cases "esDeviceID st = []")
    case True
    then show ?thesis using en q(2) by (auto simp: Enroll_def save split: if_splits option.splits sum.splits prod.splits)
  next
    case False
    then show ?thesis using en q by (simp add: Enroll_def)
  qed
qed

lemma open_db_fields:
  assumes "open_db e (Inr db) k = Inr (env, s)"
  obtains a where "oeNewGCM e k = Some a" "env = \<lparr>envBolt = oeBolt e, envAEAD = a, envCancelled = False\<rparr>"
    "storeRandom s = oeNonces e" "storeDB s = db"
  using assms by (cases "oeNewGCM e k") (auto simp: open_db_def)

text \<open>What the store holds after a run: an identity with the key of the running one.\<close>

lemma run_identity_stored:
  assumes be: "store_backend (Store env) good view" and ok: "good s"
    and codecs: "identity_codecs (ciIdentity ci)" and key: "\<And>k. ciNewKey ci = Some k \<Longrightarrow> length k = ed25519_PrivateKeySize"
    and run: "run_state (run_services ci e opts now env s) wo = (Inr rn, w')"
  shows "good (lwStore w') \<and> (\<exists>raw st. view (lwStore w') storeNamespace stateKey = Some raw
    \<and> usable_state (run_identity_env ci env) raw = Some (st, ipPriv (rnIdentity rn))
    \<and> (rnEnrol rn = Inr () \<longrightarrow> esDeviceID st = ipDeviceID (rnIdentity rn) \<and> esTenant st = ipTenant (rnIdentity rn)))"
proof -
  let ?e = "run_identity_env ci env" and ?p = "rnIdentity rn"
  have be': "store_backend (ieBackend ?e) good view" using be by (simp add: run_identity_env_def)
  have codecs': "identity_codecs ?e" using codecs by (simp add: identity_codecs_def run_identity_env_def)
  from run_services_Inr [OF run] have id: "start_identity ci opts env s = (Inr (rnEnrol rn), ?p)"
    and st: "lwStore w' = store_of (start_mux ci (leGOOS e) env (ipStore ?p)) (ipStore ?p)" by blast+
  from id obtain q where q: "Init ?e (ciDraw ci) (ciNewKey ci) (new_provider ci opts s) = (Inr (), q)"
      "Enroll ?e (ciChallenge ci) (ciServer ci) q = (rnEnrol rn, ?p)"
    by (auto simp: start_identity_def split: prod.splits sum.splits)
  from Init_stored [OF be' _ codecs' key q(1)] ok
  obtain s0 where i: "good (ipStore q)" "length (ipPriv q) = ed25519_PrivateKeySize" "key_stored ?e view s0 q"
      "esDeviceID s0 = ipDeviceID q" "esTenant s0 = ipTenant q" by (auto simp: new_provider_def)
  from Enroll_stored [OF be' i(1,2) codecs' q(2) i(3-5)] start_mux_frame [OF be, of "ipStore ?p" ci "leGOOS e"]
  show ?thesis unfolding st key_stored_def by auto
qed

text \<open>
  C31: the identity of the device survives a restart of core. When a core that came up is started
  again over the database it left and the key file as it was, with random bytes of its own, then, if it comes up,
  it has the same private key; and when its enrolment had gone through, it has the same device id and tenant, whatever the
  enrolment server answers now. This rests on the encrypted store, the protector of its key, the namespaces and
  the order of \<open>Run\<close>.
\<close>

theorem identity_survives_core_restart:
  assumes prot: "protector (oeSeal (ciOpen ci)) (oeUnseal (ciOpen ci))"
    and rand: "\<And>k. oeRandomKey (ciOpen ci) = Some k \<Longrightarrow> length k = masterKeySize"
    and laws: "bolt_laws (oeBolt (ciOpen ci))" "\<And>k a. oeNewGCM (ciOpen ci) k = Some a \<Longrightarrow> aead_laws a"
    and codecs: "identity_codecs (ciIdentity ci)" and key: "\<And>k. ciNewKey ci = Some k \<Longrightarrow> length k = ed25519_PrivateKeySize"
    and first: "run_state (Open_store (ciOpen ci) (Inr db) (StateDir (coLayout opts))) w1 = (Inr (env, s), wo)" "store_inv env s"
      "run_state (run_services ci e opts now env s) wo = (Inr rn, w')"
    and same: "ciOpen ci2 = new_draws rk ns (ciOpen ci)" "ciIdentity ci2 = ciIdentity ci" "ciDB ci2 = Inr (storeDB (lwStore w'))"
      "StateDir (coLayout opts2) = StateDir (coLayout opts)"
    and nonces: "\<And>n b. ns n = Some b \<Longrightarrow> length b = aeadNonceSize"
    and later: "quiet w2" "lookup (tree w2) (StateDir (coLayout opts) @ [''store.key'']) = lookup (tree wo) (StateDir (coLayout opts) @ [''store.key''])"
    and second: "run_state (Run_core ci2 e2 opts2 now2) w2 = (Inr rn2, w2')"
  shows "ipPriv (rnIdentity rn2) = ipPriv (rnIdentity rn)
    \<and> (rnEnrol rn = Inr () \<and> Enrolled (rnIdentity rn) \<longrightarrow>
         ipDeviceID (rnIdentity rn2) = ipDeviceID (rnIdentity rn) \<and> ipTenant (rnIdentity rn2) = ipTenant (rnIdentity rn))"
proof -
  let ?K = "StateDir (coLayout opts) @ [''store.key'']"
  obtain w3 env2 s2 wo2 where r2: "run_state (Ensure (leGOOS e2) (coLayout opts2)) w2 = (Inr (), w3)"
      "run_state (Open_store (new_draws rk ns (ciOpen ci)) (Inr (storeDB (lwStore w'))) (StateDir (coLayout opts))) w3 = (Inr (env2, s2), wo2)"
      "run_state (run_services ci2 e2 opts2 now2 env2 s2) wo2 = (Inr rn2, w2')"
    using Run_core_Inr [OF second] same by metis
  obtain key0 sealed where stored: "lookup (tree wo) ?K = Some (File sealed)"
    by (rule store_reopens [OF prot rand first(1) later]) blast
  have w3: "quiet w3" "lookup (tree w3) ?K = lookup (tree wo) ?K"
    using keepsD [OF Ensure_keeps r2(1), of ?K "File sealed"] later stored by auto
  obtain k where k: "open_db (ciOpen ci) (Inr db) k = Inr (env, s)"
      "open_db (new_draws rk ns (ciOpen ci)) (Inr (storeDB (lwStore w'))) k = Inr (env2, s2)"
    by (rule store_reopens [OF prot rand first(1) w3, where ?db2.0 = "Inr (storeDB (lwStore w'))" and rk = rk and ns = ns]) (use r2(2) in auto)
  from k(1) obtain a where a0: "oeNewGCM (ciOpen ci) k = Some a"
      "env = \<lparr>envBolt = oeBolt (ciOpen ci), envAEAD = a, envCancelled = False\<rparr>" "storeRandom s = oeNonces (ciOpen ci)"
    by (rule open_db_fields)
  from k(2) a0 have a: "env2 = env" "storeDB s2 = storeDB (lwStore w')" "storeRandom s2 = ns"
    by (auto elim!: open_db_fields simp: new_draws_def)
  have be: "store_backend (Store env) (store_inv env) (store_view env)"
    by (rule Store_backend) (use laws a0 in simp_all)
  obtain raw st where kept: "store_inv env (lwStore w')" "store_view env (lwStore w') storeNamespace stateKey = Some raw"
      "usable_state (run_identity_env ci env) raw = Some (st, ipPriv (rnIdentity rn))"
      "rnEnrol rn = Inr () \<Longrightarrow> esDeviceID st = ipDeviceID (rnIdentity rn) \<and> esTenant st = ipTenant (rnIdentity rn)"
    using run_identity_stored [OF be first(2) codecs key first(3)] by blast
  have found: "store_inv env2 s2" "store_view env2 s2 storeNamespace stateKey = Some raw" "\<not> envCancelled env2"
    using kept(1,2) nonces a a0(2) by (simp_all add: store_inv_def store_view_def)
  have usable: "usable_state (run_identity_env ci2 env2) raw = Some (st, ipPriv (rnIdentity rn))"
    using kept(3) a(1) by (simp add: run_identity_env_def same(2))
  have "start_identity ci2 opts2 env2 s2 = (Inr (rnEnrol rn2), rnIdentity rn2)" using run_services_Inr [OF r2(3)] by blast
  from start_identity_found [OF found(1,3,2) usable this] kept(4) show ?thesis unfolding Enrolled_def by metis
qed

text \<open>A core without modules that is started twice on an empty directory, with no server configured.\<close>

definition ex_core_env :: "mem_store store lc_env" where
  "ex_core_env = \<lparr>leModulesDir = [''modules''], leStagingDir = [''staging''], leGOOS = ''linux'', leGOARCH = ''amd64'',
     leVerifier = (\<lambda>_ _ _. None), leSup = ex_sup, leGateTimeout = 0, leGateStable = 0,
     leDecode = (\<lambda>_. Inl []), leEncode = (\<lambda>_. None), leSHA256 = (\<lambda>b. b), leRootPub = None, leManifestURL = [],
     leCrypto = ex_crypto, leParseTime = (\<lambda>_. None), leSeqStore = None\<rparr>"

definition ex_core_options :: core_options where
  "ex_core_options = \<lparr>coLayout = \<lparr>StateDir = [], LogDir = [''log''], RunDir = [''run''], StagingDir = [''staging''], ModulesDir = [''modules'']\<rparr>,
     coModulesDir = None, coRootPub = None, coReady = None, coVersion = ''1.0.0'', coAllowOverride = False, coEmbedded = []\<rparr>"

definition ex_core_identity :: "mem_store store identity_env" where
  "ex_core_identity = \<lparr>ieBackend = Store ex_store_env, ieEncode64 = ieEncode64 ex_state_env, ieDecode64 = ieDecode64 ex_state_env,
     ieVerify = ieVerify ex_state_env, ieSign = ieSign ex_state_env, iePublic = iePublic ex_state_env, ieScheme = ieScheme ex_state_env,
     ieEncodeState = ieEncodeState ex_state_env, ieDecodeState = ieDecodeState ex_state_env, ieDecodeNonce = ieDecodeNonce ex_state_env,
     ieEncodeEnrol = ieEncodeEnrol ex_state_env, ieDecodeReply = ieDecodeReply ex_state_env, ieDecodeAssignment = ieDecodeAssignment ex_state_env\<rparr>"

definition ex_core_inputs :: "mem_store \<Rightarrow> bytes option \<Rightarrow> mem_store core_inputs" where
  "ex_core_inputs db newKey = \<lparr>ciOpen = ex_open_env, ciDB = Inr db,
     ciPolicy = \<lparr>peBackend = Store ex_store_env, peEncode = (\<lambda>_. None), peDecode = (\<lambda>_. None)\<rparr>, ciIdentity = ex_core_identity,
     ciMux = \<lparr>mxBackend = Store ex_store_env, mxCodec = \<lparr>encodeQueued = (\<lambda>_. None), decodeQueued = (\<lambda>_. None)\<rparr>, mxUp = (\<lambda>_. False)\<rparr>,
     ciGateWeaveURL = [], ciDraw = ''00'', ciNewKey = newKey, ciChallenge = Policy.NoReply, ciServer = (\<lambda>_. Policy.NoReply),
     ciCaps = [], ciDevice = \<lparr>doOpen = (\<lambda>_. False), doTerminal = (\<lambda>_. False), doMakeRaw = (\<lambda>_. False)\<rparr>\<rparr>"

definition ex_core_world :: "fs \<Rightarrow> mem_store store lc_world" where
  "ex_core_world t = \<lparr>tree = t, calls = 0, fault = (\<lambda>_. None), lwRegistry = \<lparr>rgRunners = [], rgBase = False\<rparr>, lwStore = ex_store,
     lwGates = [], lwPassed = []\<rparr>"

definition ex_core_first :: "mem_store core_inputs" where "ex_core_first = ex_core_inputs [] (Some (replicate 64 CHR ''p''))"

definition ex_core_open where
  "ex_core_open = run_state (Open_store ex_open_env (Inr ([] :: mem_store)) []) (ex_core_world [([], Directory)])"

definition ex_core_opened :: "mem_store store_env \<times> mem_store store" where
  "ex_core_opened = (case fst ex_core_open of Inr x \<Rightarrow> x | Inl _ \<Rightarrow> (ex_store_env, ex_store))"

definition ex_core_run where
  "ex_core_run = run_state (run_services ex_core_first ex_core_env ex_core_options 0 (fst ex_core_opened) (snd ex_core_opened)) (snd ex_core_open)"

definition ex_core_again :: "mem_store \<Rightarrow> mem_store core_inputs" where
  "ex_core_again db = (ex_core_inputs db (Some (replicate 64 CHR ''q'')))
     \<lparr>ciOpen := new_draws (Some (replicate 32 CHR ''z'')) (\<lambda>_. Some (replicate 12 CHR ''y'')) ex_open_env\<rparr>"

definition ex_core_second where
  "ex_core_second = run_state (Run_core (ex_core_again (storeDB (lwStore (snd ex_core_run)))) ex_core_env
     ex_core_options 7) (ex_core_world (tree (snd ex_core_open)))"

lemma is_ok_pair: "is_ok (fst x) \<Longrightarrow> x = (Inr (projr (fst x)), snd x)"
  by (cases x; cases "fst x") (auto simp: is_ok_def)

lemma ex_core_ok: "is_ok (fst ex_core_open)" "is_ok (fst ex_core_run)" "is_ok (fst ex_core_second)"
  by code_simp+

theorem identity_survives_core_restart_witness:
  "ipPriv (rnIdentity (projr (fst ex_core_second))) = ipPriv (rnIdentity (projr (fst ex_core_run)))"
proof -
  have opened: "run_state (Open_store (ciOpen ex_core_first) (Inr []) (StateDir (coLayout ex_core_options))) (ex_core_world [([], Directory)])
      = (Inr (fst ex_core_opened, snd ex_core_opened), snd ex_core_open)"
    using ex_core_ok(1)
    by (auto simp: ex_core_first_def ex_core_inputs_def ex_core_options_def ex_core_open_def [symmetric] ex_core_opened_def is_ok_def
        prod_eq_iff split: sum.splits)
  have inv: "store_inv env s" if "open_db ex_open_env (Inr []) k = Inr (env, s)" for k env s
    using that by (auto simp: open_db_def ex_open_env_def store_inv_def aeadNonceSize_def ex_bolt_def mem_view_def split: if_splits)
  show ?thesis
  proof (rule identity_survives_core_restart [OF _ _ _ _ _ _ opened, where e = ex_core_env, THEN conjunct1])
    show "store_inv (fst ex_core_opened) (snd ex_core_opened)"
      by (rule Open_store_Inr [OF opened]) (simp add: ex_core_first_def ex_core_inputs_def inv)
    show "run_state (run_services ex_core_first ex_core_env ex_core_options 0 (fst ex_core_opened) (snd ex_core_opened)) (snd ex_core_open)
        = (Inr (projr (fst ex_core_run)), snd ex_core_run)"
      using is_ok_pair [OF ex_core_ok(2)] by (simp add: ex_core_run_def)
    show "run_state (Run_core (ex_core_again (storeDB (lwStore (snd ex_core_run)))) ex_core_env ex_core_options 7)
        (ex_core_world (tree (snd ex_core_open))) = (Inr (projr (fst ex_core_second)), snd ex_core_second)"
      using is_ok_pair [OF ex_core_ok(3)] by (simp add: ex_core_second_def)
    show "protector (oeSeal (ciOpen ex_core_first)) (oeUnseal (ciOpen ex_core_first))"
      using fileProtector.protector_axioms by (simp add: ex_core_first_def ex_core_inputs_def ex_open_env_def)
    show "identity_codecs (ciIdentity ex_core_first)"
      using ex_state_codec by (auto simp: identity_codecs_def ex_core_first_def ex_core_inputs_def ex_core_identity_def)
        (simp add: ex_state_env_def ex_identity_env_def)
    show "ciOpen (ex_core_again (storeDB (lwStore (snd ex_core_run))))
        = new_draws (Some (replicate 32 CHR ''z'')) (\<lambda>_. Some (replicate 12 CHR ''y'')) (ciOpen ex_core_first)"
      by (simp add: ex_core_again_def ex_core_first_def ex_core_inputs_def)
  qed (auto simp: aeadNonceSize_def ex_core_again_def ex_core_first_def ex_core_inputs_def ex_open_env_def masterKeySize_def ed25519_PrivateKeySize_def ex_bolt_laws ex_aead_laws
      ex_core_world_def quiet_def ex_core_options_def split: if_splits)
qed

section \<open>Enrolment and failed starts\<close>

text \<open>
  A release build does not enrol: \<open>Run\<close> pins no server key, so with a server configured the enrolment
  of a device that has no id fails, and the provider stays as \<open>Init\<close> made it.
\<close>

theorem release_never_enrols:
  assumes "\<not> coAllowOverride opts" "start_identity ci opts env s = (Inr r, p)"
  shows "Init (run_identity_env ci env) (ciDraw ci) (ciNewKey ci) (new_provider ci opts s) = (Inr (), p)
    \<and> (ipDeviceID p = [] \<and> endpoint (ciGateWeaveURL ci) ''/v1/enroll'' \<noteq> [] \<longrightarrow> r \<noteq> Inr ())"
proof -
  let ?e = "run_identity_env ci env"
  from assms(2) obtain q where q: "Init ?e (ciDraw ci) (ciNewKey ci) (new_provider ci opts s) = (Inr (), q)"
      "Enroll ?e (ciChallenge ci) (ciServer ci) q = (r, p)"
    by (auto simp: start_identity_def split: prod.splits sum.splits)
  have save: "ipServerPub p' = ipServerPub q' \<and> ipAllowInsecure p' = ipAllowInsecure q' \<and> ipEnrollURL p' = ipEnrollURL q'"
    if "saveLocked ?e q' = (r', p')" for q' r' p'
    by (subst (1 2 3) saveLocked_fields [OF that]) simp
  have "ipServerPub q = [] \<and> \<not> ipAllowInsecure q \<and> ipEnrollURL q = endpoint (ciGateWeaveURL ci) ''/v1/enroll''"
    using q(1) assms(1)
    by (auto simp: Init_def Let_def new_provider_def create_identity_def dest!: save split: sum.splits option.splits prod.splits)
  then have "\<exists>err. checkEnrolTransport ?e q = Inl err" "ipEnrollURL q = endpoint (ciGateWeaveURL ci) ''/v1/enroll''"
    by (auto simp: checkEnrolTransport_def split: option.splits)
  with q show ?thesis by (auto simp: Enroll_def split: if_splits)
qed

text \<open>A run that fails at the store or at the identity has registered no module.\<close>

lemma registry_kept_calls:
  "keeps (\<lambda>w. lwRegistry w = g) (ReadFile q)" "keeps (\<lambda>w. lwRegistry w = g) (MkdirAll q)" "keeps (\<lambda>w. lwRegistry w = g) (FileCall q)"
  "keeps (\<lambda>w. lwRegistry w = g) (Remove q)" "keeps (\<lambda>w. lwRegistry w = g) (CreateTemp q c)"
  "keeps (\<lambda>w. lwRegistry w = g) (WriteString q b)" "keeps (\<lambda>w. lwRegistry w = g) (Rename q q')"
  unfolding ReadFile_def MkdirAll_def FileCall_def Remove_def CreateTemp_def WriteString_def Rename_def
  by (auto intro!: keepsI simp: wp_syscall after_call_def split: option.splits)

lemma registry_kept_Open: "keeps (\<lambda>w. lwRegistry w = g) (Open_store oe db dir)"
  unfolding Open_store_def loadOrCreateKey_def createKey_def publish_key_def finish_marker_def
  by (intro store_kept registry_kept_calls)

lemma registry_kept_Ensure: "keeps (\<lambda>w. lwRegistry w = g) (Ensure goos l)"
proof -
  have "keeps (\<lambda>w. lwRegistry w = g) (ensure_dirs goos ds)" for ds
    by (induction ds) (auto intro!: store_kept registry_kept_calls simp: tightenDir_def)
  then show ?thesis unfolding Ensure_def .
qed

theorem failed_start_registers_nothing:
  assumes "run_state (Run_core ci e opts now) w = (Inl err, w')" "err \<in> range RunStore \<union> range RunIdentity"
  shows "lwRegistry w' = lwRegistry w"
proof -
  obtain r1 w1 where ens: "run_state (Ensure (leGOOS e) (coLayout opts)) w = (r1, w1)" by fastforce
  obtain r2 w2 where op: "run_state (Open_store (ciOpen ci) (ciDB ci) (StateDir (coLayout opts))) w1 = (r2, w2)" by fastforce
  have "lwRegistry w2 = lwRegistry w"
    using keepsD [OF registry_kept_Ensure ens] keepsD [OF registry_kept_Open op] by simp
  then show ?thesis using assms ens op
    by (auto simp: Run_core_def run_services_def Let_def run_state_then_ok map_error_def split: prod.splits sum.splits)
qed

end
