(* ===== verification/Control.thy ===== *)
theory Control
  imports Lifecycle Identity
begin

text \<open>
  The control service (\<open>src/internal/controlsock/server.go\<close>, \<open>src/internal/controlsock/authorize_unix.go\<close>):
  who may connect, and the calls of \<open>weavectl\<close> on the supervisor and on the lifecycle manager.
\<close>

section \<open>Access\<close>

definition controlAuthorizer :: "uint32 \<Rightarrow> peer_cred \<Rightarrow> bool" where
  "controlAuthorizer self p = (\<not> pcHasUID p \<or> pcUID p = 0 \<or> pcUID p = self)"

definition isWindowsAddr :: "string \<Rightarrow> bool" where
  "isWindowsAddr addr = (length addr > 4 \<and> take 4 addr = [CHR 0x5C, CHR 0x5C, CHR ''.'', CHR 0x5C])"

text \<open>The network \<open>Dial\<close> uses for an address.\<close>

definition dial_network :: "string \<Rightarrow> string" where
  "dial_network addr = (if isWindowsAddr addr then NetworkPipe else NetworkUnix)"


section \<open>Calls\<close>

record status_response =
  srCoreVersion :: string
  srProtocol :: "uint32 \<times> uint32"
  srDeviceID :: string
  srEnrolled :: bool
  srUptimeSeconds :: uint64

definition Status_call :: "string \<Rightarrow> window \<Rightarrow> 'st provider \<Rightarrow> time \<Rightarrow> time \<Rightarrow> status_response" where
  "Status_call version win p startedAt now =
     \<lparr>srCoreVersion = version, srProtocol = (winMin win, winMax win), srDeviceID = fst (WhoAmI p), srEnrolled = Enrolled p,
      srUptimeSeconds = of_int ((now - startedAt) div second)\<rparr>"

text \<open>The state is shown with its detail if there is one; the pid is cut to 32 bits.\<close>

record control_module =
  cmdID :: string
  cmdVersion :: string
  cmdProtocol :: uint32
  cmdState :: "State \<times> detail option"
  cmdHealth :: "health option"
  cmdPid :: "32 word"
  cmdRestarts :: uint32

definition control_module_of :: "module_status \<Rightarrow> control_module" where
  "control_module_of st =
     \<lparr>cmdID = msID st, cmdVersion = msVersion st, cmdProtocol = msProtocol st,
      cmdState = (msState st, if msDetail st = NoDetail then None else Some (msDetail st)),
      cmdHealth = msHealth st, cmdPid = of_int (msPid st), cmdRestarts = msRestarts st\<rparr>"

definition Modules_call :: "registry \<Rightarrow> control_module list" where
  "Modules_call g = map control_module_of (Statuses g)"

definition Surfaces_call :: "registry \<Rightarrow> (string \<times> string list) list" where
  "Surfaces_call g = map (\<lambda>st. (msID st, msSurfaces st)) (filter (\<lambda>st. msSurfaces st \<noteq> []) (Statuses g))"

datatype control_call =
    InstallCall "path option" string string
  | RollbackCall string
  | LogsCall

datatype control_error = FailedPrecondition lc_error | Unimplemented

definition control_handle :: "'st lc_env \<Rightarrow> net \<Rightarrow> control_call \<Rightarrow> ('st lc_world, (control_error, string) result) state" where
  "control_handle e io call =
     (case call of
        InstallCall local m v \<Rightarrow>
          wrap_err FailedPrecondition (case local of Some dir \<Rightarrow> InstallLocal e dir | None \<Rightarrow> Install e io m v)
      | RollbackCall m \<Rightarrow> wrap_err FailedPrecondition (Rollback e m)
      | LogsCall \<Rightarrow> ret (Inl Unimplemented))"

fun control_calls :: "'st lc_env \<Rightarrow> (net \<times> control_call) list \<Rightarrow> ('st lc_world, (control_error, string) result list) state" where
  "control_calls e [] = ret []"
| "control_calls e ((io, call) # cs) = do {
     r \<leftarrow> control_handle e io call;
     rs \<leftarrow> control_calls e cs;
     ret (r # rs) }"


section \<open>The registry under control calls\<close>

text \<open>A call of the operating system changes the tree and the call counter only.\<close>

abbreviation reg_ok :: "sup_settings \<Rightarrow> 'st lc_world \<Rightarrow> bool" where
  "reg_ok ss w \<equiv> registry_ok ss (lwRegistry w)"

lemma keeps_syscall: "keeps (reg_ok ss) (syscall p act partial)"
  by (auto intro!: keepsI simp: wp_syscall after_call_def split: option.splits)

lemma keeps_disk_calls:
  "keeps (reg_ok ss) (ReadFile p)" "keeps (reg_ok ss) (Stat p)" "keeps (reg_ok ss) (ReadDir p)"
  "keeps (reg_ok ss) (WriteFile p b)" "keeps (reg_ok ss) (WriteString p b)" "keeps (reg_ok ss) (FileCall p)"
  "keeps (reg_ok ss) (MkdirAll p)" "keeps (reg_ok ss) (Remove p)" "keeps (reg_ok ss) (RemoveAll p)"
  "keeps (reg_ok ss) (Rename p q)" "keeps (reg_ok ss) (CreateTemp p pre)"
  by (simp_all add: ReadFile_def Stat_def ReadDir_def WriteFile_def WriteString_def FileCall_def MkdirAll_def Remove_def
      RemoveAll_def Rename_def CreateTemp_def keeps_syscall)

lemmas keeps_rules = keeps_disk_calls keeps_intros

lemma keeps_writeFileString: "keeps (reg_ok ss) (writeFileString p s)"
  unfolding writeFileString_def finish_marker_def by (intro keeps_rules)

lemma keeps_findBinary: "keeps (reg_ok ss) (findBinary e dir m)"
proof -
  have "keeps (reg_ok ss) (findBinary_in dir cs)" for cs
  proof (induction cs)
    case (Cons c cs)
    then show ?case by (auto intro!: keeps_rules split: sum.splits node.splits)
  qed (simp add: keeps_ret)
  then show ?thesis unfolding findBinary_def by (intro keeps_rules)
qed

lemma keeps_replace: "leSup e = ss \<Longrightarrow> keeps (reg_ok ss) (replace_module e sp)"
  by (auto intro!: keepsI simp: replace_module_def wp_def Replace_def case_prod_beta registry_ok_Add registry_ok_Stop)


lemma keeps_registry_ops:
  "keeps (reg_ok ss) (stop_module m)" "keeps (reg_ok ss) (run_gate e mf)" "keeps (reg_ok ss) (fetch_channel e rootPub io)"
  by (auto intro!: keepsI registry_ok_Stop simp: stop_module_def run_gate_def fetch_channel_def wp_modify wp_def Let_def split: prod.splits)

lemma keeps_activate: "leSup e = ss \<Longrightarrow> keeps (reg_ok ss) (activate e mf dir)"
  unfolding activate_def by (intro keeps_rules keeps_findBinary keeps_replace keeps_registry_ops keeps_writeFileString)

lemma keeps_prune: "keeps (reg_ok ss) (prune dir keep prev)"
proof -
  have "keeps (reg_ok ss) (prune_entries d keep prev es)" for d es
    by (induction d keep prev es rule: prune_entries.induct) (auto intro: keeps_rules)
  then show ?thesis unfolding prune_def by (intro keeps_rules)
qed

lemma keeps_Load_manifest: "keeps (reg_ok ss) (Load_manifest decode p)"
  unfolding Load_manifest_def by (intro keeps_rules)

lemma keeps_promote:
  assumes "leSup e = ss"
  shows "keeps (reg_ok ss) (promote e mf stage)"
  unfolding promote_def Let_def restore_old_def retain_old_def read_current_def
  by (intro keeps_rules keeps_activate assms keeps_prune keeps_writeFileString keeps_Load_manifest)

lemma keeps_copyFile: "keeps (reg_ok ss) (copyFile src dst)"
  unfolding copyFile_def by (intro keeps_bind keeps_disk_calls) (auto intro!: keeps_rules split: sum.splits node.splits)

lemma keeps_stageFiles: "keeps (reg_ok ss) (stageFiles e mf bin config)"
  unfolding stageFiles_def verify_stage_def copy_config_def by (intro keeps_rules keeps_copyFile)

lemma keeps_download: "keeps (reg_ok ss) (download e io url digest sz)"
  unfolding download_def discard_def Let_def
  by (cases "netArtifact io url") (auto intro!: keeps_rules)

lemma keeps_control_handle:
  assumes "leSup e = ss"
  shows "keeps (reg_ok ss) (control_handle e io call)"
proof -
  have staged: "keeps (reg_ok ss) (install_staged e mf bin config)" for mf bin config
    unfolding install_staged_def by (intro keeps_rules keeps_stageFiles keeps_promote assms)
  have "keeps (reg_ok ss) (InstallLocal e dir)" for dir
    unfolding InstallLocal_def by (intro keeps_rules keeps_Load_manifest keeps_findBinary staged)
  moreover have "keeps (reg_ok ss) (Install e io m v)" for m v
    unfolding Install_def install_artifact_def Let_def by (intro keeps_rules keeps_registry_ops keeps_download staged)
  moreover have "keeps (reg_ok ss) (Rollback e m)" for m
    unfolding Rollback_def Let_def
    by (intro keeps_rules keeps_Load_manifest keeps_activate keeps_writeFileString assms)
  ultimately show ?thesis by (cases call) (auto simp: control_handle_def intro!: keeps_rules)
qed

text \<open>
  Whatever operators ask of the control service, and whatever calls of the operating system fail
  meanwhile, the registry of the supervisor keeps its invariant: a module has at most one runner,
  registered under the id of its manifest, and a runner whose capabilities the host lacks is never
  started.
\<close>

theorem control_keeps_registry:
  assumes "registry_ok (leSup e) (lwRegistry w)" "run_state (control_calls e cs) w = (rs, w')"
  shows "registry_ok (leSup e) (lwRegistry w')"
proof -
  have "keeps (reg_ok (leSup e)) (control_calls e cs)"
    by (induction e cs rule: control_calls.induct) (auto intro!: keeps_rules keeps_control_handle)
  from keepsD [OF this assms(2,1)] show ?thesis .
qed

definition ex_control_env :: "unit lc_env" where
  "ex_control_env = \<lparr>leModulesDir = [''modules''], leStagingDir = [''staging''], leGOOS = ''linux'', leGOARCH = ''amd64'',
     leVerifier = (\<lambda>_ _ _. None), leSup = ex_sup, leGateTimeout = 0, leGateStable = 0,
     leDecode = (\<lambda>_. Inl []), leEncode = (\<lambda>_. None), leSHA256 = (\<lambda>b. b), leRootPub = None, leManifestURL = [],
     leCrypto = ex_crypto, leParseTime = (\<lambda>_. None), leSeqStore = None\<rparr>"

definition ex_idle_net :: net where
  "ex_idle_net = \<lparr>netGet = (\<lambda>_. NoReply), netArtifact = (\<lambda>_. NoArtifactReply), netNow = 0\<rparr>"

definition ex_control_world :: "unit lc_world" where
  "ex_control_world = \<lparr>tree = [([], Directory)], calls = 0, fault = (\<lambda>_. None),
     lwRegistry = snd (Add ex_sup ex_spec 0 \<lparr>rgRunners = [], rgBase = True\<rparr>), lwStore = (), lwGates = [], lwPassed = []\<rparr>"

theorem control_keeps_registry_witness:
  "registry_ok ex_sup (lwRegistry (snd (run_state (control_calls ex_control_env [(ex_idle_net, RollbackCall ''sysinfo''), (ex_idle_net, LogsCall)]) ex_control_world)))"
proof -
  have "registry_ok (leSup ex_control_env) (lwRegistry ex_control_world)" by code_simp
  moreover have "leSup ex_control_env = ex_sup" by (simp add: ex_control_env_def)
  ultimately show ?thesis using control_keeps_registry [OF _ prod.collapse [symmetric], of ex_control_env] by metis
qed
end
