(* ===== verification/Core_Serve.thy ===== *)
theory Core_Serve
  imports Core_Run Control Weaveboot
begin

text \<open>
  Core from its start to its end (\<open>src/internal/core/core.go\<close>, the end of \<open>Run\<close>, and \<open>Serve\<close> of
  \<open>src/internal/controlsock/server.go\<close>): the control socket is served until the context ends or the server fails, and weaveboot
  runs such a core. The theorems show who can change anything through the socket, and what
  weaveboot makes of a core that cannot serve it.
\<close>

section \<open>The control socket\<close>

text \<open>The authorizer of the two files: by peer credentials on unix, by the pipe on Windows.\<close>

definition control_admits :: "string \<Rightarrow> uint32 \<Rightarrow> peer_cred \<Rightarrow> bool" where
  "control_admits goos self p = (if goos = ''windows'' then True else controlAuthorizer self p)"

text \<open>
  What arrives while the socket is served: a connection with its peer and its calls, the end of the context, which stops the server
  gracefully, or a failure of the listener.
\<close>

datatype serve_event = Connects peer_cred "(net \<times> control_call) list" | ContextDone | ListenerFails string

datatype serve_end = StillServing | ServeStopped | ServeError string

fun serve_events :: "(peer_cred \<Rightarrow> bool) \<Rightarrow> 'st lc_env \<Rightarrow> serve_event list \<Rightarrow> ('st lc_world, serve_end) state" where
  "serve_events admits e [] = ret StillServing"
| "serve_events admits e (Connects p cs # evs) =
     (if admits p then do { _ \<leftarrow> control_calls e cs; serve_events admits e evs } else serve_events admits e evs)"
| "serve_events admits e (ContextDone # evs) = ret ServeStopped"
| "serve_events admits e (ListenerFails err # evs) = ret (ServeError err)"

text \<open>\<open>Serve\<close>; \<open>listened\<close> is the outcome of listening at the address.\<close>

definition control_Serve ::
    "string \<Rightarrow> uint32 \<Rightarrow> (string, unit) result \<Rightarrow> 'st lc_env \<Rightarrow> serve_event list \<Rightarrow> ('st lc_world, serve_end) state" where
  "control_Serve goos self listened e evs =
     (case listened of Inl err \<Rightarrow> ret (ServeError err) | Inr _ \<Rightarrow> serve_events (control_admits goos self) e evs)"


section \<open>The end of Run\<close>

datatype core_end = CoreError run_error | ControlFailed string | CoreStopped | CoreServing

text \<open>
  The lifecycle manager that \<open>Run\<close> hands to the control server: the directories of the layout, the store that was
  opened, and the root key that was loaded. Then the whole of \<open>Run\<close>. The readiness marker is written with the modules, right after the goroutine of the control socket has been started, and before
  \<open>Run\<close> waits for the context or for the error of that goroutine.
\<close>

definition control_env :: "core_options \<Rightarrow> 'db running \<Rightarrow> 'db store lc_env \<Rightarrow> 'db store lc_env" where
  "control_env opts rn e =
     e\<lparr>leModulesDir := ModulesDir (coLayout opts), leStagingDir := StagingDir (coLayout opts),
       leSeqStore := Some (Store (rnEnv rn)), leRootPub := rnRootPub rn\<rparr>"

definition Run_to_end ::
    "'db core_inputs \<Rightarrow> 'db store lc_env \<Rightarrow> core_options \<Rightarrow> time \<Rightarrow> uint32 \<Rightarrow> (string, unit) result \<Rightarrow> serve_event list
      \<Rightarrow> ('db store lc_world, core_end) state" where
  "Run_to_end ci e opts now self listened evs = do {
     r \<leftarrow> Run_core ci e opts now;
     case r of
       Inl err \<Rightarrow> ret (CoreError err)
     | Inr rn \<Rightarrow> do {
         served \<leftarrow> control_Serve (leGOOS e) self listened (control_env opts rn e) evs;
         ret (case served of ServeError err \<Rightarrow> ControlFailed err | ServeStopped \<Rightarrow> CoreStopped | StillServing \<Rightarrow> CoreServing) } }"

text \<open>Such a core as weaveboot runs it: a process with its effect on the disk.\<close>

definition core_process ::
    "('db store lc_world, core_end) state \<Rightarrow> (fs \<Rightarrow> 'db store lc_world) \<Rightarrow> duration \<Rightarrow> core_run" where
  "core_process run boot lasted =
     \<lparr>ranFor = lasted, coreEffect = (\<lambda>t. tree (snd (run_state run (boot t)))), stopped = False\<rparr>"


section \<open>Who changes anything\<close>

definition admitted :: "(peer_cred \<Rightarrow> bool) \<Rightarrow> serve_event \<Rightarrow> bool" where
  "admitted admits ev = (case ev of Connects p _ \<Rightarrow> admits p | _ \<Rightarrow> True)"

lemma serve_admitted: "serve_events admits e evs = serve_events admits e (filter (admitted admits) evs)"
  by (induction admits e evs rule: serve_events.induct) (simp_all add: admitted_def)

lemma serve_nobody:
  "\<forall>p cs. Connects p cs \<notin> set evs \<Longrightarrow> snd (run_state (serve_events admits e evs) w) = w"
  by (induction admits e evs rule: serve_events.induct) auto

text \<open>A connection whose peer the kernel names as a user other than root and the one core runs as.\<close>

definition other_user :: "uint32 \<Rightarrow> serve_event \<Rightarrow> bool" where
  "other_user self ev = (case ev of Connects p _ \<Rightarrow> pcHasUID p \<and> pcUID p \<noteq> 0 \<and> pcUID p \<noteq> self | _ \<Rightarrow> False)"

text \<open>The same connection made by root, where the kernel names no user.\<close>

definition nameless_as_root :: "serve_event \<Rightarrow> serve_event" where
  "nameless_as_root ev =
     (case ev of Connects p cs \<Rightarrow> (if pcHasUID p then ev else Connects (p\<lparr>pcUID := 0, pcHasUID := True\<rparr>) cs) | _ \<Rightarrow> ev)"

definition connection :: "serve_event \<Rightarrow> bool" where
  "connection ev = (case ev of Connects _ _ \<Rightarrow> True | _ \<Rightarrow> False)"

lemma serve_nameless:
  "goos \<noteq> ''windows'' \<Longrightarrow>
    serve_events (control_admits goos self) e evs = serve_events (control_admits goos self) e (map nameless_as_root evs)"
  by (induction "control_admits goos self" e evs rule: serve_events.induct)
    (simp_all add: nameless_as_root_def control_admits_def controlAuthorizer_def)


definition ex_peer :: "uint32 \<Rightarrow> peer_cred" where
  "ex_peer uid = \<lparr>pcUID = uid, pcHasUID = True, pcPID = 7, pcHasPID = True\<rparr>"



section \<open>Ready, but not served\<close>

text \<open>
  A core whose control socket cannot be listened on ends with an error at once, with everything on the disk as \<open>Run\<close> has left it, its readiness
  marker included. weaveboot takes it for a core that became ready, and by \<open>ready_core_never_reverted\<close> runs
  it for ever.
\<close>

lemma unserved_run:
  "run_state (Run_core ci e opts now) w = (Inr rn, w') \<Longrightarrow>
    run_state (Run_to_end ci e opts now self (Inl err) evs) w = (ControlFailed err, w')"
  by (simp add: Run_to_end_def control_Serve_def)

definition ex_unserved :: "core_end \<times> mem_store store lc_world" where
  "ex_unserved = run_state (Run_to_end ex_core_first ex_core_env (ex_core_options\<lparr>coReady := Some [''c'', ''ready'']\<rparr>) 0 0
     (Inl ''address too long'') []) (ex_core_world [([], Directory), ([''c''], Directory)])"

theorem unserved_core_is_ready:
  "case ex_unserved of (r, w) \<Rightarrow> r = ControlFailed ''address too long'' \<and> fst (run_state (markerFresh [''c'', ''ready'']) w)"
  by code_simp

end
