(* ===== verification/Commands.thy ===== *)
theory Commands
  imports Core_Serve
begin

text \<open>
  The commands around the packages: the operator's \<open>weavectl\<close> (\<open>src/cmd/weavectl/main.go\<close>) from its
  arguments to the calls of the control service, the choice of the verifier and the start of core
  in \<open>weave-agent\<close> (\<open>src/cmd/weave-agent/main.go\<close>), and the options \<open>weaveboot\<close> runs with
  (\<open>src/cmd/weaveboot/main.go\<close>). What is printed is kept as data; the layout of tables is not
  modelled.
\<close>

section \<open>weavectl\<close>

datatype ctl_output =
    UsageText
  | Fatal string
  | ShowStatus status_response
  | ShowModules "control_module list"
  | ShowSurfaces "(string \<times> string list) list"
  | NoSurfaces
  | ShowInstalled string
  | ShowRolledBack string

text \<open>
  The agent as the command meets it: whether the socket answers, what \<open>filepath.Abs\<close> makes of an
  argument, and what the service knows beside the lifecycle manager.
\<close>

record ctl_env =
  ceDial :: "string \<Rightarrow> string option"
  ceAbs :: "string \<Rightarrow> (string, path) result"
  ceStatus :: status_response
  ceReachable :: bool

text \<open>The install request from the arguments after the command; \<open>None\<close> prints the usage.\<close>

definition install_request :: "ctl_env \<Rightarrow> string list \<Rightarrow> (string, control_call) result option" where
  "install_request c args =
     (case args of
        [] \<Rightarrow> None
      | a # rest \<Rightarrow>
          (case rest of
             b # _ \<Rightarrow>
               if a = ''-local'' then
                 Some (case ceAbs c b of Inl e \<Rightarrow> Inl (''resolving path: '' @ e) | Inr dir \<Rightarrow> Inr (InstallCall (Some dir) [] []))
               else Some (Inr (InstallCall None a b))
           | [] \<Rightarrow> Some (Inr (InstallCall None a []))))"

definition ctl_call ::
    "ctl_env \<Rightarrow> 'st lc_env \<Rightarrow> net \<Rightarrow> string \<Rightarrow> (string \<Rightarrow> ctl_output) \<Rightarrow> control_call \<Rightarrow> ('st lc_world, nat \<times> ctl_output) state" where
  "ctl_call c e io name ok call =
     (if \<not> ceReachable c then ret (1, Fatal (name @ '': unavailable''))
      else do {
        r \<leftarrow> control_handle e io call;
        ret (case r of Inl _ \<Rightarrow> (1, Fatal name) | Inr v \<Rightarrow> (0, ok v)) })"

definition ctl_show :: "ctl_env \<Rightarrow> string \<Rightarrow> ctl_output \<Rightarrow> nat \<times> ctl_output" where
  "ctl_show c name out = (if ceReachable c then (0, out) else (1, Fatal (name @ '': unavailable'')))"

definition ctl_command :: "ctl_env \<Rightarrow> 'st lc_env \<Rightarrow> net \<Rightarrow> string \<Rightarrow> string list \<Rightarrow> ('st lc_world, nat \<times> ctl_output) state" where
  "ctl_command c e io cmd args =
     (if cmd = ''status'' then ret (ctl_show c cmd (ShowStatus (ceStatus c)))
      else if cmd = ''modules'' then do {
        g \<leftarrow> reads lwRegistry;
        ret (ctl_show c cmd (ShowModules (Modules_call g))) }
      else if cmd = ''surfaces'' then do {
        g \<leftarrow> reads lwRegistry;
        ret (ctl_show c cmd (let ms = Surfaces_call g in if ms = [] then NoSurfaces else ShowSurfaces ms)) }
      else if cmd = ''install'' then
        (case install_request c args of
           None \<Rightarrow> ret (2, UsageText)
         | Some (Inl err) \<Rightarrow> ret (1, Fatal err)
         | Some (Inr call) \<Rightarrow> ctl_call c e io cmd ShowInstalled call)
      else if cmd = ''rollback'' then
        (case args of
           [] \<Rightarrow> ret (2, UsageText)
         | m # _ \<Rightarrow> if m = [] then ret (2, UsageText) else ctl_call c e io cmd ShowRolledBack (RollbackCall m))
      else ret (2, UsageText))"

definition weavectl :: "ctl_env \<Rightarrow> 'st lc_env \<Rightarrow> net \<Rightarrow> string option \<Rightarrow> string \<Rightarrow> string list \<Rightarrow> ('st lc_world, nat \<times> ctl_output) state" where
  "weavectl c e io socket default_socket args =
     (case args of
        [] \<Rightarrow> ret (2, UsageText)
      | cmd # rest \<Rightarrow>
          if cmd = [] then ret (2, UsageText)
          else
            let addr = (case socket of None \<Rightarrow> default_socket | Some s \<Rightarrow> s)
            in case ceDial c addr of
                 Some err \<Rightarrow> ret (1, Fatal (''connecting to '' @ addr @ '': '' @ err))
               | None \<Rightarrow> ctl_command c e io cmd rest)"


section \<open>weave-agent and weaveboot\<close>

record agent_flags =
  afStateDir :: "path option"
  afModulesDir :: "path option"
  afRootPub :: "path option"
  afChannelDir :: "path option"
  afShowVersion :: bool

text \<open>The verifier: the one of the platform, or the signed channel if a directory for it is given.\<close>

definition agent_verifier ::
    "verify_host \<Rightarrow> crypto \<Rightarrow> verifier \<Rightarrow> agent_flags \<Rightarrow> ('x disk_scheme, (anchor_error, verifier) result) state" where
  "agent_verifier h cr platform f =
     (case afChannelDir f of
        None \<Rightarrow> ret (Inr platform)
      | Some dir \<Rightarrow> NewChannelFromDir h cr (afRootPub f) dir)"

datatype agent_end = VersionShown | NoVerifier anchor_error | CoreEnded core_end

text \<open>The exit code; none as long as core serves.\<close>

fun agent_exit :: "agent_end \<Rightarrow> nat option" where
  "agent_exit VersionShown = Some 0"
| "agent_exit (NoVerifier _) = Some 1"
| "agent_exit (CoreEnded (CoreError _)) = Some 1"
| "agent_exit (CoreEnded (ControlFailed _)) = Some 1"
| "agent_exit (CoreEnded CoreStopped) = Some 0"
| "agent_exit (CoreEnded CoreServing) = None"

definition agent_options :: "agent_flags \<Rightarrow> path option \<Rightarrow> path_set \<Rightarrow> core_options \<Rightarrow> core_options" where
  "agent_options f env ps base =
     base\<lparr>coLayout := Resolve (afStateDir f) env ps, coModulesDir := afModulesDir f, coRootPub := afRootPub f\<rparr>"

text \<open>\<open>main\<close>; \<open>shown\<close> is the text of a refusal, and the last arguments are what \<open>Run\<close> gets to see of the control socket.\<close>

definition agent_main ::
    "verify_host \<Rightarrow> verifier \<Rightarrow> (refusal \<Rightarrow> string) \<Rightarrow> 'db core_inputs \<Rightarrow> 'db store lc_env \<Rightarrow> agent_flags \<Rightarrow> path option \<Rightarrow> path_set \<Rightarrow> core_options \<Rightarrow> time
      \<Rightarrow> uint32 \<Rightarrow> (string, unit) result \<Rightarrow> serve_event list \<Rightarrow> ('db store lc_world, agent_end) state" where
  "agent_main h platform shown ci e f env ps base now self listened evs =
     (if afShowVersion f then ret VersionShown
      else do {
        v \<leftarrow> agent_verifier h (leCrypto e) platform f;
        case v of
          Inl err \<Rightarrow> ret (NoVerifier err)
        | Inr vf \<Rightarrow> do {
            r \<leftarrow> Run_to_end ci (e\<lparr>leVerifier := \<lambda>t p m. map_option shown (vf t p (Some m))\<rparr>) (agent_options f env ps base) now
              self listened evs;
            ret (CoreEnded r) } })"

text \<open>The options of \<open>weaveboot\<close> and the arguments it hands to core.\<close>

definition weaveboot_options :: "layout \<Rightarrow> string \<Rightarrow> path option \<Rightarrow> (fs \<Rightarrow> path \<Rightarrow> bool) \<Rightarrow> boot_options" where
  "weaveboot_options lay goos exe verify =
     \<lparr>CoreDir = Join (StateDir lay) ''core'', StableAfter = 0, RevertThreshold = 0, VerifyCore = Some verify, GOOS = goos, Executable = exe\<rparr>"

definition agent_args :: "string \<Rightarrow> string list \<Rightarrow> string list" where
  "agent_args stateDir args = [''--state-dir'', stateDir] @ args"


section \<open>Properties\<close>

text \<open>
  \<open>weavectl\<close> changes the agent only through \<open>install\<close> and \<open>rollback\<close>: with any other arguments,
  whatever they are, and with a socket that does not answer, the world is as it was.
\<close>

theorem weavectl_read_only:
  assumes "run_state (weavectl c e io socket dflt args) w = (r, w')"
    and "args = [] \<or> hd args \<notin> {''install'', ''rollback''} \<or> ceReachable c = False"
  shows "w' = w"
  using assms
  by (auto simp: weavectl_def ctl_command_def ctl_call_def Let_def
      split: list.splits if_splits option.splits sum.splits)

text \<open>Applied to a listing.\<close>

theorem weavectl_read_only_witness:
  "snd (run_state (weavectl \<lparr>ceDial = (\<lambda>_. None), ceAbs = Inl, ceStatus = \<lparr>srCoreVersion = ''1'', srProtocol = (1, 1),
     srDeviceID = ''dev'', srEnrolled = True, srUptimeSeconds = 60\<rparr>, ceReachable = True\<rparr> ex_control_env ex_idle_net None
     ''/run/weave/control.sock'' [''modules'']) ex_control_world) = ex_control_world"
  by (rule weavectl_read_only [OF prod.collapse [symmetric]]) simp

text \<open>An \<open>install -local\<close> that lacks its directory asks for the module named \<open>-local\<close> from the channel.\<close>

theorem local_without_directory: "install_request c [''-local''] = Some (Inr (InstallCall None ''-local'' []))"
  by (simp add: install_request_def)

lemma keeps_read: "keeps (\<lambda>w. tree w = t \<and> lwRegistry w = g) (ReadFile p :: ('st lc_world, (io_error, bytes) result) state)"
  by (auto intro!: keepsI wp_ReadFile simp: after_call_def)

lemma keeps_anchor:
  "keeps (\<lambda>w. tree w = t \<and> lwRegistry w = g) (NewChannelFromDir h cr rootPath dir :: ('st lc_world, (anchor_error, verifier) result) state)"
  unfolding NewChannelFromDir_def read_bundle_def by (intro keeps_intros keeps_read)

text \<open>The four files of a channel directory, as the tree has them.\<close>

definition bundle_at :: "fs \<Rightarrow> path \<Rightarrow> signed_bundle \<Rightarrow> bool" where
  "bundle_at t dir b =
     (lookup t (Join dir channelManifestFile) = Some (File (bManifest b))
      \<and> lookup t (Join dir channelSigFile) = Some (File (bManifestSig b))
      \<and> lookup t (Join dir signingKeyFile) = Some (File (bSigningKey b))
      \<and> lookup t (Join dir signingKeySigFile) = Some (File (bSigningKeySig b)))"

text \<open>What vouches for a verifier: the key in the file of the root key and the bundle in the directory.\<close>

definition anchored :: "crypto \<Rightarrow> fs \<Rightarrow> path option \<Rightarrow> path \<Rightarrow> channel_manifest \<Rightarrow> bool" where
  "anchored cr t rootPath dir ch =
     (\<exists>p raw key rootRaw b. rootPath = Some p \<and> lookup t p = Some (File raw)
        \<and> ParsePublicKey cr raw = Inr (key, rootRaw) \<and> pkKeyID key = ''root''
        \<and> bundle_at t dir b \<and> Verify_bundle cr rootRaw b = Inr ch)"

lemma ReadFile_Inr:
  assumes "run_state (ReadFile p) w = (Inr b, w')"
  shows "lookup (tree w) p = Some (File b) \<and> tree w' = tree w"
proof -
  have "wp (ReadFile p) (\<lambda>r w'. \<forall>b. r = Inr b \<longrightarrow> lookup (tree w) p = Some (File b) \<and> tree w' = tree w) w"
    by (rule wp_ReadFile) (auto simp: read_tree_def split: option.splits node.splits)
  from wpD [OF this assms] show ?thesis by simp
qed

lemma then_ok_Inr:
  assumes "run_state (then_ok m f) w = (Inr x, w')"
  obtains a w1 where "run_state m w = (Inr a, w1)" "run_state (f a) w1 = (Inr x, w')"
  using assms by (auto simp: run_state_then_ok split: prod.splits sum.splits)

lemma wrap_err_Inr: "run_state (wrap_err g m) w = (Inr x, w') \<Longrightarrow> run_state m w = (Inr x, w')"
  by (auto simp: wrap_err_def map_error_def split: prod.splits sum.splits)

lemma read_bundle_at:
  assumes "run_state (read_bundle dir) w = (Inr b, w')"
  shows "bundle_at (tree w) dir b"
  using assms unfolding read_bundle_def
  by (auto elim!: then_ok_Inr dest!: ReadFile_Inr simp: bundle_at_def)

lemma NewChannelFromDir_anchored:
  assumes "run_state (NewChannelFromDir h cr rootPath dir) w = (Inr vf, w')"
  shows "\<exists>ch. anchored cr (tree w) rootPath dir ch \<and> vf = channel_check h ch"
proof -
  obtain p raw w1 where p: "rootPath = Some p" "run_state (ReadFile p) w = (Inr raw, w1)"
    and rest: "run_state (case ParsePublicKey cr raw of
              Inl err \<Rightarrow> ret (Inl (RootInvalid err))
            | Inr (rootKey, rootRaw) \<Rightarrow>
                if pkKeyID rootKey \<noteq> ''root'' then ret (Inl (NotTheRoot (pkKeyID rootKey)))
                else then_ok (wrap_err BundleUnreadable (read_bundle dir)) (\<lambda>b.
                  ret (map_error ChannelRefused (NewChannel h cr rootRaw b)))) w1 = (Inr vf, w')"
    using assms unfolding NewChannelFromDir_def by (auto split: option.splits elim!: then_ok_Inr dest!: wrap_err_Inr)
  from rest obtain key rootRaw b w2 where k: "ParsePublicKey cr raw = Inr (key, rootRaw)" "pkKeyID key = ''root''"
      "run_state (read_bundle dir) w1 = (Inr b, w2)" "map_error ChannelRefused (NewChannel h cr rootRaw b) = Inr vf"
    by (auto split: sum.splits prod.splits if_splits elim!: then_ok_Inr dest!: wrap_err_Inr)
  from k(4) obtain ch where "Verify_bundle cr rootRaw b = Inr ch" "vf = channel_check h ch"
    by (auto simp: NewChannel_def split: sum.splits)
  with p(1) k(1,2) ReadFile_Inr [OF p(2)] read_bundle_at [OF k(3)] show ?thesis
    unfolding anchored_def by metis
qed

text \<open>
  C8: With a channel directory the agent is verified by the signed channel or does not run: when core
  starts, every module binary is checked against the channel manifest of the bundle in that directory, which verifies
  under the root key in the file that the flag \<open>--root-pub\<close> names; when one of these files cannot be read or the
  bundle does not verify, the agent ends with an error before anything is registered or written.
\<close>

theorem agent_fails_closed:
  assumes "afChannelDir f = Some dir" "\<not> afShowVersion f"
    and "run_state (agent_main h platform shown ci e f env ps base now self listened evs) w = (r, w')"
  shows "(\<exists>err. r = NoVerifier err \<and> agent_exit r = Some 1 \<and> tree w' = tree w \<and> lwRegistry w' = lwRegistry w)
    \<or> (\<exists>ch w1. anchored (leCrypto e) (tree w) (afRootPub f) dir ch
        \<and> (r, w') = map_prod CoreEnded id (run_state (Run_to_end ci
             (e\<lparr>leVerifier := \<lambda>t p m. map_option shown (channel_check h ch t p (Some m))\<rparr>) (agent_options f env ps base) now self listened evs) w1)
        \<and> tree w1 = tree w \<and> lwRegistry w1 = lwRegistry w)"
proof -
  obtain v w1 where v: "run_state (NewChannelFromDir h (leCrypto e) (afRootPub f) dir) w = (v, w1)" by fastforce
  have same: "tree w1 = tree w \<and> lwRegistry w1 = lwRegistry w"
    using keepsD [OF keeps_anchor v, of "tree w" "lwRegistry w"] by simp
  show ?thesis
  proof (cases v)
    case (Inl err)
    then show ?thesis using assms v same by (auto simp: agent_main_def agent_verifier_def)
  next
    case (Inr vf)
    with NewChannelFromDir_anchored [of h "leCrypto e" "afRootPub f" dir w vf w1] v obtain ch where
      ch: "anchored (leCrypto e) (tree w) (afRootPub f) dir ch" "vf = channel_check h ch" by blast
    obtain cr w2 where run: "run_state (Run_to_end ci (e\<lparr>leVerifier := \<lambda>t p m. map_option shown (channel_check h ch t p (Some m))\<rparr>)
        (agent_options f env ps base) now self listened evs) w1 = (cr, w2)" by fastforce
    then have "r = CoreEnded cr" "w' = w2"
      using assms v Inr ch(2) by (simp_all add: agent_main_def agent_verifier_def)
    with ch(1) run same show ?thesis by (intro disjI2 exI [of _ ch] exI [of _ w1]) simp
  qed
qed

text \<open>
  Applied to a directory without a bundle and without a root key, and to one with a bundle that the root key
  vouches for.
\<close>

definition ex_agent_flags :: agent_flags where
  "ex_agent_flags = \<lparr>afStateDir = None, afModulesDir = None, afRootPub = Some [''root.pub''], afChannelDir = Some [''channel''], afShowVersion = False\<rparr>"

definition ex_agent_env :: "mem_store store lc_env" where
  "ex_agent_env = ex_core_env\<lparr>leCrypto := ex_host_crypto\<lparr>decodePublicKey := (\<lambda>raw. Inr (if raw = ''rootkey''
     then \<lparr>pkSchema = 1, pkKeyID = ''root'', pkPublicKey = ex_key CHR ''r''\<rparr> else \<lparr>pkSchema = 1, pkKeyID = ''k1'', pkPublicKey = ex_key CHR ''k''\<rparr>))\<rparr>\<rparr>"

definition ex_anchor_tree :: fs where
  "ex_anchor_tree = [([], Directory), ([''root.pub''], File ''rootkey''), ([''channel''], Directory),
     ([''channel'', ''channel.json''], File ''doc''), ([''channel'', ''channel.json.sig''], File ''k1''),
     ([''channel'', ''signing.pub''], File ''key''), ([''channel'', ''signing.pub.sig''], File ''root'')]"

definition ex_agent_run :: "fs \<Rightarrow> agent_end \<times> mem_store store lc_world" where
  "ex_agent_run t = run_state (agent_main ex_verify_host (\<lambda>_ _ _. None) (\<lambda>_. []) ex_core_first ex_agent_env ex_agent_flags None Paths_linux
     ex_core_options 0 0 (Inr ()) []) (ex_core_world t)"

text \<open>The two runs: whether each ended without a verifier.\<close>

lemma ex_agent_runs:
  "case fst (ex_agent_run [([], Directory)]) of NoVerifier _ \<Rightarrow> True | _ \<Rightarrow> False"
  "case fst (ex_agent_run ex_anchor_tree) of CoreEnded CoreServing \<Rightarrow> True | _ \<Rightarrow> False"
  by code_simp+

theorem agent_fails_closed_witness:
  "agent_exit (fst (ex_agent_run [([], Directory)])) = Some 1 \<and> tree (snd (ex_agent_run [([], Directory)])) = [([], Directory)]
   \<and> lwRegistry (snd (ex_agent_run [([], Directory)])) = \<lparr>rgRunners = [], rgBase = False\<rparr>
   \<and> (\<exists>ch. anchored (leCrypto ex_agent_env) ex_anchor_tree (Some [''root.pub'']) [''channel''] ch)"
proof -
  have flags: "afChannelDir ex_agent_flags = Some [''channel'']" "\<not> afShowVersion ex_agent_flags" "afRootPub ex_agent_flags = Some [''root.pub'']"
    by (simp_all add: ex_agent_flags_def)
  have no: "x \<noteq> map_prod CoreEnded id y" if "fst x = NoVerifier err" for x :: "agent_end \<times> mem_store store lc_world" and y err
    using that by (cases y) auto
  note closed = agent_fails_closed [OF flags(1,2), of ex_verify_host "\<lambda>_ _ _. None" "\<lambda>_. []" ex_core_first ex_agent_env None Paths_linux
      ex_core_options 0 0 "Inr ()" "[]" "ex_core_world t" "fst (ex_agent_run t)" "snd (ex_agent_run t)" for t]
  have "\<exists>err. fst (ex_agent_run t) = NoVerifier err \<and> agent_exit (fst (ex_agent_run t)) = Some 1
      \<and> tree (snd (ex_agent_run t)) = tree (ex_core_world t) \<and> lwRegistry (snd (ex_agent_run t)) = lwRegistry (ex_core_world t)"
    if "case fst (ex_agent_run t) of NoVerifier _ \<Rightarrow> True | _ \<Rightarrow> False" for t
    using closed [of t] that by (auto simp: ex_agent_run_def [symmetric] dest: no split: agent_end.splits)
  from this [OF ex_agent_runs(1)] have "agent_exit (fst (ex_agent_run [([], Directory)])) = Some 1
      \<and> tree (snd (ex_agent_run [([], Directory)])) = [([], Directory)]
      \<and> lwRegistry (snd (ex_agent_run [([], Directory)])) = \<lparr>rgRunners = [], rgBase = False\<rparr>"
    by (auto simp: ex_core_world_def)
  moreover have "tree (ex_core_world ex_anchor_tree) = ex_anchor_tree" by (simp add: ex_core_world_def)
  then have "\<exists>ch. anchored (leCrypto ex_agent_env) ex_anchor_tree (Some [''root.pub'']) [''channel''] ch"
    using closed [of ex_anchor_tree] ex_agent_runs(2) flags(3)
    by (auto simp: ex_agent_run_def [symmetric] split: agent_end.splits)
  ultimately show ?thesis by simp
qed

end
