(* ===== verification/Gateweave.thy ===== *)
theory Gateweave
  imports Identity Transport Launch
begin

text \<open>
  The server core is developed against (\<open>src/test/stubgateweave/stub.go\<close>): policy delivery, the two
  steps of enrolment, messages and artifacts behind one HTTP handler; and the three protocols of the
  agent run against it: enrolment (\<open>Identity\<close>), the policy poll (\<open>Policy\<close>) and the message
  peer (\<open>Transport\<close>). JSON, base64, ed25519 and the random source are parameters.
\<close>

section \<open>State\<close>

record received_message =
  rmDeviceID :: string
  rmModule :: string
  rmKind :: string
  rmData :: bytes

text \<open>The maps of the server are association lists, written with \<open>set_doc\<close>.\<close>

record gw_server =
  gwRevision :: uint64
  gwModules :: "(string \<times> bytes) list"
  gwEnrolled :: "(string \<times> string) list"
  gwArtifacts :: "(string \<times> bytes) list"
  gwMessages :: "received_message list"
  gwEnrollPriv :: bytes
  gwEnrollPub :: bytes
  gwChallenges :: "(string \<times> bytes) list"

text \<open>
  The codecs. A base64 decoder that fails returns what it had decoded so far, which the handler of
  the enrolment uses; an encoder of JSON that fails writes nothing.
\<close>

record server_env =
  geEncode64 :: "bytes \<Rightarrow> string"
  geDecode64 :: "string \<Rightarrow> bytes \<times> bool"
  geVerify :: "bytes \<Rightarrow> bytes \<Rightarrow> bytes \<Rightarrow> bool"
  geSign :: "bytes \<Rightarrow> bytes \<Rightarrow> bytes"
  geEncodePolicy :: "document \<Rightarrow> bytes option"
  geEncodeNonce :: "string \<Rightarrow> bytes"
  geDecodeEnrol :: "bytes \<Rightarrow> (string, string \<times> string \<times> string) result"
  geEncodeAssignment :: "string \<Rightarrow> string \<Rightarrow> bytes"
  geEncodeReply :: "enrol_reply \<Rightarrow> bytes"
  geDecodeMessage :: "bytes \<Rightarrow> (string, received_message) result"

definition ed25519_PublicKeySize :: nat where "ed25519_PublicKeySize = 32"

definition New_server :: "bytes \<times> bytes \<Rightarrow> gw_server" where
  "New_server key = \<lparr>gwRevision = 0, gwModules = [], gwEnrolled = [], gwArtifacts = [], gwMessages = [],
     gwEnrollPriv = snd key, gwEnrollPub = fst key, gwChallenges = []\<rparr>"

definition EnrollPub :: "gw_server \<Rightarrow> bytes" where "EnrollPub s = gwEnrollPub s"

definition server_SetPolicy :: "string \<Rightarrow> bytes \<Rightarrow> gw_server \<Rightarrow> gw_server" where
  "server_SetPolicy m doc s = s\<lparr>gwRevision := gwRevision s + 1, gwModules := set_doc m doc (gwModules s)\<rparr>"

definition SetArtifact :: "string \<Rightarrow> bytes \<Rightarrow> gw_server \<Rightarrow> gw_server" where
  "SetArtifact name d s = s\<lparr>gwArtifacts := set_doc name d (gwArtifacts s)\<rparr>"

definition Messages :: "gw_server \<Rightarrow> received_message list" where "Messages s = gwMessages s"

text \<open>The comparison of the nonces: the disjunction of the differences of all bytes.\<close>

unbundle bit_operations_syntax

definition byte_value :: "char \<Rightarrow> 8 word" where "byte_value c = of_nat (of_char c)"

fun differences :: "bytes \<Rightarrow> bytes \<Rightarrow> 8 word \<Rightarrow> 8 word" where
  "differences (x # xs) (y # ys) v = differences xs ys (v OR (byte_value x XOR byte_value y))"
| "differences _ _ v = v"

definition bytesEqual :: "bytes \<Rightarrow> bytes \<Rightarrow> bool" where
  "bytesEqual a b = (if length a \<noteq> length b then False else differences a b 0 = 0)"


section \<open>The handlers\<close>

text \<open>\<open>http.Error\<close> writes its text and a line break.\<close>

definition http_Error :: "string \<Rightarrow> int \<Rightarrow> Policy.http_reply" where
  "http_Error msg code = Reply code (Some (msg @ [CHR 0x0A]))"

definition policy_handler :: "server_env \<Rightarrow> gw_server \<Rightarrow> Policy.http_reply \<times> gw_server" where
  "policy_handler ge s =
     (Reply 200 (Some (case geEncodePolicy ge \<lparr>docRevision = gwRevision s, docModules = gwModules s\<rparr> of
        None \<Rightarrow> [] | Some b \<Rightarrow> b)), s)"

definition challenge_handler :: "server_env \<Rightarrow> bytes \<Rightarrow> string \<Rightarrow> gw_server \<Rightarrow> Policy.http_reply \<times> gw_server" where
  "challenge_handler ge nonce pubKey s =
     (if pubKey = [] then (http_Error ''missing public_key'' 400, s)
      else (Reply 200 (Some (geEncodeNonce ge (geEncode64 ge nonce))),
            s\<lparr>gwChallenges := set_doc pubKey nonce (gwChallenges s)\<rparr>))"

text \<open>The part of the enrolment after the proof of possession: the new device id and its signed assignment.\<close>

definition assign_device :: "server_env \<Rightarrow> bytes \<Rightarrow> gw_server \<Rightarrow> Policy.http_reply \<times> gw_server" where
  "assign_device ge draw s =
     (let dev = ''device-'' @ hex_encode draw;
          assignment = geEncodeAssignment ge dev ''stub''
      in (Reply 200 (Some (geEncodeReply ge \<lparr>erDeviceID = dev, erTenant = ''stub'',
            erAssignment = geEncode64 ge assignment,
            erAssignmentSig = geEncode64 ge (geSign ge (gwEnrollPriv s) assignment)\<rparr>)),
          s\<lparr>gwEnrolled := (dev, dev) # filter (\<lambda>(k, _). k \<noteq> dev) (gwEnrolled s)\<rparr>))"

definition take_challenge :: "string \<Rightarrow> gw_server \<Rightarrow> bytes \<times> gw_server" where
  "take_challenge pubKey s =
     (doc_of (gwChallenges s) pubKey, s\<lparr>gwChallenges := filter (\<lambda>(k, _). k \<noteq> pubKey) (gwChallenges s)\<rparr>)"

definition enroll_handler :: "server_env \<Rightarrow> bytes \<Rightarrow> bytes \<Rightarrow> gw_server \<Rightarrow> Policy.http_reply \<times> gw_server" where
  "enroll_handler ge draw body s =
     (case geDecodeEnrol ge body of
        Inl err \<Rightarrow> (http_Error err 400, s)
      | Inr (publicKey, nonce64, sig64) \<Rightarrow>
          (case geDecode64 ge publicKey of (pub, ok) \<Rightarrow>
             if \<not> ok \<or> length pub \<noteq> ed25519_PublicKeySize then (http_Error ''bad public_key'' 400, s)
             else (case take_challenge publicKey s of (want, s1) \<Rightarrow>
               let nonce = fst (geDecode64 ge nonce64); sig = fst (geDecode64 ge sig64)
               in if length want = 0 \<or> \<not> bytesEqual want nonce \<or> \<not> geVerify ge pub nonce sig
                  then (http_Error ''challenge verification failed'' 401, s1)
                  else assign_device ge draw s1)))"

definition messages_handler :: "server_env \<Rightarrow> bytes \<Rightarrow> gw_server \<Rightarrow> Policy.http_reply \<times> gw_server" where
  "messages_handler ge body s =
     (case geDecodeMessage ge body of
        Inl err \<Rightarrow> (http_Error err 400, s)
      | Inr msg \<Rightarrow> (Reply 202 (Some []), s\<lparr>gwMessages := gwMessages s @ [msg]\<rparr>))"

definition artifact_handler :: "string \<Rightarrow> gw_server \<Rightarrow> Policy.http_reply \<times> gw_server" where
  "artifact_handler name s =
     (case map_of (gwArtifacts s) name of
        None \<Rightarrow> (http_Error ''404 page not found'' 404, s)
      | Some d \<Rightarrow> (Reply 200 (Some d), s))"

text \<open>
  The routes. A request is its method, the segments of its path, the query parameter
  \<open>public_key\<close>, its body, and what the handler draws at random.
\<close>

record gw_request =
  rqMethod :: string
  rqPath :: "string list"
  rqPublicKey :: string
  rqBody :: bytes
  rqDraw :: bytes

text \<open>A pattern for GET also takes HEAD, whose reply has no body.\<close>

definition without_body :: "Policy.http_reply \<Rightarrow> Policy.http_reply" where
  "without_body r = (case r of Policy.NoReply \<Rightarrow> Policy.NoReply | Reply code _ \<Rightarrow> Reply code (Some []))"

definition only_method :: "string \<Rightarrow> string \<Rightarrow> Policy.http_reply \<times> gw_server \<Rightarrow> gw_server \<Rightarrow> Policy.http_reply \<times> gw_server" where
  "only_method want got r s =
     (if got = want then r
      else if want = ''GET'' \<and> got = ''HEAD'' then (without_body (fst r), snd r)
      else (http_Error ''Method Not Allowed'' 405, s))"

definition Handler :: "server_env \<Rightarrow> gw_request \<Rightarrow> gw_server \<Rightarrow> Policy.http_reply \<times> gw_server" where
  "Handler ge rq s =
     (let m = rqMethod rq; p = rqPath rq in
      if p = [''v1'', ''policy''] then only_method ''GET'' m (policy_handler ge s) s
      else if p = [''v1'', ''enroll'', ''challenge''] then
        only_method ''GET'' m (challenge_handler ge (rqDraw rq) (rqPublicKey rq) s) s
      else if p = [''v1'', ''enroll''] then only_method ''POST'' m (enroll_handler ge (rqDraw rq) (rqBody rq) s) s
      else if p = [''v1'', ''messages''] then only_method ''POST'' m (messages_handler ge (rqBody rq) s) s
      else case p of
        [a, name] \<Rightarrow> if a = ''artifacts'' then only_method ''GET'' m (artifact_handler name s) s
                      else (http_Error ''404 page not found'' 404, s)
      | _ \<Rightarrow> (http_Error ''404 page not found'' 404, s))"

section \<open>Comparing nonces\<close>

lemma byte_value_inject: "byte_value x = byte_value y \<longleftrightarrow> x = y"
proof -
  have "unat (byte_value c) = of_char c" for c
    by (simp add: byte_value_def unat_of_nat take_bit_eq_mod of_char_def)
  then show ?thesis by (metis of_char_eq_iff)
qed

lemma xor_word_zero: "x XOR y = 0 \<longleftrightarrow> x = y" for x y :: "8 word"
  by (auto simp: bit_eq_iff bit_simps)

lemma differences_zero:
  "length a = length b \<Longrightarrow> differences a b v = 0 \<longleftrightarrow> v = 0 \<and> a = b"
proof (induction a b v rule: differences.induct)
  case (1 x xs y ys v)
  have "v OR (byte_value x XOR byte_value y) = 0 \<longleftrightarrow> v = 0 \<and> x = y"
    by (simp add: or_eq_0_iff xor_word_zero byte_value_inject)
  with 1 show ?case by auto
qed auto

lemma bytesEqual_eq: "bytesEqual a b \<longleftrightarrow> a = b"
  by (auto simp: bytesEqual_def differences_zero)


section \<open>Enrolment at the server\<close>

lemma doc_of_filter_other: "doc_of (filter (\<lambda>(k, _). k \<noteq> m) docs) m = []"
proof -
  have "map_of (filter (\<lambda>(k, _). k \<noteq> m) docs) m = None" by (induction docs) auto
  then show ?thesis by (simp add: doc_of_def)
qed

lemma take_challenge_spent:
  "take_challenge k s = (want, s1) \<Longrightarrow> doc_of (gwChallenges s1) k = []"
  by (auto simp: take_challenge_def doc_of_filter_other)

lemma enroll_handler_refused:
  assumes "geDecodeEnrol ge body = Inr (pk, n64, sig64)" "doc_of (gwChallenges s) pk = []"
  shows "fst (enroll_handler ge draw body s) \<in> {http_Error ''bad public_key'' 400, http_Error ''challenge verification failed'' 401}"
  using assms by (auto simp: enroll_handler_def take_challenge_def Let_def split: prod.splits)

text \<open>
  A device is enrolled only for a proof of possession, and once per challenge. When the server
  answers an enrolment with 200, the request has a well-formed public key, carries the nonce that was
  outstanding for that key, and a signature of this nonce that verifies under it; and the same request
  sent again is refused, whatever the server draws.
\<close>

theorem enroll_spends_challenge:
  assumes "enroll_handler ge draw body s = (Reply 200 b, s')"
  shows "\<exists>pk n64 sig64 pub nonce. geDecodeEnrol ge body = Inr (pk, n64, sig64) \<and> geDecode64 ge pk = (pub, True)
    \<and> length pub = ed25519_PublicKeySize \<and> doc_of (gwChallenges s) pk = nonce \<and> nonce \<noteq> []
    \<and> fst (geDecode64 ge n64) = nonce \<and> geVerify ge pub nonce (fst (geDecode64 ge sig64))
    \<and> (\<forall>draw'. fst (enroll_handler ge draw' body s') = http_Error ''challenge verification failed'' 401)"
proof -
  from assms obtain pk n64 sig64 pub where dec: "geDecodeEnrol ge body = Inr (pk, n64, sig64)"
    and pub: "geDecode64 ge pk = (pub, True)" "length pub = ed25519_PublicKeySize"
    and want: "doc_of (gwChallenges s) pk \<noteq> []" "bytesEqual (doc_of (gwChallenges s) pk) (fst (geDecode64 ge n64))"
      "geVerify ge pub (fst (geDecode64 ge n64)) (fst (geDecode64 ge sig64))"
    and s': "s' = snd (assign_device ge draw (snd (take_challenge pk s)))"
    by (auto simp: enroll_handler_def take_challenge_def Let_def http_Error_def split: prod.splits sum.splits if_splits)
  have "doc_of (gwChallenges s') pk = []"
    by (simp add: s' assign_device_def Let_def take_challenge_def doc_of_filter_other)
  then have "fst (enroll_handler ge draw' body s') = http_Error ''challenge verification failed'' 401" for draw'
    by (simp add: enroll_handler_def dec pub take_challenge_def Let_def)
  with dec pub want show ?thesis by (auto simp: bytesEqual_eq)
qed

text \<open>The server over a sequence of requests, and the challenges these ask for.\<close>

fun gw_serve_all :: "server_env \<Rightarrow> gw_request list \<Rightarrow> gw_server \<Rightarrow> gw_server" where
  "gw_serve_all ge [] s = s"
| "gw_serve_all ge (rq # rqs) s = gw_serve_all ge rqs (snd (Handler ge rq s))"

definition asks_challenge :: "gw_request \<Rightarrow> bool" where
  "asks_challenge rq = (rqPath rq = [''v1'', ''enroll'', ''challenge''] \<and> rqPublicKey rq \<noteq> [])"

definition open_enrolments :: "gw_server \<Rightarrow> nat" where
  "open_enrolments s = length (gwEnrolled s) + length (gwChallenges s)"

lemma length_set_doc: "length (set_doc k v docs) \<le> Suc (length docs)"
  by (simp add: set_doc_def)

lemma enroll_handler_open: "open_enrolments (snd (enroll_handler ge draw body s)) \<le> open_enrolments s"
proof -
  have spent: "length (filter (\<lambda>(k, _). k \<noteq> pk) docs) < length docs" if "doc_of docs pk \<noteq> []" for pk and docs :: "(string \<times> bytes) list"
  proof -
    from that have "map_of docs pk \<noteq> None" by (auto simp: doc_of_def split: option.splits)
    then have "pk \<in> fst ` set docs" by (simp add: map_of_eq_None_iff)
    then have "\<exists>x \<in> set docs. \<not> (case x of (k, _) \<Rightarrow> k \<noteq> pk)" by auto
    then show ?thesis by (auto intro: length_filter_less)
  qed
  have "open_enrolments (snd (assign_device ge draw (snd (take_challenge pk s)))) \<le> open_enrolments s"
    if "doc_of (gwChallenges s) pk \<noteq> []" for pk
    using spent [OF that]
    by (auto simp: open_enrolments_def assign_device_def take_challenge_def Let_def intro!: Suc_leI add_le_less_mono)
  moreover have "open_enrolments (snd (take_challenge pk s)) \<le> open_enrolments s" for pk
    by (simp add: open_enrolments_def take_challenge_def)
  ultimately show ?thesis
    by (auto simp: enroll_handler_def Let_def take_challenge_def split: prod.splits sum.splits)
qed

lemma Handler_open:
  "open_enrolments (snd (Handler ge rq s)) \<le> open_enrolments s + (if asks_challenge rq then 1 else 0)"
proof (cases "rqPath rq = [''v1'', ''enroll'', ''challenge'']")
  case True
  then show ?thesis using length_set_doc [of "rqPublicKey rq" "rqDraw rq" "gwChallenges s"]
    by (simp add: Handler_def Let_def only_method_def challenge_handler_def asks_challenge_def open_enrolments_def)
next
  case False
  then show ?thesis using enroll_handler_open [of ge "rqDraw rq" "rqBody rq" s]
    by (auto simp: Handler_def Let_def only_method_def policy_handler_def messages_handler_def artifact_handler_def
        asks_challenge_def open_enrolments_def split: list.splits option.splits sum.splits)
qed

text \<open>
  Over any sequence of requests, a new server has no more devices enrolled than it was asked for
  challenges.
\<close>

theorem enrolments_bounded:
  "length (gwEnrolled (gw_serve_all ge rqs (New_server key))) \<le> length (filter asks_challenge rqs)"
proof -
  have "open_enrolments (gw_serve_all ge rqs s) \<le> open_enrolments s + length (filter asks_challenge rqs)" for s
  proof (induction rqs arbitrary: s)
    case (Cons rq rqs)
    from Cons [of "snd (Handler ge rq s)"] Handler_open [of ge rq s] show ?case by auto
  qed simp
  from this [of "New_server key"] show ?thesis by (simp add: open_enrolments_def New_server_def)
qed


section \<open>The agent and the server\<close>

text \<open>
  What enrolment relies on: both ends have the same base64, a decoder of JSON reads what the
  other end's encoder wrote, and a signature verifies under the public key of the key that made it.
\<close>

definition same_codecs :: "server_env \<Rightarrow> 'st identity_env \<Rightarrow> bool" where
  "same_codecs ge ie = (
     (\<forall>b. ieEncode64 ie b = geEncode64 ge b \<and> geDecode64 ge (geEncode64 ge b) = (b, True)
        \<and> ieDecode64 ie (geEncode64 ge b) = Some b \<and> (b \<noteq> [] \<longrightarrow> geEncode64 ge b \<noteq> []))
     \<and> (\<forall>n. ieDecodeNonce ie (geEncodeNonce ge n) = Some n)
     \<and> (\<forall>pk n sig. \<exists>body. ieEncodeEnrol ie pk n sig = Some body \<and> geDecodeEnrol ge body = Inr (pk, n, sig))
     \<and> (\<forall>out. ieDecodeReply ie (geEncodeReply ge out) = Some out)
     \<and> (\<forall>dev ten. ieDecodeAssignment ie (geEncodeAssignment ge dev ten) = Some (dev, ten)))"

definition device_keys :: "server_env \<Rightarrow> 'st identity_env \<Rightarrow> bytes \<Rightarrow> bool" where
  "device_keys ge ie priv = (length (iePublic ie priv) = ed25519_PublicKeySize
     \<and> (\<forall>m. geVerify ge (iePublic ie priv) m (ieSign ie priv m)))"

definition server_keys :: "server_env \<Rightarrow> 'st identity_env \<Rightarrow> gw_server \<Rightarrow> bool" where
  "server_keys ge ie s = (\<forall>m. ieVerify ie (EnrollPub s) m (geSign ge (gwEnrollPriv s) m)
     \<and> length (geSign ge (gwEnrollPriv s) m) = ed25519_SignatureSize)"

text \<open>The reply a server with this key gives to an accepted enrolment.\<close>

definition accepted_reply :: "server_env \<Rightarrow> gw_server \<Rightarrow> bytes \<Rightarrow> enrol_reply" where
  "accepted_reply ge s draw =
     (let dev = ''device-'' @ hex_encode draw; assignment = geEncodeAssignment ge dev ''stub''
      in \<lparr>erDeviceID = dev, erTenant = ''stub'', erAssignment = geEncode64 ge assignment,
          erAssignmentSig = geEncode64 ge (geSign ge (gwEnrollPriv s) assignment)\<rparr>)"

lemma server_accepts:
  assumes codecs: "same_codecs ge ie" and keys: "device_keys ge ie priv" and "nonce \<noteq> []"
    and issued: "doc_of (gwChallenges s) (geEncode64 ge (iePublic ie priv)) = nonce"
    and body: "enrol_request ie priv (geEncode64 ge nonce) nonce = Some body"
  shows "fst (enroll_handler ge draw body s) = Reply 200 (Some (geEncodeReply ge (accepted_reply ge s draw)))"
proof -
  have "geDecodeEnrol ge body = Inr (geEncode64 ge (iePublic ie priv), geEncode64 ge nonce, geEncode64 ge (ieSign ie priv nonce))"
    using codecs body unfolding enrol_request_def same_codecs_def by (metis option.inject)
  moreover have "geDecode64 ge (geEncode64 ge b) = (b, True)" for b using codecs by (simp add: same_codecs_def)
  ultimately show ?thesis using keys issued \<open>nonce \<noteq> []\<close>
    by (simp add: enroll_handler_def take_challenge_def device_keys_def bytesEqual_eq assign_device_def
        accepted_reply_def Let_def)
qed

lemma client_accepts:
  assumes codecs: "same_codecs ge ie" and keys: "server_keys ge ie s"
    and pinned: "ipServerPub p = EnrollPub s" "EnrollPub s \<noteq> []"
  shows "verifyAssignment ie (erDeviceID (accepted_reply ge s draw)) (erTenant (accepted_reply ge s draw))
     (erAssignment (accepted_reply ge s draw)) (erAssignmentSig (accepted_reply ge s draw)) p = Inr ()"
  using codecs keys pinned
  by (simp add: verifyAssignment_def accepted_reply_def Let_def same_codecs_def server_keys_def)

text \<open>
  C24: enrolment completes. A device that is not enrolled, with an endpoint it accepts and the key of
  the server pinned, that runs \<open>Enroll\<close> against the handlers of the server, ends with the device id the server
  drew and its tenant, and its result is the one of storing them: no check of the client refuses what the
  server sends, and no check of the server refuses what the client sends.
\<close>

theorem enrolment_completes:
  assumes codecs: "same_codecs ge ie" and keys: "device_keys ge ie (ipPriv p)" "server_keys ge ie s"
    and fresh: "ipDeviceID p = []" "ipEnrollURL p \<noteq> []" "checkEnrolTransport ie p = Inr ()"
    and pinned: "ipServerPub p = EnrollPub s" "EnrollPub s \<noteq> []"
    and nonce: "length nonce = 32"
    and fits: "length (geEncodeNonce ge (geEncode64 ge nonce)) \<le> enrolLimit"
      "length (geEncodeReply ge (accepted_reply ge s draw)) \<le> enrolLimit"
    and chal: "challenge_handler ge nonce (ieEncode64 ie (iePublic ie (ipPriv p))) s = (challenge, s1)"
  shows "Enroll ie challenge (\<lambda>body. fst (enroll_handler ge draw body s1)) p
    = saveLocked ie (p\<lparr>ipDeviceID := ''device-'' @ hex_encode draw, ipTenant := ''stub''\<rparr>)"
proof -
  let ?pk = "geEncode64 ge (iePublic ie (ipPriv p))"
  have enc: "ieEncode64 ie b = geEncode64 ge b" "ieDecode64 ie (geEncode64 ge b) = Some b"
      "b \<noteq> [] \<Longrightarrow> geEncode64 ge b \<noteq> []" for b
    using codecs by (simp_all add: same_codecs_def)
  have "nonce \<noteq> []" using nonce by auto
  have "iePublic ie (ipPriv p) \<noteq> []" using keys(1) by (auto simp: device_keys_def ed25519_PublicKeySize_def)
  then have "?pk \<noteq> []" by (rule enc(3))
  with chal have chal': "challenge = Reply 200 (Some (geEncodeNonce ge (geEncode64 ge nonce)))"
      "s1 = s\<lparr>gwChallenges := set_doc ?pk nonce (gwChallenges s)\<rparr>"
    by (auto simp: challenge_handler_def enc)
  have issued: "doc_of (gwChallenges s1) ?pk = nonce" by (simp add: chal')
  have chosen: "challenge_nonce ie challenge = Inr (geEncode64 ge nonce, nonce)"
    using codecs fits(1) enc nonce \<open>nonce \<noteq> []\<close> by (simp add: challenge_nonce_def chal' same_codecs_def)
  obtain body where body: "enrol_request ie (ipPriv p) (geEncode64 ge nonce) nonce = Some body"
    using codecs unfolding enrol_request_def same_codecs_def by metis
  have same: "accepted_reply ge s1 draw = accepted_reply ge s draw" by (simp add: accepted_reply_def chal')
  have answer: "enrol_answer ie (fst (enroll_handler ge draw body s1)) = Inr (accepted_reply ge s draw)"
    using server_accepts [OF codecs keys(1) \<open>nonce \<noteq> []\<close> issued body, of draw] codecs fits(2)
    by (simp add: enrol_answer_def same same_codecs_def) (simp add: accepted_reply_def Let_def)
  show ?thesis
    using fresh client_accepts [OF codecs keys(2) pinned, of draw]
    by (simp add: Enroll_def chosen body answer) (simp add: accepted_reply_def Let_def)
qed

text \<open>Two ends with a codec that writes each field with its length, and signatures of one fixed value.\<close>

definition ex_gw_env :: server_env where
  "ex_gw_env = \<lparr>geEncode64 = (\<lambda>b. b), geDecode64 = (\<lambda>s. (s, True)), geVerify = (\<lambda>_ _ sig. sig = replicate 64 CHR ''s''),
     geSign = (\<lambda>_ _. replicate 64 CHR ''s''), geEncodePolicy = (\<lambda>doc. case docModules doc of [(m, d)] \<Rightarrow> Some (ex_field m @ d) | _ \<Rightarrow> None),
     geEncodeNonce = (\<lambda>n. n),
     geDecodeEnrol = (\<lambda>b. case ex_unfield b of (pk, r) \<Rightarrow> case ex_unfield r of (n, sig) \<Rightarrow> Inr (pk, n, sig)),
     geEncodeAssignment = (\<lambda>dev ten. ex_field dev @ ten),
     geEncodeReply = (\<lambda>out. ex_field (erDeviceID out) @ ex_field (erTenant out) @ ex_field (erAssignment out) @ erAssignmentSig out),
     geDecodeMessage = (\<lambda>_. Inl ''bad'')\<rparr>"

definition ex_gw_identity :: "mem_store identity_env" where
  "ex_gw_identity = ex_state_env\<lparr>ieVerify := (\<lambda>_ _ sig. sig = replicate 64 CHR ''s''), ieSign := (\<lambda>_ _. replicate 64 CHR ''s''),
     iePublic := take 32, ieDecodeNonce := Some, ieEncodeEnrol := (\<lambda>pk n sig. Some (ex_field pk @ ex_field n @ sig)),
     ieDecodeReply := (\<lambda>b. case ex_unfield b of (dev, r) \<Rightarrow> case ex_unfield r of (ten, r') \<Rightarrow> case ex_unfield r' of (a, sig) \<Rightarrow>
        Some \<lparr>erDeviceID = dev, erTenant = ten, erAssignment = a, erAssignmentSig = sig\<rparr>),
     ieDecodeAssignment := (\<lambda>b. Some (ex_unfield b))\<rparr>"

definition ex_gw_server :: gw_server where "ex_gw_server = New_server (''pinned'', ''secret'')"

definition ex_gw_nonce :: bytes where "ex_gw_nonce = replicate 32 CHR ''n''"

definition ex_gw_challenge :: "Policy.http_reply \<times> gw_server" where
  "ex_gw_challenge = challenge_handler ex_gw_env ex_gw_nonce (ieEncode64 ex_gw_identity (iePublic ex_gw_identity (ipPriv ex_provider))) ex_gw_server"

lemma ex_same_codecs: "same_codecs ex_gw_env ex_gw_identity"
  by (simp add: same_codecs_def ex_gw_env_def ex_gw_identity_def ex_state_env_def ex_identity_env_def ex_unfield_field)

lemma ex_device_keys: "device_keys ex_gw_env ex_gw_identity (ipPriv ex_provider)"
  by (simp add: device_keys_def ex_gw_env_def ex_gw_identity_def ex_provider_def ed25519_PublicKeySize_def)

lemma ex_server_keys: "server_keys ex_gw_env ex_gw_identity ex_gw_server"
  by (simp add: server_keys_def ex_gw_env_def ex_gw_identity_def ed25519_SignatureSize_def)

theorem enrolment_completes_witness:
  "WhoAmI (snd (Enroll ex_gw_identity (fst ex_gw_challenge)
      (\<lambda>body. fst (enroll_handler ex_gw_env ''01234567'' body (snd ex_gw_challenge))) ex_provider))
    = (''device-'' @ hex_encode ''01234567'', False, ''stub'')"
proof -
  have "Enroll ex_gw_identity (fst ex_gw_challenge) (\<lambda>body. fst (enroll_handler ex_gw_env ''01234567'' body (snd ex_gw_challenge))) ex_provider
    = saveLocked ex_gw_identity (ex_provider\<lparr>ipDeviceID := ''device-'' @ hex_encode ''01234567'', ipTenant := ''stub''\<rparr>)"
  proof (rule enrolment_completes [OF ex_same_codecs ex_device_keys ex_server_keys, where nonce = ex_gw_nonce])
    show "challenge_handler ex_gw_env ex_gw_nonce (ieEncode64 ex_gw_identity (iePublic ex_gw_identity (ipPriv ex_provider))) ex_gw_server
        = (fst ex_gw_challenge, snd ex_gw_challenge)" by (simp add: ex_gw_challenge_def)
    show "checkEnrolTransport ex_gw_identity ex_provider = Inr ()" by code_simp
    show "length (geEncodeReply ex_gw_env (accepted_reply ex_gw_env ex_gw_server ''01234567'')) \<le> enrolLimit" by code_simp
    show "length (geEncodeNonce ex_gw_env (geEncode64 ex_gw_env ex_gw_nonce)) \<le> enrolLimit" by code_simp
  qed (simp_all add: ex_provider_def EnrollPub_def ex_gw_server_def New_server_def ex_gw_nonce_def)
  then show ?thesis
    by (simp add: WhoAmI_def saveLocked_def ex_gw_identity_def ex_state_env_def ex_identity_env_def MemStore_def mem_Put_def)
qed

theorem enroll_spends_challenge_witness:
  "fst (enroll_handler ex_gw_env ''01234567'' (ex_field (replicate 32 CHR ''k'') @ ex_field ex_gw_nonce @ replicate 64 CHR ''s'')
      (snd (enroll_handler ex_gw_env ''76543210'' (ex_field (replicate 32 CHR ''k'') @ ex_field ex_gw_nonce @ replicate 64 CHR ''s'')
        (snd ex_gw_challenge)))) = http_Error ''challenge verification failed'' 401"
proof -
  let ?b = "ex_field (replicate 32 CHR ''k'') @ ex_field ex_gw_nonce @ replicate 64 CHR ''s''"
  let ?r = "enroll_handler ex_gw_env ''76543210'' ?b (snd ex_gw_challenge)"
  have "fst ?r = Reply 200 (Some (geEncodeReply ex_gw_env (accepted_reply ex_gw_env ex_gw_server ''76543210'')))" by code_simp
  then have "?r = (Reply 200 (Some (geEncodeReply ex_gw_env (accepted_reply ex_gw_env ex_gw_server ''76543210''))), snd ?r)"
    by (metis prod.collapse)
  from enroll_spends_challenge [OF this] show ?thesis by blast
qed

section \<open>Policies and messages\<close>

definition server_document :: "gw_server \<Rightarrow> document" where
  "server_document s = \<lparr>docRevision = gwRevision s, docModules = gwModules s\<rparr>"

lemma set_doc_keys: "distinct (map fst docs) \<Longrightarrow> distinct (map fst (set_doc m d docs))"
  by (auto simp: set_doc_def distinct_map filter_map intro: inj_on_subset)

lemma SetPolicy_distinct: "distinct (map fst (gwModules s)) \<Longrightarrow> distinct (map fst (gwModules (server_SetPolicy m doc s)))"
  by (simp add: server_SetPolicy_def set_doc_keys)

text \<open>
  A policy set at the server is what the agent answers. After \<open>server_SetPolicy\<close>, a fetch of the
  policy manager succeeds and the manager has the new document for this module, and the documents of the server
  for all others, at the new revision; provided its revision differs from the one of the server,
  and that the document set is read back from its JSON, which the encoder compacts.
\<close>

theorem policy_reaches_device:
  assumes "distinct (map fst (gwModules s))" "s' = server_SetPolicy m doc s" "pmRevision pm \<noteq> gwRevision s'"
    and json: "geEncodePolicy ge (server_document s') = Some b" "peDecode pe b = Some (server_document s')"
    and fits: "length b \<le> policyLimit"
  shows "\<exists>pm'. fetch pe (fst (policy_handler ge s')) pm = (Inr (), pm')
    \<and> policy_Get m pm' = (gwRevision s + 1, doc)
    \<and> (\<forall>m'. m' \<noteq> m \<longrightarrow> policy_Get m' pm' = (gwRevision s + 1, doc_of (gwModules s) m'))"
proof -
  have body: "fst (policy_handler ge s') = Reply 200 (Some b)"
    using json(1) by (simp add: policy_handler_def server_document_def)
  obtain pm1 wake where app: "apply_locked (server_document s') pm = Some (pm1, wake)"
    using assms(3) by (auto simp: apply_locked_def server_document_def)
  have docs: "doc_of (pmDocs pm1) k = doc_of (gwModules s') k" for k
    using apply_locked_docs [OF app] SetPolicy_distinct [OF assms(1)] by (simp add: server_document_def assms(2))
  have rev: "pmRevision pm1 = gwRevision s'"
    using apply_locked_fields [OF app] by (simp add: server_document_def)
  have cached: "pmDocs (cache_doc pe d pm1) = pmDocs pm1" "pmRevision (cache_doc pe d pm1) = pmRevision pm1" for d
    by (auto simp: cache_doc_def split: option.splits)
  have "fetch pe (fst (policy_handler ge s')) pm = (Inr (), cache_doc pe (server_document s') pm1)"
    using json(2) fits by (simp add: fetch_def body apply_doc_def app)
  then show ?thesis using docs rev by (simp add: policy_Get_def cached assms(2) server_SetPolicy_def)
qed

definition ex_gw_policy_env :: "mem_store policy_env" where
  "ex_gw_policy_env = \<lparr>peBackend = MemStore, peEncode = (\<lambda>_. None),
     peDecode = (\<lambda>b. Some \<lparr>docRevision = 1, docModules = [ex_unfield b]\<rparr>)\<rparr>"

theorem policy_reaches_device_witness:
  "\<exists>pm'. fetch ex_gw_policy_env (fst (policy_handler ex_gw_env (server_SetPolicy ''m'' ''{}'' ex_gw_server))) (new_manager None) = (Inr (), pm')
    \<and> policy_Get ''m'' pm' = (1, ''{}'')"
proof -
  have "\<exists>pm'. fetch ex_gw_policy_env (fst (policy_handler ex_gw_env (server_SetPolicy ''m'' ''{}'' ex_gw_server))) (new_manager None) = (Inr (), pm')
    \<and> policy_Get ''m'' pm' = (gwRevision ex_gw_server + 1, ''{}'')
    \<and> (\<forall>m'. m' \<noteq> ''m'' \<longrightarrow> policy_Get m' pm' = (gwRevision ex_gw_server + 1, doc_of (gwModules ex_gw_server) m'))"
  proof (rule policy_reaches_device [OF _ refl])
    show "geEncodePolicy ex_gw_env (server_document (server_SetPolicy ''m'' ''{}'' ex_gw_server)) = Some (ex_field ''m'' @ ''{}'')"
      by (simp add: ex_gw_env_def server_document_def server_SetPolicy_def ex_gw_server_def New_server_def set_doc_def)
    show "peDecode ex_gw_policy_env (ex_field ''m'' @ ''{}'') = Some (server_document (server_SetPolicy ''m'' ''{}'' ex_gw_server))"
      unfolding ex_gw_policy_env_def policy_env.simps ex_unfield_field
      by (simp add: server_document_def server_SetPolicy_def ex_gw_server_def New_server_def set_doc_def)
    show "length (ex_field ''m'' @ ''{}'') \<le> policyLimit" by code_simp
  qed (simp_all add: ex_gw_server_def New_server_def server_SetPolicy_def new_manager_def)
  then show ?thesis by (auto simp: ex_gw_server_def New_server_def)
qed

text \<open>The message peer of the agent with this server behind its endpoint: the error it gives and the server after it.\<close>

definition answered :: "Policy.http_reply \<Rightarrow> post_reply" where
  "answered r = (case r of Policy.NoReply \<Rightarrow> Transport.NoReply [] | Reply code _ \<Rightarrow> Answered code)"

definition send_to_server :: "server_env \<Rightarrow> http_peer \<Rightarrow> queued_message \<Rightarrow> gw_server \<Rightarrow> string option \<times> gw_server" where
  "send_to_server ge h msg s =
     (HTTPPeer_Send (h\<lparr>hpPost := \<lambda>_ body. answered (fst (messages_handler ge body s))\<rparr>) msg,
      case hpMarshal h (hpDevice h) msg of Inl _ \<Rightarrow> s | Inr body \<Rightarrow> snd (messages_handler ge body s))"

definition stamped :: "string \<Rightarrow> queued_message \<Rightarrow> received_message" where
  "stamped dev msg = \<lparr>rmDeviceID = dev, rmModule = qmModule msg, rmKind = qmKind msg, rmData = qmData msg\<rparr>"

text \<open>
  A send succeeds exactly when the server has the message, with the sender's device id; a send
  that fails leaves the server as it was, so that the queue may keep the message.
\<close>

theorem send_exactly_received:
  assumes json: "\<And>body. hpMarshal h (hpDevice h) msg = Inr body \<Longrightarrow>
      geDecodeMessage ge body \<in> {Inr (stamped (hpDevice h) msg)} \<union> range Inl"
    and send: "send_to_server ge h msg s = (r, s')"
  shows "Messages s' = Messages s @ (if r = None then [stamped (hpDevice h) msg] else [])
    \<and> (r \<noteq> None \<longrightarrow> s' = s)"
proof (cases "hpMarshal h (hpDevice h) msg")
  case (Inl e)
  with send show ?thesis by (auto simp: send_to_server_def HTTPPeer_Send_def)
next
  case (Inr body)
  with json [OF Inr] send show ?thesis
    by (auto simp: send_to_server_def HTTPPeer_Send_def messages_handler_def answered_def http_Error_def Messages_def)
qed

end
