(* ===== verification/Ipc.thy ===== *)
theory Ipc
  imports Launch
begin

text \<open>
  The local transport (\<open>src/sdk/ipc\<close>): listening on a unix socket with the removal of a stale one,
  dialling with the check of the network, and the credentials of a peer on each operating system,
  which the authorizer of a listener decides on. The socket of a listener is an entry of the tree that is
  not a directory. The pipes of Windows are the library's; their access is the security descriptor.
\<close>

section \<open>Listening\<close>

record sock_disk = disk +
  listening :: "path list"

datatype listen_error = StaleSocket io_error | ListenError io_error | ChmodError io_error

text \<open>\<open>net.Listen("unix", addr)\<close> binds a path that is free.\<close>

definition bind_error :: "path \<Rightarrow> fs \<Rightarrow> io_error option" where
  "bind_error addr t =
     (if lookup t addr \<noteq> None then Some (EEXIST addr)
      else if is_dir t (Dir addr) \<and> addr \<noteq> [] then None else Some (missing t addr))"

definition bind_socket :: "path \<Rightarrow> (sock_disk, (io_error, unit) result) state" where
  "bind_socket addr = do {
     r \<leftarrow> syscall addr
       (\<lambda>t. case bind_error addr t of Some e \<Rightarrow> (Inl e, t) | None \<Rightarrow> (Inr (), set_node addr (File []) t)) (\<lambda>t _. t);
     case r of
       Inl e \<Rightarrow> ret (Inl e)
     | Inr _ \<Rightarrow> do { _ \<leftarrow> modify (\<lambda>d. d\<lparr>listening := addr # listening d\<rparr>); ret (Inr ()) } }"

text \<open>Closing a unix listener also unlinks its path.\<close>

definition close_listener :: "path \<Rightarrow> (sock_disk, unit) state" where
  "close_listener addr = modify (\<lambda>d. d\<lparr>tree := drop_paths (\<lambda>q. q = addr) (tree d), listening := remove1 addr (listening d)\<rparr>)"

definition listen_bound :: "path \<Rightarrow> (sock_disk, (listen_error, unit) result) state" where
  "listen_bound addr =
     then_ok (wrap_err ListenError (bind_socket addr)) (\<lambda>_. do {
       chmod \<leftarrow> FileCall addr;
       case chmod of
         Inl e \<Rightarrow> do { _ \<leftarrow> close_listener addr; ret (Inl (ChmodError e)) }
       | Inr _ \<Rightarrow> ret (Inr ()) })"

definition listen_unix :: "path \<Rightarrow> (sock_disk, (listen_error, unit) result) state" where
  "listen_unix addr = do {
     removed \<leftarrow> Remove addr;
     case removed of
       Inl e \<Rightarrow> if \<not> IsNotExist e then ret (Inl (StaleSocket e)) else listen_bound addr
     | Inr _ \<Rightarrow> listen_bound addr }"

text \<open>\<open>ListenAuthorized\<close> keeps the authorizer beside the listener.\<close>

definition ListenAuthorized ::
    "path \<Rightarrow> (peer_cred \<Rightarrow> bool) \<Rightarrow> (sock_disk, (listen_error, path \<times> (peer_cred \<Rightarrow> bool)) result) state" where
  "ListenAuthorized addr authorize = then_ok (listen_unix addr) (\<lambda>_. ret (Inr (addr, authorize)))"

definition pipeSDDL :: string where "pipeSDDL = ''D:(A;;GA;;;SY)(A;;GA;;;BA)''"


section \<open>Dialling\<close>

datatype dial_error = NetworkUnsupported string | DialError string

text \<open>The last argument is what the operating system answers to a dial.\<close>

definition dial_unix :: "string \<Rightarrow> string \<Rightarrow> (string \<Rightarrow> (string, 'c) result) \<Rightarrow> (dial_error, 'c) result" where
  "dial_unix netw addr answer =
     (if netw \<noteq> NetworkUnix then Inl (NetworkUnsupported netw) else map_error DialError (answer addr))"

definition dial_windows :: "string \<Rightarrow> string \<Rightarrow> (string \<Rightarrow> (string, 'c) result) \<Rightarrow> (dial_error, 'c) result" where
  "dial_windows netw addr answer =
     (if netw \<noteq> NetworkPipe then Inl (NetworkUnsupported netw) else map_error DialError (answer addr))"


section \<open>Credentials of a peer\<close>

text \<open>A connection: whether it is a unix socket, whether its descriptor can be had, and what the kernel says of its peer.\<close>

record conn =
  cnUnix :: bool
  cnRaw :: bool
  cnUcred :: "(uint32 \<times> int) option"

definition no_cred :: peer_cred where
  "no_cred = \<lparr>pcUID = 0, pcHasUID = False, pcPID = 0, pcHasPID = False\<rparr>"

definition peerCred_linux :: "conn \<Rightarrow> peer_cred" where
  "peerCred_linux c =
     (if \<not> cnUnix c \<or> \<not> cnRaw c then no_cred
      else case cnUcred c of
        None \<Rightarrow> no_cred
      | Some (uid, pid) \<Rightarrow> \<lparr>pcUID = uid, pcHasUID = True, pcPID = pid, pcHasPID = True\<rparr>)"

definition peerCred_darwin :: "conn \<Rightarrow> peer_cred" where
  "peerCred_darwin c =
     (if \<not> cnUnix c \<or> \<not> cnRaw c then no_cred
      else case cnUcred c of
        None \<Rightarrow> no_cred
      | Some (uid, _) \<Rightarrow> \<lparr>pcUID = uid, pcHasUID = True, pcPID = 0, pcHasPID = False\<rparr>)"

definition peerCred_windows :: "conn \<Rightarrow> peer_cred" where
  "peerCred_windows c = no_cred"


section \<open>Properties\<close>

text \<open>A step that leaves every path but one as it was.\<close>

definition only_at :: "path \<Rightarrow> fs \<Rightarrow> fs \<Rightarrow> bool" where
  "only_at p t t' = (\<forall>q. q \<noteq> p \<longrightarrow> lookup t' q = lookup t q)"

definition listen_post :: "path \<Rightarrow> fs \<Rightarrow> path list \<Rightarrow> (listen_error, unit) result \<Rightarrow> sock_disk \<Rightarrow> bool" where
  "listen_post addr t ls r d' = (only_at addr t (tree d') \<and> (case r of
       Inr _ \<Rightarrow> listening d' = addr # ls \<and> lookup (tree d') addr = Some (File [])
     | Inl _ \<Rightarrow> listening d' = ls))"

lemma listen_bound_exact:
  assumes "only_at addr t (tree d)" "listening d = ls"
  shows "wp (listen_bound addr) (listen_post addr t ls) d"
  using assms
  by (auto simp: listen_bound_def bind_socket_def close_listener_def FileCall_def wp_simps wp_syscall after_call_def
      only_at_def listen_post_def map_error_def split: option.splits sum.splits)

text \<open>
  Listening is exact: whatever call fails, no path but the address changes, on success the address is a new
  socket of this listener, and on an error no listener is left. A stale entry at the address does not get in the way
  unless it is a directory that is not empty.
\<close>

theorem listen_exact:
  assumes "run_state (listen_unix addr) d = (r, d')"
  shows "only_at addr (tree d) (tree d') \<and> (case r of
       Inr _ \<Rightarrow> listening d' = addr # listening d \<and> lookup (tree d') addr = Some (File [])
     | Inl _ \<Rightarrow> listening d' = listening d)"
proof -
  have "wp (listen_unix addr) (listen_post addr (tree d) (listening d)) d"
    by (auto simp: listen_unix_def Remove_def wp_simps wp_syscall after_call_def only_at_def listen_post_def [of _ _ _ "Inl _"]
        intro!: listen_bound_exact split: option.splits sum.splits)
  from wpD [OF this assms] show ?thesis by (simp add: listen_post_def)
qed

text \<open>
  A peer that is served where the kernel names its user is root, core or the account of the module.
\<close>

theorem served_peer_authorized:
  assumes "peerCred \<in> {peerCred_linux, peerCred_darwin}"
    and "\<And>c. c \<in> set cs \<Longrightarrow> cnUnix c \<and> cnRaw c \<and> cnUcred c \<noteq> None"
    and "Accept (Some (authorizeModulePeer u m)) (map peerCred cs) = (closed, Some p)"
  shows "pcUID p = 0 \<or> pcUID p = uhUid u \<or> (\<exists>gid. dropCreds u m = Inr (Some (pcUID p, gid)))"
proof -
  have adm: "authorizeModulePeer u m p" using Accept_admits [OF assms(3)] by simp
  have "p \<in> set (map peerCred cs)" using assms(3)
    by (induction cs arbitrary: closed) (auto split: if_splits prod.splits)
  then obtain c where "c \<in> set cs" "p = peerCred c" by auto
  with assms(1,2) have "pcHasUID p" by (fastforce simp: peerCred_linux_def peerCred_darwin_def)
  with adm show ?thesis by (auto simp: authorizeModulePeer_def split: sum.splits option.splits)
qed

end
