(* ===== verification/Spawn_Unix.thy ===== *)
theory Spawn_Unix
  imports Launch
begin

text \<open>
  The unix part of a launch (\<open>src/internal/supervise/spawn_unix.go\<close>, \<open>spawn_pdeathsig_linux.go\<close>,
  \<open>spawn_pdeathsig_other.go\<close>): the attributes a module process starts with, its containment and its
  end. The interface that the platforms share is the locale \<open>containment\<close>: what spawning, killing and
  the death of core do to the processes of modules; it is interpreted here for Linux, and for
  Windows beside the model of its job objects.
\<close>

section \<open>The interface of the platforms\<close>

text \<open>
  What the supervisor does with processes: it spawns a module, which may start further processes of its
  own at once, and it kills one with the handle of its containment.
\<close>

datatype spawn_op = SpawnModule manifest nat "nat list" | KillModule nat

fun spawned :: "spawn_op list \<Rightarrow> nat list" where
  "spawned [] = []"
| "spawned (SpawnModule m pid early # ops) = pid # spawned ops"
| "spawned (KillModule pid # ops) = spawned ops"

fun children :: "spawn_op list \<Rightarrow> nat list" where
  "children [] = []"
| "children (SpawnModule m pid early # ops) = early @ children ops"
| "children (KillModule pid # ops) = children ops"

text \<open>The modules that run, with their handles, after a sequence of operations.\<close>

fun spawn_session ::
    "(manifest \<Rightarrow> nat \<Rightarrow> nat list \<Rightarrow> ('w, ('e, 'j) result) state) \<Rightarrow> (nat \<Rightarrow> 'j \<Rightarrow> ('w, unit) state) \<Rightarrow>
     spawn_op list \<Rightarrow> (nat \<times> 'j) list \<Rightarrow> ('w, (nat \<times> 'j) list) state" where
  "spawn_session spawn kill [] ms = ret ms"
| "spawn_session spawn kill (SpawnModule m pid early # ops) ms = do {
     r \<leftarrow> spawn m pid early;
     spawn_session spawn kill ops (case r of Inl _ \<Rightarrow> ms | Inr j \<Rightarrow> (pid, j) # ms) }"
| "spawn_session spawn kill (KillModule pid # ops) ms =
     (case map_of ms pid of
        None \<Rightarrow> spawn_session spawn kill ops ms
      | Some j \<Rightarrow> do { _ \<leftarrow> kill pid j; spawn_session spawn kill ops (remove1 (pid, j) ms) })"

locale containment =
  fixes spawn :: "manifest \<Rightarrow> nat \<Rightarrow> nat list \<Rightarrow> ('w, ('e, 'j) result) state"
    and kill :: "nat \<Rightarrow> 'j \<Rightarrow> ('w, unit) state"
    and dies :: "'w \<Rightarrow> 'w"
    and alive :: "'w \<Rightarrow> nat set"
    and good :: "'w \<Rightarrow> (nat \<times> 'j) list \<Rightarrow> bool"
  assumes spawn_contains: "good w ms \<Longrightarrow> pid \<notin> alive w \<Longrightarrow> set early \<inter> insert pid (fst ` set ms) = {} \<Longrightarrow> wp (spawn m pid early) (\<lambda>r w'.
       case r of
         Inl _ \<Rightarrow> good w' ms \<and> alive w' \<subseteq> alive w \<union> set early
       | Inr j \<Rightarrow> good w' ((pid, j) # ms) \<and> alive w' \<subseteq> insert pid (alive w \<union> set early)) w"
    and kill_ends: "good w ms \<Longrightarrow> (pid, j) \<in> set ms \<Longrightarrow>
       wp (kill pid j) (\<lambda>_ w'. good w' (remove1 (pid, j) ms) \<and> alive w' \<subseteq> alive w - {pid}) w"
    and dies_ends: "good w ms \<Longrightarrow> alive (dies w) \<subseteq> alive w - fst ` set ms"
begin

text \<open>A process is one that was there, a child of a module, or a module that runs.\<close>

lemma session_contains:
  assumes "good w ms" "alive w \<subseteq> others \<union> fst ` set ms" "set (children ops) \<subseteq> others" "others \<inter> fst ` set ms = {}"
    and "distinct (spawned ops)" "set (spawned ops) \<inter> (others \<union> fst ` set ms) = {}"
  shows "wp (spawn_session spawn kill ops ms) (\<lambda>ms' w'. good w' ms' \<and> alive w' \<subseteq> others \<union> fst ` set ms') w"
  using assms
proof (induction ops arbitrary: ms w rule: spawned.induct)
  case 1
  then show ?case by (simp add: wp_ret)
next
  case (2 m pid early ops)
  from 2(3-7) have "pid \<notin> alive w" "set early \<inter> insert pid (fst ` set ms) = {}" by auto
  from spawn_contains [OF 2(2) this, of m] show ?case
    unfolding spawn_session.simps wp_bind
  proof (rule wp_mono, goal_cases)
    case (1 r w')
    show ?case
      by (rule 2(1)) (use 1 2(3-7) in \<open>auto split: sum.splits\<close>)
  qed
next
  case (3 pid ops)
  show ?case
  proof (cases "map_of ms pid")
    case None
    with 3 show ?thesis by (simp only: spawn_session.simps option.case spawned.simps children.simps)
  next
    case (Some j)
    then have j: "(pid, j) \<in> set ms" by (rule map_of_SomeD)
    define A B where sets: "A = fst ` set ms" "B = fst ` set (remove1 (pid, j) ms)"
    have AB: "A - {pid} \<subseteq> B" by (auto simp: sets)
    have BA: "B \<subseteq> A" unfolding sets using set_remove1_subset by fast
    from kill_ends [OF 3(2) j] show ?thesis
      unfolding spawn_session.simps Some option.case wp_bind
    proof (rule wp_mono, goal_cases)
      case (1 r w')
      have "alive w' \<subseteq> others \<union> B" "others \<inter> B = {}" "set (spawned ops) \<inter> (others \<union> B) = {}"
        using 1 3(3,5,7) AB BA unfolding sets(1) [symmetric] spawned.simps by blast+
      then show ?case using 1 3(4,6) by (intro 3(1)) (simp_all add: sets)
    qed
  qed
qed

text \<open>No module outlives core.\<close>

lemma session_ends_with_core:
  assumes "good w []" "set (children ops) \<inter> set (spawned ops) = {}" "distinct (spawned ops)" "set (spawned ops) \<inter> alive w = {}"
    and "run_state (spawn_session spawn kill ops []) w = (ms', w')"
  shows "set (spawned ops) \<inter> alive (dies w') = {}"
proof -
  from wpD [OF session_contains [of w "[]" "alive w \<union> set (children ops)" ops] assms(5)] assms
  have "good w' ms'" "alive w' \<subseteq> alive w \<union> set (children ops) \<union> fst ` set ms'" by auto
  with dies_ends [OF this(1)] assms(2,4) show ?thesis by blast
qed

end


section \<open>Attributes of a process\<close>

record sys_proc_attr =
  paPdeathsig :: int
  paCredential :: "(uint32 \<times> uint32) option"

definition no_attr :: sys_proc_attr where
  "no_attr = \<lparr>paPdeathsig = 0, paCredential = None\<rparr>"

definition SIGKILL :: int where "SIGKILL = 9"

text \<open>The two files for \<open>setPdeathsig\<close>: Linux, and the other systems.\<close>

definition setPdeathsig :: "string \<Rightarrow> sys_proc_attr \<Rightarrow> sys_proc_attr" where
  "setPdeathsig goos a = (if goos = ''linux'' then a\<lparr>paPdeathsig := SIGKILL\<rparr> else a)"

definition serviceAccount :: "string \<Rightarrow> string" where
  "serviceAccount goos = (if goos = ''darwin'' then ''_weaveagent'' else ''weave-agent'')"

text \<open>The host a core runs on, with the account as the user database of the system has it.\<close>

definition unix_host_of :: "string \<Rightarrow> (string \<Rightarrow> (string \<times> string) option) \<Rightarrow> nat \<Rightarrow> uint32 \<Rightarrow> unix_host" where
  "unix_host_of goos user_Lookup euid uid = \<lparr>uhEuid = euid, uhUid = uid, uhAccount = user_Lookup (serviceAccount goos)\<rparr>"

text \<open>The attributes of the command before are \<open>None\<close> when it has none.\<close>

definition applyPrivilege_unix ::
    "string \<Rightarrow> unix_host \<Rightarrow> manifest \<Rightarrow> sys_proc_attr option \<Rightarrow> (priv_error, sys_proc_attr) result" where
  "applyPrivilege_unix goos u m attr =
     (case dropCreds u m of
        Inl e \<Rightarrow> Inl e
      | Inr cred \<Rightarrow>
          let a = setPdeathsig goos (case attr of None \<Rightarrow> no_attr | Some a \<Rightarrow> a)
          in Inr (case cred of None \<Rightarrow> a | Some c \<Rightarrow> a\<lparr>paCredential := Some c\<rparr>))"


section \<open>Processes\<close>

text \<open>The kernel: the processes with their attributes, those of core as they are without any.\<close>

record unix_proc =
  upPid :: nat
  upAttr :: sys_proc_attr

record unix_sys =
  usProcs :: "unix_proc list"
  usCalls :: nat
  usFails :: "nat \<Rightarrow> bool"

definition pids :: "unix_sys \<Rightarrow> nat set" where
  "pids s = upPid ` set (usProcs s)"

text \<open>The user a process runs as: its credential, or the effective user of core.\<close>

definition runs_as :: "unix_host \<Rightarrow> unix_proc \<Rightarrow> uint32" where
  "runs_as u p = (case paCredential (upAttr p) of None \<Rightarrow> of_nat (uhEuid u) | Some (uid, _) \<Rightarrow> uid)"

text \<open>
  \<open>cmd.Start\<close> may fail; a child of the module inherits its user and not its parent-death signal.
\<close>

definition start_unix :: "sys_proc_attr \<Rightarrow> nat \<Rightarrow> nat list \<Rightarrow> (unix_sys, (unit, unit) result) state" where
  "start_unix a pid early = State (\<lambda>s.
     let s' = s\<lparr>usCalls := Suc (usCalls s)\<rparr>
     in if usFails s (usCalls s) then (Inl (), s')
        else (Inr (), s'\<lparr>usProcs := \<lparr>upPid = pid, upAttr = a\<rparr>
          # map (\<lambda>c. \<lparr>upPid = c, upAttr = a\<lparr>paPdeathsig := 0\<rparr>\<rparr>) early @ usProcs s\<rparr>))"

definition end_pid :: "nat \<Rightarrow> unix_sys \<Rightarrow> unix_sys" where
  "end_pid pid s = s\<lparr>usProcs := filter (\<lambda>p. upPid p \<noteq> pid) (usProcs s)\<rparr>"

text \<open>The handle of the containment is empty on unix.\<close>

definition postSpawn_unix :: "nat \<Rightarrow> (unix_sys, (unit, unit) result) state" where
  "postSpawn_unix pid = ret (Inr ())"

definition killProc_unix :: "nat option \<Rightarrow> unit \<Rightarrow> (unix_sys, unit) state" where
  "killProc_unix process job = (case process of None \<Rightarrow> ret () | Some pid \<Rightarrow> modify (end_pid pid))"

definition closeJob_unix :: "unit \<Rightarrow> (unix_sys, unit) state" where
  "closeJob_unix job = ret ()"

datatype unix_error = UnixPrivilege priv_error | UnixExec | UnixContain

text \<open>The part of \<open>launch\<close> from the privilege to the contained process; the command has no attributes before.\<close>

definition spawn_unix ::
    "string \<Rightarrow> unix_host \<Rightarrow> manifest \<Rightarrow> nat \<Rightarrow> nat list \<Rightarrow> (unix_sys, (unix_error, unit) result) state" where
  "spawn_unix goos u m pid early =
     (case applyPrivilege_unix goos u m None of
        Inl e \<Rightarrow> ret (Inl (UnixPrivilege e))
      | Inr a \<Rightarrow> do {
          started \<leftarrow> start_unix a pid early;
          case started of
            Inl _ \<Rightarrow> ret (Inl UnixExec)
          | Inr _ \<Rightarrow> do {
              job \<leftarrow> postSpawn_unix pid;
              case job of
                Inl _ \<Rightarrow> do { _ \<leftarrow> modify (end_pid pid); ret (Inl UnixContain) }
              | Inr j \<Rightarrow> ret (Inr j) } })"

definition kill_unix :: "nat \<Rightarrow> unit \<Rightarrow> (unix_sys, unit) state" where
  "kill_unix pid job = do { _ \<leftarrow> killProc_unix (Some pid) job; closeJob_unix job }"

text \<open>When core dies, the kernel kills the processes with a parent-death signal.\<close>

definition core_dies_unix :: "unix_sys \<Rightarrow> unix_sys" where
  "core_dies_unix s = s\<lparr>usProcs := filter (\<lambda>p. paPdeathsig (upAttr p) \<noteq> SIGKILL) (usProcs s)\<rparr>"


section \<open>Containment on Linux\<close>

definition linux_good :: "unix_sys \<Rightarrow> (nat \<times> unit) list \<Rightarrow> bool" where
  "linux_good s ms = (\<forall>p \<in> set (usProcs s). upPid p \<in> fst ` set ms \<longrightarrow> paPdeathsig (upAttr p) = SIGKILL)"

lemma wp_start_unix [wp_simps]:
  "wp (start_unix a pid early) Q s =
     (let s' = s\<lparr>usCalls := Suc (usCalls s)\<rparr>
      in if usFails s (usCalls s) then Q (Inl ()) s'
         else Q (Inr ()) (s'\<lparr>usProcs := \<lparr>upPid = pid, upAttr = a\<rparr>
           # map (\<lambda>c. \<lparr>upPid = c, upAttr = a\<lparr>paPdeathsig := 0\<rparr>\<rparr>) early @ usProcs s\<rparr>))"
  by (simp add: wp_def start_unix_def Let_def)

lemma end_pid_pids: "pids (end_pid pid s) = pids s - {pid}"
  by (auto simp: pids_def end_pid_def)

lemma linux_attr: "applyPrivilege_unix ''linux'' u m attr = Inr a \<Longrightarrow> paPdeathsig a = SIGKILL"
  by (auto simp: applyPrivilege_unix_def setPdeathsig_def Let_def split: sum.splits option.splits)

interpretation linux: containment "spawn_unix ''linux'' u" kill_unix core_dies_unix pids linux_good
  for u
proof (unfold_locales, goal_cases)
  case (1 w ms pid early m)
  then show ?case
    by (fastforce simp: spawn_unix_def postSpawn_unix_def wp_simps linux_good_def pids_def Let_def image_iff disjoint_iff
        dest: linux_attr split: sum.splits)
next
  case (2 w ms pid j)
  have "fst ` set (remove1 (pid, j) ms) \<subseteq> fst ` set ms" using set_remove1_subset by fast
  with 2 show ?case
    by (auto simp: kill_unix_def killProc_unix_def closeJob_unix_def wp_simps linux_good_def end_pid_pids)
      (force simp: end_pid_def)
next
  case (3 w ms)
  then show ?case by (auto simp: linux_good_def pids_def core_dies_unix_def)
qed

section \<open>Properties\<close>

text \<open>
  No module outlives core on Linux: whatever modules are spawned and killed, and whatever starts fail,
  when core dies, however it dies, no process of a module is left. The processes a module has started itself are not among
  them.
\<close>

theorem linux_no_orphans:
  assumes "set (spawned ops) \<inter> pids s = {}" "distinct (spawned ops)" "set (children ops) \<inter> set (spawned ops) = {}"
    and "run_state (spawn_session (spawn_unix ''linux'' u) kill_unix ops []) s = (ms, s')"
  shows "set (spawned ops) \<inter> pids (core_dies_unix s') = {}"
  using linux.session_ends_with_core [OF _ assms(3,2,1,4)] by (simp add: linux_good_def)

definition ex_unix :: unix_host where
  "ex_unix = unix_host_of ''linux'' (map_of [(''_weaveagent'', (''65'', ''65'')), (''weave-agent'', (''501'', ''20''))]) 0 0"

definition ex_unix_sys :: unix_sys where
  "ex_unix_sys = \<lparr>usProcs = [\<lparr>upPid = 1, upAttr = no_attr\<rparr>], usCalls = 0, usFails = (\<lambda>n. n = 1)\<rparr>"

definition ex_spawn_ops :: "spawn_op list" where
  "ex_spawn_ops = [SpawnModule (spManifest ex_spec) 100 [200], SpawnModule (spManifest ex_spec) 101 [],
     SpawnModule (spManifest ex_spec) 102 [], KillModule 102]"

definition ex_unix_end :: "string \<Rightarrow> (nat \<times> unit) list \<times> unix_sys" where
  "ex_unix_end goos = run_state (spawn_session (spawn_unix goos ex_unix) kill_unix ex_spawn_ops []) ex_unix_sys"

text \<open>Applied to three modules, of which one does not start and one is killed; the child of the first one stays.\<close>

theorem linux_no_orphans_witness:
  "{100, 101, 102} \<inter> pids (core_dies_unix (snd (ex_unix_end ''linux''))) = {} \<and> 100 \<in> pids (snd (ex_unix_end ''linux''))
    \<and> 200 \<in> pids (core_dies_unix (snd (ex_unix_end ''linux'')))"
proof -
  have ops: "set (spawned ex_spawn_ops) \<inter> pids ex_unix_sys = {}" "distinct (spawned ex_spawn_ops)"
    "set (children ex_spawn_ops) \<inter> set (spawned ex_spawn_ops) = {}"
    by (simp_all add: ex_spawn_ops_def pids_def ex_unix_sys_def)
  have "set (spawned ex_spawn_ops) = {100, 101, 102}" by (simp add: ex_spawn_ops_def)
  moreover have "100 \<in> pids (snd (ex_unix_end ''linux''))" "200 \<in> pids (core_dies_unix (snd (ex_unix_end ''linux'')))"
    by code_simp+
  ultimately show ?thesis
    using linux_no_orphans [OF ops prod.collapse [symmetric], of ex_unix] by (simp add: ex_unix_end_def)
qed

text \<open>
  On macOS the kernel leaves them: a module ends there only by its own watch on the connection to core.
\<close>

theorem darwin_orphan: "100 \<in> pids (core_dies_unix (snd (ex_unix_end ''darwin'')))"
  by code_simp

text \<open>
  C15: Privilege is dropped or nothing runs. When core is root and the manifest does not ask for the privilege of
  the system, a spawn that succeeds has the module and what it starts run with exactly the user and group of the service account, and
  one that fails leaves the processes as they were; in particular a manifest of another session, or a host without the account,
  never runs a module.
\<close>

theorem privilege_dropped:
  assumes "uhEuid u = 0" "mfPrivilege m \<noteq> PrivilegeSystem" "run_state (spawn_unix goos u m pid early) s = (r, s')"
  shows "case r of
      Inl _ \<Rightarrow> usProcs s' = usProcs s
    | Inr _ \<Rightarrow> \<exists>us gs uid gid a. mfSession m = SessionSystem \<and> mfPrivilege m = PrivilegeService \<and> uhAccount u = Some (us, gs)
        \<and> ParseUint 32 us = Some uid \<and> ParseUint 32 gs = Some gid \<and> paCredential a = Some (of_nat uid, of_nat gid)
        \<and> usProcs s' = \<lparr>upPid = pid, upAttr = a\<rparr> # map (\<lambda>c. \<lparr>upPid = c, upAttr = a\<lparr>paPdeathsig := 0\<rparr>\<rparr>) early @ usProcs s"
proof (cases "applyPrivilege_unix goos u m None")
  case (Inl e)
  with assms(3) show ?thesis by (auto simp: spawn_unix_def)
next
  case (Inr a)
  then have "\<exists>us gs uid gid. mfSession m = SessionSystem \<and> mfPrivilege m = PrivilegeService \<and> uhAccount u = Some (us, gs)
      \<and> ParseUint 32 us = Some uid \<and> ParseUint 32 gs = Some gid \<and> paCredential a = Some (of_nat uid, of_nat gid)"
    using assms(1,2)
    by (auto simp: applyPrivilege_unix_def dropCreds_def Let_def split: sum.splits option.splits if_splits)
  with assms(3) Inr show ?thesis
    by (auto simp: spawn_unix_def start_unix_def postSpawn_unix_def Let_def split: if_splits)
qed

text \<open>Applied to the service account with user 501 and group 20.\<close>

theorem privilege_dropped_witness:
  "map (runs_as ex_unix) (usProcs (snd (run_state (spawn_unix ''linux'' ex_unix (spManifest ex_spec) 100 [200]) ex_unix_sys))) = [501, 501, 0]"
proof -
  let ?r = "run_state (spawn_unix ''linux'' ex_unix (spManifest ex_spec) 100 [200]) ex_unix_sys"
  have "fst ?r = Inr ()" by code_simp
  moreover have "uhEuid ex_unix = 0" "mfPrivilege (spManifest ex_spec) \<noteq> PrivilegeSystem" by code_simp+
  note privilege_dropped [OF this prod.collapse [symmetric], of "''linux''" 100 "[200]" ex_unix_sys]
  moreover have "ParseUint 32 ''501'' = Some 501" by code_simp
  ultimately show ?thesis
    by (auto simp: runs_as_def ex_unix_def unix_host_of_def serviceAccount_def) (simp_all add: ex_unix_sys_def no_attr_def runs_as_def)
qed

end
