(* ===== verification/Spawn_Windows.thy ===== *)
theory Spawn_Windows
  imports Spawn_Unix
begin

text \<open>
  The Windows part of a launch (\<open>src/internal/supervise/spawn_windows.go\<close>): the restricted token a
  module starts with, and the job object that contains its process, with the calls of \<open>launch.go\<close> around
  them. The state is the handles core has open, the jobs and the processes; every call of Windows may
  fail. The interface \<open>containment\<close> is interpreted on it.
\<close>

section \<open>Handles, jobs and processes\<close>

text \<open>
  A job has its limit \<open>KILL_ON_JOB_CLOSE\<close> and its processes. The oracle says which calls fail.
\<close>

record win =
  wnOpen :: "nat list"
  wnNext :: nat
  wnKillOnClose :: "nat \<Rightarrow> bool"
  wnMembers :: "nat \<Rightarrow> nat list"
  wnAlive :: "nat list"
  wnCalls :: nat
  wnFails :: "nat \<Rightarrow> bool"

definition win_call :: "(win \<Rightarrow> 'a \<times> win) \<Rightarrow> (win, 'a option) state" where
  "win_call f = State (\<lambda>w.
     let w' = w\<lparr>wnCalls := Suc (wnCalls w)\<rparr>
     in if wnFails w (wnCalls w) then (None, w') else (case f w' of (a, w'') \<Rightarrow> (Some a, w'')))"

definition new_handle :: "win \<Rightarrow> nat \<times> win" where
  "new_handle w = (wnNext w, w\<lparr>wnNext := Suc (wnNext w), wnOpen := wnNext w # wnOpen w\<rparr>)"

definition end_processes :: "nat list \<Rightarrow> win \<Rightarrow> win" where
  "end_processes ps w = w\<lparr>wnAlive := filter (\<lambda>p. p \<notin> set ps) (wnAlive w)\<rparr>"

text \<open>Closing the last handle of a job with the limit ends its processes.\<close>

definition CloseHandle :: "nat \<Rightarrow> win \<Rightarrow> win" where
  "CloseHandle h w =
     (let w' = w\<lparr>wnOpen := removeAll h (wnOpen w)\<rparr>
      in if wnKillOnClose w h then end_processes (wnMembers w h) w' else w')"

definition limit_job :: "nat \<Rightarrow> win \<Rightarrow> unit \<times> win" where
  "limit_job job w = ((), w\<lparr>wnKillOnClose := (wnKillOnClose w)(job := True)\<rparr>)"

definition assign_to_job :: "nat \<Rightarrow> nat \<Rightarrow> win \<Rightarrow> unit \<times> win" where
  "assign_to_job job pid w = ((), w\<lparr>wnMembers := (wnMembers w)(job := pid # wnMembers w job)\<rparr>)"

definition terminate_job :: "nat \<Rightarrow> win \<Rightarrow> unit \<times> win" where
  "terminate_job job w = ((), end_processes (wnMembers w job) w)"

text \<open>\<open>cmd.Start\<close>: the child runs at once, and may have started processes of its own right away.\<close>

definition start_process :: "nat \<Rightarrow> nat list \<Rightarrow> win \<Rightarrow> unit \<times> win" where
  "start_process pid early w = ((), w\<lparr>wnAlive := pid # early @ wnAlive w\<rparr>)"


section \<open>Privilege and containment\<close>

datatype win_error =
    WinPrivilege priv_error | OpenTokenFailed | RestrictFailed | StartFailed_win
  | JobFailed | LimitFailed | OpenProcessFailed | AssignFailed

text \<open>
  \<open>applyPrivilege\<close>: the restricted token for the child, which the returned cleanup closes; the handle
  of the process token is closed when the function returns.
\<close>

definition applyPrivilege_win :: "manifest \<Rightarrow> (win, (win_error, nat option) result) state" where
  "applyPrivilege_win m =
     (if mfSession m \<noteq> SessionSystem then ret (Inl (WinPrivilege (SessionUnsupported (mfSession m))))
      else if mfPrivilege m = PrivilegeSystem then ret (Inr None)
      else if mfPrivilege m = PrivilegeService then do {
        procToken \<leftarrow> win_call new_handle;
        case procToken of
          None \<Rightarrow> ret (Inl OpenTokenFailed)
        | Some t \<Rightarrow> do {
            restricted \<leftarrow> win_call new_handle;
            _ \<leftarrow> modify (CloseHandle t);
            ret (case restricted of None \<Rightarrow> Inl RestrictFailed | Some h \<Rightarrow> Inr (Some h)) } }
      else ret (Inl (WinPrivilege (PerUserUnsupported (mfPrivilege m)))))"

definition tokenCleanup :: "nat option \<Rightarrow> (win, unit) state" where
  "tokenCleanup token = (case token of None \<Rightarrow> ret () | Some h \<Rightarrow> modify (CloseHandle h))"

definition job_failed :: "nat \<Rightarrow> win_error \<Rightarrow> (win, (win_error, nat) result) state" where
  "job_failed job err = do { _ \<leftarrow> modify (CloseHandle job); ret (Inl err) }"

definition contain_process :: "nat \<Rightarrow> nat \<Rightarrow> nat \<Rightarrow> (win, (win_error, nat) result) state" where
  "contain_process pid job hProc = do {
     assigned \<leftarrow> win_call (assign_to_job job pid);
     r \<leftarrow> (case assigned of None \<Rightarrow> job_failed job AssignFailed | Some _ \<Rightarrow> ret (Inr job));
     _ \<leftarrow> modify (CloseHandle hProc);
     ret r }"

definition postSpawn_win :: "nat \<Rightarrow> (win, (win_error, nat) result) state" where
  "postSpawn_win pid = do {
     created \<leftarrow> win_call new_handle;
     case created of
       None \<Rightarrow> ret (Inl JobFailed)
     | Some job \<Rightarrow> do {
         limited \<leftarrow> win_call (limit_job job);
         case limited of
           None \<Rightarrow> job_failed job LimitFailed
         | Some _ \<Rightarrow> do {
             opened \<leftarrow> win_call new_handle;
             case opened of
               None \<Rightarrow> job_failed job OpenProcessFailed
             | Some hProc \<Rightarrow> contain_process pid job hProc } } }"

text \<open>The part of \<open>launch\<close> from the privilege to the contained process.\<close>

definition spawn_contained :: "manifest \<Rightarrow> nat \<Rightarrow> nat list \<Rightarrow> (win, (win_error, nat) result) state" where
  "spawn_contained m pid early =
     then_ok (applyPrivilege_win m) (\<lambda>token. do {
       started \<leftarrow> win_call (start_process pid early);
       _ \<leftarrow> tokenCleanup token;
       case started of
         None \<Rightarrow> ret (Inl StartFailed_win)
       | Some _ \<Rightarrow> do {
           job \<leftarrow> postSpawn_win pid;
           case job of
             Inl err \<Rightarrow> do { _ \<leftarrow> modify (end_processes [pid]); ret (Inl err) }
           | Inr j \<Rightarrow> ret (Inr j) } })"

text \<open>The zero handle is the one of a process without a job.\<close>

definition killProc_win :: "nat \<Rightarrow> nat \<Rightarrow> (win, unit) state" where
  "killProc_win pid job =
     (if job \<noteq> 0 then do { _ \<leftarrow> win_call (terminate_job job); ret () }
      else modify (end_processes [pid]))"

definition closeJob_win :: "nat \<Rightarrow> (win, unit) state" where
  "closeJob_win job = (if job \<noteq> 0 then modify (CloseHandle job) else ret ())"

text \<open>When core ends, Windows closes every handle it has.\<close>

definition core_dies :: "win \<Rightarrow> win" where
  "core_dies w = fold CloseHandle (wnOpen w) w"

text \<open>On Windows the socket directory is left as it is, and any peer of the pipe is admitted.\<close>

definition prepareSocketDir_win :: "manifest \<Rightarrow> (string + priv_error) option" where
  "prepareSocketDir_win m = None"

definition authorizeModulePeer_win :: "manifest \<Rightarrow> peer_cred \<Rightarrow> bool" where
  "authorizeModulePeer_win m p = True"


section \<open>Handles are balanced\<close>

text \<open>Handles above the next one have never been used, and no open handle is zero.\<close>

definition win_ok :: "win \<Rightarrow> bool" where
  "win_ok w = (0 < wnNext w \<and> (\<forall>h \<in> set (wnOpen w). 0 < h \<and> h < wnNext w)
     \<and> (\<forall>h \<ge> wnNext w. \<not> wnKillOnClose w h \<and> wnMembers w h = []))"

lemma wp_win_call [wp_simps]:
  "wp (win_call f) Q w =
     (let w' = w\<lparr>wnCalls := Suc (wnCalls w)\<rparr>
      in if wnFails w (wnCalls w) then Q None w' else Q (Some (fst (f w'))) (snd (f w')))"
  by (simp add: wp_def win_call_def Let_def split: prod.splits)

lemmas win_defs = new_handle_def CloseHandle_def limit_job_def assign_to_job_def start_process_def
  terminate_job_def end_processes_def Let_def

text \<open>The jobs that were there are as they were.\<close>

definition win_frame :: "win \<Rightarrow> win \<Rightarrow> bool" where
  "win_frame w w' = (wnNext w \<le> wnNext w'
     \<and> (\<forall>h < wnNext w. wnKillOnClose w' h = wnKillOnClose w h \<and> wnMembers w' h = wnMembers w h))"

lemma win_frame_trans: "win_frame w w' \<Longrightarrow> win_frame w' w'' \<Longrightarrow> win_frame w w''"
  by (auto simp: win_frame_def)

lemma removeAll_fresh: "h \<notin> set xs \<Longrightarrow> removeAll h (h # xs) = xs"
  by simp

text \<open>The token of the child is the only handle that is new, and only when the call succeeded.\<close>

lemma applyPrivilege_balanced:
  assumes "win_ok w"
  shows "wp (applyPrivilege_win m) (\<lambda>r w'. win_ok w' \<and> win_frame w w' \<and> wnAlive w' = wnAlive w \<and> wnFails w' = wnFails w
     \<and> wnOpen w' = (case r of Inr (Some h) \<Rightarrow> [h] | _ \<Rightarrow> []) @ wnOpen w
     \<and> (\<forall>h. r = Inr (Some h) \<longrightarrow> h \<notin> set (wnOpen w) \<and> \<not> wnKillOnClose w' h)) w"
proof -
  have fresh: "wnNext w \<notin> set (wnOpen w)" "Suc (wnNext w) \<notin> set (wnOpen w)" using assms by (auto simp: win_ok_def)
  show ?thesis using assms fresh
    by (auto simp: applyPrivilege_win_def wp_simps win_defs win_ok_def win_frame_def)
qed

text \<open>A process in a job with the limit, which is the only handle more than before.\<close>

definition in_job :: "win \<Rightarrow> nat \<Rightarrow> nat \<Rightarrow> win \<Rightarrow> bool" where
  "in_job w pid job w' = (wnOpen w' = job # wnOpen w \<and> 0 < job \<and> job \<notin> set (wnOpen w)
     \<and> wnKillOnClose w' job \<and> wnMembers w' job = [pid])"

lemma postSpawn_balanced:
  assumes "win_ok w"
  shows "wp (postSpawn_win pid) (\<lambda>r w'. win_ok w' \<and> win_frame w w' \<and> (case r of
       Inl _ \<Rightarrow> wnOpen w' = wnOpen w \<and> set (wnAlive w') \<subseteq> set (wnAlive w)
     | Inr job \<Rightarrow> in_job w pid job w' \<and> wnAlive w' = wnAlive w)) w"
proof -
  have fresh: "wnNext w \<notin> set (wnOpen w)" "Suc (wnNext w) \<notin> set (wnOpen w)" using assms by (auto simp: win_ok_def)
  show ?thesis using assms fresh
    by (auto simp: postSpawn_win_def contain_process_def job_failed_def in_job_def wp_simps win_defs win_ok_def win_frame_def)
qed

lemma tokenCleanup_balanced:
  assumes "win_ok w'" "wnOpen w' = (case token of Some h \<Rightarrow> [h] | None \<Rightarrow> []) @ hs"
    and "\<And>h. token = Some h \<Longrightarrow> h \<notin> set hs \<and> \<not> wnKillOnClose w' h"
  shows "wp (tokenCleanup token) (\<lambda>_ w''. win_ok w'' \<and> win_frame w' w'' \<and> wnOpen w'' = hs \<and> wnAlive w'' = wnAlive w') w'"
  using assms by (auto simp: tokenCleanup_def wp_simps win_defs win_ok_def win_frame_def split: option.splits)

text \<open>The outcome of a spawn: no handle more, or the one of the job the process is in.\<close>

definition spawn_post :: "win \<Rightarrow> nat \<Rightarrow> nat list \<Rightarrow> (win_error, nat) result \<Rightarrow> win \<Rightarrow> bool" where
  "spawn_post w pid early r w' = (win_ok w' \<and> win_frame w w' \<and> set (wnAlive w') \<subseteq> insert pid (set (wnAlive w) \<union> set early)
     \<and> (case r of
          Inl _ \<Rightarrow> wnOpen w' = wnOpen w \<and> pid \<notin> set (wnAlive w')
        | Inr job \<Rightarrow> in_job w pid job w' \<and> pid \<in> set (wnAlive w')))"

lemma spawn_contained_balanced:
  assumes ok: "win_ok w" and new: "pid \<notin> set (wnAlive w)"
  shows "wp (spawn_contained m pid early) (spawn_post w pid early) w"
proof -
  let ?Q = "spawn_post w pid early"
  have post: "wp (postSpawn_win pid) (\<lambda>job. wp (case job of
         Inl err \<Rightarrow> do { _ \<leftarrow> modify (end_processes [pid]); ret (Inl err) }
       | Inr j \<Rightarrow> ret (Inr j)) ?Q) w2"
    if "win_ok w2" "win_frame w w2" "wnOpen w2 = wnOpen w" "wnAlive w2 = pid # early @ wnAlive w" for w2
  proof (rule wp_mono [OF postSpawn_balanced [OF that(1)]], goal_cases)
    case (1 r w')
    with win_frame_trans [OF that(2)] have "win_frame w w'" by blast
    with 1 that show ?case
      by (auto simp: wp_simps spawn_post_def win_ok_def win_frame_def end_processes_def in_job_def split: sum.splits)
  qed
  have start: "wp (do {
       started \<leftarrow> win_call (start_process pid early);
       _ \<leftarrow> tokenCleanup token;
       case started of
         None \<Rightarrow> ret (Inl StartFailed_win)
       | Some _ \<Rightarrow> do {
           job \<leftarrow> postSpawn_win pid;
           case job of
             Inl err \<Rightarrow> do { _ \<leftarrow> modify (end_processes [pid]); ret (Inl err) }
           | Inr j \<Rightarrow> ret (Inr j) } }) ?Q w1"
    if w1: "win_ok w1" "win_frame w w1" "wnAlive w1 = wnAlive w" "wnOpen w1 = (case token of Some h \<Rightarrow> [h] | None \<Rightarrow> []) @ wnOpen w"
      "\<And>h. token = Some h \<Longrightarrow> h \<notin> set (wnOpen w) \<and> \<not> wnKillOnClose w1 h" for token w1
  proof -
    have upd: "win_ok (w1\<lparr>wnCalls := n, wnAlive := ps\<rparr>)" "win_ok (w1\<lparr>wnCalls := n\<rparr>)"
      "win_frame w (w1\<lparr>wnCalls := n, wnAlive := ps\<rparr>)" "win_frame w (w1\<lparr>wnCalls := n\<rparr>)" for n ps
      using w1(1,2) by (simp_all add: win_ok_def win_frame_def)
    have "wp (tokenCleanup token) (\<lambda>_. wp (ret (Inl StartFailed_win)) ?Q) (w1\<lparr>wnCalls := n\<rparr>)" for n
      by (rule wp_mono [OF tokenCleanup_balanced [where token = token and hs = "wnOpen w"]])
        (use w1 new upd in \<open>auto simp: wp_simps spawn_post_def intro: win_frame_trans [OF upd(4)]\<close>)
    moreover have "wp (tokenCleanup token) (\<lambda>_. wp (do {
           job \<leftarrow> postSpawn_win pid;
           case job of
             Inl err \<Rightarrow> do { _ \<leftarrow> modify (end_processes [pid]); ret (Inl err) }
           | Inr j \<Rightarrow> ret (Inr j) }) ?Q) (w1\<lparr>wnCalls := n, wnAlive := pid # early @ wnAlive w1\<rparr>)" for n
      by (rule wp_mono [OF tokenCleanup_balanced [where token = token and hs = "wnOpen w"]])
        (use w1 upd in \<open>auto simp: wp_bind intro!: post win_frame_trans [OF upd(3)]\<close>)
    ultimately show ?thesis by (simp add: wp_bind [of "win_call _"] wp_win_call Let_def start_process_def wp_bind [of "tokenCleanup _"])
  qed
  show ?thesis
    unfolding spawn_contained_def wp_then_ok
  proof (rule wp_mono [OF applyPrivilege_balanced [OF ok]], goal_cases)
    case (1 r w1)
    show ?case
    proof (cases r)
      case (Inr token)
      show ?thesis unfolding Inr sum.case by (rule start) (use 1 Inr in \<open>auto split: option.splits\<close>)
    qed (use 1 new in \<open>auto simp: wp_ret spawn_post_def\<close>)
  qed
qed

section \<open>Properties\<close>

lemma CloseHandle_alive: "set (wnAlive (CloseHandle h w)) \<subseteq> set (wnAlive w)"
  by (auto simp: win_defs)

lemma fold_CloseHandle_alive: "set (wnAlive (fold CloseHandle hs w)) \<subseteq> set (wnAlive w)"
proof (induction hs arbitrary: w)
  case (Cons h hs)
  from Cons [of "CloseHandle h w"] CloseHandle_alive [of h w] show ?case by simp
qed simp

lemma contained_dies_with_core: "in_job w pid job w' \<Longrightarrow> pid \<notin> set (wnAlive (core_dies w'))"
  using fold_CloseHandle_alive [of "wnOpen w" "CloseHandle job w'"]
  by (auto simp: in_job_def core_dies_def win_defs)

lemma contained_killed:
  assumes "in_job w pid job w'"
  shows "wp (do { _ \<leftarrow> killProc_win pid job; closeJob_win job })
    (\<lambda>_ w''. wnOpen w'' = wnOpen w \<and> pid \<notin> set (wnAlive w'')) w'"
  using assms by (auto simp: in_job_def killProc_win_def closeJob_win_def wp_simps win_defs)

text \<open>
  C14: a module process on Windows is contained, and no handle leaks. Whatever calls of Windows fail, a
  spawn that fails leaves exactly the handles that were open and no process of the module; one that
  succeeds leaves one handle more, the job, and then the process ends when core ends, however it ends,
  and also by \<open>killProc\<close> with \<open>closeJob\<close>, even when terminating the job fails, after which the handles
  are the ones from before.
\<close>

theorem windows_containment:
  assumes "win_ok w" "pid \<notin> set (wnAlive w)" "run_state (spawn_contained m pid early) w = (r, w')"
  shows "case r of
      Inl _ \<Rightarrow> wnOpen w' = wnOpen w \<and> pid \<notin> set (wnAlive w')
    | Inr job \<Rightarrow> wnOpen w' = job # wnOpen w \<and> pid \<in> set (wnAlive w')
        \<and> pid \<notin> set (wnAlive (core_dies w'))
        \<and> wnOpen (snd (run_state (do { _ \<leftarrow> killProc_win pid job; closeJob_win job }) w')) = wnOpen w
        \<and> pid \<notin> set (wnAlive (snd (run_state (do { _ \<leftarrow> killProc_win pid job; closeJob_win job }) w')))"
proof -
  from wpD [OF spawn_contained_balanced [OF assms(1,2)] assms(3)]
  have r: "case r of Inl _ \<Rightarrow> wnOpen w' = wnOpen w \<and> pid \<notin> set (wnAlive w')
     | Inr job \<Rightarrow> in_job w pid job w' \<and> pid \<in> set (wnAlive w')" by (simp add: spawn_post_def)
  show ?thesis
  proof (cases r)
    case (Inr job)
    with r have c: "in_job w pid job w'" "pid \<in> set (wnAlive w')" by simp_all
    then have "wnOpen w' = job # wnOpen w" by (simp add: in_job_def)
    with c contained_dies_with_core [OF c(1)] wpD [OF contained_killed [OF c(1)] prod.collapse [symmetric]] show ?thesis
      by (simp add: Inr)
  qed (use r in simp)
qed

text \<open>A Windows with two handles open, where the termination of the job fails.\<close>

definition ex_win :: win where
  "ex_win = \<lparr>wnOpen = [2, 1], wnNext = 3, wnKillOnClose = (\<lambda>_. False), wnMembers = (\<lambda>_. []), wnAlive = [4],
     wnCalls = 0, wnFails = (\<lambda>n. n = 7)\<rparr>"

definition ex_win_spawned :: "(win_error, nat) result \<times> win" where
  "ex_win_spawned = run_state (spawn_contained (spManifest ex_spec) 100 [101]) ex_win"

lemma ex_win_job: "fst ex_win_spawned = Inr 5" by code_simp

theorem windows_containment_witness:
  "wnOpen (snd ex_win_spawned) = [5, 2, 1] \<and> 100 \<in> set (wnAlive (snd ex_win_spawned))
    \<and> 100 \<notin> set (wnAlive (core_dies (snd ex_win_spawned)))
    \<and> wnOpen (snd (run_state (do { _ \<leftarrow> killProc_win 100 5; closeJob_win 5 }) (snd ex_win_spawned))) = [2, 1]"
proof -
  have "win_ok ex_win" "100 \<notin> set (wnAlive ex_win)" by (auto simp: win_ok_def ex_win_def)
  from windows_containment [OF this prod.collapse [symmetric], of "spManifest ex_spec" "[101]"]
  show ?thesis by (simp add: ex_win_spawned_def [symmetric] ex_win_job) (simp add: ex_win_def)
qed

text \<open>
  The child runs before it is in the job: a process it starts in between is not contained, and
  outlives \<open>killProc\<close>, \<open>closeJob\<close> and core itself.
\<close>

theorem early_child_escapes:
  "101 \<in> set (wnAlive (core_dies (snd (run_state (do { _ \<leftarrow> killProc_win 100 5; closeJob_win 5 }) (snd ex_win_spawned)))))"
  by code_simp

text \<open>
  \<open>kill\<close> waits for the process to exit after \<open>killProc\<close> and closes the job only then: when terminating the
  job fails, the process is alive and nothing ends it.
\<close>

theorem kill_needs_close: "100 \<in> set (wnAlive (snd (run_state (killProc_win 100 5) (snd ex_win_spawned))))"
  by code_simp


section \<open>The interface\<close>

text \<open>Every module that runs is in a job of its own, which core has open and which ends its process when it is closed.\<close>

definition win_good :: "win \<Rightarrow> (nat \<times> nat) list \<Rightarrow> bool" where
  "win_good w ms = (win_ok w \<and> distinct (map snd ms)
     \<and> (\<forall>(pid, j) \<in> set ms. 0 < j \<and> j \<in> set (wnOpen w) \<and> wnKillOnClose w j \<and> pid \<in> set (wnMembers w j)))"

definition kill_win :: "nat \<Rightarrow> nat \<Rightarrow> (win, unit) state" where
  "kill_win pid job = do { _ \<leftarrow> killProc_win pid job; closeJob_win job }"

lemma fold_CloseHandle_members:
  "wnKillOnClose w j \<Longrightarrow> j \<in> set hs \<Longrightarrow> pid \<in> set (wnMembers w j) \<Longrightarrow> pid \<notin> set (wnAlive (fold CloseHandle hs w))"
proof (induction hs arbitrary: w)
  case (Cons h hs)
  have "wnKillOnClose (CloseHandle h w) j" "pid \<in> set (wnMembers (CloseHandle h w) j)"
    using Cons.prems by (simp_all add: win_defs)
  moreover have "pid \<notin> set (wnAlive (CloseHandle j w))" using Cons.prems by (simp add: win_defs)
  ultimately show ?case
    using Cons fold_CloseHandle_alive [of hs "CloseHandle j w"] by (cases "h = j") auto
qed simp

lemma win_good_member:
  "win_good w ms \<Longrightarrow> (pid, j) \<in> set ms \<Longrightarrow>
    0 < j \<and> j < wnNext w \<and> j \<in> set (wnOpen w) \<and> wnKillOnClose w j \<and> pid \<in> set (wnMembers w j)"
  by (auto simp: win_good_def win_ok_def)

lemma win_goodI:
  assumes "win_ok w" "distinct (map snd ms)"
    and "\<And>pid j. (pid, j) \<in> set ms \<Longrightarrow> 0 < j \<and> j \<in> set (wnOpen w) \<and> wnKillOnClose w j \<and> pid \<in> set (wnMembers w j)"
  shows "win_good w ms"
  using assms by (auto simp: win_good_def)

lemma spawn_win_good:
  assumes "win_good w ms" "spawn_post w pid early r w'"
  shows "case r of Inl _ \<Rightarrow> win_good w' ms | Inr j \<Rightarrow> win_good w' ((pid, j) # ms)"
proof -
  have ok: "win_ok w'" "win_frame w w'" "distinct (map snd ms)" using assms by (simp_all add: spawn_post_def win_good_def)
  have old: "wnKillOnClose w' j \<and> q \<in> set (wnMembers w' j)" if "(q, j) \<in> set ms" for q j
    using win_good_member [OF assms(1) that] ok(2) by (simp add: win_frame_def)
  show ?thesis
  proof (cases r)
    case (Inl e)
    then have "wnOpen w' = wnOpen w" using assms(2) by (simp add: spawn_post_def)
    with ok old win_good_member [OF assms(1)] show ?thesis by (simp add: Inl win_goodI)
  next
    case (Inr job)
    then have job: "in_job w pid job w'" using assms(2) by (simp add: spawn_post_def)
    then have "job \<notin> snd ` set ms" using win_good_member [OF assms(1)] by (force simp: in_job_def)
    with ok old job win_good_member [OF assms(1)] show ?thesis by (auto simp: Inr in_job_def intro!: win_goodI)
  qed
qed

lemma kill_win_effect:
  assumes "0 < j" "wnKillOnClose w j"
  shows "wp (kill_win pid j) (\<lambda>_ w'. wnOpen w' = removeAll j (wnOpen w) \<and> wnNext w' = wnNext w \<and> wnKillOnClose w' = wnKillOnClose w
    \<and> wnMembers w' = wnMembers w \<and> set (wnAlive w') = set (wnAlive w) - set (wnMembers w j)) w"
  using assms by (auto simp: kill_win_def killProc_win_def closeJob_win_def wp_simps win_defs)

lemma kill_win_good:
  assumes "win_good w ms" "(pid, j) \<in> set ms"
  shows "wp (kill_win pid j) (\<lambda>_ w'. win_good w' (remove1 (pid, j) ms) \<and> set (wnAlive w') \<subseteq> set (wnAlive w) - {pid}) w"
proof -
  note j = win_good_member [OF assms]
  obtain xs ys where ms: "ms = xs @ (pid, j) # ys" "(pid, j) \<notin> set xs" using split_list_first [OF assms(2)] by blast
  then have "remove1 (pid, j) ms = xs @ ys" by (simp add: remove1_append)
  with ms(1) assms(1) have rest: "distinct (map snd (remove1 (pid, j) ms))" "j \<notin> snd ` set (remove1 (pid, j) ms)"
    by (auto simp: win_good_def)
  have other: "(q, i) \<in> set ms \<and> i \<noteq> j" if "(q, i) \<in> set (remove1 (pid, j) ms)" for q i
    using rest(2) that by (force dest: notin_set_remove1)
  show ?thesis
  proof (rule wp_mono [OF kill_win_effect], goal_cases)
    case (3 r w')
    have "win_ok w'" using assms(1) 3 by (auto simp: win_good_def win_ok_def)
    moreover have "0 < i \<and> i \<in> set (wnOpen w') \<and> wnKillOnClose w' i \<and> q \<in> set (wnMembers w' i)"
      if "(q, i) \<in> set (remove1 (pid, j) ms)" for q i
      using other [OF that] win_good_member [OF assms(1), of q i] 3 by simp
    ultimately have "win_good w' (remove1 (pid, j) ms)" using rest(1) by (intro win_goodI)
    moreover have "set (wnAlive w') \<subseteq> set (wnAlive w) - {pid}" using 3 j by auto
    ultimately show ?case by simp
  qed (use j in simp_all)
qed

interpretation windows: containment spawn_contained kill_win core_dies "\<lambda>w. set (wnAlive w)" win_good
proof (unfold_locales, goal_cases)
  case (1 w ms pid early m)
  then have "win_ok w" by (simp add: win_good_def)
  from spawn_contained_balanced [OF this 1(2), of m early] show ?case
  proof (rule wp_mono, goal_cases)
    case (1 r w')
    from spawn_win_good [OF \<open>win_good w ms\<close> this] 1 show ?case by (cases r) (auto simp: spawn_post_def)
  qed
next
  case (2 w ms pid j)
  then show ?case by (rule kill_win_good)
next
  case (3 w ms)
  then show ?case
    using fold_CloseHandle_alive [of "wnOpen w" w] fold_CloseHandle_members [of w _ "wnOpen w"]
    by (fastforce simp: core_dies_def win_good_def)
qed

text \<open>
  The same for Windows: whatever calls fail, no module outlives core.
\<close>

theorem windows_no_orphans:
  assumes "win_ok w" "set (spawned ops) \<inter> set (wnAlive w) = {}" "distinct (spawned ops)"
    and "set (children ops) \<inter> set (spawned ops) = {}"
    and "run_state (spawn_session spawn_contained kill_win ops []) w = (ms, w')"
  shows "set (spawned ops) \<inter> set (wnAlive (core_dies w')) = {}"
  by (rule windows.session_ends_with_core [OF _ assms(4,3,2,5)]) (simp add: win_good_def assms(1))

theorem windows_no_orphans_witness:
  "{100, 101, 102} \<inter> set (wnAlive (core_dies (snd (run_state (spawn_session spawn_contained kill_win ex_spawn_ops []) ex_win)))) = {}"
proof -
  have "win_ok ex_win" "set (spawned ex_spawn_ops) \<inter> set (wnAlive ex_win) = {}" "distinct (spawned ex_spawn_ops)"
    "set (children ex_spawn_ops) \<inter> set (spawned ex_spawn_ops) = {}"
    by (auto simp: win_ok_def ex_win_def ex_spawn_ops_def)
  from windows_no_orphans [OF this prod.collapse [symmetric]] show ?thesis by (simp add: ex_spawn_ops_def)
qed

end
