(* ===== verification/Client_Streams.thy ===== *)
theory Client_Streams
  imports Hostclient Identity Launch
begin

text \<open>
  The streams a module reads (\<open>Receive\<close>, \<open>Watch\<close> and \<open>Subscribe\<close> of
  \<open>src/sdk/modulesdk/hostclient.go\<close>) over the goroutine they share, and the stand-ins of core for
  identity and transport (\<open>src/internal/hostserv/memory.go\<close>).
\<close>

section \<open>Streams\<close>

record sdk_message =
  smPeer :: int
  smKind :: string
  smData :: bytes

record wire_message =
  wmPeer :: int
  wmKind :: string
  wmData :: bytes

record wire_event =
  weTopic :: string
  weData :: bytes
  wePublishedAtMs :: int
  weSequence :: uint64

text \<open>The event on the wire carries milliseconds; times are in nanoseconds.\<close>

definition event_to_wire :: "event \<Rightarrow> wire_event" where
  "event_to_wire ev = \<lparr>weTopic = evTopic ev, weData = evData ev, wePublishedAtMs = evPublishedAt ev div 10 ^ 6, weSequence = evSequence ev\<rparr>"

definition event_from_wire :: "wire_event \<Rightarrow> event" where
  "event_from_wire w = \<lparr>evTopic = weTopic w, evData = weData w, evPublishedAt = wePublishedAtMs w * 10 ^ 6, evSequence = weSequence w\<rparr>"

definition message_of :: "wire_message \<Rightarrow> sdk_message" where
  "message_of m = \<lparr>smPeer = wmPeer m, smKind = wmKind m, smData = wmData m\<rparr>"

text \<open>Each opens its stream, and then the goroutine pumps it into the channel.\<close>

definition transportClient_Receive ::
    "(client_error, unit) result \<Rightarrow> (wire_message \<times> bool) option list \<Rightarrow> (client_error, sdk_message list \<times> bool) result" where
  "transportClient_Receive opened evs = bind_result opened (\<lambda>_. Inr (pump message_of evs))"

definition policyClient_Watch ::
    "(client_error, unit) result \<Rightarrow> (response \<times> bool) option list \<Rightarrow> (client_error, policy_document list \<times> bool) result" where
  "policyClient_Watch opened evs = bind_result opened (\<lambda>_. Inr (pump policyDoc evs))"

definition eventsClient_Subscribe ::
    "(client_error, unit) result \<Rightarrow> (wire_event \<times> bool) option list \<Rightarrow> (client_error, event list \<times> bool) result" where
  "eventsClient_Subscribe opened evs = bind_result opened (\<lambda>_. Inr (pump event_from_wire evs))"


section \<open>Stand-ins of core\<close>

text \<open>The random parts are arguments, and so is the clock (in seconds).\<close>

definition NewStubIdentity :: "bytes \<Rightarrow> string" where
  "NewStubIdentity draw = ''ephemeral-'' @ hex_encode draw"

definition stub_WhoAmI :: "string \<Rightarrow> string \<times> bool \<times> string" where
  "stub_WhoAmI dev = (dev, True, [])"

definition stub_Credential :: "bytes \<Rightarrow> int \<Rightarrow> string \<Rightarrow> string list \<Rightarrow> string \<times> int \<times> string list" where
  "stub_Credential draw now m scopes = (''stub-'' @ m @ ''-'' @ hex_encode draw, now + 3600, scopes)"

definition LogTransport_Send :: "queued_message \<Rightarrow> bool \<Rightarrow> (send_error, bool) result" where
  "LogTransport_Send msg queueOffline = Inr False"

definition LogTransport_Receive :: "string \<Rightarrow> wire_message list" where
  "LogTransport_Receive m = []"


section \<open>Properties\<close>

text \<open>What arrived on a stream before it ended.\<close>

definition arrived :: "('a \<times> bool) option list \<Rightarrow> 'a list" where
  "arrived evs = map (fst \<circ> the) (takeWhile (\<lambda>ev. ev \<noteq> None) evs)"

lemma arrived_simps [simp]:
  "arrived [] = []" "arrived (None # evs) = []" "arrived (Some (x, taken) # evs) = x # arrived evs"
  by (simp_all add: arrived_def)

lemma pump_prefix: "prefix (fst (pump conv evs)) (map conv (arrived evs))"
  by (induction conv evs rule: pump.induct) (auto split: prod.splits)

lemma pump_all:
  "list_all (\<lambda>ev. ev = None \<or> snd (the ev)) evs \<Longrightarrow>
     pump conv evs = (map conv (arrived evs), None \<in> set evs)"
  by (induction conv evs rule: pump.induct) auto

text \<open>
  A stream is a faithful copy: the module gets what core sent, in order and without gaps, up to the point where
  it stops reading; a module that keeps reading gets all of it, and its channel is closed exactly when the stream
  has failed. The time of an event is the one of the bus up to a millisecond, its topic, data and sequence are
  exact.
\<close>

theorem subscription_copies_bus:
  assumes "eventsClient_Subscribe (Inr ()) evs = Inr (recvd, ended)" "arrived evs = map event_to_wire sent"
  shows "\<exists>n. length recvd = n \<and> n \<le> length sent
    \<and> (\<forall>i < n. evTopic (recvd ! i) = evTopic (sent ! i) \<and> evData (recvd ! i) = evData (sent ! i)
         \<and> evSequence (recvd ! i) = evSequence (sent ! i)
         \<and> evPublishedAt (recvd ! i) \<le> evPublishedAt (sent ! i) \<and> evPublishedAt (sent ! i) < evPublishedAt (recvd ! i) + 10 ^ 6)
    \<and> (list_all (\<lambda>ev. ev = None \<or> snd (the ev)) evs \<longrightarrow> n = length sent \<and> ended = (None \<in> set evs))"
proof -
  have pump: "pump event_from_wire evs = (recvd, ended)" using assms(1) by (simp add: eventsClient_Subscribe_def)
  have "prefix recvd (map (event_from_wire \<circ> event_to_wire) sent)"
    using pump_prefix [of event_from_wire evs] by (simp add: pump assms(2))
  then obtain rest where split: "map (event_from_wire \<circ> event_to_wire) sent = recvd @ rest" by (auto simp: prefix_def)
  from arg_cong [OF this, of length] have len: "length recvd \<le> length sent" by simp
  have nth: "recvd ! i = event_from_wire (event_to_wire (sent ! i))" if "i < length recvd" for i
    using arg_cong [OF split, of "\<lambda>xs. xs ! i"] that len by (simp add: nth_append)
  have time: "t div 10 ^ 6 * 10 ^ 6 \<le> t" "t < t div 10 ^ 6 * 10 ^ 6 + (10 :: int) ^ 6" for t :: int
    by simp_all
  show ?thesis
    using len nth time pump_all [of evs event_from_wire] pump assms(2)
    by (auto simp: event_from_wire_def event_to_wire_def)
qed

text \<open>The stand-in identity is the one of a device that is not enrolled.\<close>

lemma stub_identity_unenrolled:
  assumes "Init e (hex_encode draw) newKey p0 = (Inr (), p)" "ipDeviceID p = []"
  shows "WhoAmI p = stub_WhoAmI (NewStubIdentity draw)"
proof -
  have save: "ipEphemeral p' = ipEphemeral q'" if "saveLocked e q' = (r', p')" for q' r' p'
    by (subst saveLocked_fields [OF that]) simp
  have "ipEphemeral p = ''ephemeral-'' @ hex_encode draw"
    using assms(1)
    by (auto simp: Init_def Let_def create_identity_def dest!: save split: sum.splits option.splits prod.splits)
  with assms(2) show ?thesis by (simp add: WhoAmI_def stub_WhoAmI_def NewStubIdentity_def)
qed

end
