(* ===== verification/Guest_Modules.thy ===== *)
theory Guest_Modules
  imports Sysinfo
begin

text \<open>
  Modules as the SDK runs them (\<open>src/sdk/modulesdk/module.go\<close>): the interface \<open>Module\<close> as a record of its
  methods, the calls of core on a module whose code is one of the modules of the repository, and the interface
  as a locale, \<open>guest\<close>: a module reaches core only through its host. The instances are the module
  \<open>sysinfo\<close> and the three modules the tests run: \<open>src/sdk/modulesdk/testkit/testdata/toymodule\<close>,
  \<open>src/internal/supervise/testdata/testmodule\<close> and \<open>src/test/protocompat/v1\<close>.
\<close>

section \<open>The interface Module\<close>

text \<open>
  The methods over the state of the module and of its host; an error is its text. \<open>Init\<close> gets the client of
  the host and gives the surfaces it has declared beside its error.
\<close>

record ('m, 'h) module_impl =
  mpCode :: module_code
  mpSetConfig :: "bytes \<Rightarrow> 'm \<Rightarrow> string option \<times> 'm"
  mpInit :: "host_client \<Rightarrow> 'm \<Rightarrow> 'h \<Rightarrow> (string option \<times> surface list list) \<times> 'm \<times> 'h"
  mpStart :: "time \<Rightarrow> 'm \<Rightarrow> 'h \<Rightarrow> string option \<times> 'm \<times> 'h"
  mpStop :: "'m \<Rightarrow> 'h \<Rightarrow> string option \<times> 'm \<times> 'h"
  mpHealth :: "time \<Rightarrow> 'm \<Rightarrow> int \<times> string"

fun health_number :: "sdk_health \<Rightarrow> int" where
  "health_number HealthUnknown = 0"
| "health_number HealthHealthy = 1"
| "health_number HealthDegraded = 2"
| "health_number HealthUnhealthy = 3"

definition no_answers :: answers where
  "no_answers = \<lparr>anConfig = None, anConnect = None, anInit = None, anDeclares = [], anStart = None, anStop = None,
     anHealth = (health_number HealthUnknown, [])\<rparr>"

text \<open>The guards of the lifecycle server: does a call get to the code of the module?\<close>

definition reaches_module :: "module_code \<Rightarrow> rpc \<Rightarrow> module_server \<Rightarrow> bool" where
  "reaches_module md r s =
     (case r of
        RpcInit req \<Rightarrow> msState s = Created \<and> irModuleID req = mdID md \<and> irProtocol req = Protocol
      | RpcStart \<Rightarrow> msState s = Inited
      | RpcStop _ \<Rightarrow> msState s = Started
      | RpcHealth \<Rightarrow> True
      | RpcShutdown \<Rightarrow> msState s = Started)"

text \<open>\<open>Init\<close> of the module behind its configuration and the connection to core, which fails with \<open>conn\<close>.\<close>

definition live_Init ::
    "('m, 'h) module_impl \<Rightarrow> string option \<Rightarrow> init_request \<Rightarrow> 'm \<Rightarrow> 'h \<Rightarrow> answers \<times> 'm \<times> 'h" where
  "live_Init imp conn req m h =
     (case if mdConfigReceiver (mpCode imp) then mpSetConfig imp (irConfig req) m else (None, m) of
        (Some e, m1) \<Rightarrow> (no_answers\<lparr>anConfig := Some e\<rparr>, m1, h)
      | (None, m1) \<Rightarrow>
          (case conn of
             Some e \<Rightarrow> (no_answers\<lparr>anConnect := Some e\<rparr>, m1, h)
           | None \<Rightarrow>
               (case mpInit imp new_hostClient m1 h of ((e, ds), m2, h2) \<Rightarrow>
                  (no_answers\<lparr>anInit := e, anDeclares := ds\<rparr>, m2, h2))))"

definition live_Stop :: "('m, 'h) module_impl \<Rightarrow> 'm \<Rightarrow> 'h \<Rightarrow> answers \<times> 'm \<times> 'h" where
  "live_Stop imp m h = (case mpStop imp m h of (e, m', h') \<Rightarrow> (no_answers\<lparr>anStop := e\<rparr>, m', h'))"

definition live_answers ::
    "('m, 'h) module_impl \<Rightarrow> string option \<Rightarrow> time \<Rightarrow> rpc \<Rightarrow> 'm \<Rightarrow> 'h \<Rightarrow> answers \<times> 'm \<times> 'h" where
  "live_answers imp conn now r m h =
     (case r of
        RpcInit req \<Rightarrow> live_Init imp conn req m h
      | RpcStart \<Rightarrow> (case mpStart imp now m h of (e, m', h') \<Rightarrow> (no_answers\<lparr>anStart := e\<rparr>, m', h'))
      | RpcStop _ \<Rightarrow> live_Stop imp m h
      | RpcHealth \<Rightarrow> (no_answers\<lparr>anHealth := mpHealth imp now m\<rparr>, m, h)
      | RpcShutdown \<Rightarrow> live_Stop imp m h)"

text \<open>One call of core, and a sequence of calls with the time and the state of the connection at each.\<close>

definition live_call ::
    "('m, 'h) module_impl \<Rightarrow> string option \<times> time \<times> rpc \<Rightarrow> module_server \<times> 'm \<times> 'h
      \<Rightarrow> (status, reply) result \<times> module_server \<times> 'm \<times> 'h" where
  "live_call imp c w =
     (case c of (conn, now, r) \<Rightarrow> case w of (s, m, h) \<Rightarrow>
        case if reaches_module (mpCode imp) r s then live_answers imp conn now r m h else (no_answers, m, h) of
          (an, m', h') \<Rightarrow> case server_call (mpCode imp) (r, an) s of (res, s') \<Rightarrow> (res, s', m', h'))"

fun live_calls ::
    "('m, 'h) module_impl \<Rightarrow> (string option \<times> time \<times> rpc) list \<Rightarrow> module_server \<times> 'm \<times> 'h
      \<Rightarrow> (status, reply) result list \<times> module_server \<times> 'm \<times> 'h" where
  "live_calls imp [] w = ([], w)"
| "live_calls imp (c # cs) w =
     (case live_call imp c w of (r, w') \<Rightarrow> case live_calls imp cs w' of (rs, w'') \<Rightarrow> (r # rs, w''))"

text \<open>
  The calls on a live module are calls of the lifecycle server with some answers, so what holds of the server
  for all answers holds of every module.
\<close>

lemma live_refines:
  "live_calls imp cs (s, m, h) = (rs, s', m', h') \<Longrightarrow>
    \<exists>ans. length ans = length cs \<and> server_calls (mpCode imp) (zip (map (snd \<circ> snd) cs) ans) s = (rs, s')"
proof (induction cs arbitrary: s m h rs)
  case (Cons c cs)
  obtain conn now r where c: "c = (conn, now, r)" by (cases c) auto
  obtain an m1 h1 where an: "(if reaches_module (mpCode imp) r s then live_answers imp conn now r m h else (no_answers, m, h)) = (an, m1, h1)"
    by (cases "if reaches_module (mpCode imp) r s then live_answers imp conn now r m h else (no_answers, m, h)")
  obtain res s1 where call: "server_call (mpCode imp) (r, an) s = (res, s1)" by fastforce
  obtain rs1 where rest: "live_calls imp cs (s1, m1, h1) = (rs1, s', m', h')" "rs = res # rs1"
    using Cons.prems by (auto simp: c live_call_def an call split: prod.splits)
  from Cons.IH [OF rest(1)] obtain ans where "length ans = length cs"
    "server_calls (mpCode imp) (zip (map (snd \<circ> snd) cs) ans) s1 = (rs1, s')" by blast
  then show ?case by (intro exI [of _ "an # ans"]) (simp add: c call rest(2) comp_def)
qed simp

text \<open>
  A guest: its methods change the host only in the way of the relation \<open>reach\<close>.
\<close>

locale guest =
  fixes imp :: "('m, 'h) module_impl" and reach :: "'h \<Rightarrow> 'h \<Rightarrow> bool"
  assumes reach_refl: "reach h h"
    and reach_trans: "reach h h' \<Longrightarrow> reach h' h'' \<Longrightarrow> reach h h''"
    and init_reach: "mpInit imp hc m h = (x, m', h') \<Longrightarrow> reach h h'"
    and start_reach: "mpStart imp now m h = (e, m', h') \<Longrightarrow> reach h h'"
    and stop_reach: "mpStop imp m h = (e, m', h') \<Longrightarrow> reach h h'"
begin

lemma answers_reach: "live_answers imp conn now r m h = (an, m', h') \<Longrightarrow> reach h h'"
  using init_reach start_reach stop_reach reach_refl
  by (cases r) (auto simp: live_answers_def live_Init_def live_Stop_def split: prod.splits option.splits if_splits)

lemma calls_reach: "live_calls imp cs (s, m, h) = (rs, s', m', h') \<Longrightarrow> reach h h'"
proof (induction cs arbitrary: s m h rs)
  case (Cons c cs)
  obtain r s1 m1 h1 where c: "live_call imp c (s, m, h) = (r, s1, m1, h1)" by (metis prod_cases3)
  then have "reach h h1"
    using answers_reach reach_refl by (auto simp: live_call_def split: prod.splits if_splits)
  with c Cons show ?case by (auto split: prod.splits intro: reach_trans)
qed (simp add: reach_refl)

text \<open>Whatever core calls: the reach of the guest is kept, and the contract of a module.\<close>

lemma guest_contract:
  assumes "live_calls imp cs (new_server, m, h) = (rs, s', m', h')"
  shows "reach h h' \<and> (\<exists>ph. contract_run Fresh (msTrace s') = Some ph)"
proof -
  obtain ans where "server_calls (mpCode imp) (zip (map (snd \<circ> snd) cs) ans) new_server = (rs, s')"
    using live_refines [OF assms] by blast
  with server_calls_ok [OF new_server_ok, of "mpCode imp" "zip (map (snd \<circ> snd) cs) ans"] have "server_ok s'" by simp
  with calls_reach [OF assms] show ?thesis by (auto simp: server_ok_def)
qed

end

text \<open>
  The reach of the module \<open>m\<close>: with a store that is in order it stays in order, and every namespace but its own and
  the one of the transport queue is as it was.
\<close>

definition own_reach ::
    "('st \<Rightarrow> bool) \<Rightarrow> ('st \<Rightarrow> string \<Rightarrow> string \<Rightarrow> bytes option) \<Rightarrow> string \<Rightarrow> 'st host \<Rightarrow> 'st host \<Rightarrow> bool" where
  "own_reach ok view m h h' =
     (ok (hsStore h) \<longrightarrow> ok (hsStore h') \<and> (\<forall>n. n \<notin> {m, queueNamespace} \<longrightarrow> view (hsStore h') n = view (hsStore h) n))"

lemma own_reach_refl: "own_reach ok view m h h"
  by (simp add: own_reach_def)

lemma own_reach_trans: "own_reach ok view m h h' \<Longrightarrow> own_reach ok view m h' h'' \<Longrightarrow> own_reach ok view m h h''"
  by (auto simp: own_reach_def)

text \<open>Every call through the client of the host stays in reach.\<close>

lemma invoke_reach:
  assumes "store_backend be ok view" "svStore svc = be" "mxBackend (svMux svc) = be" "invoke svc token allow m req h = (r, h')"
  shows "own_reach ok view m h h'"
proof -
  obtain r' where req: "handle_request svc m allow req h = (r', h')"
    using assms(4) by (auto simp: invoke_def serve_def token_ok_def split: prod.splits sum.splits)
  note frame = store_backend.handle_request_frame [OF assms(1-3) _ _ _ req]
  from frame [of "''x'' @ m @ queueNamespace"] frame show ?thesis by (simp add: own_reach_def)
qed

lemma client_reach:
  assumes "store_backend be ok view" "svStore svc = be" "mxBackend (svMux svc) = be"
  shows "storeClient_Put svc token allow ns m k v h = (r1, h') \<Longrightarrow> own_reach ok view m h h'"
    and "eventsClient_Publish svc token allow m topic data now h = (r2, h') \<Longrightarrow> own_reach ok view m h h'"
    and "transportClient_Send svc token allow m peer kind data q h = (r3, h') \<Longrightarrow> own_reach ok view m h h'"
    and "policyClient_Get svc token allow m h = (r4, h') \<Longrightarrow> own_reach ok view m h h'"
  using invoke_reach [OF assms]
  by (auto simp: storeClient_Put_def eventsClient_Publish_def transportClient_Send_def policyClient_Get_def
      split: prod.splits sum.splits)

section \<open>The module sysinfo\<close>

definition error_of :: "(string, unit) result \<Rightarrow> string option" where
  "error_of r = (case r of Inl e \<Rightarrow> Some e | Inr _ \<Rightarrow> None)"

definition sysinfo_module ::
    "(bytes \<Rightarrow> int \<Rightarrow> (string, int) result) \<Rightarrow> (time \<Rightarrow> string) \<Rightarrow> (nat \<Rightarrow> sysinfo) \<Rightarrow> 'st services \<Rightarrow> string \<Rightarrow> string list
      \<Rightarrow> (sysinfo, 'st host) module_impl" where
  "sysinfo_module unmarshal format ms svc token allow =
     \<lparr>mpCode = sysinfo_code ms,
      mpSetConfig = (\<lambda>doc m. case SetConfig unmarshal doc m of (r, m') \<Rightarrow> (error_of r, m')),
      mpInit = (\<lambda>hc m h. case sysinfo_Init unmarshal svc token allow m h hc of
         ((r, hc'), m', h') \<Rightarrow> ((error_of r, [[inventory_surface]]), m', h')),
      mpStart = (\<lambda>now m h. (None, m, h)),
      mpStop = (\<lambda>m h. (None, sysinfo_Stop m, h)),
      mpHealth = (\<lambda>now m. case sysinfo_Health format now m of (st, reason) \<Rightarrow> (health_number st, reason))\<rparr>"


section \<open>The modules of the tests\<close>

text \<open>\<open>toymodule\<close> uses each service once.\<close>

definition toy_card :: surface where
  "toy_card = \<lparr>sfID = ''toy-card'', sfTitle = ''Toy'', sfKind = ''card'', sfData = []\<rparr>"

definition toy_Init where
  "toy_Init svc token allow hc h =
     (case storeClient_Put svc token allow [] ''toy'' ''init-key'' ''init-value'' h of
        (Inl e, h') \<Rightarrow> ((Some e, []), h')
      | (Inr _, h') \<Rightarrow> ((error_of (fst (Declare [toy_card] hc)), [[toy_card]]), h'))"

definition toy_Start where
  "toy_Start svc token allow now h =
     (case eventsClient_Publish svc token allow ''toy'' ''started'' ''hello'' now h of
        (Inl e, h1) \<Rightarrow> (Some (error_text e), h1)
      | (Inr _, h1) \<Rightarrow>
          (case transportClient_Send svc token allow ''toy'' PEER_GATEWEAVE ''heartbeat'' ''beat'' False h1 of
             (Inl e, h2) \<Rightarrow> (Some (error_text e), h2)
           | (Inr _, h2) \<Rightarrow> (None, h2)))"

definition toy_module :: "'st services \<Rightarrow> string \<Rightarrow> string list \<Rightarrow> (unit, 'st host) module_impl" where
  "toy_module svc token allow =
     \<lparr>mpCode = \<lparr>mdID = ''toy'', mdRequires = [''test.cap''], mdConfigReceiver = False, mdScheduled = None\<rparr>,
      mpSetConfig = (\<lambda>doc m. (None, m)),
      mpInit = (\<lambda>hc m h. case toy_Init svc token allow hc h of (r, h') \<Rightarrow> (r, m, h')),
      mpStart = (\<lambda>now m h. case toy_Start svc token allow now h of (e, h') \<Rightarrow> (e, m, h')),
      mpStop = (\<lambda>m h. (None, m, h)),
      mpHealth = (\<lambda>now m. (health_number HealthHealthy, []))\<rparr>"

text \<open>
  \<open>testmodule\<close> exits with 1 some time after its start when it is told so by its configuration or by its
  environment, which wins. A sleep of a negative time ends at once.
\<close>

record testmod =
  tmCrashAfterMS :: int
  tmExitAfter :: "duration option"

definition testmod_SetConfig :: "(bytes \<Rightarrow> (string, int) result) \<Rightarrow> bytes \<Rightarrow> testmod \<Rightarrow> string option \<times> testmod" where
  "testmod_SetConfig unmarshal doc m =
     (case if doc \<noteq> [] then unmarshal doc else Inr 0 of
        Inl e \<Rightarrow> (Some e, m)
      | Inr n \<Rightarrow> (None, m\<lparr>tmCrashAfterMS := n\<rparr>))"

definition testmod_Start :: "string list \<Rightarrow> testmod \<Rightarrow> testmod" where
  "testmod_Start env m =
     (let crash = (case Atoi (Getenv env ''TESTMOD_EXIT_AFTER_MS'') of
        Some ms \<Rightarrow> if ms > 0 then ms else tmCrashAfterMS m | None \<Rightarrow> tmCrashAfterMS m)
      in if crash > 0 then m\<lparr>tmExitAfter := Some (max 0 (wrap64 (crash * 10 ^ 6)))\<rparr> else m)"

definition testmod_module :: "(bytes \<Rightarrow> (string, int) result) \<Rightarrow> string list \<Rightarrow> (testmod, 'h) module_impl" where
  "testmod_module unmarshal env =
     \<lparr>mpCode = \<lparr>mdID = ''testmod'', mdRequires = [''platform.osinfo''], mdConfigReceiver = True, mdScheduled = None\<rparr>,
      mpSetConfig = testmod_SetConfig unmarshal,
      mpInit = (\<lambda>hc m h. ((None, []), m, h)),
      mpStart = (\<lambda>now m h. (None, testmod_Start env m, h)),
      mpStop = (\<lambda>m h. (None, m, h)),
      mpHealth = (\<lambda>now m. (health_number HealthHealthy, []))\<rparr>"

text \<open>The frozen module of protocol 1.\<close>

definition compat_module :: "(unit, 'h) module_impl" where
  "compat_module =
     \<lparr>mpCode = \<lparr>mdID = ''compat'', mdRequires = [], mdConfigReceiver = False, mdScheduled = None\<rparr>,
      mpSetConfig = (\<lambda>doc m. (None, m)),
      mpInit = (\<lambda>hc m h. ((None, []), m, h)),
      mpStart = (\<lambda>now m h. (None, m, h)),
      mpStop = (\<lambda>m h. (None, m, h)),
      mpHealth = (\<lambda>now m. (health_number HealthHealthy, []))\<rparr>"


section \<open>All of them are guests\<close>

lemma sysinfo_guest:
  assumes "store_backend be ok view" "svStore svc = be" "mxBackend (svMux svc) = be"
  shows "guest (sysinfo_module unmarshal format ms svc token allow) (own_reach ok view sysinfo_ID)"
proof (unfold_locales, goal_cases)
  case (3 hc m h x m' h')
  then show ?case
    using client_reach(4) [OF assms, of token allow sysinfo_ID h]
    by (auto simp: sysinfo_module_def sysinfo_Init_def Let_def split: prod.splits)
qed (auto simp: own_reach_refl sysinfo_module_def intro: own_reach_trans)

lemma toy_guest:
  assumes "store_backend be ok view" "svStore svc = be" "mxBackend (svMux svc) = be"
  shows "guest (toy_module svc token allow) (own_reach ok view ''toy'')"
proof (unfold_locales, goal_cases)
  case (3 hc m h x m' h')
  then show ?case
    using client_reach(1) [OF assms, of token allow "[]" "''toy''" "''init-key''" "''init-value''" h]
    by (auto simp: toy_module_def toy_Init_def split: prod.splits sum.splits)
next
  case (4 now m h e m' h')
  obtain r h1 where pub: "eventsClient_Publish svc token allow ''toy'' ''started'' ''hello'' now h = (r, h1)" by fastforce
  obtain r2 h2 where sent: "transportClient_Send svc token allow ''toy'' PEER_GATEWEAVE ''heartbeat'' ''beat'' False h1 = (r2, h2)"
    by fastforce
  from 4 pub sent have "h' = h1 \<or> h' = h2" by (auto simp: toy_module_def toy_Start_def split: prod.splits sum.splits)
  with client_reach(2) [OF assms pub] client_reach(3) [OF assms sent] show ?case by (blast intro: own_reach_trans)
qed (auto simp: own_reach_refl toy_module_def intro: own_reach_trans)

text \<open>The modules that use no service change nothing of the host.\<close>

interpretation testmod: guest "testmod_module unmarshal env" "(=)" for unmarshal env
  by unfold_locales (auto simp: testmod_module_def)

interpretation compat: guest compat_module "(=)"
  by unfold_locales (auto simp: compat_module_def)

definition mem_services :: "mem_store services \<Rightarrow> mem_store services" where
  "mem_services svc = svc\<lparr>svStore := MemStore, svMux := (svMux svc)\<lparr>mxBackend := MemStore\<rparr>\<rparr>"

interpretation toy_on_mem: guest "toy_module (mem_services svc) token allow" "own_reach mem_inv mem_view ''toy''" for svc token allow
  by (rule toy_guest [OF mem.store_backend_axioms]) (simp_all add: mem_services_def)

interpretation sysinfo_on_mem: guest "sysinfo_module unmarshal format ms (mem_services svc) token allow" "own_reach mem_inv mem_view sysinfo_ID"
  for unmarshal format ms svc token allow
  by (rule sysinfo_guest [OF mem.store_backend_axioms]) (simp_all add: mem_services_def)

section \<open>Properties\<close>

text \<open>
  Whatever calls core makes on the module \<open>sysinfo\<close>, in whatever order, with whatever configuration, connection and
  policy, the module changes no namespace of the store but its own and the one of the queue, the store stays in order, and the code of the module has
  been called within its contract.
\<close>

theorem sysinfo_stays_inside:
  assumes "store_backend be ok view" "svStore svc = be" "mxBackend (svMux svc) = be" "ok (hsStore h)"
    and "live_calls (sysinfo_module unmarshal format ms svc token allow) cs (new_server, m, h) = (rs, s', m', h')"
  shows "ok (hsStore h') \<and> (\<forall>n. n \<notin> {sysinfo_ID, queueNamespace} \<longrightarrow> view (hsStore h') n = view (hsStore h) n)
    \<and> (\<exists>ph. contract_run Fresh (msTrace s') = Some ph)"
  using guest.guest_contract [OF sysinfo_guest [OF assms(1-3)] assms(5)] assms(4) by (simp add: own_reach_def)

definition ex_init :: "string \<Rightarrow> init_request" where
  "ex_init m = \<lparr>irProtocol = 1, irModuleID = m, irCapabilities = [], irConfig = ''60'', irPrivilege = LevelService, irWatchdogSeconds = 10\<rparr>"

definition ex_calls :: "string \<Rightarrow> (string option \<times> time \<times> rpc) list" where
  "ex_calls m = [(None, 1, RpcStart), (Some ''refused'', 2, RpcInit (ex_init m)), (None, 3, RpcInit (ex_init m)), (None, 4, RpcStart),
     (None, 5, RpcHealth), (None, 6, RpcStop 5), (None, 7, RpcShutdown)]"

abbreviation ex_sysinfo_module :: "(sysinfo, mem_store host) module_impl" where
  "ex_sysinfo_module \<equiv> sysinfo_module ex_unmarshal (\<lambda>_. []) (\<lambda>_. New_sysinfo) ex_services ''t'' []"

text \<open>Applied to a start that comes too early, an \<open>Init\<close> without a connection, and a life after that.\<close>

theorem sysinfo_stays_inside_witness:
  "mem_view (hsStore (snd (snd (snd (live_calls ex_sysinfo_module (ex_calls ''sysinfo'') (new_server, New_sysinfo, ex_host)))))) ''core''
    = mem_view (hsStore ex_host) ''core''
   \<and> map is_ok (fst (live_calls ex_sysinfo_module (ex_calls ''sysinfo'') (new_server, New_sysinfo, ex_host)))
    = [False, False, True, True, True, True, True]"
proof -
  let ?r = "live_calls ex_sysinfo_module (ex_calls ''sysinfo'') (new_server, New_sysinfo, ex_host)"
  have svc: "svStore ex_services = MemStore" "mxBackend (svMux ex_services) = MemStore" "mem_inv (hsStore ex_host)"
    by (simp_all add: ex_services_def ex_host_def mem_inv_def)
  have run: "?r = (fst ?r, fst (snd ?r), fst (snd (snd ?r)), snd (snd (snd ?r)))" by (simp only: prod.collapse)
  have "map is_ok (fst ?r) = [False, False, True, True, True, True, True]" by code_simp
  moreover have "''core'' \<notin> {sysinfo_ID, queueNamespace}" by (simp add: sysinfo_ID_def queueNamespace_def)
  ultimately show ?thesis using sysinfo_stays_inside [OF mem.store_backend_axioms svc run] by blast
qed

lemma server_Init_state:
  "server_Init md an req s = (Inr rep, s') \<Longrightarrow> msState s' = Inited \<and> msHost s' \<noteq> None"
  by (auto simp: server_Init_def init_connected_def Let_def split: if_splits option.splits)

lemma server_Start_result:
  assumes "msState s = Inited" "server_Start an s = (r, s')"
  shows "case anStart an of
      Some e \<Rightarrow> r = Inl (Internal, ''module start: '' @ e) \<and> msState s' = Inited
    | None \<Rightarrow> r = Inr StartReply \<and> msState s' = Started"
  using assms by (auto simp: server_Start_def add_trace_def split: option.splits prod.splits)

text \<open>
  The full loop of the integration test, on any store and whether or not the peer is there: \<open>Init\<close> of \<open>toymodule\<close> replies with its requirement
  and its card, its value is in its namespace, its event is on the bus under its topic; \<open>Start\<close> succeeds
  exactly when the heartbeat is delivered, and else core gets the error and the module stays where it can be started again.
\<close>

theorem toy_loop:
  assumes "store_backend be ok view" "svStore svc = be" "mxBackend (svMux svc) = be" "ok (hsStore h)"
    and "irModuleID req = ''toy''" "irProtocol req = Protocol"
    and put: "bePut be ''toy'' ''init-key'' ''init-value'' (hsStore h) = (Inr u, st)"
    and run: "live_calls (toy_module svc token allow) [(None, t, RpcInit req), (None, now, RpcStart)] (new_server, (), h) = ([r1, r2], s', m', h')"
  shows "r1 = Inr (InitReply [''test.cap''] [toy_card] 0) \<and> view (hsStore h') ''toy'' ''init-key'' = Some ''init-value''
    \<and> hsBus h' = Publish ''toy'' ''started'' ''hello'' now (hsBus h)
    \<and> (case transportServer_Send svc ''toy'' PEER_GATEWEAVE ''heartbeat'' ''beat'' False
             (eventsServer_Publish ''toy'' ''started'' ''hello'' now (h\<lparr>hsStore := st\<rparr>)) of
         (Inr _, _) \<Rightarrow> r2 = Inr StartReply \<and> msState s' = Started
       | (Inl _, _) \<Rightarrow> (\<exists>e. r2 = Inl (Internal, ''module start: '' @ e)) \<and> msState s' = Inited)"
proof -
  let ?h1 = "h\<lparr>hsStore := st\<rparr>" and ?code = "mpCode (toy_module svc token allow)"
  let ?h2 = "eventsServer_Publish ''toy'' ''started'' ''hello'' now ?h1"
  have put': "storeClient_Put svc token allow [] ''toy'' ''init-key'' ''init-value'' h = (Inr (), ?h1)"
    by (rule put_call) (use assms(2) put in simp)
  obtain r h3 where send: "transportServer_Send svc ''toy'' PEER_GATEWEAVE ''heartbeat'' ''beat'' False ?h2 = (r, h3)" by fastforce
  have init: "live_answers (toy_module svc token allow) None t (RpcInit req) () h = (no_answers\<lparr>anDeclares := [[toy_card]]\<rparr>, (), ?h1)"
    by (simp add: live_answers_def live_Init_def toy_module_def toy_Init_def put' error_of_def Declare_def new_hostClient_def no_answers_def)
  have "fst (server_Init ?code (no_answers\<lparr>anDeclares := [[toy_card]]\<rparr>) req new_server) = Inr (InitReply [''test.cap''] [toy_card] 0)"
    using assms(5,6) by (subst Init_accepts) (simp add: toy_module_def no_answers_def)
  then obtain s1 where s1: "server_Init ?code (no_answers\<lparr>anDeclares := [[toy_card]]\<rparr>) req new_server
      = (Inr (InitReply [''test.cap''] [toy_card] 0), s1)"
    by (metis prod.collapse)
  have s1_state: "msState s1 = Inited" using server_Init_state [OF s1] by simp
  have reach: "reaches_module ?code (RpcInit req) new_server"
    using assms(5,6) by (simp add: reaches_module_def toy_module_def new_server_def)
  have first: "live_call (toy_module svc token allow) (None, t, RpcInit req) (new_server, (), h)
      = (Inr (InitReply [''test.cap''] [toy_card] 0), s1, (), ?h1)"
    by (simp add: live_call_def reach init server_call_def s1)
  define e where "e = (case r of Inl st \<Rightarrow> Some (error_text (the (sentinelErr (Some (StatusError st))))) | Inr _ \<Rightarrow> None)"
  have "live_answers (toy_module svc token allow) None now RpcStart () ?h1 = (no_answers\<lparr>anStart := e\<rparr>, (), h3)"
    by (simp add: live_answers_def toy_module_def toy_Start_def publish_call send_call send e_def split: sum.splits)
  with run first s1_state have second: "server_Start (no_answers\<lparr>anStart := e\<rparr>) s1 = (r2, s')" "h' = h3"
    "r1 = Inr (InitReply [''test.cap''] [toy_card] 0)"
    by (auto simp: live_call_def reaches_module_def server_call_def split: prod.splits)
  have stored: "ok st" "view st ''toy'' ''init-key'' = Some ''init-value''"
    using store_backend.put_ok [OF assms(1,4) put] by auto
  have "view (hsStore h3) ''toy'' = view st ''toy''" "hsBus h3 = Publish ''toy'' ''started'' ''hello'' now (hsBus h)"
    using transport_frame [OF assms(1,3) _ send] stored(1) by (simp_all add: eventsServer_Publish_def queueNamespace_def)
  with stored(2) second server_Start_result [OF s1_state second(1)] show ?thesis
    by (auto simp: send e_def split: sum.splits)
qed

text \<open>Applied to a host without a peer: the event is out, and the start fails.\<close>

definition ex_toy_run where
  "ex_toy_run = live_calls (toy_module ex_services ''t'' []) [(None, 1, RpcInit (ex_init ''toy'')), (None, 2, RpcStart)] (new_server, (), ex_host)"

theorem toy_loop_witness:
  "mem_view (hsStore (snd (snd (snd ex_toy_run)))) ''toy'' ''init-key'' = Some ''init-value''
   \<and> fst ex_toy_run ! 0 = Inr (InitReply [''test.cap''] [toy_card] 0) \<and> msState (fst (snd ex_toy_run)) = Inited"
proof -
  let ?r = ex_toy_run
  have svc: "svStore ex_services = MemStore" "mxBackend (svMux ex_services) = MemStore" "mem_inv (hsStore ex_host)"
    by (simp_all add: ex_services_def ex_host_def mem_inv_def)
  have "length (fst ?r) = 2" by code_simp
  then have two: "fst ?r = [fst ?r ! 0, fst ?r ! 1]"
    by (intro nth_equalityI) (auto simp: less_Suc_eq eval_nat_numeral)
  have run: "live_calls (toy_module ex_services ''t'' []) [(None, 1, RpcInit (ex_init ''toy'')), (None, 2, RpcStart)] (new_server, (), ex_host)
      = ([fst ?r ! 0, fst ?r ! 1], fst (snd ?r), fst (snd (snd ?r)), snd (snd (snd ?r)))"
    unfolding two [symmetric] prod.collapse by (rule ex_toy_run_def [symmetric])
  have put: "bePut MemStore ''toy'' ''init-key'' ''init-value'' (hsStore ex_host)
      = (Inr (), snd (bePut MemStore ''toy'' ''init-key'' ''init-value'' (hsStore ex_host)))"
    by (simp add: MemStore_def mem_Put_def)
  have "irModuleID (ex_init ''toy'') = ''toy''" "irProtocol (ex_init ''toy'') = Protocol" by (simp_all add: ex_init_def Protocol_def)
  note toy_loop [OF mem.store_backend_axioms svc this put run]
  moreover have "msState (fst (snd ex_toy_run)) = Inited" by code_simp
  ultimately show ?thesis by blast
qed

text \<open>
  \<open>testmodule\<close> is a module that crashes exactly when it is told to: after its start an exit is pending iff the
  environment or, when that has no positive number, the configuration gives one, and then after as many milliseconds, for all numbers
  that a duration can hold.
\<close>

theorem testmod_crashes_when_told:
  assumes "unmarshal doc = Inr n" "doc \<noteq> []" "n * 10 ^ 6 < 2 ^ 63"
    and "\<And>ms. Atoi (Getenv env ''TESTMOD_EXIT_AFTER_MS'') = Some ms \<Longrightarrow> ms * 10 ^ 6 < 2 ^ 63"
  shows "tmExitAfter (testmod_Start env (snd (testmod_SetConfig unmarshal doc \<lparr>tmCrashAfterMS = 0, tmExitAfter = None\<rparr>))) =
    (case Atoi (Getenv env ''TESTMOD_EXIT_AFTER_MS'') of
       Some ms \<Rightarrow> if ms > 0 then Some (ms * 10 ^ 6) else if n > 0 then Some (n * 10 ^ 6) else None
     | None \<Rightarrow> if n > 0 then Some (n * 10 ^ 6) else None)"
proof -
  have ns: "wrap64 (k * 10 ^ 6) = k * 10 ^ 6" if "0 < k" "k * 10 ^ 6 < 2 ^ 63" for k
    by (rule wrap64_id) (use that in simp_all)
  show ?thesis
    using assms ns [of n] ns by (cases "Atoi (Getenv env ''TESTMOD_EXIT_AFTER_MS'')") (auto simp: testmod_SetConfig_def testmod_Start_def Let_def)
qed

text \<open>Applied to a configuration of half a second.\<close>

theorem testmod_crashes_when_told_witness:
  "tmExitAfter (testmod_Start [''HOME=/''] (snd (testmod_SetConfig (\<lambda>_. Inr 500) ''{}'' \<lparr>tmCrashAfterMS = 0, tmExitAfter = None\<rparr>))) = Some 500000000"
proof -
  have "Atoi (Getenv [''HOME=/''] ''TESTMOD_EXIT_AFTER_MS'') = None" by code_simp
  with testmod_crashes_when_told [of "\<lambda>_. Inr 500" "''{}''" 500 "[''HOME=/'']"] show ?thesis by simp
qed

end
