(* ===== verification/Watchdog.thy ===== *)
theory Watchdog
  imports Module_Server Supervise
begin

text \<open>
  The push watchdog from end to end: the cadence core asks for in \<open>Init\<close> (\<open>src/internal/supervise/launch.go\<close>), the ping loop of the
  SDK (\<open>src/sdk/modulesdk/hostclient.go\<close>, \<open>launchWatchdogLocked\<close>), and the deadline of the monitor (\<open>src/internal/supervise/supervisor.go\<close>).
  The theorems show that the two ends agree on the cadence, that a module whose pings come in time is left alone, with the losses and
  the delays that two intervals leave room for, and that a module that stops pinging is ended within three intervals.
\<close>

section \<open>The cadence\<close>

text \<open>The field of the request that \<open>launch\<close> sends: whole seconds of the interval.\<close>

definition watchdog_seconds :: "duration \<Rightarrow> uint32" where
  "watchdog_seconds interval = of_int (interval div second)"

text \<open>What the module runs after it: the cadence of its ping loop, if it has one.\<close>

definition ping_cadence :: "module_code \<Rightarrow> init_request \<Rightarrow> duration option" where
  "ping_cadence md req = snd (fst (startJobs (after_init md req new_hostClient)))"

lemma ping_cadence_seconds:
  "ping_cadence md req = (if irWatchdogSeconds req > 0 then Some (int (unat (irWatchdogSeconds req)) * second) else None)"
  by (auto simp: ping_cadence_def startJobs_def after_init_def Let_def setWatchdogInterval_def addJobs_def new_hostClient_def second_def
      word_less_def split: option.splits)

lemma unat_watchdog_seconds:
  assumes "0 \<le> interval" "interval < 2 ^ 32 * second"
  shows "int (unat (watchdog_seconds interval)) = interval div second"
proof -
  have "interval div second < 2 ^ 32" using assms by (simp add: second_def div_less_iff_less_mult)
  with assms show ?thesis
    by (simp add: watchdog_seconds_def uint_word_of_int second_def pos_imp_zdiv_nonneg_iff)
qed

text \<open>
  Both ends agree when the interval is at least a second: the module pings at the interval cut to whole seconds, so never slower than core expects. Below a
  second it is not told to ping at all.
\<close>

theorem cadence_agreement:
  assumes "0 \<le> interval" "interval < 2 ^ 32 * second" "irWatchdogSeconds req = watchdog_seconds interval"
  shows "case ping_cadence md req of
      Some c \<Rightarrow> second \<le> c \<and> c \<le> interval \<and> interval < c + second
    | None \<Rightarrow> interval < second"
proof -
  note sec = unat_watchdog_seconds [OF assms(1,2)]
  have "irWatchdogSeconds req > 0 \<longleftrightarrow> interval div second > 0"
    using sec by (simp add: assms(3) word_less_def)
  moreover have "interval div second > 0 \<longleftrightarrow> second \<le> interval" by (auto simp: second_def pos_imp_zdiv_pos_iff)
  moreover have "interval div second * second \<le> interval" "interval < interval div second * second + second"
    by (simp_all add: second_def)
  ultimately show ?thesis
    using sec by (auto simp: ping_cadence_seconds assms(3) second_def)
qed

text \<open>Applied to the ten seconds of core.\<close>

definition ex_ping_request :: init_request where
  "ex_ping_request = \<lparr>irProtocol = 1, irModuleID = ''sysinfo'', irCapabilities = [], irConfig = [], irPrivilege = LevelService,
     irWatchdogSeconds = watchdog_seconds (10 * second)\<rparr>"

theorem cadence_agreement_witness:
  "case ping_cadence ex_sdk_module ex_ping_request of
     Some c \<Rightarrow> second \<le> c \<and> c \<le> 10 * second \<and> 10 * second < c + second | None \<Rightarrow> 10 * second < second"
  by (rule cadence_agreement) (simp_all add: ex_ping_request_def second_def)


section \<open>The deadline\<close>

definition is_wd_tick :: "mon_event \<Rightarrow> bool" where
  "is_wd_tick ev = (case ev of WatchdogTick _ \<Rightarrow> True | _ \<Rightarrow> False)"

text \<open>The time of the last ping after some events, where \<open>t\<close> is the one before.\<close>

fun last_ping :: "time \<Rightarrow> mon_event list \<Rightarrow> time" where
  "last_ping t [] = t"
| "last_ping t (Ping now # evs) = last_ping now evs"
| "last_ping t (_ # evs) = last_ping t evs"

text \<open>
  The watchdog does nothing as long as at each of its ticks the last ping is not older than two intervals: the
  monitor ends as it would without these ticks.
\<close>

lemma monitor_ignores_ticks:
  assumes "\<And>pre now post. evs = pre @ WatchdogTick now # post \<Longrightarrow> now - last_ping (rnKeepalive r) pre \<le> 2 * watchdogInterval ss"
  shows "monitor_loop ss strikes evs r = monitor_loop ss strikes (filter (\<lambda>ev. \<not> is_wd_tick ev) evs) r"
  using assms
proof (induction ss strikes evs r rule: monitor_loop.induct)
  case (4 ss strikes resp evs r)
  obtain restart strikes' r' where p: "pollHealth ss resp strikes r = (restart, strikes', r')" by (metis prod_cases3)
  have keep: "rnKeepalive r' = rnKeepalive r" using p by (auto simp: pollHealth_def Let_def split: option.splits)
  have "now - last_ping (rnKeepalive r') pre \<le> 2 * watchdogInterval ss" if "evs = pre @ WatchdogTick now # post" for pre now post
    using 4(2) [of "HealthTick resp # pre" now post] that keep by simp
  with 4(1) [OF p [symmetric] refl] show ?case by (simp add: is_wd_tick_def p)
next
  case (5 ss strikes now evs r)
  have "now' - last_ping (rnKeepalive r) pre \<le> 2 * watchdogInterval ss" if "evs = pre @ WatchdogTick now' # post" for pre now' post
    using 5(2) [of "WatchdogTick now # pre" now' post] that by simp
  moreover have "now - rnKeepalive r \<le> 2 * watchdogInterval ss" using 5(2) [of "[]" now evs] by simp
  ultimately show ?case using 5(1) by (simp add: is_wd_tick_def)
next
  case (6 ss strikes now evs r)
  have "now' - last_ping now pre \<le> 2 * watchdogInterval ss" if "evs = pre @ WatchdogTick now' # post" for pre now' post
    using 6(2) [of "Ping now # pre" now' post] that by simp
  with 6(1) show ?case by (simp add: is_wd_tick_def)
qed (simp_all add: is_wd_tick_def)


section \<open>The ping loop\<close>

text \<open>The whole loop: its ticks until the jobs are cancelled, where the stream is closed and nothing more is sent.\<close>

datatype ping_event = PingTick "bool \<times> bool" | PingsCancelled

fun ping_loop :: "ping_event list \<Rightarrow> watchdog \<Rightarrow> watchdog \<times> bool" where
  "ping_loop [] w = (w, False)"
| "ping_loop (PingsCancelled # evs) w = (w\<lparr>wdStream := False\<rparr>, True)"
| "ping_loop (PingTick a # evs) w = ping_loop evs (watchdog_tick a w)"

lemma ping_loop_ticks: "ping_loop (map PingTick as @ evs) w = ping_loop evs (fold watchdog_tick as w)"
  by (induction as arbitrary: w) simp_all

text \<open>Which ticks of the loop get a ping through.\<close>

fun deliveries :: "(bool \<times> bool) list \<Rightarrow> watchdog \<Rightarrow> bool list" where
  "deliveries [] w = []"
| "deliveries (a # as) w = ((wdStream w \<or> fst a) \<and> snd a) # deliveries as (watchdog_tick a w)"

text \<open>The number of pings sent is the number of ticks that got through.\<close>

lemma deliveries_sent: "length (wdSent (fold watchdog_tick as w)) = length (wdSent w) + length (filter id (deliveries as w))"
  by (induction as arbitrary: w) (auto simp: watchdog_tick_def Let_def split: prod.splits)

lemma cancelled_loop_sent:
  "length (wdSent (fst (ping_loop (map PingTick as @ PingsCancelled # evs) new_watchdog))) = length (filter id (deliveries as new_watchdog))"
  using deliveries_sent [of as new_watchdog] by (simp add: ping_loop_ticks new_watchdog_def)

text \<open>
  When core stamps the pings of a loop that started at \<open>s0\<close>: tick \<open>k\<close> is due at \<open>s0 + (k + 1) c\<close> by the ticker, and
  its ping reaches core some delay after that, for the scheduling of the loop, the stream and the server.
\<close>

definition ping_arrivals :: "time \<Rightarrow> duration \<Rightarrow> (nat \<Rightarrow> duration) \<Rightarrow> bool list \<Rightarrow> time list" where
  "ping_arrivals s0 c delay del = map (\<lambda>k. s0 + int (Suc k) * c + delay k) (filter (\<lambda>k. del ! k) [0..<length del])"

lemma set_ping_arrivals:
  "t \<in> set (ping_arrivals s0 c delay del) \<longleftrightarrow> (\<exists>k < length del. del ! k \<and> t = s0 + int (Suc k) * c + delay k)"
  by (auto simp: ping_arrivals_def)

text \<open>At most \<open>n\<close> ticks in a row are lost.\<close>

definition lost_at_most :: "nat \<Rightarrow> bool list \<Rightarrow> bool" where
  "lost_at_most n del = (\<forall>k. k + n < length del \<longrightarrow> (\<exists>j \<le> n. del ! (k + j)))"

text \<open>A ping has arrived in the last \<open>n + 1\<close> periods and the delay, once the loop runs that long.\<close>

lemma ping_arrived:
  assumes c: "0 < c" and lost: "lost_at_most n del" and delay: "\<And>k. 0 \<le> delay k \<and> delay k \<le> late"
    and now: "s0 + int (Suc n) * c + late < now" "now \<le> s0 + int (Suc (length del)) * c + late"
  shows "\<exists>t \<in> set (ping_arrivals s0 c delay del). t < now \<and> now \<le> t + int (Suc n) * c + late"
proof -
  define a where "a = now - late - int (Suc n) * c - s0"
  define q where "q = (a - 1) div c"
  define m where "m = (a - 1) mod c"
  have "0 < a" using now(1) by (simp add: a_def)
  then have "0 \<le> q" using c by (simp add: q_def pos_imp_zdiv_nonneg_iff)
  then obtain k where "q = int k" by (rule nonneg_int_cases)
  moreover have "q * c + m = a - 1" "0 \<le> m" "m < c" using c by (simp_all add: q_def m_def)
  ultimately have k: "int k * c < a" "a \<le> int (Suc k) * c" by (simp_all add: distrib_right)
  have "int (k + Suc n) * c < int (Suc (length del)) * c"
    using k(1) now(2) by (simp add: a_def distrib_right algebra_simps)
  then have "int (k + Suc n) < int (Suc (length del))" using c by (simp only: mult_less_cancel_right_pos)
  then have "k + n < length del" by simp
  with lost obtain j where j: "j \<le> n" "del ! (k + j)" unfolding lost_at_most_def by blast
  let ?t = "s0 + int (Suc (k + j)) * c + delay (k + j)"
  have "?t \<in> set (ping_arrivals s0 c delay del)"
    unfolding set_ping_arrivals using j \<open>k + n < length del\<close> by (intro exI [of _ "k + j"]) simp
  have "int j * c \<le> int n * c" "0 \<le> int j * c" using j(1) c by simp_all
  moreover have "int (Suc (k + j)) * c = int k * c + int j * c + c" "int (Suc n) * c = int n * c + c" "int (Suc k) * c = int k * c + c"
    by (simp_all add: algebra_simps)
  ultimately have "?t < now" "now \<le> ?t + int (Suc n) * c + late"
    using k [unfolded a_def] delay [of "k + j"] by linarith+
  with \<open>?t \<in> _\<close> show ?thesis by blast
qed

section \<open>Pings and ticks in the order of time\<close>

definition event_times :: "mon_event list \<Rightarrow> time list" where
  "event_times evs = concat (map (\<lambda>ev. case ev of Ping t \<Rightarrow> [t] | WatchdogTick t \<Rightarrow> [t] | _ \<Rightarrow> []) evs)"

lemma event_times_simps [simp]:
  "event_times [] = []" "event_times (Ping t # evs) = t # event_times evs" "event_times (WatchdogTick t # evs) = t # event_times evs"
  "event_times (CtxDone b # evs) = event_times evs" "event_times (ProcExit # evs) = event_times evs"
  "event_times (HealthTick resp # evs) = event_times evs" "event_times (evs @ evs') = event_times evs @ event_times evs'"
  by (simp_all add: event_times_def)

lemma last_ping_latest:
  "sorted (event_times pre) \<Longrightarrow> \<forall>t \<in> set (event_times pre). s \<le> t \<Longrightarrow> s \<le> last_ping s pre \<and> (Ping t \<in> set pre \<longrightarrow> t \<le> last_ping s pre)"
proof (induction s pre rule: last_ping.induct)
  case (2 s now pre)
  then have "now \<le> last_ping now pre \<and> (Ping t \<in> set pre \<longrightarrow> t \<le> last_ping now pre)" by auto
  with 2(3) show ?case by auto
qed auto

lemma Ping_time: "Ping t \<in> set evs \<Longrightarrow> t \<in> set (event_times evs)"
  by (force simp: event_times_def)

text \<open>
  C18: The watchdog does not end a module whose pings come in time. Core asks for a cadence by its interval, the ping loop of the
  SDK runs at it, ticks are lost when the stream does not open or a send fails, and the pings sent arrive with delays. If at most
  \<open>n\<close> ticks in a row are lost, no ping is delayed by more than \<open>late\<close>, and \<open>n + 1\<close> cadences, that
  delay and the time by which the loop started after the watchdog was armed fit into two intervals, then the monitor ends exactly as it
  would without a watchdog, whatever the health polls and the process do and wherever its own ticks fall in between. With
  core's ten seconds and no lost ping this leaves ten seconds for the delay and the start.
\<close>

theorem pinging_module_left_alone:
  assumes "0 < interval" "watchdogInterval ss = interval" "interval < 2 ^ 32 * second"
    and "irWatchdogSeconds req = watchdog_seconds interval" "ping_cadence md req = Some c"
    and "del = deliveries answers new_watchdog" "lost_at_most n del" "\<And>k. 0 \<le> delay k \<and> delay k \<le> late"
    and fits: "max 0 (s0 - s) + int (Suc n) * c + late \<le> 2 * interval"
    and "rnKeepalive r = s" "sorted (event_times evs)" "\<And>t. t \<in> set (event_times evs) \<Longrightarrow> s \<le> t"
    and "\<And>t. t \<in> set (ping_arrivals s0 c delay del) \<Longrightarrow> s \<le> t \<Longrightarrow> (\<exists>now. WatchdogTick now \<in> set evs \<and> t < now) \<Longrightarrow> Ping t \<in> set evs"
    and "\<And>now. WatchdogTick now \<in> set evs \<Longrightarrow> now \<le> s0 + int (Suc (length del)) * c + late"
  shows "monitor_loop ss strikes evs r = monitor_loop ss strikes (filter (\<lambda>ev. \<not> is_wd_tick ev) evs) r"
proof (rule monitor_ignores_ticks, goal_cases)
  case (1 pre now post)
  have c: "0 < c" "c \<le> interval"
    using cadence_agreement [of interval req md] assms(1,3,4,5) by (simp_all add: second_def)
  have sorted_pre: "sorted (event_times pre)" "\<forall>t \<in> set (event_times pre). s \<le> t" "\<forall>t \<in> set (event_times post). now \<le> t"
    using assms(11,12) by (auto simp: 1 sorted_append)
  note latest = last_ping_latest [OF sorted_pre(1,2)]
  have "now \<le> last_ping s pre + 2 * interval"
  proof (cases "now \<le> s + 2 * interval")
    case True
    with latest show ?thesis by (smt (verit))
  next
    case False
    with fits have "s0 + int (Suc n) * c + late < now" by (simp add: max_def split: if_splits)
    moreover have "now \<le> s0 + int (Suc (length del)) * c + late" using assms(14) by (simp add: 1)
    ultimately obtain t where t: "t \<in> set (ping_arrivals s0 c delay del)" "t < now" "now \<le> t + int (Suc n) * c + late"
      using ping_arrived [where delay = delay, OF c(1) assms(7,8)] by blast
    have "int (Suc n) * c + late \<le> 2 * interval" using fits by linarith
    with t(3) have near: "now \<le> t + 2 * interval" by linarith
    with False have "s \<le> t" by linarith
    then have "Ping t \<in> set evs" using assms(13) [OF t(1)] t(2) by (auto simp: 1)
    moreover have "Ping t \<notin> set post" using Ping_time [of t post] sorted_pre(3) t(2) by fastforce
    ultimately have "Ping t \<in> set pre" by (simp add: 1)
    with latest [of t] near show ?thesis by simp
  qed
  then show ?case by (simp add: assms(2,10))
qed

text \<open>
  Applied to core's ten seconds, a loop that starts a second after the watchdog was armed, and pings that are up to
  nine seconds late: the monitor ticks right before the first and right before the third ping.
\<close>

definition ex_wd_delay :: "nat \<Rightarrow> duration" where
  "ex_wd_delay k = (if k = 1 then 2 * second else 9 * second)"

definition ex_wd_events :: "mon_event list" where
  "ex_wd_events = [WatchdogTick (20 * second), Ping (20 * second), Ping (23 * second), HealthTick None, WatchdogTick (40 * second), Ping (40 * second), ProcExit]"

definition ex_wd_sup :: sup_settings where
  "ex_wd_sup = ex_sup\<lparr>ssLaunch := ex_settings\<lparr>stWatchdogInterval := 10 * second\<rparr>\<rparr>"

definition ex_wd_runner :: runner where
  "ex_wd_runner = new_runner ex_spec 0"

theorem pinging_module_left_alone_witness:
  "monitor_loop ex_wd_sup 0 ex_wd_events ex_wd_runner
    = monitor_loop ex_wd_sup 0 [Ping (20 * second), Ping (23 * second), HealthTick None, Ping (40 * second), ProcExit] ex_wd_runner"
proof -
  let ?del = "deliveries [(True, True), (True, True), (True, True)] new_watchdog"
  have del: "?del = [True, True, True]" by code_simp
  have pings: "ping_arrivals second (10 * second) ex_wd_delay [True, True, True] = [20 * second, 23 * second, 40 * second]" by code_simp
  have "monitor_loop ex_wd_sup 0 ex_wd_events ex_wd_runner
      = monitor_loop ex_wd_sup 0 (filter (\<lambda>ev. \<not> is_wd_tick ev) ex_wd_events) ex_wd_runner"
  proof (rule pinging_module_left_alone [where interval = "10 * second" and req = ex_ping_request and md = ex_sdk_module
        and c = "10 * second" and del = ?del and s = 0 and ?s0.0 = second and delay = ex_wd_delay and late = "9 * second" and n = 0,
        OF _ _ _ _ _ refl])
    show "ping_cadence ex_sdk_module ex_ping_request = Some (10 * second)"
      by (simp add: ping_cadence_seconds ex_ping_request_def watchdog_seconds_def second_def)
    show "lost_at_most 0 ?del" unfolding del by (auto simp: lost_at_most_def less_Suc_eq)
    show "Ping t \<in> set ex_wd_events" if "t \<in> set (ping_arrivals second (10 * second) ex_wd_delay ?del)" for t
      using that by (auto simp: del pings ex_wd_events_def)
  qed (auto simp: del ex_wd_sup_def ex_wd_events_def ex_wd_runner_def new_runner_def ex_ping_request_def watchdogInterval_def second_def ex_wd_delay_def)
  then show ?thesis by (simp add: ex_wd_events_def is_wd_tick_def)
qed

lemma hung_loop_ends:
  assumes "0 < watchdogInterval ss" "\<And>t. Ping t \<notin> set evs" "WatchdogTick now \<in> set evs" "now - rnKeepalive r > 2 * watchdogInterval ss"
  shows "\<exists>b r' tr. monitor_loop ss strikes evs r = (Some b, r', tr)"
  using assms
proof (induction ss strikes evs r rule: monitor_loop.induct)
  case (4 ss strikes resp evs r)
  obtain restart strikes' r' where p: "pollHealth ss resp strikes r = (restart, strikes', r')" by (metis prod_cases3)
  have "rnKeepalive r' = rnKeepalive r" using p by (auto simp: pollHealth_def Let_def split: option.splits)
  with 4(1) [OF p [symmetric] refl] 4(2-) show ?case by (cases restart) (auto simp: p)
qed auto

text \<open>
  A module that stops pinging is ended: whatever else happens, the monitor does not outlive its first tick that is more than two intervals after the last ping, which
  with a tick in every interval is within three.
\<close>

theorem hung_module_ended:
  assumes "0 < watchdogInterval ss" "\<And>t. Ping t \<notin> set evs" "rnKeepalive r = s"
    and "WatchdogTick (s + 3 * watchdogInterval ss) \<in> set evs"
  shows "\<exists>b r' tr. monitor_loop ss strikes evs r = (Some b, r', tr)"
  by (rule hung_loop_ends [OF assms(1,2,4)]) (use assms(1,3) in simp)

text \<open>Applied to the third tick of a module that has never pinged.\<close>

theorem hung_module_ended_witness:
  "\<exists>b r' tr. monitor_loop ex_wd_sup 0 [WatchdogTick (10 * second), WatchdogTick (20 * second), WatchdogTick (30 * second)] ex_wd_runner = (Some b, r', tr)"
  by (rule hung_module_ended [of _ _ _ 0])
    (simp_all add: ex_wd_sup_def watchdogInterval_def second_def ex_wd_runner_def new_runner_def)

text \<open>
  An interval below a second is kept by core and not told to the module, which then never pings and is ended
  at the deadline although it is well.
\<close>

theorem subsecond_interval_kills:
  "ping_cadence md (ex_ping_request\<lparr>irWatchdogSeconds := watchdog_seconds 500000000\<rparr>) = None
   \<and> fst (monitor_loop (ex_sup\<lparr>ssLaunch := ex_settings\<lparr>stWatchdogInterval := 500000000\<rparr>\<rparr>) 0
        [HealthTick (Some \<lparr>hStatus = StatusHealthy, hReason = []\<rparr>), WatchdogTick 1500000000] ex_wd_runner) = Some False"
  by (simp add: ping_cadence_seconds watchdog_seconds_def second_def watchdogInterval_def ex_wd_runner_def new_runner_def pollHealth_def
      healthStrikes_def ex_sup_def)

end
