(* ===== verification/Spec2Isabelle.thy ===== *)
theory Spec2Isabelle
  imports Lifecycle_Install Weavemanifest Sysinfo Testkit Aptrepo Commands Gateweave Ipc Spawn_Windows Client_Streams
    Guest_Modules Core_Serve Watchdog
begin

text \<open>
  A verification of the Weave platform agent: the core of the agent, its boot supervisor, the SDK its
  modules are built with, and the tools around them, all of them Go code under \<open>src/\<close>.

  \<^bold>\<open>The program.\<close> \<open>weaveboot\<close> keeps versioned installs of the core on disk, starts the current one, promotes a
  staged one and goes back when the new one crashes in a loop. The core (\<open>weave-agent\<close>) discovers the
  installed modules, verifies their binaries and starts each as a process of its own. A module announces
  itself with one handshake line on its standard output; from then on core and module speak over local
  sockets: core calls the lifecycle service of the module, and the module calls the host services of core
  (store, events, policy, identity, transport, health, logs), each behind a token of that launch. The
  supervisor restarts what crashes, within limits. The lifecycle manager installs new versions from a
  channel manifest that a release key signed and a root key endorsed. Policy, identity and transport link
  the device to its server, and a hypervisor channel links a virtual machine to its host. An operator
  speaks to core through the control socket.

  \<^bold>\<open>The theories, by component.\<close>
  \<^item> Shared: \<open>Weave_Prelude\<close> (types, Go's string functions, lists and options), \<open>Weave_Decimal\<close> (numerals of
    \<open>strconv\<close> and \<open>fmt\<close>), \<open>Effects\<close> (the error-state monad with weakest preconditions and preserved
    predicates), \<open>FileSystem\<close> (paths, trees, the calls of \<open>os\<close> that the sources use, each of which may fail).
  \<^item> The boot: \<open>Weaveboot\<close> (\<open>src/internal/weaveboot\<close>).
  \<^item> Manifests: \<open>Manifest\<close> (\<open>src/sdk/manifest\<close>), \<open>Manifest_Verify\<close> (its signature formats, and
    \<open>src/internal/manifestverify\<close>), \<open>Weavemanifest\<close> (the signing tool \<open>src/cmd/weavemanifest\<close>).
  \<^item> Starting modules: \<open>Handshake\<close> (\<open>src/sdk/handshake\<close>), \<open>Ipc\<close> (\<open>src/sdk/ipc\<close>), \<open>Launch\<close>
    (\<open>src/internal/supervise/launch.go\<close> with the credentials of \<open>spawn_unix.go\<close>), \<open>Spawn_Unix\<close> and \<open>Spawn_Windows\<close> (the processes
    of \<open>spawn_unix.go\<close> and \<open>spawn_windows.go\<close> there), \<open>Supervise\<close> (\<open>src/internal/supervise/supervisor.go\<close>, \<open>status.go\<close>), \<open>Verify\<close>
    (\<open>src/internal/verify\<close>), \<open>Retry\<close> (\<open>src/sdk/retry\<close>), \<open>Host_Facts\<close> (\<open>src/sdk/platform\<close>,
    \<open>src/internal/capability\<close>), \<open>Watchdog\<close> (the pings of the SDK and the deadline of the supervisor together).
  \<^item> Installing modules: \<open>Lifecycle\<close> and \<open>Lifecycle_Install\<close> (\<open>src/internal/lifecycle\<close>; the operations, and what
    installs guarantee).
  \<^item> Services of core: \<open>Store\<close> (\<open>src/internal/store\<close> and the in-memory store of \<open>src/internal/hostserv\<close>),
    \<open>Keyprotect\<close> (\<open>src/internal/store/keyprotect\<close> and the opening of the store),
    \<open>Transport\<close> (\<open>src/internal/transport/transport.go\<close>), \<open>Hvchannel\<close> (\<open>src/sdk/hvchannel\<close> and the hypervisor
    peer of \<open>src/internal/transport\<close>), \<open>Policy\<close> (\<open>src/internal/policy\<close>), \<open>Event_Bus\<close> (\<open>src/internal/eventbus\<close>),
    \<open>Hostserv\<close> (\<open>src/internal/hostserv\<close>), \<open>Identity\<close> (\<open>src/internal/identity\<close>), \<open>Control\<close>
    (\<open>src/internal/controlsock\<close>).
  \<^item> Assembly: \<open>Core\<close> (\<open>src/internal/layout\<close>, the modules and the marker of \<open>src/internal/core\<close>), \<open>Core_Run\<close>
    (its \<open>Run\<close> up to the modules), \<open>Core_Serve\<close> (the control socket served, and \<open>Run\<close> to its end under weaveboot), \<open>Commands\<close> (\<open>src/cmd/weave-agent\<close>,
    \<open>src/cmd/weaveboot\<close>, \<open>src/cmd/weavectl\<close>).
  \<^item> The side of a module: \<open>Hostclient\<close>, \<open>Client_Streams\<close> and \<open>Module_Server\<close> (\<open>src/sdk/modulesdk\<close>), \<open>Testkit\<close>
    (\<open>src/sdk/modulesdk/testkit\<close>), \<open>Sysinfo\<close> (the module \<open>src/modules/sysinfo\<close>),
    \<open>Guest_Modules\<close> (the interface \<open>Module\<close>, with this module and the three that the tests run as its instances).
  \<^item> The server: \<open>Gateweave\<close> (\<open>src/test/stubgateweave\<close>), with enrolment, policy and messages of the agent
    run against it.
  \<^item> Packaging: \<open>Aptrepo\<close> (\<open>src/packaging/apt/aptrepo\<close>).

  \<^bold>\<open>How code becomes definitions.\<close> A struct is a record, with a prefix on its fields; a set of constants or a
  family of errors is a datatype; a function keeps its name. Code that touches the disk runs in the
  monad of \<open>Effects\<close> over the record \<open>disk\<close>, and returns \<open>Inl\<close> of its error or \<open>Inr\<close> of its result, so
  that every early return is a branch. Code whose effects are on processes and connections (\<open>Launch\<close>,
  \<open>Supervise\<close>, the stub of \<open>Testkit\<close>) returns the trace of its actions; the parts of a launch that are of one platform run over the
  processes themselves, with handles and jobs on Windows. Goroutines that share state
  (policy watches, receive streams, the hypervisor connection, the registry, fetches of the channel) are step relations or lists of
  events, and their theorems hold for every interleaving that they do not exclude by a stated condition. Durations, sequence numbers and counters
  are words of 64 bits where the code can reach their limit (sysinfo's interval, channel sequences); elsewhere
  they are \<open>nat\<close> or \<open>int\<close>. The floats of the backoff are rationals, rounded at every product as \<open>float64\<close>
  rounds. Strings and byte slices are both lists of bytes.

  \<^bold>\<open>Interfaces.\<close> \<open>store_backend\<close> (\<open>Store\<close>) holds the laws of Go's interface \<open>StoreBackend\<close>: what a get returns
  after a put, a delete and an operation in another namespace, and that an invariant is kept;
  \<open>reliable_backend\<close> adds that operations succeed. They are interpreted on the in-memory store, and
  \<open>store_backend\<close> again on the client a module holds, whose calls pass the token gate and the server; the encrypted
  store satisfies the laws of both for every cipher and database that keep theirs, of the second when the database answers and nonces can be drawn. \<open>protector\<close> (\<open>Keyprotect\<close>) is Go's
  interface of that name, interpreted on the one of unix; the one of Windows satisfies it for every DPAPI that
  keeps its promise. \<open>policy_backend\<close> (\<open>Policy\<close>) holds
  the laws a watch stream relies on, and is interpreted on the policy manager and on the in-memory policy. \<open>containment\<close>
  (\<open>Spawn_Unix\<close>) holds what spawning, killing and the death of core do to the processes of modules, and is interpreted on Linux and on Windows, from
  which no module outlives core on either. \<open>guest\<close> (\<open>Guest_Modules\<close>) says that a module changes its host only within its reach, and is interpreted on
  all modules of the repository.

  \<^bold>\<open>What is shown.\<close>
  \<^item> Installs: what runs after a channel install is the artifact that the signed manifest names; a
    promotion or a rollback that fails, at any call of the disk, leaves both markers and the files of all versions but the promoted one in place; the
    sequences of manifests accepted by fetches that do not overlap never go down, and overlapping fetches can lower them (\<open>Lifecycle_Install\<close>, and the theorem of this theory).
  \<^item> Trust: only endorsed and signed bundles are accepted, domains of signatures are apart, the verifiers
    accept only what is signed or owned as they demand (the capabilities of a module up to an empty name), the agent with a channel runs only
    under the root key it was given, enrolment takes only assignments of the pinned
    server and completes with it, the hypervisor channel opens only to the trusted key.
  \<^item> Processes: a launch and a run loop leave no process, server or connection behind; crash loops
    are stopped; on Windows a module is in a job that ends with core, and no handle leaks; on Linux no
    module outlives core, and privilege is dropped or nothing runs; the watchdog leaves a module alone whose pings come in time, losses and delays included, and ends one that does not ping; the monitor restarts exactly on streaks of bad polls; the registry keeps its invariant under
    every operation, control calls included.
  \<^item> Isolation: no call of a module reaches the namespace of another, one without the token has no effect at all, and what
    subscriptions see is exactly the allow-list, widened by a last star that follows another; of the users the kernel names only root and the user of core
    change anything through the control socket.
  \<^item> Delivery: the offline queue refines a bounded list, the bus numbers and bounds its feeds, a policy
    watch loses no update, frames are read back in order.
  \<^item> Storage: values are read back, sealed values open only in their place, key files and markers are
    whole or absent; a store is opened again with what it held, whatever the new start draws at random, but not on another Windows machine, and through it the
    identity of the device survives a restart of core.
  \<^item> The SDK: handshake lines are read back, core and SDK agree on them on unix and on Windows, a module is called within
    its lifecycle contract, no job is left when it ends in order, the partitioned store reads its writes, a report of \<open>sysinfo\<close> is stored, published and sent or queued, the test kit stands in for core.
  \<^item> Tools: what \<open>weavemanifest\<close> signs verifies with it and with core; a repository \<open>aptrepo\<close> built passes
    its check.

  \<^bold>\<open>Parameters.\<close> Code outside the repository is an argument of the definitions: ed25519, SHA-256, base64,
  AES-GCM, JSON, bbolt, HTTP, gzip, tar and gpg, the answers of the operating system, and the random source.
  Laws that a theorem needs of them (a signature verifies with its key, a decoder inverts its encoder, a
  sealed value opens with its associated data) are hypotheses of that theorem, and its witness
  gives functions with these laws.

  \<^bold>\<open>Bounds and fuel.\<close> The disk counts its calls and carries a function that says which of them fail, and
  how much of its effect a failing call has, so a theorem about every disk covers a fault at every call. Loops that run until the process ends (the boot loop, the run loop of a
  runner, polls, jobs) consume a list of what their environment does, one element per round; a theorem about all
  lists covers every finite prefix of the run. No recursion of the model stops for want of fuel: every
  function terminates by its structure or a measure, and where a helper counts rounds its count is the
  length of its input, of which every round takes at least one element.

  \<^bold>\<open>Simplified.\<close> \<open>StopModule\<close> is one step, while the source waits for the runner after it has taken it out of the registry; killing
  a process of one's own that is not in a job yet succeeds.

  \<^bold>\<open>Not modelled.\<close> The generated gRPC code and gRPC's own behaviour; the named pipes of Windows, which a library
  makes; the reading of bytes from the hypervisor device by the kernel; the wait for goroutines at the end of core; flag parsing, the text of logs and of printed tables.
\<close>

section \<open>From the channel to the next start\<close>

text \<open>
  C1: What is installed from the channel is what the next start runs. When a channel install of a
  module succeeds, then on a later start, with the tree as the install left it and an operating
  system that answers, module discovery gives a specification whose manifest is the one of the
  signed entry for this host and whose binary has the digest that a channel manifest verified
  against the root key lists for this host. The JSON printer and parser are assumed to be inverse,
  and the directories of the modules to be there.
\<close>

theorem installed_version_boots:
  assumes run: "run_state (Install e io m v) w = (Inr ver, w')"
    and apart: "unrelated (leModulesDir e) (leStagingDir e)" and ok: "install_tree_ok e m (tree w)"
    and json: "\<And>mf raw. leEncode e mf = Some raw \<Longrightarrow> leDecode e raw = Inr mf"
    and later: "tree d = tree w'" "quiet d" "is_dir (tree d) (leModulesDir e)" "is_dir (tree d) (leModulesDir e @ [m])"
    and boot: "run_state (discoverModules (leGOOS e) (leDecode e) (leModulesDir e)) d = (Inr specs, d')"
  shows "\<exists>rootPub sb ch cm art b. leRootPub e = Some rootPub \<and> Verify_bundle (leCrypto e) rootPub sb = Inr ch
    \<and> Module ch m = Some cm \<and> cmVersion cm = ver
    \<and> ArtifactForHost (leGOOS e) (leGOARCH e) (cmArtifacts cm) = Some art
    \<and> ''sha256:'' @ hex_encode (leSHA256 e b) = caDigest art
    \<and> (\<exists>sp \<in> set specs. spManifest sp = host_manifest e cm \<and> SupportsHost (spManifest sp) (leGOOS e) (leGOARCH e)
         \<and> lookup (tree d') (spBinPath sp) = Some (File b))"
proof -
  from Install_correct [OF run apart ok] obtain rootPub sb ch cm art b where
      root: "leRootPub e = Some rootPub" "Verify_bundle (leCrypto e) rootPub sb = Inr ch"
        "Module ch m = Some cm" "cmVersion cm = ver" "ArtifactForHost (leGOOS e) (leGOARCH e) (cmArtifacts cm) = Some art"
        "''sha256:'' @ hex_encode (leSHA256 e b) = caDigest art"
    and valid: "Validate (host_manifest e cm) = Inr ()" and inst: "installed e (host_manifest e cm) b w w'"
    by blast
  let ?mf = "host_manifest e cm" and ?dir = "leModulesDir e @ [m, ''versions'', ver]"
  let ?c = "binaryName (leGOOS e) m"
  have m: "cmID cm = m" using root(3) by (auto simp: Module_def find_Some_iff)
  have names: "idRe m" "versionRe ver" using Validate_names [OF valid] m root(4) by auto
  have paths: "versionDir e (mfID ?mf) (mfVersion ?mf) = ?dir" "currentFile e (mfID ?mf) = leModulesDir e @ [m, ''current'']"
    using names m root(4) by (simp_all add: module_path_plain versionRe_plain)
  from inst obtain raw where files: "lookup (tree d) (?dir @ [?c]) = Some (File b)" "leEncode e ?mf = Some raw"
      "lookup (tree d) (?dir @ [manifestFile]) = Some (File raw)" "marker_val (tree d) (leModulesDir e @ [m, ''current'']) = ver"
    unfolding installed_def paths later(1) using m root(4) by auto
  then obtain cur where cur: "lookup (tree d) (leModulesDir e @ [m, ''current'']) = Some (File cur)" "TrimSpace cur = ver"
    using names(2) versionRe_plain [of ver] by (auto simp: marker_val_def plain_name_def split: option.splits node.splits)
  have parse: "Parse_manifest (leDecode e) raw = Inr ?mf"
    using json [OF files(2)] valid by (simp add: Parse_manifest_def)
  have cands: "binaryCandidates (leGOOS e) (mfID ?mf) = ?c # [if leGOOS e = ''windows'' then ''module.exe'' else ''module'']"
    using m by (simp add: binaryCandidates_def binaryName_def)
  have bin: "plain_name ?c" using idRe_plain [OF names(1)] by (auto simp: binaryName_def plain_name_def append_eq_Cons_conv)
  obtain sp where sp: "sp \<in> set specs" "spManifest sp = ?mf" "spBinPath sp = leModulesDir e @ [m, ''versions'', ver, ?c]"
    using discoverModules_current [OF later(2-4) idRe_plain [OF names(1)] versionRe_plain [OF names(2)] bin cands cur _ parse _ boot] files
    by fastforce
  have "tree d' = tree d"
    using wpD [OF keeps_wp [OF keeps_discoverModules [of "tree d"]] boot] later(2) by simp
  then have "lookup (tree d') (spBinPath sp) = Some (File b)" using files(1) sp(3) by simp
  moreover have "SupportsHost ?mf (leGOOS e) (leGOARCH e)"
    by (simp add: SupportsHost_def host_manifest_def ModuleManifest_def)
  ultimately show ?thesis using root sp(1,2) by metis
qed

definition ex_boot_env :: "mem_store lc_env" where
  "ex_boot_env = (let mf = host_manifest ex_lc_env ex_host_module
     in ex_lc_env\<lparr>leEncode := (\<lambda>m. if m = mf then Some ''mf'' else None), leDecode := (\<lambda>_. Inr mf)\<rparr>)"

definition ex_restart :: "mem_store lc_world \<Rightarrow> disk" where
  "ex_restart w = \<lparr>tree = tree w, calls = 0, fault = (\<lambda>_. None)\<rparr>"

text \<open>Applied to the install of a release candidate over version 1.0.0.\<close>

theorem installed_version_boots_witness:
  "\<exists>w' specs d'. run_state (Install ex_boot_env ex_net ''sysinfo'' []) ex_world = (Inr ''1.2.3-rc.1'', w')
     \<and> run_state (discoverModules ''linux'' (leDecode ex_boot_env) [''modules'']) (ex_restart w') = (Inr specs, d')
     \<and> (\<exists>sp \<in> set specs. mfVersion (spManifest sp) = ''1.2.3-rc.1'' \<and> lookup (tree d') (spBinPath sp) \<noteq> None)"
proof -
  let ?e = ex_boot_env
  let ?run = "run_state (Install ?e ex_net ''sysinfo'' []) ex_world"
  let ?d = "ex_restart (snd ?run)"
  let ?boot = "run_state (discoverModules (leGOOS ?e) (leDecode ?e) (leModulesDir ?e)) ?d"
  have "fst ?run = Inr ''1.2.3-rc.1''" by code_simp
  then have run: "?run = (Inr ''1.2.3-rc.1'', snd ?run)" by (simp add: prod_eq_iff)
  have "is_ok (fst ?boot)" by code_simp
  then obtain specs where boot: "?boot = (Inr specs, snd ?boot)" by (cases ?boot; cases "fst ?boot") auto
  have same: "leModulesDir ?e = [''modules'']" "leGOOS ?e = ''linux''" "leStagingDir ?e = leStagingDir ex_lc_env"
    by (simp_all add: ex_boot_env_def ex_lc_env_def Let_def)
  have apart: "unrelated (leModulesDir ?e) (leStagingDir ?e)" by (simp add: unrelated_def same ex_lc_env_def)
  have "marker_val (tree ex_world) (currentFile ?e ''sysinfo'') = ''1.0.0''" "versionRe ''1.0.0''" by code_simp+
  then have ok: "install_tree_ok ?e ''sysinfo'' (tree ex_world)"
    by (simp add: install_tree_ok_def plain_versions_def own_manifest_def ex_world_def same manifestFile_def split: option.splits node.splits)
  have json: "leDecode ?e raw = Inr mf" if "leEncode ?e mf = Some raw" for mf raw
    using that by (simp add: ex_boot_env_def Let_def split: if_splits)
  have quiet: "tree ?d = tree (snd ?run)" "quiet ?d" by (simp_all add: ex_restart_def quiet_def)
  have "is_dir (tree (snd ?run)) (leModulesDir ?e)" "is_dir (tree (snd ?run)) (leModulesDir ?e @ [''sysinfo''])" by code_simp+
  then have dirs: "is_dir (tree ?d) (leModulesDir ?e)" "is_dir (tree ?d) (leModulesDir ?e @ [''sysinfo''])" by (simp_all add: quiet(1))
  from installed_version_boots [OF run apart ok json quiet dirs boot] obtain cm sp b where
    "cmVersion cm = ''1.2.3-rc.1''" "sp \<in> set specs" "spManifest sp = host_manifest ?e cm" "lookup (tree (snd ?boot)) (spBinPath sp) = Some (File b)"
    by blast
  then have "\<exists>sp \<in> set specs. mfVersion (spManifest sp) = ''1.2.3-rc.1'' \<and> lookup (tree (snd ?boot)) (spBinPath sp) \<noteq> None"
    by (intro bexI [of _ sp]) auto
  with run boot show ?thesis unfolding same by blast
qed

end
